(* ===== verification/Prelude.thy ===== *)
theory Prelude
  imports Main "HOL-Library.AList"
begin

text \<open>
  Shared vocabulary of the development: the part of the JavaScript language and standard library
  that the relayer, the shared orderbook and the SDK use.

  A JavaScript string is modelled as a HOL \<open>string\<close>, a list of character codes below 256; the
  protocol data that reaches this code (decimal field elements, hex addresses, hashes, status
  names, error texts) is ASCII.  \<open>js_BigInt\<close> is the conversion \<open>BigInt(s)\<close> on strings (None is
  the SyntaxError), \<open>bigint_toString\<close> and \<open>padStart\<close> are the methods of the same names, and
  \<open>js_round\<close> is \<open>Number(b)\<close> on a bigint: round to nearest, ties to even, on 53 bits.
\<close>

named_theorems js_simps \<open>evaluation rules for the modelled JavaScript library\<close>
named_theorems op_defs \<open>unfolding rules for the operations of a component\<close>

type_synonym ms = int        \<comment> \<open>Date.now(): epoch milliseconds\<close>
type_synonym seconds = int   \<comment> \<open>epoch seconds\<close>

section \<open>Characters\<close>

definition code :: "char \<Rightarrow> nat" where
  "code c = of_char c"

definition is_ws :: "char \<Rightarrow> bool" where
  "is_ws c \<longleftrightarrow> code c \<in> {9, 10, 11, 12, 13, 32, 160}"

definition digit_char :: "nat \<Rightarrow> char" where
  "digit_char d = (if d < 10 then char_of (48 + d) else char_of (87 + d))"

definition digit_val :: "char \<Rightarrow> nat" where
  "digit_val c = (let k = code c in
     if 48 \<le> k \<and> k \<le> 57 then k - 48
     else if 97 \<le> k \<and> k \<le> 122 then k - 87
     else if 65 \<le> k \<and> k \<le> 90 then k - 55
     else 99)"

definition lower_char :: "char \<Rightarrow> char" where
  "lower_char c = (let k = code c in if 65 \<le> k \<and> k \<le> 90 then char_of (k + 32) else c)"

definition toLowerCase :: "string \<Rightarrow> string" where
  "toLowerCase s = map lower_char s"

lemma code_char_of [js_simps]: "k < 256 \<Longrightarrow> code (char_of k) = k"
  by (simp add: code_def)

lemma digit_val_digit_char [js_simps]: "d < 16 \<Longrightarrow> digit_val (digit_char d) = d"
  by (auto simp: digit_val_def digit_char_def code_char_of)

lemma digit_char_not_ws [js_simps]: "d < 16 \<Longrightarrow> \<not> is_ws (digit_char d)"
  by (auto simp: is_ws_def digit_char_def code_char_of)

lemma code_digit_char: "d < 16 \<Longrightarrow> code (digit_char d) = (if d < 10 then 48 + d else 87 + d)"
  by (simp add: digit_char_def code_char_of)

lemma lower_char_idem [simp]: "lower_char (lower_char c) = lower_char c"
proof (cases "65 \<le> code c \<and> code c \<le> 90")
  case True
  then show ?thesis by (simp add: lower_char_def Let_def code_char_of)
next
  case False
  then show ?thesis by (auto simp: lower_char_def Let_def)
qed

lemma toLowerCase_idem [simp]: "toLowerCase (toLowerCase s) = toLowerCase s"
  by (simp add: toLowerCase_def comp_def)

lemma lower_digit_char [js_simps]: "d < 16 \<Longrightarrow> lower_char (digit_char d) = digit_char d"
  by (auto simp: lower_char_def code_digit_char Let_def)

section \<open>Lexicographic comparison of strings\<close>

text \<open>The operator \<open><\<close> on strings compares code units from the left.\<close>

fun str_less :: "string \<Rightarrow> string \<Rightarrow> bool" where
  "str_less _ [] = False"
| "str_less [] (_ # _) = True"
| "str_less (x # xs) (y # ys) = (code x < code y \<or> (code x = code y \<and> str_less xs ys))"

lemma code_inject [simp]: "code x = code y \<longleftrightarrow> x = y"
  by (simp add: code_def)

lemma str_less_irrefl [simp]: "\<not> str_less s s"
  by (induction s) auto

lemma str_less_trichotomy: "str_less s t \<or> s = t \<or> str_less t s"
proof (induction s t rule: str_less.induct)
  case (3 x xs y ys)
  then show ?case using linorder_less_linear [of "code x" "code y"] by auto
next
  case (1 u)
  then show ?case by (cases u) auto
qed auto

lemma str_less_asym: "str_less s t \<Longrightarrow> \<not> str_less t s"
  by (induction s t rule: str_less.induct) auto

section \<open>Substrings\<close>

fun is_prefix :: "string \<Rightarrow> string \<Rightarrow> bool" where
  "is_prefix [] _ = True"
| "is_prefix (_ # _) [] = False"
| "is_prefix (x # xs) (y # ys) = (x = y \<and> is_prefix xs ys)"

text \<open>\<open>hay.includes(needle)\<close>.\<close>

fun str_includes :: "string \<Rightarrow> string \<Rightarrow> bool" where
  "str_includes [] needle = (needle = [])"
| "str_includes (c # cs) needle = (is_prefix needle (c # cs) \<or> str_includes cs needle)"

lemma is_prefix_append: "is_prefix p s \<longleftrightarrow> (\<exists>t. s = p @ t)"
  by (induction p s rule: is_prefix.induct) auto

lemma str_includes_iff: "str_includes hay needle \<longleftrightarrow> (\<exists>a b. hay = a @ needle @ b)"
proof (induction hay)
  case Nil
  then show ?case by auto
next
  case (Cons c cs)
  have "(\<exists>a b. c # cs = a @ needle @ b) \<longleftrightarrow>
        (\<exists>b. c # cs = needle @ b) \<or> (\<exists>a b. cs = a @ needle @ b)"
    by (metis append_Cons append_Nil neq_Nil_conv list.inject)
  then show ?case using Cons by (simp add: is_prefix_append)
qed

section \<open>Numerals\<close>

fun to_radix :: "nat \<Rightarrow> nat \<Rightarrow> string" where
  "to_radix r n = (if n < r \<or> r < 2 then [digit_char n] else to_radix r (n div r) @ [digit_char (n mod r)])"

declare to_radix.simps [simp del]

text \<open>\<open>b.toString(radix)\<close> on a bigint.\<close>

definition bigint_toString :: "nat \<Rightarrow> int \<Rightarrow> string" where
  "bigint_toString r i = (if i < 0 then CHR ''-'' # to_radix r (nat (- i)) else to_radix r (nat i))"

abbreviation dec :: "int \<Rightarrow> string" where "dec \<equiv> bigint_toString 10"

definition padStart :: "nat \<Rightarrow> char \<Rightarrow> string \<Rightarrow> string" where
  "padStart n c s = replicate (n - length s) c @ s"

text \<open>Digits in a radix, most significant first; None on a character that is no digit.\<close>

fun digits_val :: "nat \<Rightarrow> nat \<Rightarrow> string \<Rightarrow> nat option" where
  "digits_val r acc [] = Some acc"
| "digits_val r acc (c # cs) =
     (if digit_val c < r then digits_val r (acc * r + digit_val c) cs else None)"

definition parse_digits :: "nat \<Rightarrow> string \<Rightarrow> int option" where
  "parse_digits r s = (if s = [] then None else map_option int (digits_val r 0 s))"

definition trim :: "string \<Rightarrow> string" where
  "trim s = rev (dropWhile is_ws (rev (dropWhile is_ws s)))"

definition strip_prefix2 :: "char \<Rightarrow> char \<Rightarrow> string \<Rightarrow> string option" where
  "strip_prefix2 a b s =
     (case s of x # y # rest \<Rightarrow> if x = CHR ''0'' \<and> (y = a \<or> y = b) then Some rest else None
              | _ \<Rightarrow> None)"

text \<open>
  \<open>BigInt(s)\<close>: surrounding white space is dropped, the empty string is 0, \<open>0x\<close>, \<open>0o\<close>, \<open>0b\<close>
  prefixes (either case) select a radix and take no sign, a decimal literal may carry one.
\<close>

definition js_BigInt :: "string \<Rightarrow> int option" where
  "js_BigInt s0 = (let s = trim s0 in
     if s = [] then Some 0 else
     case strip_prefix2 (CHR ''x'') (CHR ''X'') s of Some h \<Rightarrow> parse_digits 16 h | None \<Rightarrow>
     case strip_prefix2 (CHR ''o'') (CHR ''O'') s of Some h \<Rightarrow> parse_digits 8 h | None \<Rightarrow>
     case strip_prefix2 (CHR ''b'') (CHR ''B'') s of Some h \<Rightarrow> parse_digits 2 h | None \<Rightarrow>
     case s of
       c # cs \<Rightarrow> if c = CHR ''-'' then map_option uminus (parse_digits 10 cs)
                 else if c = CHR ''+'' then parse_digits 10 cs
                 else parse_digits 10 s
     | [] \<Rightarrow> Some 0)"

subsection \<open>Round trips\<close>

lemma to_radix_nonempty [simp]: "to_radix r n \<noteq> []"
  by (subst to_radix.simps) simp

lemma to_radix_digits: "2 \<le> r \<Longrightarrow> r \<le> 16 \<Longrightarrow> c \<in> set (to_radix r n) \<Longrightarrow> \<exists>d < r. c = digit_char d"
proof (induction r n rule: to_radix.induct)
  case (1 r n)
  show ?case
  proof (cases "n < r")
    case True
    then show ?thesis using "1.prems" by (auto simp: to_radix.simps [of r n])
  next
    case False
    then have "c \<in> set (to_radix r (n div r)) \<or> c = digit_char (n mod r)"
      using "1.prems" by (auto simp: to_radix.simps [of r n])
    then show ?thesis
    proof
      assume "c \<in> set (to_radix r (n div r))"
      then show ?thesis using "1.IH" False "1.prems" by simp
    next
      assume "c = digit_char (n mod r)"
      then show ?thesis using "1.prems" by (intro exI [of _ "n mod r"]) simp
    qed
  qed
qed

lemma digits_val_append:
  "digits_val r acc (xs @ ys) = Option.bind (digits_val r acc xs) (\<lambda>a. digits_val r a ys)"
  by (induction xs arbitrary: acc) auto

lemma digits_val_to_radix:
  "2 \<le> r \<Longrightarrow> r \<le> 16 \<Longrightarrow> digits_val r 0 (to_radix r n) = Some n"
proof (induction r n rule: to_radix.induct)
  case (1 r n)
  show ?case
  proof (cases "n < r")
    case True
    then show ?thesis using "1.prems" by (simp add: to_radix.simps [of r n] digit_val_digit_char)
  next
    case False
    then have "digits_val r 0 (to_radix r (n div r)) = Some (n div r)"
      using "1.IH" "1.prems" by simp
    moreover have "digit_val (digit_char (n mod r)) = n mod r"
    proof -
      have "n mod r < r" using "1.prems" by simp
      then show ?thesis using "1.prems" by (intro digit_val_digit_char) linarith
    qed
    ultimately show ?thesis using False "1.prems"
      by (simp add: to_radix.simps [of r n] digits_val_append)
  qed
qed

lemma digits_val_zeros: "0 < r \<Longrightarrow> digits_val r acc (replicate k (CHR ''0'') @ s) = digits_val r (acc * r ^ k) s"
proof (induction k arbitrary: acc)
  case (Suc k)
  have "digit_val (CHR ''0'') = 0" by (simp add: digit_val_def code_def)
  then show ?case using Suc by (simp add: mult.assoc)
qed simp

lemma trim_id: "(\<And>c. c \<in> set s \<Longrightarrow> \<not> is_ws c) \<Longrightarrow> trim s = s"
proof -
  assume a: "\<And>c. c \<in> set s \<Longrightarrow> \<not> is_ws c"
  have h: "dropWhile is_ws t = t" if "\<And>c. c \<in> set t \<Longrightarrow> \<not> is_ws c" for t
    using that by (cases t) auto
  show "trim s = s" unfolding trim_def using a h [of s] h [of "rev s"] by simp
qed

lemma not_ws_0x: "\<not> is_ws (CHR ''0'')" "\<not> is_ws (CHR ''x'')"
  by (simp_all add: is_ws_def code_def)

lemma js_BigInt_hex:
  assumes "\<And>c. c \<in> set h \<Longrightarrow> \<not> is_ws c"
  shows "js_BigInt (CHR ''0'' # CHR ''x'' # h) = parse_digits 16 h"
proof -
  have "trim (CHR ''0'' # CHR ''x'' # h) = CHR ''0'' # CHR ''x'' # h"
    using assms not_ws_0x by (intro trim_id) auto
  then show ?thesis by (simp add: js_BigInt_def strip_prefix2_def)
qed

lemma js_BigInt_padded_hex [js_simps]:
  "js_BigInt (CHR ''0'' # CHR ''x'' # padStart k (CHR ''0'') (to_radix 16 n)) = Some (int n)"
proof -
  have ws: "\<not> is_ws c" if "c \<in> set (padStart k (CHR ''0'') (to_radix 16 n))" for c
    using that to_radix_digits [of 16 c n] not_ws_0x digit_char_not_ws by (auto simp: padStart_def)
  have "parse_digits 16 (padStart k (CHR ''0'') (to_radix 16 n)) = Some (int n)"
    using digits_val_to_radix [of 16 n] by (simp add: parse_digits_def padStart_def digits_val_zeros)
  then show ?thesis using js_BigInt_hex [OF ws] by simp
qed

lemma js_BigInt_decimal:
  assumes ne: "s \<noteq> []" and d: "\<And>c. c \<in> set s \<Longrightarrow> \<exists>d<10. c = digit_char d"
  shows "js_BigInt s = parse_digits 10 s"
proof -
  have ws: "trim s = s"
    using d digit_char_not_ws by (intro trim_id) force
  have pre: "strip_prefix2 a b s = None" if "10 \<le> digit_val a" "10 \<le> digit_val b" for a b
  proof -
    have "y \<noteq> a \<and> y \<noteq> b" if "y \<in> set s" for y
      using d [OF that] \<open>10 \<le> digit_val a\<close> \<open>10 \<le> digit_val b\<close> digit_val_digit_char by fastforce
    then show ?thesis by (auto simp: strip_prefix2_def split: list.splits)
  qed
  obtain c cs where s: "s = c # cs" using ne by (cases s) auto
  obtain k where "k < 10" "c = digit_char k" using d s by auto
  then have "code c = 48 + k" by (simp add: code_digit_char)
  then have "c \<noteq> CHR ''-''" "c \<noteq> CHR ''+''" by (auto simp: code_def)
  then show ?thesis
    using ws s pre [of "CHR ''x''" "CHR ''X''"] pre [of "CHR ''o''" "CHR ''O''"]
      pre [of "CHR ''b''" "CHR ''B''"]
    by (simp add: js_BigInt_def digit_val_def code_def)
qed

lemma js_BigInt_dec [js_simps]: "0 \<le> i \<Longrightarrow> js_BigInt (dec i) = Some i"
proof -
  assume i: "0 \<le> i"
  have "js_BigInt (to_radix 10 (nat i)) = parse_digits 10 (to_radix 10 (nat i))"
    using to_radix_digits [of 10 _ "nat i"] by (intro js_BigInt_decimal) auto
  then show ?thesis using i digits_val_to_radix [of 10 "nat i"]
    by (simp add: bigint_toString_def parse_digits_def)
qed

lemma dec_inject: "0 \<le> i \<Longrightarrow> 0 \<le> j \<Longrightarrow> dec i = dec j \<Longrightarrow> i = j"
  using js_BigInt_dec by (metis option.inject)

lemma dec_eq_iff [simp]: "0 \<le> i \<Longrightarrow> 0 \<le> j \<Longrightarrow> dec i = dec j \<longleftrightarrow> i = j"
  using dec_inject by blast

lemma dec_digits: "0 \<le> i \<Longrightarrow> c \<in> set (dec i) \<Longrightarrow> \<exists>d<10. c = digit_char d"
  using to_radix_digits [of 10 c "nat i"] by (simp add: bigint_toString_def)

lemma dec_nonempty [simp]: "dec i \<noteq> []"
  by (simp add: bigint_toString_def)

text \<open>A leading zero changes the text of a decimal literal, not its value.\<close>

lemma js_BigInt_leading_zero: "0 \<le> i \<Longrightarrow> js_BigInt (CHR ''0'' # dec i) = Some i"
proof -
  assume i: "0 \<le> i"
  have "code (CHR ''0'') = code (digit_char 0)" unfolding code_digit_char [of 0, simplified] by (simp add: code_def)
  then have z: "CHR ''0'' = digit_char 0" by simp
  have "\<exists>d<10. c = digit_char d" if "c \<in> set (CHR ''0'' # dec i)" for c
    using that dec_digits [OF i] z by (metis set_ConsD zero_less_numeral)
  then have "js_BigInt (CHR ''0'' # dec i) = parse_digits 10 (CHR ''0'' # dec i)"
    by (intro js_BigInt_decimal) auto
  then show ?thesis using i digits_val_to_radix [of 10 "nat i"]
    by (simp add: parse_digits_def bigint_toString_def digit_val_def code_def)
qed

text \<open>Keys of the form \<open>a:b\<close> over decimal numerals.\<close>

lemma split_at_sep:
  "c \<notin> set a \<Longrightarrow> c \<notin> set a' \<Longrightarrow> a @ c # b = a' @ c # b' \<longleftrightarrow> a = a' \<and> b = b'"
proof (induction a arbitrary: a')
  case Nil
  then show ?case by (cases a') auto
next
  case (Cons x a)
  then show ?case by (cases a') auto
qed

lemma colon_not_digit: "0 \<le> i \<Longrightarrow> CHR '':'' \<notin> set (dec i)"
proof
  assume "0 \<le> i" "CHR '':'' \<in> set (dec i)"
  then obtain d where "d < 10" "CHR '':'' = digit_char d" using dec_digits by blast
  then have "code (CHR '':'') = 48 + d" by (simp add: code_digit_char)
  then show False using \<open>d < 10\<close> by (simp add: code_def)
qed

lemma colon_key_eq:
  "0 \<le> a \<Longrightarrow> 0 \<le> a' \<Longrightarrow> 0 \<le> b \<Longrightarrow> 0 \<le> b' \<Longrightarrow>
   dec a @ CHR '':'' # dec b = dec a' @ CHR '':'' # dec b' \<longleftrightarrow> a = a' \<and> b = b'"
  using colon_not_digit split_at_sep [of "CHR '':''" "dec a" "dec a'"] by auto

section \<open>Numbers\<close>

fun bitlen :: "nat \<Rightarrow> nat" where
  "bitlen n = (if n = 0 then 0 else Suc (bitlen (n div 2)))"

declare bitlen.simps [simp del]

text \<open>\<open>Number(b)\<close> for an integer below \<open>2 ^ 1024\<close>: nearest double, ties to even.\<close>

definition round_mag :: "nat \<Rightarrow> nat" where
  "round_mag a = (if a < 2 ^ 53 then a else
     let e = bitlen a - 53; q = a div 2 ^ e; r = a mod 2 ^ e; half = 2 ^ (e - 1);
         q' = (if half < r \<or> (r = half \<and> odd q) then Suc q else q)
     in q' * 2 ^ e)"

definition js_round :: "int \<Rightarrow> int" where
  "js_round i = sgn i * int (round_mag (nat \<bar>i\<bar>))"

lemma bitlen_lower: "0 < n \<Longrightarrow> 2 ^ (bitlen n - 1) \<le> n"
proof (induction n rule: bitlen.induct)
  case (1 n)
  show ?case
  proof (cases "n div 2 = 0")
    case True
    then have "n = 1" using 1 by (cases n) auto
    then show ?thesis by (simp add: bitlen.simps)
  next
    case False
    then have ih: "2 ^ (bitlen (n div 2) - 1) \<le> n div 2" using 1 by simp
    have "bitlen (n div 2) = Suc (bitlen (n div 2) - 1)"
      using False by (simp add: bitlen.simps [of "n div 2"])
    then have "bitlen n - 1 = Suc (bitlen (n div 2) - 1)"
      using 1 by (simp add: bitlen.simps [of n])
    then have "2 ^ (bitlen n - 1) = 2 * 2 ^ (bitlen (n div 2) - 1)" by simp
    also have "\<dots> \<le> 2 * (n div 2)" using ih by simp
    also have "\<dots> \<le> n" by simp
    finally show ?thesis .
  qed
qed

lemma bitlen_upper: "n < 2 ^ bitlen n"
proof (induction n rule: bitlen.induct)
  case (1 n)
  show ?case
  proof (cases "n = 0")
    case False
    then have "n div 2 < 2 ^ bitlen (n div 2)" using 1 by simp
    then show ?thesis using False by (simp add: bitlen.simps [of n])
  qed (simp add: bitlen.simps)
qed

lemma round_mag_big: "2 ^ 53 \<le> a \<Longrightarrow> 2 ^ 53 \<le> round_mag a"
proof -
  assume a: "2 ^ 53 \<le> a"
  define e where "e = bitlen a - 53"
  have "53 < bitlen a"
  proof (rule ccontr)
    assume "\<not> 53 < bitlen a"
    then have "(2::nat) ^ bitlen a \<le> 2 ^ 53" by (intro power_increasing) auto
    then show False using bitlen_upper [of a] a by linarith
  qed
  then have len: "bitlen a - 1 = 52 + e" "0 < e" by (auto simp: e_def)
  have "2 ^ (52 + e) \<le> a" using bitlen_lower [of a] a len(1) by simp
  then have "(2::nat) ^ 52 \<le> a div 2 ^ e"
    by (simp add: power_add less_eq_div_iff_mult_less_eq)
  then have "2 ^ 52 * 2 ^ e \<le> a div 2 ^ e * 2 ^ e" by simp
  moreover have "(2::nat) ^ 53 \<le> 2 ^ 52 * 2 ^ e" using len(2)
    by (cases e) auto
  ultimately have "2 ^ 53 \<le> a div 2 ^ e * 2 ^ e" by linarith
  then show ?thesis using a by (auto simp: round_mag_def e_def [symmetric] Let_def)
qed

lemma js_round_small [simp]: "\<bar>i\<bar> < 2 ^ 53 \<Longrightarrow> js_round i = i"
  by (auto simp: js_round_def round_mag_def nat_less_iff sgn_mult_abs)

text \<open>Rounding never moves a value across a bound that is itself a safe integer.\<close>

lemma js_round_le_iff: "0 \<le> n \<Longrightarrow> n < 2 ^ 53 \<Longrightarrow> js_round i \<le> n \<longleftrightarrow> i \<le> n"
proof (cases "\<bar>i\<bar> < 2 ^ 53")
  case True
  then show "js_round i \<le> n \<longleftrightarrow> i \<le> n" by simp
next
  case False
  assume n: "0 \<le> n" "n < 2 ^ 53"
  have big: "2 ^ 53 \<le> int (round_mag (nat \<bar>i\<bar>))"
    using round_mag_big [of "nat \<bar>i\<bar>"] False by (simp add: nat_le_iff le_nat_iff)
  show "js_round i \<le> n \<longleftrightarrow> i \<le> n"
  proof (cases "0 < i")
    case True
    then show ?thesis using big False n by (simp add: js_round_def)
  next
    case neg: False
    then have "i < 0" using False by auto
    then show ?thesis using big n by (simp add: js_round_def)
  qed
qed

section \<open>Options and lists\<close>

text \<open>\<open>BigInt\<close> of a property that may be absent: an absent value throws too.\<close>

definition big :: "string option \<Rightarrow> int option" where
  "big v = Option.bind v js_BigInt"

lemma big_simps [simp]: "big None = None" "big (Some s) = js_BigInt s"
  by (simp_all add: big_def)

text \<open>A JavaScript string is falsy exactly when it is absent or empty.\<close>

definition truthy :: "string option \<Rightarrow> bool" where
  "truthy v \<longleftrightarrow> (case v of None \<Rightarrow> False | Some s \<Rightarrow> s \<noteq> [])"

lemma truthy_simps [simp]: "truthy None = False" "truthy (Some s) \<longleftrightarrow> s \<noteq> []"
  by (simp_all add: truthy_def)

end
