(* ===== verification/JsMap.thy ===== *)
theory JsMap
  imports Prelude "HOL-Library.AList"
begin

text \<open>
  JavaScript \<open>Map\<close> and \<open>Set\<close>.  Both iterate in insertion order: \<open>set\<close> on a present key overwrites
  in place, on a new key appends; \<open>delete\<close> drops the entry.  A Map is an association list with
  distinct keys, a Set a distinct list.  The laws the code relies on are the locale \<open>ordered_map\<close>,
  interpreted below on the association lists.
\<close>

section \<open>Maps\<close>

type_synonym ('k, 'v) jmap = "('k \<times> 'v) list"

definition jget :: "('k, 'v) jmap \<Rightarrow> 'k \<Rightarrow> 'v option" where
  "jget m k = map_of m k"

definition jset :: "'k \<Rightarrow> 'v \<Rightarrow> ('k, 'v) jmap \<Rightarrow> ('k, 'v) jmap" where
  "jset k v m = AList.update k v m"

definition jdelete :: "'k \<Rightarrow> ('k, 'v) jmap \<Rightarrow> ('k, 'v) jmap" where
  "jdelete k m = AList.delete k m"

definition jhas :: "('k, 'v) jmap \<Rightarrow> 'k \<Rightarrow> bool" where
  "jhas m k = (map_of m k \<noteq> None)"

definition jkeys :: "('k, 'v) jmap \<Rightarrow> 'k list" where
  "jkeys m = map fst m"

definition jvalues :: "('k, 'v) jmap \<Rightarrow> 'v list" where
  "jvalues m = map snd m"

definition jsize :: "('k, 'v) jmap \<Rightarrow> nat" where
  "jsize m = length m"

definition jmap_ok :: "('k, 'v) jmap \<Rightarrow> bool" where
  "jmap_ok m = distinct (map fst m)"

text \<open>In-place mutation of the object stored under a key, if there is one.\<close>

definition jmodify :: "'k \<Rightarrow> ('v \<Rightarrow> 'v) \<Rightarrow> ('k, 'v) jmap \<Rightarrow> ('k, 'v) jmap" where
  "jmodify k f m = map (\<lambda>(k', v). (k', if k' = k then f v else v)) m"

lemma jget_Nil [simp]: "jget [] k = None"
  by (simp add: jget_def)

lemma jget_jset [simp]: "jget (jset k v m) k' = (if k' = k then Some v else jget m k')"
  by (simp add: jget_def jset_def update_conv')

lemma jget_jdelete [simp]: "jget (jdelete k m) k' = (if k' = k then None else jget m k')"
  by (simp add: jget_def jdelete_def delete_conv')

lemma jget_jmodify [simp]:
  "jget (jmodify k f m) k' = (if k' = k then map_option f (jget m k) else jget m k')"
  by (induction m) (auto simp: jget_def jmodify_def)

lemma jhas_jget: "jhas m k \<longleftrightarrow> jget m k \<noteq> None"
  by (simp add: jhas_def jget_def)

lemma jmap_ok_Nil [simp]: "jmap_ok []"
  by (simp add: jmap_ok_def)

lemma jmap_ok_jset [simp]: "jmap_ok m \<Longrightarrow> jmap_ok (jset k v m)"
  unfolding jmap_ok_def jset_def by (rule distinct_update)

lemma jmap_ok_jdelete [simp]: "jmap_ok m \<Longrightarrow> jmap_ok (jdelete k m)"
  unfolding jmap_ok_def jdelete_def by (rule distinct_delete)

lemma keys_jmodify [simp]: "map fst (jmodify k f m) = map fst m"
  by (induction m) (auto simp: jmodify_def)

lemma jmap_ok_jmodify [simp]: "jmap_ok (jmodify k f m) = jmap_ok m"
  by (simp add: jmap_ok_def)

lemma jsize_jmodify [simp]: "jsize (jmodify k f m) = jsize m"
  by (simp add: jsize_def jmodify_def)

lemma jsize_jset: "jsize (jset k v m) = (if jget m k = None then Suc (jsize m) else jsize m)"
  by (induction m) (auto simp: jsize_def jset_def jget_def)

lemma jget_in: "jget m k = Some v \<Longrightarrow> (k, v) \<in> set m"
  unfolding jget_def by (rule map_of_SomeD)

lemma in_jget: "jmap_ok m \<Longrightarrow> (k, v) \<in> set m \<longleftrightarrow> jget m k = Some v"
  by (simp add: jmap_ok_def jget_def)

lemma jget_None_keys: "jget m k = None \<longleftrightarrow> k \<notin> set (jkeys m)"
  by (simp add: jget_def jkeys_def map_of_eq_None_iff)

lemma jmodify_id: "jget m k = None \<Longrightarrow> jmodify k f m = m"
  by (induction m) (auto simp: jmodify_def jget_def split: if_splits)

lemma jset_new: "jget m k = None \<Longrightarrow> jset k v m = m @ [(k, v)]"
  by (induction m) (auto simp: jset_def jget_def split: if_splits)

lemma jdelete_filter: "jdelete k m = filter (\<lambda>p. fst p \<noteq> k) m"
  by (induction m) (auto simp: jdelete_def AList.delete_eq)

lemma jset_modify: "jmap_ok m \<Longrightarrow> jget m k = Some w \<Longrightarrow> jset k v m = jmodify k (\<lambda>_. v) m"
proof (induction m)
  case (Cons p m)
  obtain k' v' where p: "p = (k', v')" by (cases p)
  show ?case
  proof (cases "k' = k")
    case True
    then have "jget m k = None"
      using Cons.prems p by (auto simp: jmap_ok_def jget_def map_of_eq_None_iff)
    then have "jmodify k (\<lambda>_. v) m = m" by (rule jmodify_id)
    moreover have "jmodify k (\<lambda>_. v) (p # m) = (k, v) # jmodify k (\<lambda>_. v) m"
      using True p by (simp add: jmodify_def)
    ultimately show ?thesis using True p by (simp add: jset_def)
  next
    case False
    then show ?thesis using Cons p by (simp add: jset_def jmodify_def jget_def jmap_ok_def)
  qed
qed (simp add: jget_def)

section \<open>Counting entries\<close>

text \<open>The number of entries whose value satisfies a predicate, and how updates change it.\<close>

definition jcount :: "('v \<Rightarrow> bool) \<Rightarrow> ('k, 'v) jmap \<Rightarrow> nat" where
  "jcount P m = length (filter (\<lambda>p. P (snd p)) m)"

abbreviation bit_of :: "bool \<Rightarrow> nat" where
  "bit_of b \<equiv> (if b then 1 else 0)"

definition hit :: "('v \<Rightarrow> bool) \<Rightarrow> 'v option \<Rightarrow> nat" where
  "hit P v = (case v of None \<Rightarrow> 0 | Some x \<Rightarrow> if P x then 1 else 0)"

lemma hit_simps [simp]: "hit P None = 0" "hit P (Some x) = (if P x then 1 else 0)"
  by (simp_all add: hit_def)

lemma jcount_Nil [simp]: "jcount P [] = 0"
  by (simp add: jcount_def)

lemma jcount_jset_new: "jget m k = None \<Longrightarrow> jcount P (jset k v m) = jcount P m + (if P v then 1 else 0)"
  by (simp add: jset_new jcount_def)

lemma jcount_jmodify:
  "jmap_ok m \<Longrightarrow> jget m k = Some v \<Longrightarrow>
   jcount P (jmodify k f m) + (if P v then 1 else 0) = jcount P m + (if P (f v) then 1 else 0)"
proof (induction m)
  case (Cons p m)
  obtain k' v' where p: "p = (k', v')" by (cases p)
  show ?case
  proof (cases "k' = k")
    case True
    then have "jget m k = None" "v' = v"
      using Cons.prems p by (auto simp: jmap_ok_def jget_def map_of_eq_None_iff)
    then have "jmodify k f (p # m) = (k, f v) # m"
      using True p jmodify_id [of m k f] by (simp add: jmodify_def)
    then show ?thesis using p \<open>v' = v\<close> by (simp add: jcount_def)
  next
    case False
    then have "jcount P (jmodify k f m) + (if P v then 1 else 0) = jcount P m + (if P (f v) then 1 else 0)"
      using Cons p by (simp add: jmap_ok_def jget_def)
    then show ?thesis using False p by (auto simp: jcount_def jmodify_def)
  qed
qed (simp add: jget_def)

lemma jcount_jdelete:
  "jmap_ok m \<Longrightarrow> jcount P (jdelete k m) + hit P (jget m k) = jcount P m"
proof (induction m)
  case (Cons p m)
  obtain k' v' where p: "p = (k', v')" by (cases p)
  show ?case
  proof (cases "k' = k")
    case True
    then have n: "jget m k = None"
      using Cons.prems p by (auto simp: jmap_ok_def jget_def map_of_eq_None_iff)
    have "jdelete k (p # m) = jdelete k m" using True p by (simp add: jdelete_filter)
    moreover have "jcount P (jdelete k m) = jcount P m"
      using Cons n p by (simp add: jmap_ok_def)
    ultimately show ?thesis using True p by (simp add: jcount_def jget_def)
  next
    case False
    then have "jcount P (jdelete k m) + hit P (jget m k) = jcount P m"
      using Cons p by (simp add: jmap_ok_def)
    then show ?thesis using False p by (auto simp: jcount_def jdelete_filter jget_def)
  qed
qed (simp add: jcount_def jdelete_def jget_def)

section \<open>Sets\<close>

definition sadd :: "'a \<Rightarrow> 'a list \<Rightarrow> 'a list" where
  "sadd x s = (if x \<in> set s then s else s @ [x])"

definition sdelete :: "'a \<Rightarrow> 'a list \<Rightarrow> 'a list" where
  "sdelete x s = filter (\<lambda>y. y \<noteq> x) s"

lemma set_sadd [simp]: "set (sadd x s) = insert x (set s)"
  by (auto simp: sadd_def)

lemma set_sdelete [simp]: "set (sdelete x s) = set s - {x}"
  by (auto simp: sdelete_def)

lemma distinct_sadd [simp]: "distinct s \<Longrightarrow> distinct (sadd x s)"
  by (simp add: sadd_def)

lemma distinct_sdelete [simp]: "distinct s \<Longrightarrow> distinct (sdelete x s)"
  by (simp add: sdelete_def)

text \<open>A Map from keys to Sets, an absent bucket being empty.\<close>

definition bucket :: "('k, 'a list) jmap \<Rightarrow> 'k \<Rightarrow> 'a list" where
  "bucket m k = (case jget m k of None \<Rightarrow> [] | Some s \<Rightarrow> s)"

lemma bucket_jset [simp]: "bucket (jset k s m) k' = (if k' = k then s else bucket m k')"
  by (simp add: bucket_def)

lemma bucket_jdelete [simp]: "bucket (jdelete k m) k' = (if k' = k then [] else bucket m k')"
  by (simp add: bucket_def)

lemma bucket_Nil [simp]: "bucket [] k = []"
  by (simp add: bucket_def)

lemma map_of_filter_key: "map_of (filter (\<lambda>p. fst p \<noteq> k) xs) k' = (if k' = k then None else map_of xs k')"
  by (induction xs) auto

section \<open>The interface\<close>

locale ordered_map =
  fixes empty :: "'m" and lookup :: "'m \<Rightarrow> 'k \<Rightarrow> 'v option"
    and insert_at :: "'k \<Rightarrow> 'v \<Rightarrow> 'm \<Rightarrow> 'm" and remove :: "'k \<Rightarrow> 'm \<Rightarrow> 'm"
    and entries :: "'m \<Rightarrow> ('k \<times> 'v) list" and invar :: "'m \<Rightarrow> bool"
  assumes empty_ok: "invar empty" "entries empty = []"
    and insert_ok: "invar m \<Longrightarrow> invar (insert_at k v m)"
    and remove_ok: "invar m \<Longrightarrow> invar (remove k m)"
    and distinct_entries: "invar m \<Longrightarrow> distinct (map fst (entries m))"
    and lookup_entries: "invar m \<Longrightarrow> lookup m k = map_of (entries m) k"
    and entries_insert_new:
      "invar m \<Longrightarrow> lookup m k = None \<Longrightarrow> entries (insert_at k v m) = entries m @ [(k, v)]"
    and lookup_insert: "invar m \<Longrightarrow> lookup (insert_at k v m) k' = (if k' = k then Some v else lookup m k')"
    and entries_remove: "invar m \<Longrightarrow> entries (remove k m) = filter (\<lambda>p. fst p \<noteq> k) (entries m)"
begin

lemma lookup_empty: "lookup empty k = None"
  by (simp add: lookup_entries empty_ok)

lemma lookup_remove: "invar m \<Longrightarrow> lookup (remove k m) k' = (if k' = k then None else lookup m k')"
  by (simp add: lookup_entries remove_ok entries_remove map_of_filter_key)

lemma insert_remove_new:
  "invar m \<Longrightarrow> lookup m k = None \<Longrightarrow> entries (remove k (insert_at k v m)) = entries m"
proof -
  assume i: "invar m" and n: "lookup m k = None"
  have "\<forall>p \<in> set (entries m). fst p \<noteq> k"
    using n lookup_entries [OF i] by (auto simp: map_of_eq_None_iff)
  then have "filter (\<lambda>p. fst p \<noteq> k) (entries m) = entries m" by (simp add: filter_id_conv)
  then show ?thesis by (simp add: entries_remove insert_ok i entries_insert_new n)
qed

text \<open>Deleting and re-inserting moves a key to the back of the iteration order.\<close>

lemma reinsert_moves_back:
  "invar m \<Longrightarrow> entries (insert_at k v (remove k m)) = filter (\<lambda>p. fst p \<noteq> k) (entries m) @ [(k, v)]"
  by (simp add: entries_insert_new remove_ok lookup_remove entries_remove)

end

interpretation jm: ordered_map "[]" jget jset jdelete "\<lambda>m. m" jmap_ok
proof
  fix m :: "('a, 'b) jmap" and k k' :: 'a and v :: 'b
  show "jmap_ok m \<Longrightarrow> distinct (map fst m)" by (simp add: jmap_ok_def)
  show "jget m k = map_of m k" by (simp add: jget_def)
  show "jmap_ok m \<Longrightarrow> jget m k = None \<Longrightarrow> jset k v m = m @ [(k, v)]" by (rule jset_new)
  show "jdelete k m = filter (\<lambda>p. fst p \<noteq> k) m" by (rule jdelete_filter)
qed simp_all

end
