(* ===== verification/AuthorizeOrder.thy ===== *)
theory AuthorizeOrder
  imports JsMap
begin

text \<open>
  The order format of the half-proof settlement path: \<open>zk-relayer/src/types/authorize-order.ts\<close>,
  with \<open>lib/address.ts\<close> and \<open>core/fees.ts\<close>.  Orders arrive as JSON, so every field of the proof
  and of the public signals may be absent (None).  A call \<open>BigInt(x)\<close> that throws makes the
  modelled function return None; \<open>validateAuthorizeOrder\<close> catches that throw itself.
\<close>

section \<open>Addresses\<close>

definition eqAddr :: "string option \<Rightarrow> string option \<Rightarrow> bool" where
  "eqAddr a b = (case (a, b) of
     (Some x, Some y) \<Rightarrow>
       if x = [] \<or> y = [] then False else if x = y then True else toLowerCase x = toLowerCase y
   | _ \<Rightarrow> False)"

lemma eqAddr_iff: "eqAddr (Some x) (Some y) \<longleftrightarrow> x \<noteq> [] \<and> y \<noteq> [] \<and> toLowerCase x = toLowerCase y"
  by (auto simp: eqAddr_def)

lemma eqAddr_sym: "eqAddr a b = eqAddr b a"
  by (auto simp: eqAddr_def split: option.splits)

lemma eqAddr_trans: "eqAddr a b \<Longrightarrow> eqAddr b c \<Longrightarrow> eqAddr a c"
  by (cases a; cases b; cases c) (auto simp: eqAddr_iff eqAddr_def split: if_splits)

section \<open>Data\<close>

definition hexPad :: "nat \<Rightarrow> int \<Rightarrow> string" where
  "hexPad n i = ''0x'' @ padStart n (CHR ''0'') (bigint_toString 16 i)"

definition pairKey :: "int \<Rightarrow> int \<Rightarrow> string" where
  "pairKey tokenA tokenB =
     (let a = hexPad 40 tokenA; b = hexPad 40 tokenB;
          (lo, hi) = (if str_less a b then (a, b) else (b, a))
      in lo @ ''-'' @ hi)"

record solidity_proof =
  pf_a :: "(string \<times> string) option"
  pf_b :: "((string \<times> string) \<times> (string \<times> string)) option"
  pf_c :: "(string \<times> string) option"

record authorize_public_signals =
  pubKeyBind :: "string option"
  commitmentRoot :: "string option"
  nullifier :: "string option"
  nonceNullifier :: "string option"
  newCommitment :: "string option"
  sellToken :: "string option"
  buyToken :: "string option"
  sellAmount :: "string option"
  buyAmount :: "string option"
  maxFee :: "string option"
  expiry :: "string option"
  claimsRoot :: "string option"
  totalLocked :: "string option"
  relayer :: "string option"
  orderHash :: "string option"

record authorize_order_file =
  ao_proof :: "solidity_proof option"
  publicSignals :: authorize_public_signals
  publicSignalsArray :: "string list option"
  tier :: "int option"

datatype order_status =
  Pending | Matched | Accepted | Settling | Retrying | Settled | Failed | DeadLetter | Cancelled | Expired

definition LIVE_STATUSES :: "order_status list" where
  "LIVE_STATUSES = [Pending, Accepted, Retrying]"

definition IN_FLIGHT_STATUSES :: "order_status list" where
  "IN_FLIGHT_STATUSES = [Matched, Settling]"

definition TERMINAL_STATUSES :: "order_status list" where
  "TERMINAL_STATUSES = [Settled, Cancelled, Failed, DeadLetter, Expired]"

definition isLiveStatus :: "order_status \<Rightarrow> bool" where
  "isLiveStatus s = (s \<in> set LIVE_STATUSES)"

definition isInFlightStatus :: "order_status \<Rightarrow> bool" where
  "isInFlightStatus s = (s \<in> set IN_FLIGHT_STATUSES)"

definition isTerminalStatus :: "order_status \<Rightarrow> bool" where
  "isTerminalStatus s = (s \<in> set TERMINAL_STATUSES)"

record stored_order =
  so_order :: authorize_order_file
  so_status :: order_status
  so_submittedAt :: ms
  so_settleTxHash :: "string option"
  so_crossRelayer :: bool
  so_pubKeyAx :: "string option"
  so_pubKeyAy :: "string option"

lemmas status_defs = isLiveStatus_def isInFlightStatus_def isTerminalStatus_def
  LIVE_STATUSES_def IN_FLIGHT_STATUSES_def TERMINAL_STATUSES_def

lemma live_simps [simp]:
  "isLiveStatus Pending" "isLiveStatus Accepted" "isLiveStatus Retrying"
  "\<not> isLiveStatus Matched" "\<not> isLiveStatus Settling" "\<not> isLiveStatus Settled" "\<not> isLiveStatus Failed"
  "\<not> isLiveStatus DeadLetter" "\<not> isLiveStatus Cancelled" "\<not> isLiveStatus Expired"
  by (simp_all add: status_defs)

lemma in_flight_simps [simp]:
  "isInFlightStatus Matched" "isInFlightStatus Settling" "\<not> isInFlightStatus Pending"
  "\<not> isInFlightStatus Accepted" "\<not> isInFlightStatus Retrying" "\<not> isInFlightStatus Settled"
  "\<not> isInFlightStatus Failed" "\<not> isInFlightStatus DeadLetter" "\<not> isInFlightStatus Cancelled"
  "\<not> isInFlightStatus Expired"
  by (simp_all add: status_defs)

lemma terminal_iff: "isTerminalStatus s \<longleftrightarrow> \<not> isLiveStatus s \<and> \<not> isInFlightStatus s"
  by (cases s) (auto simp: status_defs)

lemma live_not_in_flight: "isLiveStatus s \<Longrightarrow> \<not> isInFlightStatus s"
  by (cases s) auto

section \<open>Helpers\<close>

definition publicSignalToAddress :: "string option \<Rightarrow> string option" where
  "publicSignalToAddress d = map_option (hexPad 40) (big d)"

definition authorizePairKey :: "authorize_public_signals \<Rightarrow> string option" where
  "authorizePairKey ps =
     Option.bind (big (sellToken ps)) (\<lambda>s. map_option (pairKey s) (big (buyToken ps)))"

definition isPriceCompatible :: "authorize_public_signals \<Rightarrow> authorize_public_signals \<Rightarrow> bool option" where
  "isPriceCompatible maker taker =
     Option.bind (big (sellAmount maker)) (\<lambda>ms. Option.bind (big (sellAmount taker)) (\<lambda>ts.
     Option.bind (big (buyAmount maker)) (\<lambda>mb. Option.bind (big (buyAmount taker)) (\<lambda>tb.
       let makerProduct = ms * ts; takerProduct = mb * tb
       in Some (takerProduct \<le> makerProduct)))))"

definition isTokenCompatible :: "authorize_public_signals \<Rightarrow> authorize_public_signals \<Rightarrow> bool option" where
  "isTokenCompatible maker taker =
     Option.bind (big (sellToken maker)) (\<lambda>ms. Option.bind (big (buyToken taker)) (\<lambda>tb.
       if ms \<noteq> tb then Some False
       else Option.bind (big (sellToken taker)) (\<lambda>ts. Option.bind (big (buyToken maker)) (\<lambda>mb.
         Some (ts = mb)))))"

section \<open>Validation\<close>

definition BN254_FIELD_MODULUS :: int where
  "BN254_FIELD_MODULUS =
     21888242871839275222246405745257275088548364400416034343698204186575808495617"

datatype ps_field = F_pubKeyBind | F_commitmentRoot | F_nullifier | F_nonceNullifier | F_newCommitment
  | F_sellToken | F_buyToken | F_sellAmount | F_buyAmount | F_maxFee | F_expiry | F_claimsRoot
  | F_totalLocked | F_relayer | F_orderHash

definition AUTHORIZE_PUBLIC_SIGNAL_ORDER :: "ps_field list" where
  "AUTHORIZE_PUBLIC_SIGNAL_ORDER =
     [F_pubKeyBind, F_commitmentRoot, F_nullifier, F_nonceNullifier, F_newCommitment,
      F_sellToken, F_buyToken, F_sellAmount, F_buyAmount, F_maxFee, F_expiry, F_claimsRoot,
      F_totalLocked, F_relayer, F_orderHash]"

text \<open>The property access \<open>ps[field]\<close> and the property's name.\<close>

fun ps_get :: "authorize_public_signals \<Rightarrow> ps_field \<Rightarrow> string option" where
  "ps_get ps F_pubKeyBind = pubKeyBind ps"
| "ps_get ps F_commitmentRoot = commitmentRoot ps"
| "ps_get ps F_nullifier = nullifier ps"
| "ps_get ps F_nonceNullifier = nonceNullifier ps"
| "ps_get ps F_newCommitment = newCommitment ps"
| "ps_get ps F_sellToken = sellToken ps"
| "ps_get ps F_buyToken = buyToken ps"
| "ps_get ps F_sellAmount = sellAmount ps"
| "ps_get ps F_buyAmount = buyAmount ps"
| "ps_get ps F_maxFee = maxFee ps"
| "ps_get ps F_expiry = expiry ps"
| "ps_get ps F_claimsRoot = claimsRoot ps"
| "ps_get ps F_totalLocked = totalLocked ps"
| "ps_get ps F_relayer = relayer ps"
| "ps_get ps F_orderHash = orderHash ps"

fun ps_name :: "ps_field \<Rightarrow> string" where
  "ps_name F_pubKeyBind = ''pubKeyBind''"
| "ps_name F_commitmentRoot = ''commitmentRoot''"
| "ps_name F_nullifier = ''nullifier''"
| "ps_name F_nonceNullifier = ''nonceNullifier''"
| "ps_name F_newCommitment = ''newCommitment''"
| "ps_name F_sellToken = ''sellToken''"
| "ps_name F_buyToken = ''buyToken''"
| "ps_name F_sellAmount = ''sellAmount''"
| "ps_name F_buyAmount = ''buyAmount''"
| "ps_name F_maxFee = ''maxFee''"
| "ps_name F_expiry = ''expiry''"
| "ps_name F_claimsRoot = ''claimsRoot''"
| "ps_name F_totalLocked = ''totalLocked''"
| "ps_name F_relayer = ''relayer''"
| "ps_name F_orderHash = ''orderHash''"

definition proof_complete :: "solidity_proof option \<Rightarrow> bool" where
  "proof_complete p = (case p of None \<Rightarrow> False
     | Some q \<Rightarrow> pf_a q \<noteq> None \<and> pf_b q \<noteq> None \<and> pf_c q \<noteq> None)"

definition array_ok :: "string list option \<Rightarrow> bool" where
  "array_ok a = (case a of None \<Rightarrow> False | Some xs \<Rightarrow> length xs = 15)"

text \<open>The array element at an index; None is \<open>undefined\<close>.\<close>

definition nth_opt :: "'a list \<Rightarrow> nat \<Rightarrow> 'a option" where
  "nth_opt xs i = (if i < length xs then Some (xs ! i) else None)"

definition mismatch_msg :: "nat \<Rightarrow> ps_field \<Rightarrow> string" where
  "mismatch_msg i f = ''publicSignalsArray['' @ dec (int i) @ ''] ('' @ ps_name f @
     '') does not match named publicSignals''"

definition missing_msg :: "ps_field \<Rightarrow> string" where
  "missing_msg f = ''Missing required public signal: '' @ ps_name f"

fun check_consistent_loop ::
  "nat \<Rightarrow> ps_field list \<Rightarrow> authorize_public_signals \<Rightarrow> string list \<Rightarrow> string option" where
  "check_consistent_loop i [] ps arr = None"
| "check_consistent_loop i (f # fs) ps arr =
     (if ps_get ps f = None then Some (missing_msg f)
      else if nth_opt arr i \<noteq> ps_get ps f then Some (mismatch_msg i f)
      else check_consistent_loop (Suc i) fs ps arr)"

definition checkTakerSignalsConsistent :: "authorize_order_file \<Rightarrow> string option" where
  "checkTakerSignalsConsistent order =
     (if \<not> proof_complete (ao_proof order) then Some ''Missing proof components''
      else if \<not> array_ok (publicSignalsArray order)
        then Some ''publicSignalsArray must have exactly 15 elements''
      else check_consistent_loop 0 AUTHORIZE_PUBLIC_SIGNAL_ORDER (publicSignals order)
             (case publicSignalsArray order of None \<Rightarrow> [] | Some xs \<Rightarrow> xs))"

fun presence_loop :: "ps_field list \<Rightarrow> authorize_public_signals \<Rightarrow> string option" where
  "presence_loop [] ps = None"
| "presence_loop (f # fs) ps =
     (if ps_get ps f = None then Some (missing_msg f) else presence_loop fs ps)"

fun range_loop :: "ps_field list \<Rightarrow> authorize_public_signals \<Rightarrow> string option" where
  "range_loop [] ps = None"
| "range_loop (f # fs) ps =
     (case big (ps_get ps f) of
        None \<Rightarrow> Some (ps_name f @ '' is not a valid bigint string'')
      | Some v \<Rightarrow> if v < 0 \<or> BN254_FIELD_MODULUS \<le> v then Some (ps_name f @ '' out of BN254 field range'')
                  else range_loop fs ps)"

fun match_loop ::
  "nat \<Rightarrow> ps_field list \<Rightarrow> authorize_public_signals \<Rightarrow> string list \<Rightarrow> string option" where
  "match_loop i [] ps arr = None"
| "match_loop i (f # fs) ps arr =
     (if nth_opt arr i \<noteq> ps_get ps f then Some (mismatch_msg i f)
      else match_loop (Suc i) fs ps arr)"

text \<open>
  A field read again after \<open>range_loop\<close> has parsed it.  The default is never reached there
  (\<open>range_loop_num\<close> below).
\<close>

definition num :: "string option \<Rightarrow> int" where
  "num v = (case big v of Some i \<Rightarrow> i | None \<Rightarrow> 0)"

definition ALLOWED_TIERS :: "int list" where
  "ALLOWED_TIERS = [16, 64, 128]"

definition bounds_check :: "authorize_order_file \<Rightarrow> string \<Rightarrow> seconds \<Rightarrow> string option" where
  "bounds_check order relayerAddress nowSeconds =
    (let ps = publicSignals order; exp = js_round (num (expiry ps));
         proofRelayer = hexPad 40 (num (relayer ps)) in
     if exp \<le> nowSeconds
       then Some (''Order expired (expiry='' @ dec exp @ '', now='' @ dec nowSeconds @ '')'')
     else if \<not> eqAddr (Some proofRelayer) (Some relayerAddress)
       then Some (''Proof bound to relayer '' @ proofRelayer @ '', expected '' @ relayerAddress)
     else if num (sellAmount ps) = 0 then Some ''sellAmount must be > 0''
     else if num (buyAmount ps) = 0 then Some ''buyAmount must be > 0''
     else if num (totalLocked ps) = 0 then Some ''totalLocked must be > 0''
     else if 2 ^ 128 \<le> num (sellAmount ps) then Some ''sellAmount exceeds uint128''
     else if 2 ^ 128 \<le> num (buyAmount ps) then Some ''buyAmount exceeds uint128''
     else if 2 ^ 16 \<le> num (maxFee ps) then Some ''maxFee exceeds uint16''
     else if 2 ^ 64 \<le> num (expiry ps) then Some ''expiry exceeds uint64''
     else if 2 ^ 128 \<le> num (totalLocked ps) then Some ''totalLocked exceeds uint128''
     else if 2 ^ 160 \<le> num (sellToken ps) then Some ''sellToken exceeds uint160''
     else if 2 ^ 160 \<le> num (buyToken ps) then Some ''buyToken exceeds uint160''
     else if 2 ^ 160 \<le> num (relayer ps) then Some ''relayer exceeds uint160''
     else if num (nullifier ps) = 0 then Some ''nullifier must be nonzero''
     else if num (nonceNullifier ps) = 0 then Some ''nonceNullifier must be nonzero''
     else case tier order of
       Some t \<Rightarrow> if t \<in> set ALLOWED_TIERS then None
                 else Some (''tier must be one of 16 / 64 / 128 (got '' @ dec t @ '' of type number)'')
     | None \<Rightarrow> None)"

definition validateAuthorizeOrder :: "authorize_order_file \<Rightarrow> string \<Rightarrow> seconds \<Rightarrow> string option" where
  "validateAuthorizeOrder order relayerAddress nowSeconds =
    (let ps = publicSignals order;
         arr = (case publicSignalsArray order of None \<Rightarrow> [] | Some xs \<Rightarrow> xs) in
     if \<not> proof_complete (ao_proof order) then Some ''Missing proof components''
     else if \<not> array_ok (publicSignalsArray order)
       then Some ''publicSignalsArray must have exactly 15 elements''
     else case presence_loop AUTHORIZE_PUBLIC_SIGNAL_ORDER ps of Some e \<Rightarrow> Some e | None \<Rightarrow>
     case range_loop AUTHORIZE_PUBLIC_SIGNAL_ORDER ps of Some e \<Rightarrow> Some e | None \<Rightarrow>
     case match_loop 0 AUTHORIZE_PUBLIC_SIGNAL_ORDER ps arr of Some e \<Rightarrow> Some e | None \<Rightarrow>
     bounds_check order relayerAddress nowSeconds)"

definition tierForOrder :: "authorize_order_file \<Rightarrow> int" where
  "tierForOrder order = (case tier order of Some t \<Rightarrow> t | None \<Rightarrow> 16)"

section \<open>Fees\<close>

definition FEE_BPS_DENOMINATOR :: int where "FEE_BPS_DENOMINATOR = 10000"

text \<open>Bigint division truncates towards zero; on the non-negative values here it is \<open>div\<close>.\<close>

definition big_div :: "int \<Rightarrow> int \<Rightarrow> int" where
  "big_div a b = sgn a * sgn b * (\<bar>a\<bar> div \<bar>b\<bar>)"

definition computeSideFee :: "string option \<Rightarrow> string option \<Rightarrow> int \<Rightarrow> int option" where
  "computeSideFee buyAmt sideMaxFee relayerFeeBps =
     Option.bind (big buyAmt) (\<lambda>buy. Option.bind (big sideMaxFee) (\<lambda>mf.
       let effectiveBps = (if relayerFeeBps < mf then relayerFeeBps else mf)
       in Some (big_div (buy * effectiveBps) FEE_BPS_DENOMINATOR)))"

section \<open>What validation accepts\<close>

lemma presence_loop_None: "presence_loop fs ps = None \<longleftrightarrow> (\<forall>f \<in> set fs. ps_get ps f \<noteq> None)"
  by (induction fs) auto

lemma range_loop_None:
  "range_loop fs ps = None \<longleftrightarrow>
     (\<forall>f \<in> set fs. \<exists>v. big (ps_get ps f) = Some v \<and> 0 \<le> v \<and> v < BN254_FIELD_MODULUS)"
  by (induction fs) (auto split: option.splits)

lemma match_loop_None:
  "match_loop i fs ps arr = None \<longleftrightarrow> (\<forall>k < length fs. nth_opt arr (i + k) = ps_get ps (fs ! k))"
proof (induction fs arbitrary: i)
  case (Cons f fs)
  show ?case using Cons [of "Suc i"] by (auto simp: less_Suc_eq_0_disj)
qed simp

lemma check_consistent_loop_None:
  "check_consistent_loop i fs ps arr = None \<longleftrightarrow> presence_loop fs ps = None \<and> match_loop i fs ps arr = None"
  by (induction i fs ps arr rule: check_consistent_loop.induct) auto

lemma order_covers: "f \<in> set AUTHORIZE_PUBLIC_SIGNAL_ORDER"
  by (cases f) (simp_all add: AUTHORIZE_PUBLIC_SIGNAL_ORDER_def)

lemma order_length [simp]: "length AUTHORIZE_PUBLIC_SIGNAL_ORDER = 15"
  by (simp add: AUTHORIZE_PUBLIC_SIGNAL_ORDER_def)

lemma order_distinct: "distinct AUTHORIZE_PUBLIC_SIGNAL_ORDER"
  by (simp add: AUTHORIZE_PUBLIC_SIGNAL_ORDER_def)

lemma match_loop_map:
  assumes "length arr = length fs"
  shows "match_loop 0 fs ps arr = None \<longleftrightarrow> map Some arr = map (ps_get ps) fs"
  using assms by (auto simp: match_loop_None list_eq_iff_nth_eq nth_opt_def)

lemma range_loop_num:
  "range_loop AUTHORIZE_PUBLIC_SIGNAL_ORDER ps = None \<Longrightarrow> big (ps_get ps f) = Some (num (ps_get ps f))"
  using order_covers [of f] by (force simp: range_loop_None num_def)

text \<open>The array the proof is verified against is the named public signals, in circuit order.\<close>

definition array_matches :: "authorize_order_file \<Rightarrow> bool" where
  "array_matches order \<longleftrightarrow> (\<exists>arr. publicSignalsArray order = Some arr \<and>
     map Some arr = map (ps_get (publicSignals order)) AUTHORIZE_PUBLIC_SIGNAL_ORDER)"

definition in_field :: "string option \<Rightarrow> bool" where
  "in_field v \<longleftrightarrow> (\<exists>i. big v = Some i \<and> 0 \<le> i \<and> i < BN254_FIELD_MODULUS)"

definition positive_below :: "nat \<Rightarrow> string option \<Rightarrow> bool" where
  "positive_below w v \<longleftrightarrow> 0 < num v \<and> num v < 2 ^ w"

text \<open>The abstract contract of \<open>validateAuthorizeOrder\<close>.\<close>

definition wf_order :: "authorize_order_file \<Rightarrow> string \<Rightarrow> seconds \<Rightarrow> bool" where
  "wf_order order addr now \<longleftrightarrow> (let ps = publicSignals order in
     proof_complete (ao_proof order) \<and> array_matches order \<and> (\<forall>f. in_field (ps_get ps f)) \<and>
     now < num (expiry ps) \<and> num (expiry ps) < 2 ^ 64 \<and>
     eqAddr (Some (hexPad 40 (num (relayer ps)))) (Some addr) \<and>
     positive_below 128 (sellAmount ps) \<and> positive_below 128 (buyAmount ps) \<and>
     positive_below 128 (totalLocked ps) \<and> num (maxFee ps) < 2 ^ 16 \<and>
     num (sellToken ps) < 2 ^ 160 \<and> num (buyToken ps) < 2 ^ 160 \<and> num (relayer ps) < 2 ^ 160 \<and>
     num (nullifier ps) \<noteq> 0 \<and> num (nonceNullifier ps) \<noteq> 0 \<and>
     (\<forall>t. tier order = Some t \<longrightarrow> t \<in> {16, 64, 128}))"

lemma in_field_num: "in_field v \<Longrightarrow> big v = Some (num v) \<and> 0 \<le> num v \<and> num v < BN254_FIELD_MODULUS"
  by (auto simp: in_field_def num_def)

lemma bounds_check_None:
  assumes "\<And>f. in_field (ps_get (publicSignals order) f)" and "0 \<le> now" "now < 2 ^ 53"
  shows "bounds_check order addr now = None \<longleftrightarrow> (let ps = publicSignals order in
     now < num (expiry ps) \<and> num (expiry ps) < 2 ^ 64 \<and>
     eqAddr (Some (hexPad 40 (num (relayer ps)))) (Some addr) \<and>
     positive_below 128 (sellAmount ps) \<and> positive_below 128 (buyAmount ps) \<and>
     positive_below 128 (totalLocked ps) \<and> num (maxFee ps) < 2 ^ 16 \<and>
     num (sellToken ps) < 2 ^ 160 \<and> num (buyToken ps) < 2 ^ 160 \<and> num (relayer ps) < 2 ^ 160 \<and>
     num (nullifier ps) \<noteq> 0 \<and> num (nonceNullifier ps) \<noteq> 0 \<and>
     (\<forall>t. tier order = Some t \<longrightarrow> t \<in> {16, 64, 128}))"
proof -
  have pos: "0 < num v \<longleftrightarrow> num v \<noteq> 0" if "in_field v" for v
    using in_field_num [OF that] by auto
  note f = assms(1) [of F_sellAmount] assms(1) [of F_buyAmount] assms(1) [of F_totalLocked]
  show ?thesis
    using f js_round_le_iff [OF assms(2,3)]
    by (auto simp: bounds_check_def Let_def positive_below_def pos ALLOWED_TIERS_def
        split: option.splits if_splits)
qed

lemma array_ok_iff: "array_ok a \<longleftrightarrow> (\<exists>xs. a = Some xs \<and> length xs = 15)"
  by (cases a) (auto simp: array_ok_def)

lemma checkTaker_None:
  "checkTakerSignalsConsistent order = None \<longleftrightarrow> proof_complete (ao_proof order) \<and> array_matches order"
proof (cases "proof_complete (ao_proof order) \<and> array_ok (publicSignalsArray order)")
  case True
  then obtain xs where xs: "publicSignalsArray order = Some xs" "length xs = 15"
    by (auto simp: array_ok_iff)
  let ?fs = AUTHORIZE_PUBLIC_SIGNAL_ORDER and ?ps = "publicSignals order"
  have "presence_loop ?fs ?ps = None \<and> map Some xs = map (ps_get ?ps) ?fs \<longleftrightarrow>
        map Some xs = map (ps_get ?ps) ?fs"
    unfolding presence_loop_None
    by (metis (no_types, lifting) image_iff image_set option.distinct(1))
  then show ?thesis
    using True xs by (auto simp: checkTakerSignalsConsistent_def check_consistent_loop_None
        match_loop_map array_matches_def)
next
  case False
  moreover have "length xs = 15" if "map Some xs = map (ps_get ps) AUTHORIZE_PUBLIC_SIGNAL_ORDER" for xs ps
    using arg_cong [OF that, of length] by simp
  ultimately show ?thesis
    by (auto simp: checkTakerSignalsConsistent_def array_matches_def array_ok_iff)
qed

lemma validate_split:
  "validateAuthorizeOrder order addr now = None \<longleftrightarrow>
     checkTakerSignalsConsistent order = None \<and>
     (\<forall>f. in_field (ps_get (publicSignals order) f)) \<and> bounds_check order addr now = None"
proof -
  have "range_loop AUTHORIZE_PUBLIC_SIGNAL_ORDER ps = None \<longleftrightarrow> (\<forall>f. in_field (ps_get ps f))" for ps
    using order_covers by (auto simp: range_loop_None in_field_def)
  note r = this [symmetric]
  show ?thesis unfolding r
    by (auto simp: validateAuthorizeOrder_def checkTakerSignalsConsistent_def Let_def
        check_consistent_loop_None split: option.splits)
qed

section \<open>Hex encodings\<close>

lemma hexPad_nonneg: "0 \<le> i \<Longrightarrow> hexPad n i = CHR ''0'' # CHR ''x'' # padStart n (CHR ''0'') (to_radix 16 (nat i))"
  by (simp add: hexPad_def bigint_toString_def)

lemma js_BigInt_hexPad [js_simps]: "0 \<le> i \<Longrightarrow> js_BigInt (hexPad n i) = Some i"
  using js_BigInt_padded_hex [of n "nat i"] by (simp add: hexPad_nonneg)

lemma hexPad_inject: "0 \<le> i \<Longrightarrow> 0 \<le> j \<Longrightarrow> hexPad n i = hexPad n j \<longleftrightarrow> i = j"
  using js_BigInt_hexPad by (metis option.inject)

lemma length_to_radix: "2 \<le> r \<Longrightarrow> 0 < k \<Longrightarrow> n < r ^ k \<Longrightarrow> length (to_radix r n) \<le> k"
proof (induction r n arbitrary: k rule: to_radix.induct)
  case (1 r n)
  show ?case
  proof (cases "n < r")
    case True
    then show ?thesis using "1.prems" by (simp add: to_radix.simps [of r n])
  next
    case False
    then have "k \<noteq> 1" using "1.prems" by auto
    then obtain j where j: "k = Suc j" "0 < j" using "1.prems" by (cases k) auto
    have "n div r < r ^ j" using "1.prems" j by (simp add: less_mult_imp_div_less mult.commute)
    then have "length (to_radix r (n div r)) \<le> j" using "1.IH" False "1.prems" j by simp
    then show ?thesis using False "1.prems" j by (simp add: to_radix.simps [of r n])
  qed
qed

lemma length_hexPad: "0 \<le> i \<Longrightarrow> i < 16 ^ n \<Longrightarrow> 0 < n \<Longrightarrow> length (hexPad n i) = n + 2"
proof -
  assume i: "0 \<le> i" "i < 16 ^ n" "0 < n"
  then have "nat i < 16 ^ n" by (simp add: nat_less_iff)
  then have "length (to_radix 16 (nat i)) \<le> n" using i by (intro length_to_radix) auto
  then show ?thesis using i by (simp add: hexPad_nonneg padStart_def)
qed

lemma hexPad_lower: "0 \<le> i \<Longrightarrow> toLowerCase (hexPad n i) = hexPad n i"
proof -
  assume i: "0 \<le> i"
  have "lower_char c = c" if "c \<in> set (hexPad n i)" for c
    using that i to_radix_digits [of 16 c "nat i"]
    by (auto simp: hexPad_nonneg padStart_def lower_digit_char) (auto simp: lower_char_def code_def)
  then show ?thesis unfolding toLowerCase_def by (rule map_idI)
qed

lemma eqAddr_hexPad:
  "0 \<le> i \<Longrightarrow> 0 \<le> j \<Longrightarrow> eqAddr (Some (hexPad n i)) (Some (hexPad n j)) \<longleftrightarrow> i = j"
  by (simp add: eqAddr_iff hexPad_lower hexPad_inject) (simp add: hexPad_nonneg)

section \<open>Properties\<close>

lemma validate_wf:
  assumes "0 \<le> now" "now < 2 ^ 53"
  shows "validateAuthorizeOrder order addr now = None \<longleftrightarrow> wf_order order addr now"
  using bounds_check_None [OF _ assms]
  by (auto simp: validate_split wf_order_def Let_def checkTaker_None)

text \<open>
  C1.  \<open>validateAuthorizeOrder\<close> accepts an order exactly when it meets the contract \<open>wf_order\<close>:
  complete proof, the flat array equal to the named signals in circuit order, every signal a
  field element, unexpired, bound to this relayer, and every bit-width, nonzero and tier
  constraint.  In particular no accepted order lets the verified array diverge from the named
  signals that matching and settlement consume.
\<close>

theorem validate_iff:
  assumes "0 \<le> now" "now < 2 ^ 53"
  shows "validateAuthorizeOrder order addr now = None \<longleftrightarrow> wf_order order addr now"
  using assms by (rule validate_wf)

text \<open>
  The peer-order check accepts exactly the orders with a complete proof whose array equals
  the named signals, so everything the local path accepts also passes it.
\<close>

lemma checkTaker_iff:
  "(checkTakerSignalsConsistent order = None \<longleftrightarrow> proof_complete (ao_proof order) \<and> array_matches order)
   \<and> (validateAuthorizeOrder order addr now = None \<longrightarrow> checkTakerSignalsConsistent order = None)"
  using checkTaker_None validate_split by blast

lemma pairKey_sorted: "pairKey a b = pairKey b a"
  using str_less_trichotomy [of "hexPad 40 a" "hexPad 40 b"] str_less_asym
  by (auto simp: pairKey_def Let_def)

lemma pairKey_cases:
  "\<exists>x y. pairKey a b = hexPad 40 x @ ''-'' @ hexPad 40 y \<and> {x, y} = {a, b}"
  by (auto simp: pairKey_def Let_def)

text \<open>
  \<open>pairKey\<close> identifies unordered token pairs: two pairs of 160-bit addresses have the same
  key exactly when they are the same two tokens, in either order.
\<close>

lemma pairKey_eq_iff:
  assumes "0 \<le> a" "a < 2 ^ 160" "0 \<le> b" "b < 2 ^ 160" "0 \<le> c" "c < 2 ^ 160" "0 \<le> d" "d < 2 ^ 160"
  shows "pairKey a b = pairKey c d \<longleftrightarrow> {a, b} = {c, d}"
proof
  assume eq: "pairKey a b = pairKey c d"
  obtain x y where xy: "pairKey a b = hexPad 40 x @ ''-'' @ hexPad 40 y" "{x, y} = {a, b}"
    using pairKey_cases by blast
  obtain u v where uv: "pairKey c d = hexPad 40 u @ ''-'' @ hexPad 40 v" "{u, v} = {c, d}"
    using pairKey_cases by blast
  have rng: "0 \<le> x" "x < 16 ^ 40" "0 \<le> y" "0 \<le> u" "u < 16 ^ 40" "0 \<le> v"
    using assms xy(2) uv(2) by (auto simp: doubleton_eq_iff)
  then have "length (hexPad 40 x) = length (hexPad 40 u)"
    using length_hexPad [of x 40] length_hexPad [of u 40] by simp
  then have "hexPad 40 x = hexPad 40 u" "hexPad 40 y = hexPad 40 v"
    using eq xy(1) uv(1) by auto
  then have "x = u" "y = v" using rng hexPad_inject by blast+
  then show "{a, b} = {c, d}" using xy uv by simp
next
  assume "{a, b} = {c, d}"
  then show "pairKey a b = pairKey c d" using pairKey_sorted by (auto simp: doubleton_eq_iff)
qed

text \<open>
  The fee one side pays is the floor of \<open>buyAmount * min(relayerFee, maxFee) / 10000\<close>; it
  never exceeds the cap the user signed nor the relayer's own rate.
\<close>

lemma computeSideFee_bounds:
  assumes "big b = Some buy" "big m = Some mf" "0 \<le> buy" "0 \<le> mf" "0 \<le> r"
  shows "\<exists>fee. computeSideFee b m r = Some fee \<and> 0 \<le> fee \<and>
           fee * 10000 \<le> buy * mf \<and> fee * 10000 \<le> buy * r \<and> buy * min r mf < (fee + 1) * 10000"
proof -
  define p where "p = buy * min r mf"
  have nn: "0 \<le> p" and le: "p \<le> buy * mf" "p \<le> buy * r"
    using assms by (auto simp: p_def intro!: mult_left_mono)
  have "computeSideFee b m r = Some (big_div p 10000)"
    using assms by (auto simp: computeSideFee_def FEE_BPS_DENOMINATOR_def p_def min_def)
  also have "big_div p 10000 = p div 10000" using nn by (auto simp: big_div_def sgn_if)
  finally have fee: "computeSideFee b m r = Some (p div 10000)" .
  have split: "p = p div 10000 * 10000 + p mod 10000" "0 \<le> p mod 10000" "p mod 10000 < 10000"
    by simp_all
  have ge: "0 \<le> p div 10000" using nn by (simp add: pos_imp_zdiv_nonneg_iff)
  have "p div 10000 * 10000 \<le> p" "p < (p div 10000 + 1) * 10000"
    using split by (linarith, simp only: distrib_right mult_1)
  note ge this
  then show ?thesis using fee le unfolding p_def by fastforce
qed

end
