(* ===== verification/OrderDb.thy ===== *)
theory OrderDb
  imports AuthorizeOrder
begin

text \<open>
  The \<open>authorize_orders\<close> table of \<open>zk-relayer/src/core/db.ts\<close> and the settlement queue on it.  The
  table is a Map from the primary key (the nullifier text) to the row; the columns are those of
  \<open>AuthorizeOrderRow\<close>.  \<open>order_json\<close> is None when the stored text does not parse as JSON, else the
  order it encodes.  \<open>Date.now()\<close> is the argument \<open>now\<close>.  Rows with equal sort keys are claimed in
  table order (SQLite leaves that order open; no property below depends on it).
\<close>

type_synonym order_json = "authorize_order_file option"

record db_row =
  r_status :: order_status
  r_submittedAt :: ms
  r_updatedAt :: ms
  r_attempt :: nat
  r_nextRetryAt :: "ms option"
  r_lastError :: "string option"
  r_settleTx :: "string option"
  r_pubKeyAx :: "string option"
  r_pubKeyAy :: "string option"
  r_orderJson :: order_json

type_synonym order_table = "(string, db_row) jmap"

record order_db =
  orders_tbl :: order_table
  claims_roots :: "string list"

section \<open>Statements\<close>

text \<open>\<open>UPDATE authorize_orders SET \<dots> WHERE \<dots>\<close>; the key column is never assigned.\<close>

definition update_where :: "(string \<Rightarrow> db_row \<Rightarrow> bool) \<Rightarrow> (db_row \<Rightarrow> db_row) \<Rightarrow> order_table \<Rightarrow> order_table" where
  "update_where P f t = map (\<lambda>(k, r). (k, if P k r then f r else r)) t"

definition delete_where :: "(string \<Rightarrow> db_row \<Rightarrow> bool) \<Rightarrow> order_table \<Rightarrow> order_table" where
  "delete_where P t = filter (\<lambda>(k, r). \<not> P k r) t"

definition changes :: "(string \<Rightarrow> db_row \<Rightarrow> bool) \<Rightarrow> order_table \<Rightarrow> nat" where
  "changes P t = length (filter (\<lambda>(k, r). P k r) t)"

definition on_table :: "(order_table \<Rightarrow> order_table) \<Rightarrow> order_db \<Rightarrow> order_db" where
  "on_table f d = d\<lparr>orders_tbl := f (orders_tbl d)\<rparr>"

definition is_wei_digit :: "char \<Rightarrow> bool" where
  "is_wei_digit c \<longleftrightarrow> 48 \<le> code c \<and> code c \<le> 57"

definition isWeiString :: "string \<Rightarrow> bool" where
  "isWeiString v \<longleftrightarrow> v \<noteq> [] \<and> list_all is_wei_digit v"

definition MAX_ERR_LEN :: nat where "MAX_ERR_LEN = 512"

text \<open>The one-character ellipsis U+2026 is written as its Windows-1252 code 0x85.\<close>

definition truncErr :: "string \<Rightarrow> string" where
  "truncErr err = (if MAX_ERR_LEN < length err then take (MAX_ERR_LEN - 1) err @ [char_of (133::nat)] else err)"

definition readRetentionMs :: "int option \<Rightarrow> int" where
  "readRetentionMs raw = (case raw of None \<Rightarrow> 0 | Some parsed \<Rightarrow> if 0 < parsed then parsed else 0)"

definition restorable :: "order_status \<Rightarrow> bool" where
  "restorable s \<longleftrightarrow> s \<in> {Pending, Accepted, Retrying, Settling, Matched}"

definition upsert_row :: "string \<Rightarrow> db_row \<Rightarrow> order_table \<Rightarrow> order_table" where
  "upsert_row n r t = jset n r (jdelete n t)"

section \<open>Methods\<close>

definition saveAuthorizeOrder ::
  "string \<Rightarrow> order_status \<Rightarrow> ms \<Rightarrow> order_json \<Rightarrow> string option \<Rightarrow> string option \<Rightarrow> string option \<Rightarrow>
   order_db \<Rightarrow> order_db" where
  "saveAuthorizeOrder n status submittedAt json ax ay settleTx =
     on_table (upsert_row n \<lparr>r_status = status, r_submittedAt = submittedAt, r_updatedAt = submittedAt,
       r_attempt = 0, r_nextRetryAt = None, r_lastError = None, r_settleTx = settleTx,
       r_pubKeyAx = ax, r_pubKeyAy = ay, r_orderJson = json\<rparr>)"

definition updateAuthorizeOrderStatus ::
  "string \<Rightarrow> order_status \<Rightarrow> string option \<Rightarrow> ms \<Rightarrow> order_db \<Rightarrow> order_db" where
  "updateAuthorizeOrderStatus n status settleTx now =
     on_table (jmodify n (\<lambda>r. r\<lparr>r_status := status, r_settleTx := settleTx, r_updatedAt := now\<rparr>))"

definition deleteAuthorizeOrder :: "string \<Rightarrow> order_db \<Rightarrow> order_db" where
  "deleteAuthorizeOrder n = on_table (jdelete n)"

definition loadPendingAuthorizeOrders :: "order_db \<Rightarrow> (string \<times> db_row) list" where
  "loadPendingAuthorizeOrders d = filter (\<lambda>(k, r). restorable (r_status r)) (orders_tbl d)"

definition purgeable :: "ms \<Rightarrow> string \<Rightarrow> db_row \<Rightarrow> bool" where
  "purgeable cutoff k r \<longleftrightarrow> \<not> restorable (r_status r) \<and> r_updatedAt r < cutoff"

definition purgeNonPendingAuthorizeOrdersDB :: "int option \<Rightarrow> ms \<Rightarrow> order_db \<Rightarrow> nat \<times> order_db" where
  "purgeNonPendingAuthorizeOrdersDB env now d =
     (let retentionMs = readRetentionMs env in
      if retentionMs \<le> 0 then (0, d)
      else let cutoff = now - retentionMs in
        (changes (purgeable cutoff) (orders_tbl d), on_table (delete_where (purgeable cutoff)) d))"

definition getAuthorizeOrder :: "order_db \<Rightarrow> string \<Rightarrow> db_row option" where
  "getAuthorizeOrder d n = jget (orders_tbl d) n"

text \<open>None is the UNIQUE constraint error.\<close>

definition insertAcceptedOrder ::
  "string \<Rightarrow> ms \<Rightarrow> order_json \<Rightarrow> string option \<Rightarrow> string option \<Rightarrow> order_db \<Rightarrow> order_db option" where
  "insertAcceptedOrder n submittedAt json ax ay d =
     (if jhas (orders_tbl d) n then None
      else Some (on_table (jset n \<lparr>r_status = Accepted, r_submittedAt = submittedAt, r_updatedAt = submittedAt,
        r_attempt = 0, r_nextRetryAt = None, r_lastError = None, r_settleTx = None,
        r_pubKeyAx = ax, r_pubKeyAy = ay, r_orderJson = json\<rparr>) d))"

definition due :: "ms \<Rightarrow> db_row \<Rightarrow> bool" where
  "due now r \<longleftrightarrow> r_status r \<in> {Accepted, Retrying} \<and>
     (case r_nextRetryAt r of None \<Rightarrow> True | Some t \<Rightarrow> t \<le> now)"

definition sort_key :: "db_row \<Rightarrow> ms" where
  "sort_key r = (case r_nextRetryAt r of None \<Rightarrow> r_submittedAt r | Some t \<Rightarrow> t)"

fun min_by :: "('a \<Rightarrow> int) \<Rightarrow> 'a list \<Rightarrow> 'a option" where
  "min_by f [] = None"
| "min_by f (x # xs) = (case min_by f xs of None \<Rightarrow> Some x | Some y \<Rightarrow> if f x \<le> f y then Some x else Some y)"

definition claim_row :: "ms \<Rightarrow> db_row \<Rightarrow> db_row" where
  "claim_row now r = r\<lparr>r_status := Settling, r_updatedAt := now, r_nextRetryAt := None\<rparr>"

definition claimNextSettlementJob :: "ms \<Rightarrow> order_db \<Rightarrow> (string \<times> db_row) option \<times> order_db" where
  "claimNextSettlementJob now d =
     (case min_by (sort_key \<circ> snd) (filter (due now \<circ> snd) (orders_tbl d)) of
        None \<Rightarrow> (None, d)
      | Some (n, r) \<Rightarrow> (Some (n, claim_row now r), on_table (jmodify n (claim_row now)) d))"

definition markAuthorizeOrderSettled :: "string \<Rightarrow> string \<Rightarrow> ms \<Rightarrow> order_db \<Rightarrow> order_db" where
  "markAuthorizeOrderSettled n txHash now =
     on_table (jmodify n (\<lambda>r. r\<lparr>r_status := Settled, r_settleTx := Some txHash, r_updatedAt := now,
       r_nextRetryAt := None, r_lastError := None\<rparr>))"

definition markAuthorizeOrderFailed :: "string \<Rightarrow> string \<Rightarrow> ms \<Rightarrow> order_db \<Rightarrow> order_db" where
  "markAuthorizeOrderFailed n err now =
     on_table (jmodify n (\<lambda>r. r\<lparr>r_status := Failed, r_lastError := Some (truncErr err), r_updatedAt := now,
       r_nextRetryAt := None\<rparr>))"

definition markAuthorizeOrderDeadLetter :: "string \<Rightarrow> string \<Rightarrow> ms \<Rightarrow> order_db \<Rightarrow> order_db" where
  "markAuthorizeOrderDeadLetter n err now =
     on_table (jmodify n (\<lambda>r. r\<lparr>r_status := DeadLetter, r_lastError := Some (truncErr err), r_updatedAt := now,
       r_nextRetryAt := None\<rparr>))"

definition scheduleAuthorizeOrderRetry :: "string \<Rightarrow> nat \<Rightarrow> ms \<Rightarrow> string \<Rightarrow> ms \<Rightarrow> order_db \<Rightarrow> order_db" where
  "scheduleAuthorizeOrderRetry n attempt nextRetryAt err now =
     on_table (jmodify n (\<lambda>r. r\<lparr>r_status := Retrying, r_attempt := attempt, r_nextRetryAt := Some nextRetryAt,
       r_lastError := Some (truncErr err), r_updatedAt := now\<rparr>))"

definition deferAcceptedAuthorizeOrder :: "string \<Rightarrow> ms \<Rightarrow> ms \<Rightarrow> order_db \<Rightarrow> order_db" where
  "deferAcceptedAuthorizeOrder n nextRetryAt now =
     on_table (jmodify n (\<lambda>r. r\<lparr>r_status := Accepted, r_nextRetryAt := Some nextRetryAt, r_updatedAt := now\<rparr>))"

definition recordAuthorizeOrderTxHash :: "string \<Rightarrow> string \<Rightarrow> ms \<Rightarrow> order_db \<Rightarrow> order_db" where
  "recordAuthorizeOrderTxHash n txHash now =
     on_table (jmodify n (\<lambda>r. r\<lparr>r_settleTx := Some txHash, r_updatedAt := now\<rparr>))"

definition resetOrphanedSettlingOrders :: "ms \<Rightarrow> order_db \<Rightarrow> nat \<times> order_db" where
  "resetOrphanedSettlingOrders now d =
     (changes (\<lambda>k r. r_status r = Settling) (orders_tbl d),
      on_table (update_where (\<lambda>k r. r_status r = Settling) (\<lambda>r. r\<lparr>r_status := Accepted, r_updatedAt := now\<rparr>)) d)"

text \<open>
  \<open>CAST(text AS INTEGER)\<close>: the longest integer prefix after leading white space, 0 when there is
  none, saturated at 64 bits.
\<close>

fun digit_prefix :: "int \<Rightarrow> string \<Rightarrow> int" where
  "digit_prefix acc [] = acc"
| "digit_prefix acc (c # cs) = (if is_wei_digit c then digit_prefix (acc * 10 + int (digit_val c)) cs else acc)"

definition saturate64 :: "int \<Rightarrow> int" where
  "saturate64 i = max (- (2 ^ 63)) (min (2 ^ 63 - 1) i)"

definition cast_integer :: "string \<Rightarrow> int" where
  "cast_integer s0 = (let s = dropWhile is_ws s0 in
     saturate64 (case s of [] \<Rightarrow> 0
       | c # cs \<Rightarrow> if c = CHR ''-'' then - digit_prefix 0 cs
                   else if c = CHR ''+'' then digit_prefix 0 cs else digit_prefix 0 s))"

definition sweep_hit :: "seconds \<Rightarrow> string \<Rightarrow> db_row \<Rightarrow> bool" where
  "sweep_hit nowSeconds k r \<longleftrightarrow> r_status r \<in> {Accepted, Settling, Retrying} \<and>
     (case r_orderJson r of None \<Rightarrow> False
      | Some ord \<Rightarrow> (case expiry (publicSignals ord) of None \<Rightarrow> False | Some e \<Rightarrow> cast_integer e < nowSeconds))"

definition sweep_malformed :: "string \<Rightarrow> db_row \<Rightarrow> bool" where
  "sweep_malformed k r \<longleftrightarrow> r_status r \<in> {Accepted, Settling, Retrying} \<and> r_orderJson r = None"

text \<open>None is the \<open>malformed JSON\<close> error of \<open>json_extract\<close>, which aborts the whole statement.\<close>

definition sweepExpiredAuthorizeOrders :: "ms \<Rightarrow> order_db \<Rightarrow> (nat \<times> order_db) option" where
  "sweepExpiredAuthorizeOrders now d =
     (let nowSeconds = now div 1000 in
      if list_ex (\<lambda>(k, r). sweep_malformed k r) (orders_tbl d) then None
      else Some (changes (sweep_hit nowSeconds) (orders_tbl d),
        on_table (update_where (sweep_hit nowSeconds)
          (\<lambda>r. r\<lparr>r_status := Expired, r_updatedAt := now, r_nextRetryAt := None\<rparr>)) d))"

definition saveSettledClaimsRoot :: "string \<Rightarrow> order_db \<Rightarrow> order_db" where
  "saveSettledClaimsRoot root d = d\<lparr>claims_roots := sadd (toLowerCase root) (claims_roots d)\<rparr>"

definition hasSettledClaimsRoot :: "string \<Rightarrow> order_db \<Rightarrow> bool" where
  "hasSettledClaimsRoot root d \<longleftrightarrow> toLowerCase root \<in> set (claims_roots d)"

section \<open>Reading the table back\<close>

definition db_ok :: "order_db \<Rightarrow> bool" where
  "db_ok d = jmap_ok (orders_tbl d)"

lemma on_table_sel [simp]: "orders_tbl (on_table f d) = f (orders_tbl d)" "claims_roots (on_table f d) = claims_roots d"
  by (simp_all add: on_table_def)

lemma jget_update_where [simp]:
  "jget (update_where P f t) k = map_option (\<lambda>r. if P k r then f r else r) (jget t k)"
  by (induction t) (auto simp: update_where_def jget_def)

lemma keys_update_where [simp]: "map fst (update_where P f t) = map fst t"
  by (induction t) (auto simp: update_where_def)

lemma map_of_filter_distinct:
  "distinct (map fst t) \<Longrightarrow>
   map_of (filter Q t) k = (case map_of t k of None \<Rightarrow> None | Some v \<Rightarrow> if Q (k, v) then Some v else None)"
  by (induction t) (auto simp: map_of_eq_None_iff split: option.splits)

lemma jget_delete_where:
  "jmap_ok t \<Longrightarrow>
   jget (delete_where P t) k = (case jget t k of None \<Rightarrow> None | Some r \<Rightarrow> if P k r then None else Some r)"
  by (auto simp: delete_where_def jget_def jmap_ok_def map_of_filter_distinct split: option.splits)

lemma jmap_ok_delete_where [simp]: "jmap_ok t \<Longrightarrow> jmap_ok (delete_where P t)"
  by (simp add: jmap_ok_def delete_where_def distinct_map_filter)

lemma jmap_ok_update_where [simp]: "jmap_ok (update_where P f t) = jmap_ok t"
  by (simp add: jmap_ok_def)

lemmas [op_defs] = updateAuthorizeOrderStatus_def deleteAuthorizeOrder_def markAuthorizeOrderSettled_def
  markAuthorizeOrderFailed_def markAuthorizeOrderDeadLetter_def scheduleAuthorizeOrderRetry_def
  deferAcceptedAuthorizeOrder_def recordAuthorizeOrderTxHash_def getAuthorizeOrder_def

lemma min_by_None [simp]: "min_by f xs = None \<longleftrightarrow> xs = []"
  by (cases xs) (auto split: option.splits)

lemma min_by_Some: "min_by f xs = Some x \<Longrightarrow> x \<in> set xs \<and> (\<forall>y \<in> set xs. f x \<le> f y)"
proof (induction xs arbitrary: x)
  case (Cons a xs)
  then show ?case by (cases "min_by f xs") (force split: if_splits)+
qed simp

lemma claim_row_not_due [simp]: "\<not> due now (claim_row t r)"
  by (simp add: due_def claim_row_def)

lemma claim_Some:
  assumes ok: "db_ok d" and c: "claimNextSettlementJob now d = (Some (n, r), d')"
  shows "\<exists>r0. getAuthorizeOrder d n = Some r0 \<and> due now r0 \<and> r = claim_row now r0 \<and>
     (\<forall>m r1. getAuthorizeOrder d m = Some r1 \<and> due now r1 \<longrightarrow> sort_key r0 \<le> sort_key r1) \<and>
     d' = on_table (jmodify n (claim_row now)) d"
proof -
  obtain r0 where m: "min_by (sort_key \<circ> snd) (filter (due now \<circ> snd) (orders_tbl d)) = Some (n, r0)"
    and r: "r = claim_row now r0" "d' = on_table (jmodify n (claim_row now)) d"
    using c by (auto simp: claimNextSettlementJob_def split: option.splits prod.splits)
  from min_by_Some [OF m] have i: "(n, r0) \<in> set (orders_tbl d)" "due now r0"
    and least: "\<And>k r1. (k, r1) \<in> set (orders_tbl d) \<Longrightarrow> due now r1 \<Longrightarrow> sort_key r0 \<le> sort_key r1"
    by auto
  have "jget (orders_tbl d) n = Some r0" using ok i by (simp add: in_jget [symmetric] db_ok_def)
  then show ?thesis using r i least by (auto simp: getAuthorizeOrder_def dest: jget_in)
qed

lemma claim_None:
  assumes "claimNextSettlementJob now d = (None, d')"
  shows "d' = d \<and> (\<forall>m r. getAuthorizeOrder d m = Some r \<longrightarrow> \<not> due now r)"
proof -
  have "filter (due now \<circ> snd) (orders_tbl d) = []" "d' = d"
    using assms by (auto simp: claimNextSettlementJob_def split: option.splits prod.splits)
  then show ?thesis by (auto simp: getAuthorizeOrder_def filter_empty_conv dest!: jget_in)
qed

section \<open>The queue interface\<close>

text \<open>
  The ways the worker finishes a claimed job, and what each does to the row.  The locale
  \<open>settlement_queue\<close> is what the worker relies on; it is interpreted on the methods above.
\<close>

datatype job_outcome =
    JSettled string
  | JFailed string
  | JDeadLetter string
  | JRetry nat ms string
  | JDefer ms

fun finish_row :: "job_outcome \<Rightarrow> ms \<Rightarrow> db_row \<Rightarrow> db_row" where
  "finish_row (JSettled tx) now r = r\<lparr>r_status := Settled, r_settleTx := Some tx, r_updatedAt := now,
     r_nextRetryAt := None, r_lastError := None\<rparr>"
| "finish_row (JFailed e) now r = r\<lparr>r_status := Failed, r_lastError := Some (truncErr e), r_updatedAt := now,
     r_nextRetryAt := None\<rparr>"
| "finish_row (JDeadLetter e) now r = r\<lparr>r_status := DeadLetter, r_lastError := Some (truncErr e),
     r_updatedAt := now, r_nextRetryAt := None\<rparr>"
| "finish_row (JRetry a t e) now r = r\<lparr>r_status := Retrying, r_attempt := a, r_nextRetryAt := Some t,
     r_lastError := Some (truncErr e), r_updatedAt := now\<rparr>"
| "finish_row (JDefer t) now r = r\<lparr>r_status := Accepted, r_nextRetryAt := Some t, r_updatedAt := now\<rparr>"

fun finish_job :: "job_outcome \<Rightarrow> string \<Rightarrow> ms \<Rightarrow> order_db \<Rightarrow> order_db" where
  "finish_job (JSettled tx) n now d = markAuthorizeOrderSettled n tx now d"
| "finish_job (JFailed e) n now d = markAuthorizeOrderFailed n e now d"
| "finish_job (JDeadLetter e) n now d = markAuthorizeOrderDeadLetter n e now d"
| "finish_job (JRetry a t e) n now d = scheduleAuthorizeOrderRetry n a t e now d"
| "finish_job (JDefer t) n now d = deferAcceptedAuthorizeOrder n t now d"

text \<open>An outcome that leaves the row due again only later.\<close>

fun later :: "ms \<Rightarrow> job_outcome \<Rightarrow> bool" where
  "later now (JRetry a t e) = (now < t)"
| "later now (JDefer t) = (now < t)"
| "later now _ = True"

lemma finish_row_not_due: "later now o' \<Longrightarrow> \<not> due now (finish_row o' t r)"
  by (cases o') (auto simp: due_def)

lemma finish_job_table: "orders_tbl (finish_job o' n now d) = jmodify n (finish_row o' now) (orders_tbl d)"
  by (cases o') (simp_all add: op_defs jmodify_def split: prod.splits)

lemma finish_job_get:
  "getAuthorizeOrder (finish_job o' n now d) m =
     (if m = n then map_option (finish_row o' now) (getAuthorizeOrder d n) else getAuthorizeOrder d m)"
  by (simp add: getAuthorizeOrder_def finish_job_table)

locale settlement_queue =
  fixes row :: "'d \<Rightarrow> string \<Rightarrow> db_row option"
    and claim :: "ms \<Rightarrow> 'd \<Rightarrow> (string \<times> db_row) option \<times> 'd"
    and finish :: "job_outcome \<Rightarrow> string \<Rightarrow> ms \<Rightarrow> 'd \<Rightarrow> 'd"
    and ok :: "'d \<Rightarrow> bool"
  assumes claim_takes: "ok d \<Longrightarrow> claim now d = (Some (n, r), d') \<Longrightarrow>
      \<exists>r0. row d n = Some r0 \<and> due now r0 \<and> r = claim_row now r0"
    and claim_oldest: "ok d \<Longrightarrow> claim now d = (Some (n, r), d') \<Longrightarrow>
      row d n = Some r0 \<Longrightarrow> row d m = Some r1 \<Longrightarrow> due now r1 \<Longrightarrow> sort_key r0 \<le> sort_key r1"
    and claim_writes: "ok d \<Longrightarrow> claim now d = (Some (n, r), d') \<Longrightarrow>
      row d' m = (if m = n then Some r else row d m)"
    and claim_empty: "ok d \<Longrightarrow> claim now d = (None, d') \<Longrightarrow>
      d' = d \<and> (\<forall>m r. row d m = Some r \<longrightarrow> \<not> due now r)"
    and claim_ok: "ok d \<Longrightarrow> claim now d = (c, d') \<Longrightarrow> ok d'"
    and finish_writes: "row (finish o' n now d) m =
      (if m = n then map_option (finish_row o' now) (row d n) else row d m)"
    and finish_ok: "ok d \<Longrightarrow> ok (finish o' n now d)"
begin

lemma claimed_is_settling:
  "ok d \<Longrightarrow> claim now d = (Some (n, r), d') \<Longrightarrow> row d' n = Some r \<and> r_status r = Settling \<and> \<not> due t r"
  using claim_takes [of d now n r d'] claim_writes [of d now n r d' n]
  by (auto simp: claim_row_def due_def)

text \<open>A finished job is not handed out again at the same time, so a tick never loops on one order.\<close>

lemma not_reclaimed:
  assumes "ok d" "claim now d = (Some (n, r), d1)" "later now o'"
    and "claim now (finish o' n now d1) = (Some (m, r'), d2)"
  shows "m \<noteq> n"
proof
  assume "m = n"
  have ok1: "ok d1" using assms(1,2) by (rule claim_ok)
  then obtain r0 where "row (finish o' n now d1) n = Some r0" "due now r0"
    using claim_takes finish_ok assms(4) \<open>m = n\<close> by blast
  moreover have "row d1 n = Some r" using claim_writes assms(1,2) by simp
  ultimately show False using finish_row_not_due [OF assms(3)] by (auto simp: finish_writes)
qed

text \<open>Jobs still due are untouched by claiming and finishing another one.\<close>

lemma others_untouched:
  "ok d \<Longrightarrow> claim now d = (Some (n, r), d1) \<Longrightarrow> m \<noteq> n \<Longrightarrow> row (finish o' n t d1) m = row d m"
  by (simp add: finish_writes claim_writes)

lemma job_row_after:
  "ok d \<Longrightarrow> claim now d = (Some (n, r), d1) \<Longrightarrow> row (finish o' n t d1) n = Some (finish_row o' t r)"
  by (simp add: finish_writes claim_writes)

end

lemma db_ok_finish: "db_ok d \<Longrightarrow> db_ok (finish_job o' n now d)"
  by (simp add: db_ok_def finish_job_table)

lemma db_ok_claim: "db_ok d \<Longrightarrow> claimNextSettlementJob now d = (c, d') \<Longrightarrow> db_ok d'"
proof (cases c)
  case None
  then show "db_ok d \<Longrightarrow> claimNextSettlementJob now d = (c, d') \<Longrightarrow> db_ok d'"
    using claim_None by blast
next
  case (Some j)
  then show "db_ok d \<Longrightarrow> claimNextSettlementJob now d = (c, d') \<Longrightarrow> db_ok d'"
    using claim_Some by (cases j) (fastforce simp: db_ok_def)
qed

interpretation sq: settlement_queue getAuthorizeOrder claimNextSettlementJob finish_job db_ok
proof
  fix d d' :: order_db and now :: ms and n m and r r0 r1
  assume d: "db_ok d"
  show "\<exists>r0. getAuthorizeOrder d n = Some r0 \<and> due now r0 \<and> r = claim_row now r0"
    if "claimNextSettlementJob now d = (Some (n, r), d')"
    using claim_Some [OF d that] by blast
  show "sort_key r0 \<le> sort_key r1"
    if "claimNextSettlementJob now d = (Some (n, r), d')" "getAuthorizeOrder d n = Some r0"
      "getAuthorizeOrder d m = Some r1" "due now r1"
    using claim_Some [OF d that(1)] that by auto
  show "getAuthorizeOrder d' m = (if m = n then Some r else getAuthorizeOrder d m)"
    if "claimNextSettlementJob now d = (Some (n, r), d')"
    using claim_Some [OF d that] by (auto simp: getAuthorizeOrder_def)
  show "d' = d \<and> (\<forall>m r. getAuthorizeOrder d m = Some r \<longrightarrow> \<not> due now r)"
    if "claimNextSettlementJob now d = (None, d')"
    using claim_None [OF that] .
qed (auto simp: finish_job_get intro: db_ok_finish db_ok_claim)

section \<open>Properties\<close>

text \<open>
  C16.  The dequeue is atomic and ordered: it takes a row that is due, one with the least
  \<open>COALESCE(next_retry_at, submitted_at)\<close>, turns that row and no other to \<open>settling\<close>, and
  answers null only when no row is due.  A claimed row is not due any more, at any time.
\<close>

theorem claim_spec:
  assumes "db_ok d"
  shows "case claimNextSettlementJob now d of
      (None, d') \<Rightarrow> d' = d \<and> (\<forall>m r. getAuthorizeOrder d m = Some r \<longrightarrow> \<not> due now r)
    | (Some (n, r), d') \<Rightarrow>
        (\<exists>r0. getAuthorizeOrder d n = Some r0 \<and> due now r0 \<and> r = claim_row now r0 \<and>
          (\<forall>m r1. getAuthorizeOrder d m = Some r1 \<and> due now r1 \<longrightarrow> sort_key r0 \<le> sort_key r1)) \<and>
        (\<forall>m. getAuthorizeOrder d' m = (if m = n then Some r else getAuthorizeOrder d m)) \<and>
        (\<forall>t. \<not> due t r) \<and> db_ok d'"
proof (cases "claimNextSettlementJob now d")
  case (Pair c d')
  show ?thesis
  proof (cases c)
    case None
    then show ?thesis using Pair sq.claim_empty [OF assms] by simp
  next
    case (Some j)
    obtain n r where j: "j = (n, r)" by (cases j)
    have e: "claimNextSettlementJob now d = (Some (n, r), d')" using Pair Some j by simp
    show ?thesis
      using sq.claim_takes [OF assms e] sq.claim_oldest [OF assms e] sq.claim_writes [OF assms e]
        sq.claimed_is_settling [OF assms e] sq.claim_ok [OF assms e] Pair Some j by auto
  qed
qed

text \<open>The maintenance the process performs on the table on its own: boot, timers, the dequeue.\<close>

datatype maintenance = MBoot ms | MSweep ms | MClaim ms | MPurge "int option" ms

fun maintain :: "maintenance \<Rightarrow> order_db \<Rightarrow> order_db" where
  "maintain (MBoot now) d = snd (resetOrphanedSettlingOrders now d)"
| "maintain (MSweep now) d = (case sweepExpiredAuthorizeOrders now d of None \<Rightarrow> d | Some (n, d') \<Rightarrow> d')"
| "maintain (MClaim now) d = snd (claimNextSettlementJob now d)"
| "maintain (MPurge env now) d = snd (purgeNonPendingAuthorizeOrdersDB env now d)"

fun maintain_all :: "maintenance list \<Rightarrow> order_db \<Rightarrow> order_db" where
  "maintain_all [] d = d"
| "maintain_all (m # ms) d = maintain_all ms (maintain m d)"

lemma db_ok_maintain: "db_ok d \<Longrightarrow> db_ok (maintain m d)"
proof (cases m)
  case (MClaim now)
  then show "db_ok d \<Longrightarrow> db_ok (maintain m d)"
    using db_ok_claim by (cases "claimNextSettlementJob now d") auto
qed (auto simp: db_ok_def resetOrphanedSettlingOrders_def sweepExpiredAuthorizeOrders_def Let_def
  purgeNonPendingAuthorizeOrdersDB_def)

lemma maintain_matched:
  assumes "db_ok d" "getAuthorizeOrder d n = Some r" "r_status r = Matched"
  shows "getAuthorizeOrder (maintain m d) n = Some r"
proof (cases m)
  case (MClaim now)
  show ?thesis
  proof (cases "claimNextSettlementJob now d")
    case (Pair c d')
    show ?thesis
    proof (cases c)
      case None
      then show ?thesis using MClaim Pair assms claim_None [of now d d'] by simp
    next
      case (Some j)
      obtain k r' where j: "j = (k, r')" by (cases j)
      have e: "claimNextSettlementJob now d = (Some (k, r'), d')" using Pair Some j by simp
      have "k \<noteq> n" using sq.claim_takes [OF assms(1) e] assms(2,3) by (auto simp: due_def)
      then show ?thesis using MClaim Pair assms(2) sq.claim_writes [OF assms(1) e, of n] by simp
    qed
  qed
next
  case (MPurge env now)
  then show ?thesis using assms
    by (auto simp: purgeNonPendingAuthorizeOrdersDB_def getAuthorizeOrder_def Let_def db_ok_def
        jget_delete_where purgeable_def restorable_def)
qed (use assms in \<open>auto simp: resetOrphanedSettlingOrders_def sweepExpiredAuthorizeOrders_def
  getAuthorizeOrder_def sweep_hit_def Let_def\<close>)

text \<open>
  A row left in \<open>matched\<close> by a crash is out of reach of every recovery mechanism of the
  table: no sequence of boot resets, expiry sweeps, dequeues and purges, at any times, changes it.
\<close>

lemma matched_row_is_stuck:
  assumes "db_ok d" "getAuthorizeOrder d n = Some r" "r_status r = Matched"
  shows "getAuthorizeOrder (maintain_all ms d) n = Some r"
  using assms
proof (induction ms arbitrary: d)
  case (Cons m ms)
  then show ?case using maintain_matched [of d n r m] db_ok_maintain by simp
qed simp

text \<open>
  The purge deletes exactly the rows in a terminal status whose last change is older than
  the retention period, and nothing at all with the default retention; it never deletes a live
  or in-flight row, and its result is the number of rows deleted.
\<close>

lemma purge_spec:
  assumes "db_ok d" "purgeNonPendingAuthorizeOrdersDB env now d = (k, d')"
  shows "(\<forall>n. getAuthorizeOrder d' n = (case getAuthorizeOrder d n of None \<Rightarrow> None
           | Some r \<Rightarrow> if 0 < readRetentionMs env \<and> isTerminalStatus (r_status r) \<and>
                          r_updatedAt r < now - readRetentionMs env then None else Some r))
         \<and> length (orders_tbl d) = k + length (orders_tbl d')"
proof -
  have t: "\<not> restorable s \<longleftrightarrow> isTerminalStatus s" for s
    by (cases s) (auto simp: restorable_def terminal_iff)
  have len: "length t = changes P t + length (delete_where P t)" for P t
    by (induction t) (auto simp: changes_def delete_where_def)
  show ?thesis
  proof (cases "0 < readRetentionMs env")
    case True
    then have "d' = on_table (delete_where (purgeable (now - readRetentionMs env))) d"
      "k = changes (purgeable (now - readRetentionMs env)) (orders_tbl d)"
      using assms(2) by (auto simp: purgeNonPendingAuthorizeOrdersDB_def Let_def)
    then show ?thesis using assms(1) True len [of "orders_tbl d"]
      by (auto simp: getAuthorizeOrder_def db_ok_def jget_delete_where purgeable_def t split: option.splits)
  next
    case False
    then show ?thesis using assms(2)
      by (auto simp: purgeNonPendingAuthorizeOrdersDB_def Let_def split: option.splits)
  qed
qed

end
