(* ===== verification/OrderStore.thy ===== *)
theory OrderStore
  imports OrderDb
begin

text \<open>
  The in-memory order store and the HTTP handlers of \<open>zk-relayer/src/routes/authorize-orders.ts\<close>:
  the three module-level Maps, restore at boot, the POST handler in the three synchronous segments
  that its \<open>await\<close>s cut it into, status polling, matching, drain, on-chain cancel and purge.

  An object held in \<open>authorizeOrders\<close> is identified by its key (every object is stored under one
  key).  A modelled function returns None where the source throws.  The database is
  \<open>order_db option\<close> like the module variable \<open>_db\<close>.  Calls to the shared-orderbook client are
  fire-and-forget and are returned as a list of \<open>ob_call\<close>s.  Poseidon and the Groth16 verifier are
  third-party code: the hash is a parameter and the verifier's answer an input.
\<close>

record store =
  authorizeOrders :: "(string, stored_order) jmap"
  pendingCountByPubKey :: "(string, int) jmap"
  ordersByPair :: "(string, string list) jmap"

definition empty_store :: store where
  "empty_store = \<lparr>authorizeOrders = [], pendingCountByPubKey = [], ordersByPair = []\<rparr>"

record ob_listing =
  ol_id :: string
  ol_sellToken :: string
  ol_buyToken :: string
  ol_sellAmount :: "string option"
  ol_buyAmount :: "string option"
  ol_minFillAmount :: "string option"
  ol_maxFee :: "int option"
  ol_expiry :: "int option"

datatype ob_call = CallPost ob_listing | CallMatched string | CallCancel string

section \<open>The pair index\<close>

definition directedPairKey :: "string option \<Rightarrow> string option \<Rightarrow> string option" where
  "directedPairKey sell buy =
     Option.bind (big sell) (\<lambda>s. map_option (\<lambda>b. dec s @ '':'' @ dec b) (big buy))"

definition sameToken :: "authorize_order_file \<Rightarrow> bool option" where
  "sameToken order = Option.bind (big (sellToken (publicSignals order)))
     (\<lambda>s. map_option (\<lambda>b. s = b) (big (buyToken (publicSignals order))))"

definition order_pair :: "authorize_order_file \<Rightarrow> string option" where
  "order_pair order = directedPairKey (sellToken (publicSignals order)) (buyToken (publicSignals order))"

definition indexAuthorizeOrder :: "string \<Rightarrow> authorize_order_file \<Rightarrow> store \<Rightarrow> store option" where
  "indexAuthorizeOrder n order st =
     Option.bind (sameToken order) (\<lambda>same.
       if same then Some st
       else map_option (\<lambda>key. st\<lparr>ordersByPair := jset key (sadd n (bucket (ordersByPair st) key)) (ordersByPair st)\<rparr>)
              (order_pair order))"

definition unindexAuthorizeOrder :: "string \<Rightarrow> authorize_order_file \<Rightarrow> store \<Rightarrow> store option" where
  "unindexAuthorizeOrder n order st =
     Option.bind (sameToken order) (\<lambda>same.
       if same then Some st
       else map_option (\<lambda>key.
         case jget (ordersByPair st) key of
           None \<Rightarrow> st
         | Some bkt \<Rightarrow> let b' = sdelete n bkt in
             st\<lparr>ordersByPair := (if b' = [] then jdelete key (ordersByPair st)
                                 else jset key b' (ordersByPair st))\<rparr>) (order_pair order))"

definition lookupAuthorizeOrdersByCounterPair ::
  "string option \<Rightarrow> string option \<Rightarrow> store \<Rightarrow> (string \<times> stored_order) list option" where
  "lookupAuthorizeOrdersByCounterPair counterSellToken counterBuyToken st =
     map_option (\<lambda>key. List.map_filter (\<lambda>n. map_option (Pair n) (jget (authorizeOrders st) n))
        (bucket (ordersByPair st) key))
       (directedPairKey counterBuyToken counterSellToken)"

section \<open>Per-key counters\<close>

definition MAX_AUTHORIZE_ORDERS :: nat where "MAX_AUTHORIZE_ORDERS = 10000"
definition MAX_ORDERS_PER_PUBKEY :: int where "MAX_ORDERS_PER_PUBKEY = 50"
definition MAX_EXPIRY_DURATION_SECS :: int where "MAX_EXPIRY_DURATION_SECS = 24 * 60 * 60"
definition MAX_PUBKEY_LEN :: nat where "MAX_PUBKEY_LEN = 80"

definition pubKeyId :: "string \<Rightarrow> string \<Rightarrow> string option" where
  "pubKeyId ax ay =
     (if MAX_PUBKEY_LEN < length ax \<or> MAX_PUBKEY_LEN < length ay then None
      else Option.bind (js_BigInt ax) (\<lambda>x. map_option (\<lambda>y. dec x @ '':'' @ dec y) (js_BigInt ay)))"

definition pendingCount :: "store \<Rightarrow> string \<Rightarrow> int" where
  "pendingCount st i = (case jget (pendingCountByPubKey st) i of None \<Rightarrow> 0 | Some c \<Rightarrow> c)"

definition incPubKeyCount :: "string \<Rightarrow> string \<Rightarrow> store \<Rightarrow> store option" where
  "incPubKeyCount ax ay st = map_option (\<lambda>i.
     st\<lparr>pendingCountByPubKey := jset i (pendingCount st i + 1) (pendingCountByPubKey st)\<rparr>) (pubKeyId ax ay)"

definition decPubKeyCount :: "string \<Rightarrow> string \<Rightarrow> store \<Rightarrow> store option" where
  "decPubKeyCount ax ay st = map_option (\<lambda>i.
     let count = pendingCount st i - 1 in
     st\<lparr>pendingCountByPubKey := (if count \<le> 0 then jdelete i (pendingCountByPubKey st)
                                 else jset i count (pendingCountByPubKey st))\<rparr>) (pubKeyId ax ay)"

text \<open>\<open>if (ax && ay) decPubKeyCount(ax, ay)\<close>.\<close>

definition release_slot :: "string option \<Rightarrow> string option \<Rightarrow> store \<Rightarrow> store option" where
  "release_slot ax ay st =
     (case (ax, ay) of (Some x, Some y) \<Rightarrow> if x = [] \<or> y = [] then Some st else decPubKeyCount x y st
      | _ \<Rightarrow> Some st)"

definition nullifierToOfferHandle :: "string \<Rightarrow> string option" where
  "nullifierToOfferHandle n = map_option (hexPad 64) (js_BigInt n)"

section \<open>Replies\<close>

fun idempotencyHttpCode :: "order_status \<Rightarrow> nat" where
  "idempotencyHttpCode DeadLetter = 409"
| "idempotencyHttpCode s = (if isTerminalStatus s then 200 else 202)"

definition normalizeEpochMs :: "int \<Rightarrow> int" where
  "normalizeEpochMs v = (if v < 1000000000000 then v * 1000 else v)"

record status_reply =
  sr_status :: order_status
  sr_submittedAt :: ms
  sr_updatedAt :: ms
  sr_attempt :: nat
  sr_settleTxHash :: "string option"
  sr_error :: "string option"
  sr_expiresAt :: "int option"

text \<open>\<open>Number(s)\<close> on an integer literal; None is NaN, which JSON renders as null.\<close>

definition js_Number :: "string option \<Rightarrow> int option" where
  "js_Number v = map_option js_round (big v)"

definition buildStatusReply :: "db_row \<Rightarrow> authorize_order_file option \<Rightarrow> status_reply" where
  "buildStatusReply row order =
     \<lparr>sr_status = r_status row, sr_submittedAt = normalizeEpochMs (r_submittedAt row),
      sr_updatedAt = normalizeEpochMs (if r_updatedAt row = 0 then r_submittedAt row else r_updatedAt row),
      sr_attempt = r_attempt row, sr_settleTxHash = r_settleTx row, sr_error = r_lastError row,
      sr_expiresAt = Option.bind order (\<lambda>ord. js_Number (expiry (publicSignals ord)))\<rparr>"

datatype response = RError nat string | RStatus nat status_reply string

definition cached_reply :: "stored_order \<Rightarrow> status_reply" where
  "cached_reply c =
     \<lparr>sr_status = so_status c, sr_submittedAt = so_submittedAt c, sr_updatedAt = so_submittedAt c,
      sr_attempt = 0, sr_settleTxHash = so_settleTxHash c, sr_error = None,
      sr_expiresAt = js_Number (expiry (publicSignals (so_order c)))\<rparr>"

section \<open>Restore at boot\<close>

definition put_order :: "string \<Rightarrow> stored_order \<Rightarrow> store \<Rightarrow> store" where
  "put_order n so st = st\<lparr>authorizeOrders := jset n so (authorizeOrders st)\<rparr>"

definition drop_order :: "string \<Rightarrow> store \<Rightarrow> store" where
  "drop_order n st = st\<lparr>authorizeOrders := jdelete n (authorizeOrders st)\<rparr>"

definition set_status :: "string \<Rightarrow> order_status \<Rightarrow> store \<Rightarrow> store" where
  "set_status n s st = st\<lparr>authorizeOrders := jmodify n (\<lambda>so. so\<lparr>so_status := s\<rparr>) (authorizeOrders st)\<rparr>"

definition stored_of_row :: "db_row \<Rightarrow> authorize_order_file \<Rightarrow> stored_order" where
  "stored_of_row row ord = \<lparr>so_order = ord, so_status = r_status row,
     so_submittedAt = normalizeEpochMs (r_submittedAt row), so_settleTxHash = r_settleTx row,
     so_crossRelayer = False, so_pubKeyAx = r_pubKeyAx row, so_pubKeyAy = r_pubKeyAy row\<rparr>"

text \<open>One row; a throw leaves what was done before it and deletes the row.\<close>

definition restore_row :: "string \<times> db_row \<Rightarrow> store \<times> order_db \<Rightarrow> store \<times> order_db" where
  "restore_row p s = (case (p, s) of ((n, row), (st, db)) \<Rightarrow>
     if \<not> isWeiString n then (st, deleteAuthorizeOrder n db)
     else case r_orderJson row of None \<Rightarrow> (st, deleteAuthorizeOrder n db) | Some ord \<Rightarrow>
       let st1 = put_order n (stored_of_row row ord) st in
       case indexAuthorizeOrder n ord st1 of None \<Rightarrow> (st1, deleteAuthorizeOrder n db) | Some st2 \<Rightarrow>
         if (isLiveStatus (r_status row) \<or> isInFlightStatus (r_status row)) \<and>
            truthy (r_pubKeyAx row) \<and> truthy (r_pubKeyAy row)
         then (case (r_pubKeyAx row, r_pubKeyAy row) of
                 (Some ax, Some ay) \<Rightarrow> (case incPubKeyCount ax ay st2 of
                     None \<Rightarrow> (st2, deleteAuthorizeOrder n db) | Some st3 \<Rightarrow> (st3, db))
               | _ \<Rightarrow> (st2, db))
         else (st2, db))"

definition restoreAuthorizeOrders :: "store \<times> order_db \<Rightarrow> store \<times> order_db" where
  "restoreAuthorizeOrders s = fold restore_row (loadPendingAuthorizeOrders (snd s)) s"

section \<open>POST /api/authorize-orders\<close>

datatype proof_check = ProofValid | ProofInvalid | ProofUnavailable

record post_env =
  pe_start :: ms                    \<comment> \<open>Date.now() when the request is read\<close>
  pe_accept :: ms                   \<comment> \<open>Date.now() when the order is accepted\<close>
  pe_relayer :: string
  pe_verifyOrderProofs :: bool
  pe_sanctioned :: "string list"
  pe_poseidon :: "int list \<Rightarrow> int"
  pe_proof :: proof_check           \<comment> \<open>the verifier's answer\<close>
  pe_shared :: bool                 \<comment> \<open>a shared-orderbook client is configured\<close>

record post_request =
  rq_order :: authorize_order_file
  rq_pubKeyAx :: "string option"
  rq_pubKeyAy :: "string option"

type_synonym post_state = "store \<times> order_db option"

text \<open>The nullifier of a validated order (present by then).\<close>

definition order_nullifier :: "authorize_order_file \<Rightarrow> string" where
  "order_nullifier ord = (case nullifier (publicSignals ord) of Some n \<Rightarrow> n | None \<Rightarrow> [])"

definition server_error :: response where
  "server_error = RError 500 ''Internal server error''"

definition post_caps :: "post_request \<Rightarrow> string \<Rightarrow> seconds \<Rightarrow> post_state \<Rightarrow> response option" where
  "post_caps rq n nowSeconds s = (case s of (st, db) \<Rightarrow>
    let cached = jget (authorizeOrders st) n; order = rq_order rq in
    if (case cached of None \<Rightarrow> False | Some c \<Rightarrow> so_status c \<noteq> Failed)
    then Some (RStatus 202 (cached_reply (the cached)) n)
    else if MAX_AUTHORIZE_ORDERS \<le> jsize (authorizeOrders st)
    then Some (RError 503 ''Authorize order store full. Try again later.'')
    else if MAX_EXPIRY_DURATION_SECS < js_round (num (expiry (publicSignals order))) - nowSeconds
    then Some (RError 400 (''Expiry too far in future (max '' @ dec MAX_EXPIRY_DURATION_SECS @ ''s)''))
    else if \<not> truthy (rq_pubKeyAx rq) \<or> \<not> truthy (rq_pubKeyAy rq)
    then Some (RError 400 ''pubKeyAx and pubKeyAy are required for compliance'')
    else None)"

text \<open>
  First segment: validation, idempotency, size and expiry caps, presence of the keys.  The answer
  None lets the request go on.
\<close>

definition post_begin :: "post_env \<Rightarrow> post_request \<Rightarrow> post_state \<Rightarrow> response option \<times> post_state" where
  "post_begin env rq s = (case s of (st, db) \<Rightarrow>
    let order = rq_order rq; nowSeconds = pe_start env div 1000 in
    case validateAuthorizeOrder order (pe_relayer env) nowSeconds of
      Some e \<Rightarrow> (Some (RError 400 e), s)
    | None \<Rightarrow>
      let n = order_nullifier order; existing = Option.bind db (\<lambda>d. getAuthorizeOrder d n) in
      case existing of
        Some row \<Rightarrow>
          if r_status row = Failed
          then (let s' = (drop_order n st, map_option (deleteAuthorizeOrder n) db)
                in (post_caps rq n nowSeconds s', s'))
          else (Some (RStatus (idempotencyHttpCode (r_status row))
                  (buildStatusReply row (case r_orderJson row of Some p \<Rightarrow> Some p | None \<Rightarrow> Some order)) n), s)
      | None \<Rightarrow> (post_caps rq n nowSeconds s, s))"

text \<open>
  Second segment, after the Poseidon await: key binding, sanctions, and the per-key limit with the
  optimistic increment.
\<close>

definition post_reserve :: "post_env \<Rightarrow> post_request \<Rightarrow> post_state \<Rightarrow> response option \<times> post_state" where
  "post_reserve env rq s = (case s of (st, db) \<Rightarrow>
    case (rq_pubKeyAx rq, rq_pubKeyAy rq, big (rq_pubKeyAx rq), big (rq_pubKeyAy rq)) of
      (Some ax, Some ay, Some x, Some y) \<Rightarrow>
        if Some (dec (pe_poseidon env [x, y, num (nullifier (publicSignals (rq_order rq)))]))
             \<noteq> pubKeyBind (publicSignals (rq_order rq))
        then (Some (RError 400 ''pubKey does not match pubKeyBind in proof''), s)
        else (case pubKeyId ax ay of
          None \<Rightarrow> (Some server_error, s)
        | Some pkId \<Rightarrow>
            if pkId \<in> set (pe_sanctioned env)
            then (Some (RError 403 ''Order rejected: pubKey is on sanctions list''), s)
            else if MAX_ORDERS_PER_PUBKEY \<le> pendingCount st pkId
            then (Some (RError 429 (''Too many pending orders for this pubKey (max '' @
                    dec MAX_ORDERS_PER_PUBKEY @ '')'')), s)
            else (case incPubKeyCount ax ay st of
                    None \<Rightarrow> (Some server_error, s) | Some st' \<Rightarrow> (None, (st', db))))
    | _ \<Rightarrow> (Some server_error, s))"

definition listing_of :: "string \<Rightarrow> authorize_order_file \<Rightarrow> ob_listing option" where
  "listing_of n order = (let ps = publicSignals order in
     Option.bind (nullifierToOfferHandle n) (\<lambda>h. Option.bind (publicSignalToAddress (sellToken ps)) (\<lambda>s.
       map_option (\<lambda>b. \<lparr>ol_id = h, ol_sellToken = s, ol_buyToken = b, ol_sellAmount = sellAmount ps,
         ol_buyAmount = buyAmount ps, ol_minFillAmount = buyAmount ps, ol_maxFee = js_Number (maxFee ps),
         ol_expiry = js_Number (expiry ps)\<rparr>) (publicSignalToAddress (buyToken ps)))))"

definition accepted_reply :: "ms \<Rightarrow> authorize_order_file \<Rightarrow> status_reply" where
  "accepted_reply t order = \<lparr>sr_status = Accepted, sr_submittedAt = t, sr_updatedAt = t, sr_attempt = 0,
     sr_settleTxHash = None, sr_error = None, sr_expiresAt = js_Number (expiry (publicSignals order))\<rparr>"

text \<open>Segment five: seed the match cache, index and publish.\<close>

definition post_publish ::
  "post_env \<Rightarrow> post_request \<Rightarrow> string \<Rightarrow> post_state \<Rightarrow> response \<times> ob_call list \<times> post_state" where
  "post_publish env rq n s = (case s of (st, db) \<Rightarrow>
    let order = rq_order rq; t = pe_accept env;
        stored = \<lparr>so_order = order, so_status = Accepted, so_submittedAt = t, so_settleTxHash = None,
          so_crossRelayer = False, so_pubKeyAx = rq_pubKeyAx rq, so_pubKeyAy = rq_pubKeyAy rq\<rparr>;
        st1 = put_order n stored st;
        reply = RStatus 202 (accepted_reply t order) n in
    case indexAuthorizeOrder n order st1 of
      None \<Rightarrow> (server_error, [], (st1, db))
    | Some st2 \<Rightarrow>
        if pe_shared env \<and> sameToken order = Some False
        then (case listing_of n order of
                None \<Rightarrow> (server_error, [], (st2, db))
              | Some l \<Rightarrow> (reply, [CallPost l], (st2, db)))
        else (reply, [], (st2, db)))"

text \<open>Third segment, after the proof verifier answered: release the slot or accept.\<close>

definition post_finish :: "post_env \<Rightarrow> post_request \<Rightarrow> post_state \<Rightarrow> response \<times> ob_call list \<times> post_state" where
  "post_finish env rq s = (case s of (st, db) \<Rightarrow>
    let order = rq_order rq; n = order_nullifier order;
        released = release_slot (rq_pubKeyAx rq) (rq_pubKeyAy rq) st in
    if pe_verifyOrderProofs env \<and> pe_proof env \<noteq> ProofValid
    then (case released of
            None \<Rightarrow> (server_error, [], s)
          | Some st' \<Rightarrow>
              (if pe_proof env = ProofUnavailable
               then RError 503 ''Proof verification unavailable. Try again later.''
               else RError 400 ''Invalid authorize proof'', [], (st', db)))
    else case db of
      None \<Rightarrow> post_publish env rq n s
    | Some d \<Rightarrow>
        (case insertAcceptedOrder n (pe_accept env) (Some order) (rq_pubKeyAx rq) (rq_pubKeyAy rq) d of
           Some d' \<Rightarrow> post_publish env rq n (st, Some d')
         | None \<Rightarrow>
             (case released of
                None \<Rightarrow> (server_error, [], s)
              | Some st' \<Rightarrow>
                  (case getAuthorizeOrder d n of
                     Some row \<Rightarrow> (RStatus (idempotencyHttpCode (r_status row))
                                   (buildStatusReply row (Some order)) n, [], (st', db))
                   | None \<Rightarrow> (server_error, [], (st', db))))))"

text \<open>The whole handler when no other event runs at its awaits.\<close>

definition postAuthorizeOrder :: "post_env \<Rightarrow> post_request \<Rightarrow> post_state \<Rightarrow> response \<times> ob_call list \<times> post_state" where
  "postAuthorizeOrder env rq s =
     (case post_begin env rq s of
        (Some r, s1) \<Rightarrow> (r, [], s1)
      | (None, s1) \<Rightarrow>
          (case post_reserve env rq s1 of
             (Some r, s2) \<Rightarrow> (r, [], s2)
           | (None, s2) \<Rightarrow> post_finish env rq s2))"

section \<open>GET and DELETE\<close>

definition getOrderStatus :: "string \<Rightarrow> post_state \<Rightarrow> response" where
  "getOrderStatus n s = (case s of (st, db) \<Rightarrow>
     case Option.bind db (\<lambda>d. getAuthorizeOrder d n) of
       Some row \<Rightarrow> RStatus 200 (buildStatusReply row
           (case jget (authorizeOrders st) n of Some c \<Rightarrow> Some (so_order c) | None \<Rightarrow> r_orderJson row)) n
     | None \<Rightarrow>
         (case jget (authorizeOrders st) n of
            Some c \<Rightarrow> RStatus 200 (cached_reply c) n
          | None \<Rightarrow> RError 404 ''Order not found''))"

definition deleteOrder :: "string \<Rightarrow> response" where
  "deleteOrder n = RError 501
     ''Unauthenticated cancel is disabled. Use order expiry or contact the relayer operator.''"

section \<open>Matching\<close>

text \<open>The loop over the candidates: the key of the first compatible live one.\<close>

fun find_match_loop ::
  "(string \<times> stored_order) list \<Rightarrow> string \<Rightarrow> authorize_public_signals \<Rightarrow> string option option" where
  "find_match_loop [] self inPs = Some None"
| "find_match_loop ((n, c) # cs) self inPs =
     (if n = self then find_match_loop cs self inPs
      else if \<not> isLiveStatus (so_status c) then find_match_loop cs self inPs
      else let cPs = publicSignals (so_order c) in
        (case isTokenCompatible cPs inPs of
           None \<Rightarrow> None
         | Some False \<Rightarrow> find_match_loop cs self inPs
         | Some True \<Rightarrow>
             (case isPriceCompatible cPs inPs of
                None \<Rightarrow> None
              | Some False \<Rightarrow> find_match_loop cs self inPs
              | Some True \<Rightarrow> Some (Some n))))"

text \<open>The maker's key; the taker is the incoming order, stored under \<open>self\<close>.\<close>

definition findMatch :: "string \<Rightarrow> stored_order \<Rightarrow> store \<Rightarrow> string option option" where
  "findMatch self incoming st =
     (let inPs = publicSignals (so_order incoming) in
      Option.bind (lookupAuthorizeOrdersByCounterPair (sellToken inPs) (buyToken inPs) st)
        (\<lambda>cands. find_match_loop cands self inPs))"

section \<open>Drain, on-chain cancel, purge\<close>

text \<open>State of the sweeps: the store, the database, the calls to the shared orderbook.\<close>

type_synonym sweep_state = "store \<times> order_db option \<times> ob_call list"

definition cancel_call :: "bool \<Rightarrow> string \<Rightarrow> ob_call list option" where
  "cancel_call shared n = (if shared then map_option (\<lambda>h. [CallCancel h]) (nullifierToOfferHandle n) else Some [])"

fun drain_loop :: "bool \<Rightarrow> ms \<Rightarrow> (string \<times> stored_order) list \<Rightarrow> sweep_state \<Rightarrow> sweep_state option" where
  "drain_loop shared now [] s = Some s"
| "drain_loop shared now ((n, so) # es) (st, db, calls) =
     (if \<not> isLiveStatus (so_status so) then drain_loop shared now es (st, db, calls)
      else Option.bind (release_slot (so_pubKeyAx so) (so_pubKeyAy so) (set_status n Cancelled st)) (\<lambda>st1.
           Option.bind (cancel_call shared n) (\<lambda>cs.
             drain_loop shared now es
               (st1, map_option (updateAuthorizeOrderStatus n Cancelled None now) db, calls @ cs))))"

fun drop_loop :: "(string \<times> stored_order) list \<Rightarrow> store \<Rightarrow> store option" where
  "drop_loop [] st = Some st"
| "drop_loop ((n, so) # es) st =
     Option.bind (unindexAuthorizeOrder n (so_order so) st) (\<lambda>st1. drop_loop es (drop_order n st1))"

definition live_entries :: "store \<Rightarrow> (string \<times> stored_order) list" where
  "live_entries st = filter (\<lambda>(n, so). isLiveStatus (so_status so)) (authorizeOrders st)"

definition drainAuthorizeOrders :: "bool \<Rightarrow> ms \<Rightarrow> post_state \<Rightarrow> (nat \<times> sweep_state) option" where
  "drainAuthorizeOrders shared now s = (case s of (st, db) \<Rightarrow>
     Option.bind (drain_loop shared now (authorizeOrders st) (st, db, [])) (\<lambda>(st1, db1, calls).
       map_option (\<lambda>st2. (length (live_entries st), (st2, db1, calls))) (drop_loop (live_entries st) st1)))"

definition applyOnChainAuthorizeCancel :: "string \<Rightarrow> ms \<Rightarrow> post_state \<Rightarrow> bool \<times> post_state" where
  "applyOnChainAuthorizeCancel n now s = (case s of (st, db) \<Rightarrow>
     case jget (authorizeOrders st) n of
       None \<Rightarrow> (False, s)
     | Some so \<Rightarrow>
         let live = isLiveStatus (so_status so);
             st0 = (if live then set_status n Cancelled st else st);
             st1 = (if live then release_slot (so_pubKeyAx so) (so_pubKeyAy so) st0 else Some st0) in
         (case st1 of
            None \<Rightarrow> (False, (st0, db))
          | Some st2 \<Rightarrow>
              let db1 = map_option (updateAuthorizeOrderStatus n Cancelled None now) db in
              (case unindexAuthorizeOrder n (so_order so) st2 of
                 None \<Rightarrow> (False, (st2, db1))
               | Some st3 \<Rightarrow> (True, (drop_order n st3, db1)))))"

record order_stats =
  os_pending :: nat
  os_matched :: nat
  os_total :: nat

definition getAuthorizeOrderStats :: "store \<Rightarrow> order_stats" where
  "getAuthorizeOrderStats st =
     \<lparr>os_pending = jcount (\<lambda>so. so_status so = Pending) (authorizeOrders st),
      os_matched = jcount (\<lambda>so. so_status so = Matched) (authorizeOrders st),
      os_total = jsize (authorizeOrders st)\<rparr>"

text \<open>\<open>Number(expiry) < nowSeconds\<close>; a comparison with NaN is false.\<close>

definition stored_expired :: "seconds \<Rightarrow> stored_order \<Rightarrow> bool" where
  "stored_expired nowSeconds so =
     (case js_Number (expiry (publicSignals (so_order so))) of None \<Rightarrow> False | Some e \<Rightarrow> e < nowSeconds)"

fun purge_loop ::
  "bool \<Rightarrow> seconds \<Rightarrow> (string \<times> stored_order) list \<Rightarrow> nat \<Rightarrow> store \<Rightarrow> ob_call list \<Rightarrow>
   (nat \<times> store \<times> ob_call list) option" where
  "purge_loop shared now [] removed st calls = Some (removed, st, calls)"
| "purge_loop shared now ((n, so) # es) removed st calls =
     (if isInFlightStatus (so_status so) then purge_loop shared now es removed st calls
      else let isLive = isLiveStatus (so_status so); expired = stored_expired now so in
        if isTerminalStatus (so_status so) \<or> (isLive \<and> expired)
        then Option.bind (if isLive \<and> expired then release_slot (so_pubKeyAx so) (so_pubKeyAy so) st else Some st) (\<lambda>st1.
             Option.bind (cancel_call shared n) (\<lambda>cs.
             Option.bind (unindexAuthorizeOrder n (so_order so) st1) (\<lambda>st2.
               purge_loop shared now es (Suc removed) (drop_order n st2) (calls @ cs))))
        else purge_loop shared now es removed st calls)"

definition purgeNonPendingAuthorizeOrders ::
  "bool \<Rightarrow> int option \<Rightarrow> ms \<Rightarrow> post_state \<Rightarrow> (nat \<times> sweep_state) option" where
  "purgeNonPendingAuthorizeOrders shared env now s = (case s of (st, db) \<Rightarrow>
     map_option (\<lambda>(removed, st', calls).
       (removed, (st', map_option (\<lambda>d. snd (purgeNonPendingAuthorizeOrdersDB env now d)) db, calls)))
       (purge_loop shared (now div 1000) (authorizeOrders st) 0 st []))"

end
