(* ===== verification/OrderStoreFacts.thy ===== *)
theory OrderStoreFacts
  imports OrderStore
begin

text \<open>
  Properties of the in-memory order store and its handlers: the pair index, matching, the per-key
  counters under arbitrary interleavings, idempotency, purge and drain.
\<close>

section \<open>Frames\<close>

lemma put_order_sel [simp]:
  "authorizeOrders (put_order n so st) = jset n so (authorizeOrders st)"
  "pendingCountByPubKey (put_order n so st) = pendingCountByPubKey st"
  "ordersByPair (put_order n so st) = ordersByPair st"
  by (simp_all add: put_order_def)

lemma drop_order_sel [simp]:
  "authorizeOrders (drop_order n st) = jdelete n (authorizeOrders st)"
  "pendingCountByPubKey (drop_order n st) = pendingCountByPubKey st"
  "ordersByPair (drop_order n st) = ordersByPair st"
  by (simp_all add: drop_order_def)

lemma set_status_sel [simp]:
  "authorizeOrders (set_status n s st) = jmodify n (\<lambda>so. so\<lparr>so_status := s\<rparr>) (authorizeOrders st)"
  "pendingCountByPubKey (set_status n s st) = pendingCountByPubKey st"
  "ordersByPair (set_status n s st) = ordersByPair st"
  by (simp_all add: set_status_def)

lemma pendingCount_cong: "pendingCountByPubKey st = pendingCountByPubKey st' \<Longrightarrow> pendingCount st i = pendingCount st' i"
  by (simp add: pendingCount_def)

lemma pendingCount_simps [simp]:
  "pendingCount (put_order n so st) i = pendingCount st i"
  "pendingCount (drop_order n st) i = pendingCount st i"
  "pendingCount (set_status n s st) i = pendingCount st i"
  by (simp_all add: pendingCount_def)

lemma release_slot_frame:
  "release_slot ax ay st = Some st' \<Longrightarrow>
   authorizeOrders st' = authorizeOrders st \<and> ordersByPair st' = ordersByPair st"
  by (auto simp: release_slot_def decPubKeyCount_def Let_def split: option.splits if_splits)

lemma index_frame:
  "indexAuthorizeOrder n ord st = Some st' \<Longrightarrow>
   authorizeOrders st' = authorizeOrders st \<and> pendingCountByPubKey st' = pendingCountByPubKey st"
  by (auto simp: indexAuthorizeOrder_def bind_eq_Some_conv split: if_splits)

lemma unindex_frame:
  "unindexAuthorizeOrder n ord st = Some st' \<Longrightarrow>
   authorizeOrders st' = authorizeOrders st \<and> pendingCountByPubKey st' = pendingCountByPubKey st"
  by (auto simp: unindexAuthorizeOrder_def bind_eq_Some_conv Let_def split: if_splits option.splits)

section \<open>Counters\<close>

definition counters_ok :: "store \<Rightarrow> bool" where
  "counters_ok st \<longleftrightarrow> (\<forall>i c. jget (pendingCountByPubKey st) i = Some c \<longrightarrow> 1 \<le> c \<and> c \<le> MAX_ORDERS_PER_PUBKEY)"

lemma counters_ok_cong: "pendingCountByPubKey st' = pendingCountByPubKey st \<Longrightarrow> counters_ok st' = counters_ok st"
  by (simp add: counters_ok_def)

lemma counters_ok_bounds: "counters_ok st \<Longrightarrow> 0 \<le> pendingCount st i \<and> pendingCount st i \<le> MAX_ORDERS_PER_PUBKEY"
  by (force simp: counters_ok_def pendingCount_def MAX_ORDERS_PER_PUBKEY_def split: option.splits)

lemma pendingCount_inc:
  "incPubKeyCount ax ay st = Some st' \<Longrightarrow>
   \<exists>k. pubKeyId ax ay = Some k \<and> (\<forall>i. pendingCount st' i = pendingCount st i + (if i = k then 1 else 0))"
  by (auto simp: incPubKeyCount_def pendingCount_def)

lemma counters_ok_inc:
  "counters_ok st \<Longrightarrow> pubKeyId ax ay = Some k \<Longrightarrow> pendingCount st k < MAX_ORDERS_PER_PUBKEY \<Longrightarrow>
   incPubKeyCount ax ay st = Some st' \<Longrightarrow> counters_ok st'"
  using counters_ok_bounds [of st k] by (auto simp: incPubKeyCount_def counters_ok_def split: if_splits)

lemma pendingCount_dec:
  assumes "counters_ok st" "decPubKeyCount ax ay st = Some st'" "pubKeyId ax ay = Some k"
  shows "pendingCount st' i = (if i = k then max 0 (pendingCount st k - 1) else pendingCount st i)"
proof -
  have "0 \<le> pendingCount st k" using counters_ok_bounds [OF assms(1)] by blast
  then show ?thesis using assms(2,3)
    by (auto simp: decPubKeyCount_def Let_def) (auto simp: pendingCount_def)
qed

lemma counters_ok_dec: "counters_ok st \<Longrightarrow> decPubKeyCount ax ay st = Some st' \<Longrightarrow> counters_ok st'"
proof -
  assume ok: "counters_ok st" and d: "decPubKeyCount ax ay st = Some st'"
  obtain k where k: "pubKeyId ax ay = Some k" using d by (auto simp: decPubKeyCount_def)
  have "pendingCount st k \<le> MAX_ORDERS_PER_PUBKEY" using counters_ok_bounds [OF ok] by blast
  then show "counters_ok st'" using ok d k
    by (auto simp: decPubKeyCount_def counters_ok_def Let_def split: if_splits)
qed

lemma counters_ok_release: "counters_ok st \<Longrightarrow> release_slot ax ay st = Some st' \<Longrightarrow> counters_ok st'"
  using counters_ok_dec by (auto simp: release_slot_def split: option.splits if_splits)

lemma counters_ok_purge:
  "counters_ok st \<Longrightarrow> purge_loop shared now es k st calls = Some (k', st', calls') \<Longrightarrow> counters_ok st'"
proof (induction shared now es k st calls rule: purge_loop.induct)
  case (2 shared now n so es removed st calls)
  have step: "counters_ok st2"
    if "(if b then release_slot (so_pubKeyAx so) (so_pubKeyAy so) st else Some st) = Some st1"
      "unindexAuthorizeOrder n (so_order so) st1 = Some st2" for b st1 st2
  proof -
    have "counters_ok st1" using that(1) "2.prems"(1) counters_ok_release by (auto split: if_splits)
    then show ?thesis using unindex_frame [OF that(2)] counters_ok_cong by blast
  qed
  have drop: "counters_ok (drop_order n st2) = counters_ok st2" for st2
    by (rule counters_ok_cong) simp
  show ?case
    using "2.prems" 2 step drop
    by (auto simp: bind_eq_Some_conv Let_def split: if_splits)
qed simp

lemma counters_ok_drain:
  "counters_ok st \<Longrightarrow> drain_loop shared now es (st, db, calls) = Some (st', db', calls') \<Longrightarrow> counters_ok st'"
proof (induction es arbitrary: st db calls)
  case (Cons e es)
  obtain n so where e: "e = (n, so)" by (cases e)
  show ?case
  proof (cases "isLiveStatus (so_status so)")
    case False
    then show ?thesis using Cons e by auto
  next
    case True
    then obtain st1 cs where r: "release_slot (so_pubKeyAx so) (so_pubKeyAy so) (set_status n Cancelled st) = Some st1"
      "drain_loop shared now es (st1, map_option (updateAuthorizeOrderStatus n Cancelled None now) db, calls @ cs)
         = Some (st', db', calls')"
      using Cons.prems(2) e by (auto simp: bind_eq_Some_conv)
    have "counters_ok (set_status n Cancelled st)"
      using Cons.prems(1) counters_ok_cong [of "set_status n Cancelled st" st] by simp
    then have "counters_ok st1" using r(1) counters_ok_release by blast
    then show ?thesis using Cons.IH r(2) by blast
  qed
qed simp

lemma counters_ok_drop: "counters_ok st \<Longrightarrow> drop_loop es st = Some st' \<Longrightarrow> counters_ok st'"
proof (induction es arbitrary: st)
  case (Cons e es)
  obtain n so where e: "e = (n, so)" by (cases e)
  obtain st1 where u: "unindexAuthorizeOrder n (so_order so) st = Some st1"
    "drop_loop es (drop_order n st1) = Some st'"
    using Cons.prems(2) e by (auto simp: bind_eq_Some_conv)
  have "counters_ok (drop_order n st1)"
    using Cons.prems(1) unindex_frame [OF u(1)] counters_ok_cong [of "drop_order n st1" st] by simp
  then show ?case using Cons.IH u(2) by blast
qed simp

lemma counters_ok_begin: "counters_ok st \<Longrightarrow> post_begin env rq (st, db) = (r, (st', db')) \<Longrightarrow> counters_ok st'"
  using counters_ok_cong [of "drop_order n st" st for n]
  by (auto simp: post_begin_def Let_def split: option.splits if_splits)

text \<open>The second segment either answers and changes nothing or reserves one slot and goes on.\<close>

lemma post_reserve_cases:
  assumes "post_reserve env rq (st, db) = (r, (st', db'))"
  shows "(r \<noteq> None \<and> (\<exists>c m. r = Some (RError c m)) \<and> st' = st \<and> db' = db) \<or>
    (r = None \<and> db' = db \<and> (\<exists>ax ay k. rq_pubKeyAx rq = Some ax \<and> rq_pubKeyAy rq = Some ay \<and>
       pubKeyId ax ay = Some k \<and> pendingCount st k < MAX_ORDERS_PER_PUBKEY \<and>
       incPubKeyCount ax ay st = Some st'))"
proof (cases "rq_pubKeyAx rq")
  case None
  then show ?thesis using assms by (auto simp: post_reserve_def server_error_def)
next
  case ax: (Some ax)
  show ?thesis
  proof (cases "rq_pubKeyAy rq")
    case None
    then show ?thesis using assms ax by (auto simp: post_reserve_def server_error_def)
  next
    case (Some ay)
    then show ?thesis using assms ax
      by (simp add: post_reserve_def server_error_def not_le split: option.splits if_splits) auto
  qed
qed

lemma counters_ok_reserve: "counters_ok st \<Longrightarrow> post_reserve env rq (st, db) = (r, (st', db')) \<Longrightarrow> counters_ok st'"
  using post_reserve_cases [of env rq st db r st' db'] counters_ok_inc by blast

lemma post_publish_frame:
  "post_publish env rq n (st, db) = (r, cs, (st', db')) \<Longrightarrow>
   pendingCountByPubKey st' = pendingCountByPubKey st \<and> db' = db"
  using index_frame by (auto simp: post_publish_def Let_def split: option.splits if_splits)

text \<open>The third segment gives the reserved slot back, or publishes the order.\<close>

definition accepts :: "post_env \<Rightarrow> post_request \<Rightarrow> order_db option \<Rightarrow> bool" where
  "accepts env rq db \<longleftrightarrow> (\<not> pe_verifyOrderProofs env \<or> pe_proof env = ProofValid) \<and>
     (case db of None \<Rightarrow> True | Some d \<Rightarrow> \<not> jhas (orders_tbl d) (order_nullifier (rq_order rq)))"

lemma insertAccepted_None: "insertAcceptedOrder n t j ax ay d = None \<longleftrightarrow> jhas (orders_tbl d) n"
  by (simp add: insertAcceptedOrder_def)

lemma post_finish_accepts:
  assumes "accepts env rq db"
  shows "\<exists>db1. post_finish env rq (st, db) = post_publish env rq (order_nullifier (rq_order rq)) (st, db1) \<and>
     (db = None \<longleftrightarrow> db1 = None) \<and>
     (\<forall>d. db = Some d \<longrightarrow> insertAcceptedOrder (order_nullifier (rq_order rq)) (pe_accept env) (Some (rq_order rq))
        (rq_pubKeyAx rq) (rq_pubKeyAy rq) d = db1)"
  using assms insertAccepted_None
  by (cases db) (auto simp: accepts_def post_finish_def Let_def split: option.splits)

lemma post_finish_rejects:
  assumes "\<not> accepts env rq db" "post_finish env rq (st, db) = (r, cs, (st', db'))"
  shows "db' = db \<and> cs = [] \<and> (release_slot (rq_pubKeyAx rq) (rq_pubKeyAy rq) st = Some st' \<or>
     (release_slot (rq_pubKeyAx rq) (rq_pubKeyAy rq) st = None \<and> st' = st))"
proof (cases "pe_verifyOrderProofs env \<and> pe_proof env \<noteq> ProofValid")
  case True
  then show ?thesis using assms(2) by (auto simp: post_finish_def Let_def split: option.splits)
next
  case False
  then obtain d where d: "db = Some d" "jhas (orders_tbl d) (order_nullifier (rq_order rq))"
    using assms(1) by (auto simp: accepts_def split: option.splits)
  then have "insertAcceptedOrder (order_nullifier (rq_order rq)) (pe_accept env) (Some (rq_order rq))
      (rq_pubKeyAx rq) (rq_pubKeyAy rq) d = None"
    by (simp add: insertAccepted_None)
  then show ?thesis using assms(2) False d(1)
    by (auto simp: post_finish_def Let_def split: option.splits)
qed

lemma counters_ok_finish:
  assumes "counters_ok st" "post_finish env rq (st, db) = (r, cs, (st', db'))"
  shows "counters_ok st'"
proof (cases "accepts env rq db")
  case True
  then obtain db1 where "post_publish env rq (order_nullifier (rq_order rq)) (st, db1) = (r, cs, (st', db'))"
    using post_finish_accepts [OF True, of st] assms(2) by auto
  then show ?thesis using post_publish_frame counters_ok_cong assms(1) by blast
next
  case False
  then show ?thesis using post_finish_rejects [OF False assms(2)] assms(1) counters_ok_release by blast
qed

section \<open>Interleavings\<close>

text \<open>
  Everything that touches the counters, in any order and number: the segments of any number of
  concurrent POST requests, slot releases by the settlement worker and the matcher, and the sweeps.
\<close>

datatype store_event =
    EBegin post_env post_request
  | EReserve post_env post_request
  | EFinish post_env post_request
  | ERelease "string option" "string option"
  | EStatus string order_status
  | EDrain bool ms
  | EChainCancel string ms
  | EPurge bool "int option" ms

fun store_step :: "store_event \<Rightarrow> post_state \<Rightarrow> post_state" where
  "store_step (EBegin env rq) s = snd (post_begin env rq s)"
| "store_step (EReserve env rq) s = snd (post_reserve env rq s)"
| "store_step (EFinish env rq) s = snd (snd (post_finish env rq s))"
| "store_step (ERelease ax ay) (st, db) = (case release_slot ax ay st of None \<Rightarrow> (st, db) | Some st' \<Rightarrow> (st', db))"
| "store_step (EStatus n s') (st, db) = (set_status n s' st, db)"
| "store_step (EDrain sh now) s = (case drainAuthorizeOrders sh now s of None \<Rightarrow> s | Some (k, st, db, cs) \<Rightarrow> (st, db))"
| "store_step (EChainCancel n now) s = snd (applyOnChainAuthorizeCancel n now s)"
| "store_step (EPurge sh env now) s =
     (case purgeNonPendingAuthorizeOrders sh env now s of None \<Rightarrow> s | Some (k, st, db, cs) \<Rightarrow> (st, db))"

fun store_run :: "store_event list \<Rightarrow> post_state \<Rightarrow> post_state" where
  "store_run [] s = s"
| "store_run (e # es) s = store_run es (store_step e s)"

lemma counters_ok_step: "counters_ok (fst s) \<Longrightarrow> counters_ok (fst (store_step e s))"
proof -
  obtain st db where s: "s = (st, db)" by (cases s)
  assume "counters_ok (fst s)"
  then have ok: "counters_ok st" using s by simp
  show ?thesis
  proof (cases e)
    case (EBegin env rq)
    then show ?thesis using s ok counters_ok_begin [of st env rq db]
      by (cases "post_begin env rq (st, db)") auto
  next
    case (EReserve env rq)
    then show ?thesis using s ok counters_ok_reserve [of st env rq db]
      by (cases "post_reserve env rq (st, db)") auto
  next
    case (EFinish env rq)
    then show ?thesis using s ok counters_ok_finish [of st env rq db]
      by (cases "post_finish env rq (st, db)") auto
  next
    case (ERelease ax ay)
    then show ?thesis using s ok counters_ok_release by (auto split: option.splits)
  next
    case (EStatus n s')
    then show ?thesis using s ok counters_ok_cong [of "set_status n s' st" st] by simp
  next
    case (EDrain sh now)
    have "counters_ok st2" if "drain_loop sh now es (st, db, []) = Some (st1, db1, cs)"
      "drop_loop es' st1 = Some st2" for es es' st1 db1 cs st2
      using that ok counters_ok_drain counters_ok_drop by blast
    then show ?thesis using EDrain s ok
      by (auto simp: drainAuthorizeOrders_def bind_eq_Some_conv split: option.splits)
  next
    case (EChainCancel n now)
    have a: "counters_ok (set_status n Cancelled st)"
      using ok counters_ok_cong [of "set_status n Cancelled st" st] by simp
    have b: "counters_ok (drop_order n st3)" if "unindexAuthorizeOrder n ord st2 = Some st3" "counters_ok st2" for ord st2 st3
      using that unindex_frame [OF that(1)] counters_ok_cong [of "drop_order n st3" st2] by simp
    show ?thesis using EChainCancel s ok a b counters_ok_release
      by (auto simp: applyOnChainAuthorizeCancel_def Let_def split: option.splits if_splits)
  next
    case (EPurge sh env now)
    then show ?thesis using s ok counters_ok_purge
      by (fastforce simp: purgeNonPendingAuthorizeOrders_def split: option.splits)
  qed
qed

lemma counters_ok_run: "counters_ok (fst s) \<Longrightarrow> counters_ok (fst (store_run es s))"
  by (induction es arbitrary: s) (simp_all add: counters_ok_step)

text \<open>
  C2.  The per-key limit survives every interleaving: whatever mix of POST segments (of any number
  of concurrent requests), slot releases, status changes, drains, on-chain cancels and purges runs
  from the empty store, no key ever has more than 50 pending orders counted, and no counter is
  negative.
\<close>

theorem per_key_cap:
  "0 \<le> pendingCount (fst (store_run es (empty_store, db))) i \<and>
   pendingCount (fst (store_run es (empty_store, db))) i \<le> 50"
proof -
  have "counters_ok empty_store" by (simp add: counters_ok_def empty_store_def)
  then have "counters_ok (fst (store_run es (empty_store, db)))" using counters_ok_run by simp
  from counters_ok_bounds [OF this] show ?thesis by (simp add: MAX_ORDERS_PER_PUBKEY_def)
qed

section \<open>Accounting and idempotency of POST\<close>

lemma validated_fields:
  "validateAuthorizeOrder order addr now = None \<Longrightarrow> in_field (ps_get (publicSignals order) f)"
  by (simp add: validate_split)

definition numeric :: "authorize_order_file \<Rightarrow> bool" where
  "numeric order \<longleftrightarrow> (\<forall>f. big (ps_get (publicSignals order) f) \<noteq> None)"

lemma numericD:
  assumes "numeric order"
  shows "\<exists>i. big (sellToken (publicSignals order)) = Some i" "\<exists>i. big (buyToken (publicSignals order)) = Some i"
    "\<exists>i. big (sellAmount (publicSignals order)) = Some i" "\<exists>i. big (buyAmount (publicSignals order)) = Some i"
    "\<exists>i. big (expiry (publicSignals order)) = Some i" "\<exists>i. js_BigInt (order_nullifier order) = Some i"
proof -
  have h: "\<exists>i. big (ps_get (publicSignals order) f) = Some i" for f
    using assms by (auto simp: numeric_def)
  show "\<exists>i. big (sellToken (publicSignals order)) = Some i" using h [of F_sellToken] by simp
  show "\<exists>i. big (buyToken (publicSignals order)) = Some i" using h [of F_buyToken] by simp
  show "\<exists>i. big (sellAmount (publicSignals order)) = Some i" using h [of F_sellAmount] by simp
  show "\<exists>i. big (buyAmount (publicSignals order)) = Some i" using h [of F_buyAmount] by simp
  show "\<exists>i. big (expiry (publicSignals order)) = Some i" using h [of F_expiry] by simp
  show "\<exists>i. js_BigInt (order_nullifier order) = Some i"
    using h [of F_nullifier] by (auto simp: order_nullifier_def split: option.splits)
qed

lemma validated_numeric: "validateAuthorizeOrder order addr now = None \<Longrightarrow> numeric order"
  using validated_fields in_field_num by (force simp: numeric_def)

lemma numeric_pair:
  assumes "numeric order"
  shows "\<exists>b k. sameToken order = Some b \<and> order_pair order = Some k"
  using numericD(1,2) [OF assms] by (auto simp: sameToken_def order_pair_def directedPairKey_def)

lemma index_total: "numeric order \<Longrightarrow> \<exists>st'. indexAuthorizeOrder n order st = Some st'"
  using numeric_pair [of order] by (auto simp: indexAuthorizeOrder_def split: if_splits)

lemma unindex_total: "numeric order \<Longrightarrow> \<exists>st'. unindexAuthorizeOrder n order st = Some st'"
  using numeric_pair [of order] by (auto simp: unindexAuthorizeOrder_def split: if_splits)

lemma post_publish_reply:
  assumes "numeric (rq_order rq)"
  shows "\<exists>cs st2. post_publish env rq (order_nullifier (rq_order rq)) (st, db) =
     (RStatus 202 (accepted_reply (pe_accept env) (rq_order rq)) (order_nullifier (rq_order rq)), cs, (st2, db)) \<and>
     jget (authorizeOrders st2) (order_nullifier (rq_order rq)) =
       Some \<lparr>so_order = rq_order rq, so_status = Accepted, so_submittedAt = pe_accept env, so_settleTxHash = None,
          so_crossRelayer = False, so_pubKeyAx = rq_pubKeyAx rq, so_pubKeyAy = rq_pubKeyAy rq\<rparr> \<and>
     (\<exists>so. so_order so = rq_order rq \<and>
        indexAuthorizeOrder (order_nullifier (rq_order rq)) (rq_order rq)
          (put_order (order_nullifier (rq_order rq)) so st) = Some st2)"
proof -
  let ?n = "order_nullifier (rq_order rq)"
  let ?so = "\<lparr>so_order = rq_order rq, so_status = Accepted, so_submittedAt = pe_accept env, so_settleTxHash = None,
          so_crossRelayer = False, so_pubKeyAx = rq_pubKeyAx rq, so_pubKeyAy = rq_pubKeyAy rq\<rparr>"
  obtain st2 where ix: "indexAuthorizeOrder ?n (rq_order rq) (put_order ?n ?so st) = Some st2"
    using index_total [OF assms] by blast
  obtain l where "listing_of ?n (rq_order rq) = Some l"
    using numericD [OF assms]
    by (auto simp: listing_of_def nullifierToOfferHandle_def publicSignalToAddress_def Let_def)
  moreover have "\<exists>so. so_order so = rq_order rq \<and> indexAuthorizeOrder ?n (rq_order rq) (put_order ?n so st) = Some st2"
    using ix by (intro exI [of _ ?so]) simp
  ultimately show ?thesis using ix index_frame [OF ix] by (simp add: post_publish_def Let_def)
qed

lemma post_begin_frame:
  assumes "post_begin env rq (st, db) = (r, (st', db'))"
  shows "pendingCountByPubKey st' = pendingCountByPubKey st \<and>
    (r = None \<longrightarrow> validateAuthorizeOrder (rq_order rq) (pe_relayer env) (pe_start env div 1000) = None)"
  using assms by (auto simp: post_begin_def Let_def split: option.splits if_splits)

lemma pendingCount_release_inc:
  assumes "counters_ok st" "incPubKeyCount ax ay st = Some st1" "pubKeyId ax ay = Some k"
    "pendingCount st k < MAX_ORDERS_PER_PUBKEY" "ax \<noteq> []" "ay \<noteq> []"
  shows "\<exists>st2. release_slot (Some ax) (Some ay) st1 = Some st2 \<and> (\<forall>i. pendingCount st2 i = pendingCount st i)"
proof -
  have ok: "counters_ok st1" using counters_ok_inc assms by blast
  obtain st2 where d: "decPubKeyCount ax ay st1 = Some st2"
    using assms(3) by (simp add: decPubKeyCount_def)
  have c: "pendingCount st1 i = pendingCount st i + (if i = k then 1 else 0)" for i
    using pendingCount_inc [OF assms(2)] assms(3) by auto
  have "pendingCount st2 i = pendingCount st i" for i
    using pendingCount_dec [OF ok d assms(3), of i] c counters_ok_bounds [OF assms(1), of k] by auto
  then show ?thesis using d assms(5,6) by (simp add: release_slot_def)
qed

lemma post_begin_keys:
  assumes "post_begin env rq (st, db) = (None, s1)"
  shows "truthy (rq_pubKeyAx rq)" "truthy (rq_pubKeyAy rq)"
  using assms by (auto simp: post_begin_def post_caps_def Let_def split: option.splits if_splits)


text \<open>
  Idempotency: when the database has a row for the nullifier that is not \<open>failed\<close>, a POST of a
  valid order with that nullifier is answered from the stored row, with 409 for \<open>dead_letter\<close>, 200
  for the other terminal states and 202 otherwise, and changes neither the store nor the database,
  whatever else the request says.
\<close>

lemma post_replay:
  assumes "validateAuthorizeOrder (rq_order rq) (pe_relayer env) (pe_start env div 1000) = None"
    and "getAuthorizeOrder d (order_nullifier (rq_order rq)) = Some row" and "r_status row \<noteq> Failed"
  shows "postAuthorizeOrder env rq (st, Some d) =
    (RStatus (if r_status row = DeadLetter then 409 else if isTerminalStatus (r_status row) then 200 else 202)
       (buildStatusReply row (case r_orderJson row of Some p \<Rightarrow> Some p | None \<Rightarrow> Some (rq_order rq)))
       (order_nullifier (rq_order rq)), [], (st, Some d))"
proof -
  have "idempotencyHttpCode s = (if s = DeadLetter then 409 else if isTerminalStatus s then 200 else 202)" for s
    by (cases s) auto
  then show ?thesis using assms by (simp add: postAuthorizeOrder_def post_begin_def Let_def)
qed

section \<open>The pair index\<close>

text \<open>A bucket lists exactly the stored cross-token orders of its directed pair.\<close>

definition index_exact :: "store \<Rightarrow> bool" where
  "index_exact st \<longleftrightarrow> (\<forall>n key. n \<in> set (bucket (ordersByPair st) key) \<longleftrightarrow>
     (\<exists>so. jget (authorizeOrders st) n = Some so \<and> sameToken (so_order so) = Some False \<and>
           order_pair (so_order so) = Some key))"

lemma index_exact_cong:
  assumes "index_exact st" "ordersByPair st' = ordersByPair st"
    "\<And>n. map_option so_order (jget (authorizeOrders st') n) = map_option so_order (jget (authorizeOrders st) n)"
  shows "index_exact st'"
proof -
  have "(\<exists>so. jget (authorizeOrders st') n = Some so \<and> P (so_order so)) \<longleftrightarrow>
        (\<exists>so. jget (authorizeOrders st) n = Some so \<and> P (so_order so))" for n P
    using assms(3) [of n] by (cases "jget (authorizeOrders st') n"; cases "jget (authorizeOrders st) n") auto
  from this [where P = "\<lambda>x. sameToken x = Some False \<and> order_pair x = Some key" for key]
  show ?thesis using assms(1,2) unfolding index_exact_def by simp
qed

lemma index_exact_insert:
  assumes "index_exact st" "jget (authorizeOrders st) n = None"
    and "indexAuthorizeOrder n (so_order so) (put_order n so st) = Some st'"
  shows "index_exact st'"
proof -
  have fresh: "n \<notin> set (bucket (ordersByPair st) key)" for key
    using assms(1,2) by (auto simp: index_exact_def)
  have old: "m \<in> set (bucket (ordersByPair st) key) \<longleftrightarrow> (\<exists>so. jget (authorizeOrders st) m = Some so \<and>
      sameToken (so_order so) = Some False \<and> order_pair (so_order so) = Some key)" for m key
    using assms(1) by (simp add: index_exact_def)
  show ?thesis
    using assms(2,3) fresh
    by (auto simp: indexAuthorizeOrder_def bind_eq_Some_conv index_exact_def old split: if_splits)
qed

lemma index_exact_remove:
  assumes "index_exact st" "jget (authorizeOrders st) n = Some so"
    and "unindexAuthorizeOrder n (so_order so) st = Some st'"
  shows "index_exact (drop_order n st')"
proof -
  have old: "m \<in> set (bucket (ordersByPair st) key) \<longleftrightarrow> (\<exists>so. jget (authorizeOrders st) m = Some so \<and>
      sameToken (so_order so) = Some False \<and> order_pair (so_order so) = Some key)" for m key
    using assms(1) by (simp add: index_exact_def)
  have fr: "authorizeOrders st' = authorizeOrders st" using unindex_frame [OF assms(3)] by simp
  have "m \<in> set (bucket (ordersByPair st') key) \<longleftrightarrow> m \<noteq> n \<and> m \<in> set (bucket (ordersByPair st) key)" for m key
  proof (cases "sameToken (so_order so) = Some True")
    case True
    then have "st' = st" using assms(3) by (simp add: unindexAuthorizeOrder_def)
    then show ?thesis using True assms(2) old by auto
  next
    case False
    then obtain k where k: "sameToken (so_order so) = Some False" "order_pair (so_order so) = Some k"
      using assms(3) by (auto simp: unindexAuthorizeOrder_def bind_eq_Some_conv)
    have only: "n \<in> set (bucket (ordersByPair st) key) \<longleftrightarrow> key = k" for key
      using old assms(2) k by auto
    have "bucket (ordersByPair st') key =
        (if key = k then sdelete n (bucket (ordersByPair st) key) else bucket (ordersByPair st) key)" for key
    proof (cases "jget (ordersByPair st) k")
      case None
      then have "n \<notin> set (bucket (ordersByPair st) k)" by (simp add: bucket_def)
      then show ?thesis using only by blast
    next
      case (Some b)
      then show ?thesis using assms(3) k
        by (auto simp: unindexAuthorizeOrder_def Let_def) (auto simp: bucket_def)
    qed
    then show ?thesis using only by auto
  qed
  then show ?thesis using old fr by (auto simp: index_exact_def)
qed

text \<open>
  The pair index stays exact: a POST keeps every bucket equal to the set of stored cross-token
  orders of its directed pair, provided no earlier order with the same nullifier is in state
  \<open>failed\<close> (the resubmission of a failed order is treated with the scenarios of theory Matching).
\<close>

lemma post_keeps_index:
  assumes "index_exact st" and "postAuthorizeOrder env rq (st, db) = (r, cs, (st', db'))"
    and "\<And>so. jget (authorizeOrders st) (order_nullifier (rq_order rq)) = Some so \<Longrightarrow> so_status so \<noteq> Failed"
    and "\<And>d row. db = Some d \<Longrightarrow> getAuthorizeOrder d (order_nullifier (rq_order rq)) = Some row \<Longrightarrow>
           r_status row \<noteq> Failed"
  shows "index_exact st'"
proof -
  let ?n = "order_nullifier (rq_order rq)"
  obtain r1 s1 where b: "post_begin env rq (st, db) = (r1, s1)" by (metis prod.exhaust)
  have s1: "s1 = (st, db)" and none: "r1 = None \<Longrightarrow> jget (authorizeOrders st) ?n = None"
    using b assms(3,4) by (auto simp: post_begin_def post_caps_def Let_def bind_eq_Some_conv
        split: option.splits if_splits)
  show ?thesis
  proof (cases r1)
    case (Some x)
    then show ?thesis using assms(1,2) b s1 by (auto simp: postAuthorizeOrder_def)
  next
    case None
    obtain r2 st2 db2 where v: "post_reserve env rq (st, db) = (r2, (st2, db2))" by (metis prod.exhaust)
    have fr: "authorizeOrders st2 = authorizeOrders st" "ordersByPair st2 = ordersByPair st"
      using post_reserve_cases [OF v] by (auto simp: incPubKeyCount_def)
    then have ix2: "index_exact st2" using assms(1) index_exact_cong by metis
    show ?thesis
    proof (cases r2)
      case (Some x)
      then show ?thesis using assms(2) b None v ix2 s1 by (auto simp: postAuthorizeOrder_def)
    next
      case none2: None
      have fin: "post_finish env rq (st2, db2) = (r, cs, (st', db'))"
        using assms(2) b None v none2 s1 by (simp add: postAuthorizeOrder_def)
      show ?thesis
      proof (cases "accepts env rq db2")
        case True
        obtain db3 where p: "post_publish env rq ?n (st2, db3) = (r, cs, (st', db'))"
          using post_finish_accepts [OF True, of st2] fin by auto
        have "validateAuthorizeOrder (rq_order rq) (pe_relayer env) (pe_start env div 1000) = None"
          using post_begin_frame [of env rq st db r1 "fst s1" "snd s1"] b None s1 by simp
        then have "numeric (rq_order rq)" by (rule validated_numeric)
        then obtain so where "so_order so = rq_order rq"
          "indexAuthorizeOrder ?n (rq_order rq) (put_order ?n so st2) = Some st'"
          using p post_publish_reply [of rq env st2 db3] by auto
        then show ?thesis using index_exact_insert [OF ix2] none [OF None] fr by metis
      next
        case False
        then have "authorizeOrders st' = authorizeOrders st2 \<and> ordersByPair st' = ordersByPair st2"
          using post_finish_rejects [OF False fin] release_slot_frame by blast
        then show ?thesis using ix2 index_exact_cong by metis
      qed
    qed
  qed
qed

section \<open>Well-formed stores\<close>

definition entry_ok :: "string \<Rightarrow> stored_order \<Rightarrow> bool" where
  "entry_ok n so \<longleftrightarrow> numeric (so_order so) \<and> js_BigInt n \<noteq> None \<and>
     (\<forall>ax ay. so_pubKeyAx so = Some ax \<longrightarrow> so_pubKeyAy so = Some ay \<longrightarrow> pubKeyId ax ay \<noteq> None)"

definition store_ok :: "store \<Rightarrow> bool" where
  "store_ok st \<longleftrightarrow> jmap_ok (authorizeOrders st) \<and> index_exact st \<and>
     (\<forall>n so. jget (authorizeOrders st) n = Some so \<longrightarrow> entry_ok n so)"

lemma release_total: "entry_ok n so \<Longrightarrow> \<exists>st'. release_slot (so_pubKeyAx so) (so_pubKeyAy so) st = Some st'"
  by (auto simp: entry_ok_def release_slot_def decPubKeyCount_def split: option.splits)

lemma cancel_call_total: "entry_ok n so \<Longrightarrow> \<exists>cs. cancel_call shared n = Some cs"
  by (auto simp: entry_ok_def cancel_call_def nullifierToOfferHandle_def)

lemma store_ok_drop:
  assumes "store_ok st" "jget (authorizeOrders st) n = Some so" "unindexAuthorizeOrder n (so_order so) st = Some st'"
  shows "store_ok (drop_order n st')"
  using assms index_exact_remove [of st n so st'] unindex_frame [OF assms(3)]
  by (auto simp: store_ok_def split: if_splits)

lemma store_ok_cong:
  "store_ok st \<Longrightarrow> authorizeOrders st' = authorizeOrders st \<Longrightarrow> ordersByPair st' = ordersByPair st \<Longrightarrow> store_ok st'"
  using index_exact_cong [of st st'] by (simp add: store_ok_def)

definition to_purge :: "seconds \<Rightarrow> stored_order \<Rightarrow> bool" where
  "to_purge now so \<longleftrightarrow> isTerminalStatus (so_status so) \<or> (isLiveStatus (so_status so) \<and> stored_expired now so)"

lemma purge_loop_spec:
  assumes "store_ok st" "distinct (map fst es)" "\<And>n so. (n, so) \<in> set es \<Longrightarrow> jget (authorizeOrders st) n = Some so"
  shows "\<exists>st' calls'. purge_loop shared now es k st calls =
      Some (k + length (filter (\<lambda>(n, so). to_purge now so) es), st', calls') \<and> store_ok st' \<and>
    (\<forall>n. jget (authorizeOrders st') n =
       (if \<exists>so. (n, so) \<in> set es \<and> to_purge now so then None else jget (authorizeOrders st) n))"
  using assms
proof (induction es arbitrary: st k calls)
  case (Cons e es)
  obtain n so where e: "e = (n, so)" by (cases e)
  have here: "jget (authorizeOrders st) n = Some so" "entry_ok n so"
    using Cons.prems(1,3) e by (auto simp: store_ok_def)
  have fresh: "n \<notin> fst ` set es" using Cons.prems(2) e by simp
  show ?case
  proof (cases "to_purge now so")
    case False
    have "purge_loop shared now (e # es) k st calls = purge_loop shared now es k st calls"
      using False e by (auto simp: to_purge_def terminal_iff Let_def)
    then show ?thesis using Cons.IH [of st k calls] Cons.prems False e by auto
  next
    case True
    let ?b = "isLiveStatus (so_status so) \<and> stored_expired now so"
    obtain st1 where r: "(if ?b then release_slot (so_pubKeyAx so) (so_pubKeyAy so) st else Some st) = Some st1"
      using release_total [OF here(2)] by (cases ?b) auto
    then have fr: "authorizeOrders st1 = authorizeOrders st" "ordersByPair st1 = ordersByPair st"
      using release_slot_frame by (auto split: if_splits)
    then have ok1: "store_ok st1" using Cons.prems(1) store_ok_cong by blast
    obtain cs where c: "cancel_call shared n = Some cs" using cancel_call_total [OF here(2)] by blast
    obtain st2 where u: "unindexAuthorizeOrder n (so_order so) st1 = Some st2"
      using unindex_total [of "so_order so" n st1] here(2) by (auto simp: entry_ok_def)
    have run: "purge_loop shared now (e # es) k st calls =
        purge_loop shared now es (Suc k) (drop_order n st2) (calls @ cs)"
      using True e r c u by (auto simp: to_purge_def Let_def terminal_iff dest: live_not_in_flight)
    have ok2: "store_ok (drop_order n st2)" using store_ok_drop [OF ok1 _ u] here fr by simp
    have o2: "authorizeOrders (drop_order n st2) = jdelete n (authorizeOrders st)"
      using unindex_frame [OF u] fr by simp
    have mem: "jget (authorizeOrders (drop_order n st2)) m = Some so'" if "(m, so') \<in> set es" for m so'
    proof -
      have "m \<noteq> n" using that fresh by (metis fst_conv image_eqI)
      moreover have "jget (authorizeOrders st) m = Some so'" using Cons.prems(3) that by simp
      ultimately show ?thesis using o2 by simp
    qed
    have dist: "distinct (map fst es)" using Cons.prems(2) by simp
    from Cons.IH [OF ok2 dist mem, of "Suc k" "calls @ cs"]
    obtain st' calls' where "purge_loop shared now es (Suc k) (drop_order n st2) (calls @ cs) =
        Some (Suc k + length (filter (\<lambda>(n, so). to_purge now so) es), st', calls')" "store_ok st'"
      "\<forall>m. jget (authorizeOrders st') m = (if \<exists>so. (m, so) \<in> set es \<and> to_purge now so then None
         else jget (authorizeOrders (drop_order n st2)) m)"
      by blast
    note w = this
    have "jget (authorizeOrders st') m = (if \<exists>so. (m, so) \<in> set (e # es) \<and> to_purge now so then None
        else jget (authorizeOrders st) m)" for m
    proof (cases "m = n")
      case t: True
      have "\<not> (\<exists>so. (m, so) \<in> set es)" using fresh t by (force simp: image_iff)
      then have "jget (authorizeOrders st') m = None" using w(3) t o2 by simp
      moreover have "\<exists>so. (m, so) \<in> set (e # es) \<and> to_purge now so" using t e True by auto
      ultimately show ?thesis by simp
    next
      case False
      then have q: "(\<exists>so. (m, so) \<in> set (e # es) \<and> to_purge now so) =
          (\<exists>so. (m, so) \<in> set es \<and> to_purge now so)" using e by simp
      have "jget (authorizeOrders (drop_order n st2)) m = jget (authorizeOrders st) m"
        unfolding o2 using False by simp
      then show ?thesis unfolding q by (simp only: w(3) [rule_format, of m])
    qed
    moreover have "k + length (filter (\<lambda>(n, so). to_purge now so) (e # es)) =
        Suc k + length (filter (\<lambda>(n, so). to_purge now so) es)"
      using True e by simp
    ultimately show ?thesis using run w(1,2) by (intro exI [of _ st'] exI [of _ calls']) simp
  qed
qed simp

text \<open>
  The purge never fails on a well-formed store, keeps it well formed, drops exactly the orders
  that are terminal, or live and past their expiry, and reports how many; orders the worker has in
  flight are never dropped, however old.
\<close>

lemma purge_orders_spec:
  assumes "store_ok st"
  shows "\<exists>st' db' calls. purgeNonPendingAuthorizeOrders shared env now (st, db) =
      Some (jcount (to_purge (now div 1000)) (authorizeOrders st), (st', db', calls)) \<and> store_ok st' \<and>
    (\<forall>n. jget (authorizeOrders st') n = (case jget (authorizeOrders st) n of None \<Rightarrow> None
       | Some so \<Rightarrow> if to_purge (now div 1000) so then None else Some so)) \<and>
    (\<forall>n so. jget (authorizeOrders st) n = Some so \<and> isInFlightStatus (so_status so) \<longrightarrow>
       jget (authorizeOrders st') n = Some so)"
proof -
  have ok: "jmap_ok (authorizeOrders st)" using assms by (simp add: store_ok_def)
  have "distinct (map fst (authorizeOrders st))" using ok by (simp add: jmap_ok_def)
  moreover have mem: "\<And>n so. (n, so) \<in> set (authorizeOrders st) \<longleftrightarrow> jget (authorizeOrders st) n = Some so"
    using ok by (rule in_jget)
  ultimately obtain st' calls' where p: "purge_loop shared (now div 1000) (authorizeOrders st) 0 st [] =
      Some (0 + length (filter (\<lambda>(n, so). to_purge (now div 1000) so) (authorizeOrders st)), st', calls')"
    "store_ok st'" "\<forall>n. jget (authorizeOrders st') n =
       (if \<exists>so. (n, so) \<in> set (authorizeOrders st) \<and> to_purge (now div 1000) so then None
        else jget (authorizeOrders st) n)"
    using purge_loop_spec [OF assms, of "authorizeOrders st" shared "now div 1000" 0 "[]"] by blast
  have "length (filter (\<lambda>(n, so). to_purge (now div 1000) so) (authorizeOrders st)) =
      jcount (to_purge (now div 1000)) (authorizeOrders st)"
    by (simp add: jcount_def case_prod_unfold)
  moreover have "isInFlightStatus (so_status so) \<Longrightarrow> \<not> to_purge t so" for so t
    by (auto simp: to_purge_def terminal_iff dest: live_not_in_flight)
  ultimately show ?thesis using p mem
    by (auto simp: purgeNonPendingAuthorizeOrders_def split: option.splits)
qed

end
