(* ===== verification/Matching.thy ===== *)
theory Matching
  imports OrderStoreFacts
begin

text \<open>
  Matching on the local book (\<open>findMatch\<close>) against its specification, the offer handles under which
  orders are published, and concrete orders on which the handlers are evaluated.
\<close>

section \<open>Offer handles\<close>

text \<open>
  The offer handle published for an order determines its nullifier: reading the handle back
  as the peer does (\<open>BigInt(handle).toString()\<close>) gives the canonical decimal nullifier, the handle
  has 32 bytes, and two keys share a handle exactly when they denote the same number.
\<close>

lemma offer_handle_roundtrip:
  assumes "js_BigInt n = Some i" "0 \<le> i" "i < 2 ^ 256" "js_BigInt m = Some j" "0 \<le> j" "j < 2 ^ 256"
  shows "\<exists>h. nullifierToOfferHandle n = Some h \<and> map_option dec (js_BigInt h) = Some (dec i) \<and>
    length h = 66 \<and> (nullifierToOfferHandle m = Some h \<longleftrightarrow> i = j)"
proof -
  have "i < 16 ^ 64" "j < 16 ^ 64" using assms by (simp_all add: power_mult [symmetric])
  then have "length (hexPad 64 i) = 66" using assms length_hexPad [of i 64] by simp
  then show ?thesis using assms
    by (auto simp: nullifierToOfferHandle_def js_BigInt_hexPad hexPad_inject)
qed

section \<open>The match\<close>

definition compatible :: "store \<Rightarrow> string \<Rightarrow> authorize_public_signals \<Rightarrow> string \<Rightarrow> bool" where
  "compatible st self inPs m \<longleftrightarrow> (\<exists>c. jget (authorizeOrders st) m = Some c \<and> m \<noteq> self \<and>
     isLiveStatus (so_status c) \<and>
     isTokenCompatible (publicSignals (so_order c)) inPs = Some True \<and>
     isPriceCompatible (publicSignals (so_order c)) inPs = Some True)"

lemma token_compat_total:
  "numeric a \<Longrightarrow> numeric b \<Longrightarrow> \<exists>x. isTokenCompatible (publicSignals a) (publicSignals b) = Some x"
  using numericD(1,2) [of a] numericD(1,2) [of b] by (auto simp: isTokenCompatible_def)

lemma price_compat_total:
  "numeric a \<Longrightarrow> numeric b \<Longrightarrow> \<exists>x. isPriceCompatible (publicSignals a) (publicSignals b) = Some x"
  using numericD(3,4) [of a] numericD(3,4) [of b] by (auto simp: isPriceCompatible_def Let_def)

text \<open>The test of one candidate of the pair bucket.\<close>

definition candidate :: "string \<Rightarrow> authorize_public_signals \<Rightarrow> string \<Rightarrow> stored_order \<Rightarrow> bool" where
  "candidate self inPs n c \<longleftrightarrow> n \<noteq> self \<and> isLiveStatus (so_status c) \<and>
     isTokenCompatible (publicSignals (so_order c)) inPs = Some True \<and>
     isPriceCompatible (publicSignals (so_order c)) inPs = Some True"

fun first_candidate :: "(string \<times> stored_order) list \<Rightarrow> string \<Rightarrow> authorize_public_signals \<Rightarrow> string option" where
  "first_candidate [] self inPs = None"
| "first_candidate ((n, c) # cs) self inPs =
     (if candidate self inPs n c then Some n else first_candidate cs self inPs)"

lemma find_match_loop_first:
  assumes "\<And>n c. (n, c) \<in> set cs \<Longrightarrow> numeric (so_order c)" "numeric inc"
  shows "find_match_loop cs self (publicSignals inc) = Some (first_candidate cs self (publicSignals inc))"
  using assms(1)
proof (induction cs)
  case (Cons e cs)
  obtain n c where e: "e = (n, c)" by (cases e)
  have num: "numeric (so_order c)" using Cons.prems [of n c] e by simp
  have IH: "find_match_loop cs self (publicSignals inc) = Some (first_candidate cs self (publicSignals inc))"
    using Cons.prems by (intro Cons.IH) (metis list.set_intros(2))
  obtain x where x: "isTokenCompatible (publicSignals (so_order c)) (publicSignals inc) = Some x"
    using token_compat_total [OF num assms(2)] by blast
  obtain y where y: "isPriceCompatible (publicSignals (so_order c)) (publicSignals inc) = Some y"
    using price_compat_total [OF num assms(2)] by blast
  show ?case using e x y IH by (cases x; cases y; simp add: candidate_def)
qed simp

lemma first_candidate_Some: "first_candidate cs self inPs = Some m \<Longrightarrow> \<exists>c. (m, c) \<in> set cs \<and> candidate self inPs m c"
  by (induction cs self inPs rule: first_candidate.induct) (auto split: if_splits)

lemma first_candidate_None: "first_candidate cs self inPs = None \<Longrightarrow> (m, c) \<in> set cs \<Longrightarrow> \<not> candidate self inPs m c"
  by (induction cs self inPs rule: first_candidate.induct) (auto split: if_splits)

lemma compatible_key:
  assumes "isTokenCompatible (publicSignals c) (publicSignals inc) = Some True" "sameToken inc = Some False"
  shows "sameToken c = Some False \<and>
    order_pair c = directedPairKey (buyToken (publicSignals inc)) (sellToken (publicSignals inc))"
  using assms
  by (auto simp: isTokenCompatible_def sameToken_def order_pair_def directedPairKey_def bind_eq_Some_conv
      split: if_splits)

lemma lookup_members:
  assumes "directedPairKey buy sell = Some key"
    "lookupAuthorizeOrdersByCounterPair sell buy st = Some cs"
  shows "(n, c) \<in> set cs \<longleftrightarrow> n \<in> set (bucket (ordersByPair st) key) \<and> jget (authorizeOrders st) n = Some c"
proof -
  let ?f = "\<lambda>n. map_option (Pair n) (jget (authorizeOrders st) n)"
  have "cs = List.map_filter ?f (bucket (ordersByPair st) key)"
    using assms by (auto simp: lookupAuthorizeOrdersByCounterPair_def)
  then show ?thesis by (auto simp: List.map_filter_def image_iff intro: rev_bexI)
qed

lemma findMatch_answers:
  assumes "store_ok st" "numeric (so_order inc)" "sameToken (so_order inc) = Some False"
  shows "case findMatch self inc st of
      None \<Rightarrow> False
    | Some None \<Rightarrow> \<forall>m. \<not> compatible st self (publicSignals (so_order inc)) m
    | Some (Some m) \<Rightarrow> compatible st self (publicSignals (so_order inc)) m"
proof -
  let ?ps = "publicSignals (so_order inc)"
  obtain key where key: "directedPairKey (buyToken ?ps) (sellToken ?ps) = Some key"
    using numericD(1,2) [OF assms(2)] by (auto simp: directedPairKey_def)
  then obtain cs where cs: "lookupAuthorizeOrdersByCounterPair (sellToken ?ps) (buyToken ?ps) st = Some cs"
    by (simp add: lookupAuthorizeOrdersByCounterPair_def)
  note mem = lookup_members [OF key cs]
  have num: "numeric (so_order c)" if "(n, c) \<in> set cs" for n c
    using that mem assms(1) by (auto simp: store_ok_def entry_ok_def)
  have iff: "compatible st self ?ps m \<longleftrightarrow> (\<exists>c. (m, c) \<in> set cs \<and> candidate self ?ps m c)" for m
  proof
    assume "compatible st self ?ps m"
    then obtain c where c: "jget (authorizeOrders st) m = Some c" "candidate self ?ps m c"
      by (auto simp: compatible_def candidate_def)
    have "sameToken (so_order c) = Some False" "order_pair (so_order c) = Some key"
      using compatible_key [of "so_order c" "so_order inc"] c(2) assms(3) key by (auto simp: candidate_def)
    then have "m \<in> set (bucket (ordersByPair st) key)"
      using assms(1) c(1) by (auto simp: store_ok_def index_exact_def)
    then show "\<exists>c. (m, c) \<in> set cs \<and> candidate self ?ps m c" using c mem by blast
  next
    assume "\<exists>c. (m, c) \<in> set cs \<and> candidate self ?ps m c"
    then show "compatible st self ?ps m" using mem by (auto simp: compatible_def candidate_def)
  qed
  have f: "findMatch self inc st = Some (first_candidate cs self ?ps)"
    using cs find_match_loop_first [where self = self, OF num assms(2)] by (simp add: findMatch_def Let_def)
  show ?thesis
  proof (cases "first_candidate cs self ?ps")
    case None
    then show ?thesis using f iff first_candidate_None [OF None] by auto
  next
    case (Some m)
    then show ?thesis using f iff first_candidate_Some [OF Some] by auto
  qed
qed

text \<open>
  C17.  On a well-formed store \<open>findMatch\<close> finds a counterparty for a cross-token order exactly when
  there is one: its answer is a live order other than the incoming one, on the opposite token pair
  and at a compatible price, and it answers null only if the store holds no such order.  It does not
  throw.
\<close>

theorem findMatch_spec:
  assumes "store_ok st" "numeric (so_order inc)" "sameToken (so_order inc) = Some False"
  shows "case findMatch self inc st of
      None \<Rightarrow> False
    | Some None \<Rightarrow> \<forall>m. \<not> compatible st self (publicSignals (so_order inc)) m
    | Some (Some m) \<Rightarrow> compatible st self (publicSignals (so_order inc)) m"
  using assms by (rule findMatch_answers)

text \<open>
  The reactive price test of the cross-relayer matcher,
  \<open>remoteBuy * localBuy > remoteSell * localSell\<close>, rejects exactly what \<open>isPriceCompatible\<close> rejects
  with the remote order as maker and the local one as taker, and compatibility does not depend on
  which side is called maker.
\<close>

lemma price_test_transposed:
  assumes "big (sellAmount m) = Some ms" "big (buyAmount m) = Some mb"
    and "big (sellAmount t) = Some ts" "big (buyAmount t) = Some tb"
  shows "isPriceCompatible m t = Some (\<not> mb * tb > ms * ts) \<and> isPriceCompatible m t = isPriceCompatible t m"
  using assms by (simp add: isPriceCompatible_def Let_def not_less mult.commute)

section \<open>Concrete orders\<close>

definition sample_proof :: solidity_proof where
  "sample_proof = \<lparr>pf_a = Some (''1'', ''2''), pf_b = Some ((''1'', ''2''), (''3'', ''4'')), pf_c = Some (''1'', ''2'')\<rparr>"

definition sample_signals ::
  "string \<Rightarrow> int \<Rightarrow> int \<Rightarrow> int \<Rightarrow> int \<Rightarrow> authorize_public_signals" where
  "sample_signals n sell buy sellAmt buyAmt =
     \<lparr>pubKeyBind = Some (dec 7), commitmentRoot = Some (dec 1), nullifier = Some n, nonceNullifier = Some (dec 3),
      newCommitment = Some (dec 4), sellToken = Some (dec sell), buyToken = Some (dec buy),
      sellAmount = Some (dec sellAmt), buyAmount = Some (dec buyAmt), maxFee = Some (dec 30),
      expiry = Some (dec 2000), claimsRoot = Some (dec 5), totalLocked = Some (dec 9),
      relayer = Some (dec 10), orderHash = Some (dec 6)\<rparr>"

definition sample_order :: "string \<Rightarrow> int \<Rightarrow> int \<Rightarrow> int \<Rightarrow> int \<Rightarrow> authorize_order_file" where
  "sample_order n sell buy sellAmt buyAmt =
     \<lparr>ao_proof = Some sample_proof, publicSignals = sample_signals n sell buy sellAmt buyAmt,
      publicSignalsArray = Some [dec 7, dec 1, n, dec 3, dec 4, dec sell, dec buy, dec sellAmt, dec buyAmt,
        dec 30, dec 2000, dec 5, dec 9, dec 10, dec 6],
      tier = None\<rparr>"

definition sample_env :: post_env where
  "sample_env = \<lparr>pe_start = 1000000, pe_accept = 1000500, pe_relayer = hexPad 40 10,
     pe_verifyOrderProofs = True, pe_sanctioned = [], pe_poseidon = (\<lambda>_. 7), pe_proof = ProofValid,
     pe_shared = True\<rparr>"

definition sample_request :: "string \<Rightarrow> int \<Rightarrow> int \<Rightarrow> int \<Rightarrow> int \<Rightarrow> post_request" where
  "sample_request n sell buy sellAmt buyAmt =
     \<lparr>rq_order = sample_order n sell buy sellAmt buyAmt, rq_pubKeyAx = Some (dec 11), rq_pubKeyAy = Some (dec 12)\<rparr>"

definition empty_db :: order_db where
  "empty_db = \<lparr>orders_tbl = [], claims_roots = []\<rparr>"

lemmas sample_defs = sample_order_def sample_signals_def sample_proof_def sample_env_def sample_request_def

lemma sample_valid:
  assumes "js_BigInt n = Some i" "0 < i" "i < BN254_FIELD_MODULUS"
    and "0 \<le> sell" "sell < 2 ^ 160" "0 \<le> buy" "buy < 2 ^ 160"
    and "0 < sa" "sa < 2 ^ 128" "0 < ba" "ba < 2 ^ 128" "0 \<le> now" "now < 2000"
  shows "validateAuthorizeOrder (sample_order n sell buy sa ba) (hexPad 40 10) now = None"
proof -
  have field: "in_field (ps_get (sample_signals n sell buy sa ba) f)" for f
    using assms by (cases f) (simp_all add: in_field_def sample_signals_def js_simps BN254_FIELD_MODULUS_def)
  have nums: "num (Some (dec v)) = v" if "0 \<le> v" for v using that by (simp add: num_def js_simps)
  have "wf_order (sample_order n sell buy sa ba) (hexPad 40 10) now"
    using assms field
    by (simp add: wf_order_def Let_def sample_order_def array_matches_def AUTHORIZE_PUBLIC_SIGNAL_ORDER_def
        sample_proof_def proof_complete_def positive_below_def)
      (simp add: sample_signals_def nums eqAddr_iff hexPad_nonneg num_def js_simps)
  then show ?thesis using assms validate_wf by simp
qed

section \<open>Runs of POST\<close>

definition sample_key :: string where "sample_key = dec 11 @ '':'' @ dec 12"

definition sample_stored :: "string \<Rightarrow> int \<Rightarrow> int \<Rightarrow> int \<Rightarrow> int \<Rightarrow> stored_order" where
  "sample_stored n sell buy sa ba =
     \<lparr>so_order = sample_order n sell buy sa ba, so_status = Accepted, so_submittedAt = 1000500,
      so_settleTxHash = None, so_crossRelayer = False, so_pubKeyAx = Some (dec 11), so_pubKeyAy = Some (dec 12)\<rparr>"

lemma sample_begin:
  assumes "js_BigInt n = Some i" "0 < i" "i < BN254_FIELD_MODULUS"
    and "0 \<le> sell" "sell < 2 ^ 160" "0 \<le> buy" "buy < 2 ^ 160"
    and "0 < sa" "sa < 2 ^ 128" "0 < ba" "ba < 2 ^ 128"
    and "jget (authorizeOrders st) n = None" "jsize (authorizeOrders st) < MAX_AUTHORIZE_ORDERS"
    and "getAuthorizeOrder d n = None"
  shows "post_begin sample_env (sample_request n sell buy sa ba) (st, Some d) = (None, (st, Some d))"
proof -
  have v: "validateAuthorizeOrder (sample_order n sell buy sa ba) (hexPad 40 10) 1000 = None"
    using assms by (intro sample_valid) auto
  have e: "js_round (num (expiry (publicSignals (sample_order n sell buy sa ba)))) = 2000"
    by (simp add: sample_order_def sample_signals_def num_def js_simps js_round_small)
  have nf: "order_nullifier (sample_order n sell buy sa ba) = n"
    by (simp add: order_nullifier_def sample_order_def sample_signals_def)
  show ?thesis
    using assms v e nf
    by (simp add: post_begin_def post_caps_def Let_def sample_env_def sample_request_def MAX_EXPIRY_DURATION_SECS_def)
qed

lemma pubKeyId_dec:
  assumes "length (dec x) \<le> MAX_PUBKEY_LEN" "length (dec y) \<le> MAX_PUBKEY_LEN" "0 \<le> x" "0 \<le> y"
  shows "pubKeyId (dec x) (dec y) = Some (dec x @ '':'' @ dec y)"
  using assms by (simp add: pubKeyId_def js_simps)

lemma sample_pubKeyId: "pubKeyId (dec 11) (dec 12) = Some sample_key"
proof -
  have "length (dec 11) = 2" "length (dec 12) = 2"
    by (simp_all add: bigint_toString_def to_radix.simps)
  then show ?thesis unfolding sample_key_def
    by (intro pubKeyId_dec) (simp_all add: MAX_PUBKEY_LEN_def)
qed

definition sample_posted :: "string \<Rightarrow> int \<Rightarrow> int \<Rightarrow> int \<Rightarrow> int \<Rightarrow> store \<Rightarrow> store" where
  "sample_posted n sell buy sa ba st =
     \<lparr>authorizeOrders = jset n (sample_stored n sell buy sa ba) (authorizeOrders st),
      pendingCountByPubKey = jset sample_key (pendingCount st sample_key + 1) (pendingCountByPubKey st),
      ordersByPair = jset (dec sell @ '':'' @ dec buy)
        (sadd n (bucket (ordersByPair st) (dec sell @ '':'' @ dec buy))) (ordersByPair st)\<rparr>"

definition sample_row :: "string \<Rightarrow> int \<Rightarrow> int \<Rightarrow> int \<Rightarrow> int \<Rightarrow> db_row" where
  "sample_row n sell buy sa ba = \<lparr>r_status = Accepted, r_submittedAt = 1000500, r_updatedAt = 1000500,
     r_attempt = 0, r_nextRetryAt = None, r_lastError = None, r_settleTx = None,
     r_pubKeyAx = Some (dec 11), r_pubKeyAy = Some (dec 12), r_orderJson = Some (sample_order n sell buy sa ba)\<rparr>"

lemma sample_finish:
  assumes "js_BigInt n = Some i" "0 \<le> sell" "0 \<le> buy" "sell \<noteq> buy"
    and "getAuthorizeOrder d n = None"
    and "post_reserve sample_env (sample_request n sell buy sa ba) (st, Some d) = (None, (st1, Some d))"
    and "incPubKeyCount (dec 11) (dec 12) st = Some st1"
  shows "\<exists>l. post_finish sample_env (sample_request n sell buy sa ba) (st1, Some d) =
    (RStatus 202 (accepted_reply 1000500 (sample_order n sell buy sa ba)) n, [CallPost l],
     (sample_posted n sell buy sa ba st, Some (on_table (jset n (sample_row n sell buy sa ba)) d)))"
proof -
  let ?o = "sample_order n sell buy sa ba"
  have nf: "order_nullifier ?o = n"
    by (simp add: order_nullifier_def sample_order_def sample_signals_def)
  have ins: "insertAcceptedOrder n 1000500 (Some ?o) (Some (dec 11)) (Some (dec 12)) d =
      Some (on_table (jset n (sample_row n sell buy sa ba)) d)"
    using assms(5) by (simp add: insertAcceptedOrder_def getAuthorizeOrder_def sample_row_def jhas_jget)
  have same: "sameToken ?o = Some False" and pair: "order_pair ?o = Some (dec sell @ '':'' @ dec buy)"
    using assms by (simp_all add: sameToken_def order_pair_def directedPairKey_def sample_order_def
        sample_signals_def js_simps big_def)
  have st1: "st1 = st\<lparr>pendingCountByPubKey := jset sample_key (pendingCount st sample_key + 1) (pendingCountByPubKey st)\<rparr>"
    using assms(7) sample_pubKeyId by (simp add: incPubKeyCount_def)
  have ix: "indexAuthorizeOrder n ?o (put_order n (sample_stored n sell buy sa ba) st1) =
      Some (sample_posted n sell buy sa ba st)"
    using same pair st1 by (simp add: indexAuthorizeOrder_def put_order_def sample_posted_def)
  obtain l where "listing_of n ?o = Some l"
    using assms by (auto simp: listing_of_def nullifierToOfferHandle_def publicSignalToAddress_def Let_def
        sample_order_def sample_signals_def big_def js_simps)
  then show ?thesis using nf ins same ix
    by (simp add: post_finish_def post_publish_def Let_def sample_env_def sample_request_def
        sample_stored_def [symmetric])
qed

text \<open>A sample order that meets the caps is accepted, counted, indexed and published.\<close>

lemma sample_post:
  assumes "js_BigInt n = Some i" "0 < i" "i < BN254_FIELD_MODULUS"
    and "0 \<le> sell" "sell < 2 ^ 160" "0 \<le> buy" "buy < 2 ^ 160" "sell \<noteq> buy"
    and "0 < sa" "sa < 2 ^ 128" "0 < ba" "ba < 2 ^ 128"
    and "jget (authorizeOrders st) n = None" "jsize (authorizeOrders st) < MAX_AUTHORIZE_ORDERS"
    and "getAuthorizeOrder d n = None" "pendingCount st sample_key < MAX_ORDERS_PER_PUBKEY"
  shows "\<exists>l. postAuthorizeOrder sample_env (sample_request n sell buy sa ba) (st, Some d) =
    (RStatus 202 (accepted_reply 1000500 (sample_order n sell buy sa ba)) n, [CallPost l],
     (sample_posted n sell buy sa ba st, Some (on_table (jset n (sample_row n sell buy sa ba)) d)))"
proof -
  have b: "post_begin sample_env (sample_request n sell buy sa ba) (st, Some d) = (None, (st, Some d))"
    using assms by (intro sample_begin) auto
  obtain st1 where inc: "incPubKeyCount (dec 11) (dec 12) st = Some st1"
    using sample_pubKeyId by (simp add: incPubKeyCount_def)
  have v: "post_reserve sample_env (sample_request n sell buy sa ba) (st, Some d) = (None, (st1, Some d))"
    using assms(16) inc sample_pubKeyId
    by (simp add: post_reserve_def sample_env_def sample_request_def sample_order_def sample_signals_def
        big_def js_simps)
  show ?thesis using sample_finish [OF assms(1,4,6,8,15) v inc] b v
    by (simp add: postAuthorizeOrder_def)
qed

lemma empty_facts:
  "jget (authorizeOrders empty_store) n = None" "jsize (authorizeOrders empty_store) < MAX_AUTHORIZE_ORDERS"
  "getAuthorizeOrder empty_db n = None" "pendingCount empty_store k < MAX_ORDERS_PER_PUBKEY"
  by (simp_all add: empty_store_def empty_db_def getAuthorizeOrder_def pendingCount_def jsize_def
      MAX_AUTHORIZE_ORDERS_def MAX_ORDERS_PER_PUBKEY_def)

text \<open>
  The idempotency key is the text of the nullifier, not its value: a POST of an order and a
  second POST of the same order with a leading zero in the nullifier are both accepted.  The store
  then holds two live orders, and the table two rows, for one nullifier that can be spent once.
\<close>

lemma nullifier_text_is_the_key:
  assumes "0 < i" "i < BN254_FIELD_MODULUS"
  shows "\<exists>l l' st d st' d' r r'.
    postAuthorizeOrder sample_env (sample_request (dec i) 1 2 100 50) (empty_store, Some empty_db) =
      (RStatus 202 r (dec i), [CallPost l], (st, Some d)) \<and>
    postAuthorizeOrder sample_env (sample_request (CHR ''0'' # dec i) 1 2 100 50) (st, Some d) =
      (RStatus 202 r' (CHR ''0'' # dec i), [CallPost l'], (st', Some d')) \<and>
    (\<exists>a b. jget (authorizeOrders st') (dec i) = Some a \<and> jget (authorizeOrders st') (CHR ''0'' # dec i) = Some b \<and>
      isLiveStatus (so_status a) \<and> isLiveStatus (so_status b)) \<and>
    js_BigInt (dec i) = Some i \<and> js_BigInt (CHR ''0'' # dec i) = Some i"
proof -
  let ?n = "dec i" let ?m = "CHR ''0'' # dec i"
  have b: "js_BigInt ?n = Some i" "js_BigInt ?m = Some i"
    using assms js_BigInt_dec [of i] js_BigInt_leading_zero [of i] by simp_all
  have ne: "?m \<noteq> ?n" by simp
  obtain l where p1: "postAuthorizeOrder sample_env (sample_request ?n 1 2 100 50) (empty_store, Some empty_db) =
    (RStatus 202 (accepted_reply 1000500 (sample_order ?n 1 2 100 50)) ?n, [CallPost l],
     (sample_posted ?n 1 2 100 50 empty_store, Some (on_table (jset ?n (sample_row ?n 1 2 100 50)) empty_db)))"
    using sample_post [OF b(1) assms, of 1 2 100 50 empty_store empty_db] empty_facts by auto
  let ?st = "sample_posted ?n 1 2 100 50 empty_store"
  let ?d = "on_table (jset ?n (sample_row ?n 1 2 100 50)) empty_db"
  have f: "jget (authorizeOrders ?st) ?m = None" "jsize (authorizeOrders ?st) < MAX_AUTHORIZE_ORDERS"
    "getAuthorizeOrder ?d ?m = None" "pendingCount ?st sample_key < MAX_ORDERS_PER_PUBKEY"
    using ne by (simp_all add: sample_posted_def empty_store_def empty_db_def getAuthorizeOrder_def
        pendingCount_def MAX_AUTHORIZE_ORDERS_def MAX_ORDERS_PER_PUBKEY_def jsize_def jset_def jget_def)
  obtain l' where p2: "postAuthorizeOrder sample_env (sample_request ?m 1 2 100 50) (?st, Some ?d) =
    (RStatus 202 (accepted_reply 1000500 (sample_order ?m 1 2 100 50)) ?m, [CallPost l'],
     (sample_posted ?m 1 2 100 50 ?st, Some (on_table (jset ?m (sample_row ?m 1 2 100 50)) ?d)))"
    using sample_post [OF b(2) assms, of 1 2 100 50 ?st ?d] f by auto
  have "jget (authorizeOrders (sample_posted ?m 1 2 100 50 ?st)) ?n = Some (sample_stored ?n 1 2 100 50)"
    "jget (authorizeOrders (sample_posted ?m 1 2 100 50 ?st)) ?m = Some (sample_stored ?m 1 2 100 50)"
    using ne by (simp_all add: sample_posted_def)
  moreover have "isLiveStatus (so_status (sample_stored x 1 2 100 50))" for x by (simp add: sample_stored_def)
  ultimately show ?thesis using p1 p2 b by blast
qed

lemma bucket_insert_mono:
  assumes "post_finish env rq (st, db) = (r, cs, (st', db'))" "m \<in> set (bucket (ordersByPair st) k)"
  shows "m \<in> set (bucket (ordersByPair st') k)"
proof (cases "accepts env rq db")
  case True
  obtain db1 where "post_publish env rq (order_nullifier (rq_order rq)) (st, db1) = (r, cs, (st', db'))"
    using post_finish_accepts [OF True, of st] assms(1) by auto
  then show ?thesis using assms(2)
    by (auto simp: post_publish_def indexAuthorizeOrder_def bind_eq_Some_conv Let_def split: option.splits if_splits)
next
  case False
  then have "ordersByPair st' = ordersByPair st"
    using post_finish_rejects [OF False assms(1)] release_slot_frame by blast
  then show ?thesis using assms(2) by simp
qed

lemma get_deleted [simp]: "getAuthorizeOrder (deleteAuthorizeOrder n d) n = None"
  by (simp add: getAuthorizeOrder_def deleteAuthorizeOrder_def)

lemma post_failed_row:
  assumes "getAuthorizeOrder d n = Some row" "r_status row = Failed" "order_nullifier (rq_order rq) = n"
    and "validateAuthorizeOrder (rq_order rq) (pe_relayer env) (pe_start env div 1000) = None"
  shows "postAuthorizeOrder env rq (st, Some d) =
    postAuthorizeOrder env rq (drop_order n st, Some (deleteAuthorizeOrder n d))"
  using assms by (simp add: postAuthorizeOrder_def post_begin_def Let_def)

text \<open>An accepted POST for a nullifier the store and the table do not know.\<close>

lemma post_fresh_accepted:
  assumes "jget (authorizeOrders st) n = None" "getAuthorizeOrder d n = None" "order_nullifier (rq_order rq) = n"
    and "postAuthorizeOrder env rq (st, Some d) = (RStatus 202 reply n, cs, (st', db'))"
  shows "(\<exists>so. jget (authorizeOrders st') n = Some so \<and> so_order so = rq_order rq) \<and>
    (m \<in> set (bucket (ordersByPair st) k) \<longrightarrow> m \<in> set (bucket (ordersByPair st') k))"
proof -
  obtain r1 s1 where b: "post_begin env rq (st, Some d) = (r1, s1)" by (metis prod.exhaust)
  have b1: "s1 = (st, Some d)" "r1 = None \<or> (\<exists>c e. r1 = Some (RError c e))"
    using b assms(1-3) by (auto simp: post_begin_def post_caps_def Let_def split: option.splits if_splits)
  then have r1: "r1 = None" using assms(4) b by (auto simp: postAuthorizeOrder_def)
  obtain r2 st2 db2 where v: "post_reserve env rq (st, Some d) = (r2, (st2, db2))" by (metis prod.exhaust)
  have v2: "r2 = None" "db2 = Some d" "ordersByPair st2 = ordersByPair st"
    using post_reserve_cases [OF v] assms(4) b b1 r1 v
    by (auto simp: postAuthorizeOrder_def incPubKeyCount_def)
  have fin: "post_finish env rq (st2, Some d) = (RStatus 202 reply n, cs, (st', db'))"
    using assms(4) b b1 r1 v v2 by (simp add: postAuthorizeOrder_def)
  have "\<not> jhas (orders_tbl d) n" using assms(2) by (simp add: getAuthorizeOrder_def jhas_jget)
  have acc: "accepts env rq (Some d)"
    using fin \<open>\<not> jhas (orders_tbl d) n\<close> assms(3)
    by (auto simp: post_finish_def accepts_def Let_def server_error_def split: option.splits if_splits)
  have "validateAuthorizeOrder (rq_order rq) (pe_relayer env) (pe_start env div 1000) = None"
    using post_begin_frame [of env rq st "Some d" r1 "fst s1" "snd s1"] b r1 by simp
  then have num: "numeric (rq_order rq)" by (rule validated_numeric)
  obtain db3 where "post_publish env rq n (st2, db3) = (RStatus 202 reply n, cs, (st', db'))"
    using post_finish_accepts [OF acc, of st2] fin assms(3) by auto
  then have "\<exists>so. jget (authorizeOrders st') n = Some so \<and> so_order so = rq_order rq"
    using post_publish_reply [OF num, of env st2 db3] assms(3) by auto
  then show ?thesis using bucket_insert_mono [OF fin] v2 by simp
qed

text \<open>
  Resubmitting a failed order with another token pair leaves the pair index wrong: the POST
  drops the old entry from the order map but not from its bucket, so after the new order is
  accepted its nullifier is listed both under the new pair and under the old one, which the
  stored order does not trade.
\<close>

lemma resubmission_leaves_stale_index:
  assumes "getAuthorizeOrder d n = Some row" "r_status row = Failed" "order_nullifier (rq_order rq) = n"
    and "n \<in> set (bucket (ordersByPair st) k)" "order_pair (rq_order rq) \<noteq> Some k"
    and "postAuthorizeOrder env rq (st, Some d) = (RStatus 202 reply n, cs, (st', db'))"
  shows "n \<in> set (bucket (ordersByPair st') k) \<and>
    (\<exists>so. jget (authorizeOrders st') n = Some so \<and> order_pair (so_order so) \<noteq> Some k) \<and> \<not> index_exact st'"
proof -
  have v: "validateAuthorizeOrder (rq_order rq) (pe_relayer env) (pe_start env div 1000) = None"
    using assms(6) by (auto simp: postAuthorizeOrder_def post_begin_def Let_def split: option.splits)
  have "postAuthorizeOrder env rq (drop_order n st, Some (deleteAuthorizeOrder n d)) =
      (RStatus 202 reply n, cs, (st', db'))"
    using post_failed_row [OF assms(1-3) v] assms(6) by simp
  from post_fresh_accepted [OF _ _ assms(3) this, of n k] assms(4)
  obtain so where so: "n \<in> set (bucket (ordersByPair st') k)" "jget (authorizeOrders st') n = Some so"
    "so_order so = rq_order rq"
    by auto
  then have "\<not> index_exact st'" using assms(5) unfolding index_exact_def by fastforce
  then show ?thesis using so assms(5) by auto
qed

section \<open>Witnesses\<close>

definition failed_store :: store where
  "failed_store = set_status (dec 77) Failed (sample_posted (dec 77) 1 2 100 50 empty_store)"

definition failed_db :: order_db where
  "failed_db = markAuthorizeOrderFailed (dec 77) ''x'' 5
     (on_table (jset (dec 77) (sample_row (dec 77) 1 2 100 50)) empty_db)"

lemma field_77: "js_BigInt (dec 77) = Some 77" "(0::int) < 77" "77 < BN254_FIELD_MODULUS"
  by (simp_all add: js_simps BN254_FIELD_MODULUS_def)

lemma sample_nullifier: "order_nullifier (rq_order (sample_request n sell buy sa ba)) = n"
  by (simp add: order_nullifier_def sample_request_def sample_order_def sample_signals_def)

lemma sample_pair:
  "0 \<le> sell \<Longrightarrow> 0 \<le> buy \<Longrightarrow> order_pair (sample_order n sell buy sa ba) = Some (dec sell @ '':'' @ dec buy)"
  by (simp add: order_pair_def directedPairKey_def sample_order_def sample_signals_def js_simps big_def)

lemma sample_post_first:
  "\<exists>l. postAuthorizeOrder sample_env (sample_request (dec 77) 1 2 100 50) (empty_store, Some empty_db) =
    (RStatus 202 (accepted_reply 1000500 (sample_order (dec 77) 1 2 100 50)) (dec 77), [CallPost l],
     (sample_posted (dec 77) 1 2 100 50 empty_store,
      Some (on_table (jset (dec 77) (sample_row (dec 77) 1 2 100 50)) empty_db)))"
  using sample_post [OF field_77, of 1 2 100 50 empty_store empty_db] empty_facts by auto

lemma failed_row: "\<exists>row. getAuthorizeOrder failed_db (dec 77) = Some row \<and> r_status row = Failed"
  by (simp add: failed_db_def getAuthorizeOrder_def markAuthorizeOrderFailed_def)

lemma failed_bucket: "dec 77 \<in> set (bucket (ordersByPair failed_store) (dec 1 @ '':'' @ dec 2))"
  by (simp add: failed_store_def sample_posted_def set_status_def)

lemma failed_repost:
  "\<exists>reply cs s. postAuthorizeOrder sample_env (sample_request (dec 77) 3 4 100 50) (failed_store, Some failed_db) =
     (RStatus 202 reply (dec 77), cs, s)"
proof -
  obtain row where row: "getAuthorizeOrder failed_db (dec 77) = Some row" "r_status row = Failed"
    using failed_row by blast
  have v: "validateAuthorizeOrder (rq_order (sample_request (dec 77) 3 4 100 50)) (pe_relayer sample_env)
      (pe_start sample_env div 1000) = None"
    using sample_valid [OF field_77, of 3 4 100 50 1000] by (simp add: sample_request_def sample_env_def)
  have f: "jget (authorizeOrders (drop_order (dec 77) failed_store)) (dec 77) = None"
    "jsize (authorizeOrders (drop_order (dec 77) failed_store)) < MAX_AUTHORIZE_ORDERS"
    "pendingCount (drop_order (dec 77) failed_store) sample_key < MAX_ORDERS_PER_PUBKEY"
    by (simp_all add: failed_store_def sample_posted_def empty_store_def jsize_def jset_def jmodify_def
        drop_order_def set_status_def jdelete_def pendingCount_def jget_def MAX_AUTHORIZE_ORDERS_def
        MAX_ORDERS_PER_PUBKEY_def)
  show ?thesis
    using post_failed_row [OF row sample_nullifier v, of failed_store]
      sample_post [OF field_77, of 3 4 100 50 "drop_order (dec 77) failed_store" "deleteAuthorizeOrder (dec 77) failed_db"] f
    by auto
qed

lemma resubmission_leaves_stale_index_witness: "\<exists>st. \<not> index_exact st"
proof -
  obtain row where row: "getAuthorizeOrder failed_db (dec 77) = Some row" "r_status row = Failed"
    using failed_row by blast
  obtain reply cs st' db' where p:
    "postAuthorizeOrder sample_env (sample_request (dec 77) 3 4 100 50) (failed_store, Some failed_db) =
      (RStatus 202 reply (dec 77), cs, (st', db'))"
    using failed_repost by (metis prod.exhaust)
  have "order_pair (rq_order (sample_request (dec 77) 3 4 100 50)) \<noteq> Some (dec 1 @ '':'' @ dec 2)"
    by (simp add: sample_request_def sample_pair colon_key_eq)
  from resubmission_leaves_stale_index [OF row sample_nullifier failed_bucket this p]
  show ?thesis by blast
qed

lemma nullifier_text_is_the_key_witness:
  "\<exists>l st d r. postAuthorizeOrder sample_env (sample_request (dec 77) 1 2 100 50) (empty_store, Some empty_db) =
      (RStatus 202 r (dec 77), [CallPost l], (st, Some d))"
  using nullifier_text_is_the_key [OF field_77(2,3)] by blast

lemma counters_ok_empty: "counters_ok empty_store"
  by (simp add: counters_ok_def empty_store_def)

lemma index_exact_empty: "index_exact empty_store"
  by (simp add: index_exact_def empty_store_def)

lemma store_ok_empty: "store_ok empty_store"
  by (simp add: store_ok_def empty_store_def jmap_ok_def index_exact_empty [unfolded empty_store_def])

lemma sample_numeric: "numeric (sample_order (dec 77) 1 2 100 50)"
  using sample_valid [OF field_77, of 1 2 100 50 1000] by (intro validated_numeric) auto


lemma post_replay_witness:
  "\<exists>reply. postAuthorizeOrder sample_env (sample_request (dec 77) 3 4 100 50)
     (empty_store, Some (on_table (jset (dec 77) (sample_row (dec 77) 1 2 100 50)) empty_db)) =
   (RStatus 202 reply (dec 77), [], (empty_store, Some (on_table (jset (dec 77) (sample_row (dec 77) 1 2 100 50)) empty_db)))"
proof -
  have v: "validateAuthorizeOrder (rq_order (sample_request (dec 77) 3 4 100 50)) (pe_relayer sample_env)
      (pe_start sample_env div 1000) = None"
    using sample_valid [OF field_77, of 3 4 100 50 1000] by (simp add: sample_request_def sample_env_def)
  have g: "getAuthorizeOrder (on_table (jset (dec 77) (sample_row (dec 77) 1 2 100 50)) empty_db)
      (order_nullifier (rq_order (sample_request (dec 77) 3 4 100 50))) = Some (sample_row (dec 77) 1 2 100 50)"
    by (simp add: getAuthorizeOrder_def sample_nullifier)
  show ?thesis using post_replay [OF v g, of empty_store] sample_nullifier
    by (simp add: sample_row_def terminal_iff)
qed

lemma post_keeps_index_witness: "\<exists>st. index_exact st \<and> dec 77 \<in> set (bucket (ordersByPair st) (dec 1 @ '':'' @ dec 2))"
proof -
  let ?st = "sample_posted (dec 77) 1 2 100 50 empty_store"
  obtain l where p: "postAuthorizeOrder sample_env (sample_request (dec 77) 1 2 100 50) (empty_store, Some empty_db) =
    (RStatus 202 (accepted_reply 1000500 (sample_order (dec 77) 1 2 100 50)) (dec 77), [CallPost l],
     (?st, Some (on_table (jset (dec 77) (sample_row (dec 77) 1 2 100 50)) empty_db)))"
    using sample_post_first by blast
  have "index_exact ?st"
    by (rule post_keeps_index [OF index_exact_empty p]) (simp_all add: empty_facts)
  moreover have "dec 77 \<in> set (bucket (ordersByPair ?st) (dec 1 @ '':'' @ dec 2))"
    by (simp add: sample_posted_def)
  ultimately show ?thesis by blast
qed

lemma purge_orders_spec_witness:
  "\<exists>st' db' calls. purgeNonPendingAuthorizeOrders True None 5000 (empty_store, Some empty_db) =
     Some (0, (st', db', calls)) \<and> store_ok st'"
  using purge_orders_spec [OF store_ok_empty, of True None 5000 "Some empty_db"]
  by (simp add: empty_store_def jcount_def) blast

lemma offer_handle_roundtrip_witness:
  "nullifierToOfferHandle (dec 77) \<noteq> nullifierToOfferHandle (dec 78)"
proof -
  have "js_BigInt (dec 78) = Some 78" by (simp add: js_simps)
  from offer_handle_roundtrip [OF field_77(1) _ _ this] show ?thesis by fastforce
qed

lemma price_test_transposed_witness:
  "isPriceCompatible (sample_signals (dec 1) 1 2 100 50) (sample_signals (dec 1) 2 1 60 90) = Some True"
proof -
  have "big (sellAmount (sample_signals (dec 1) 1 2 100 50)) = Some 100"
    "big (buyAmount (sample_signals (dec 1) 1 2 100 50)) = Some 50"
    "big (sellAmount (sample_signals (dec 1) 2 1 60 90)) = Some 60"
    "big (buyAmount (sample_signals (dec 1) 2 1 60 90)) = Some 90"
    by (simp_all add: sample_signals_def js_simps)
  from price_test_transposed [OF this] show ?thesis by simp
qed

abbreviation one_order :: store where
  "one_order \<equiv> sample_posted (dec 77) 1 2 100 50 empty_store"

lemma one_order_ok: "store_ok one_order"
proof -
  obtain l where p: "postAuthorizeOrder sample_env (sample_request (dec 77) 1 2 100 50) (empty_store, Some empty_db) =
    (RStatus 202 (accepted_reply 1000500 (sample_order (dec 77) 1 2 100 50)) (dec 77), [CallPost l],
     (one_order, Some (on_table (jset (dec 77) (sample_row (dec 77) 1 2 100 50)) empty_db)))"
    using sample_post_first by blast
  have pk: "pubKeyId (dec 11) (dec 12) \<noteq> None" using sample_pubKeyId by simp
  have ix: "indexAuthorizeOrder (dec 77) (so_order (sample_stored (dec 77) 1 2 100 50))
      (put_order (dec 77) (sample_stored (dec 77) 1 2 100 50)
        (empty_store\<lparr>pendingCountByPubKey := pendingCountByPubKey one_order\<rparr>)) = Some one_order"
    by (simp add: indexAuthorizeOrder_def sameToken_def order_pair_def directedPairKey_def sample_stored_def
        sample_order_def sample_signals_def js_simps put_order_def sample_posted_def)
  have "index_exact one_order"
    by (rule index_exact_insert [OF _ _ ix]) (simp_all add: index_exact_def empty_store_def)
  then show ?thesis using pk sample_numeric
    by (simp add: store_ok_def entry_ok_def sample_posted_def sample_stored_def empty_store_def js_simps)
qed

theorem findMatch_spec_witness:
  "findMatch (dec 78) (sample_stored (dec 78) 2 1 60 90) one_order = Some (Some (dec 77))"
proof -
  let ?inc = "sample_stored (dec 78) 2 1 60 90"
  have num: "numeric (so_order ?inc)"
    using sample_valid [of "dec 78" 78 2 1 60 90 1000]
    by (intro validated_numeric) (auto simp: js_simps BN254_FIELD_MODULUS_def sample_stored_def)
  have diff: "sameToken (so_order ?inc) = Some False"
    by (simp add: sameToken_def sample_stored_def sample_order_def sample_signals_def js_simps)
  have only: "compatible one_order (dec 78) (publicSignals (so_order ?inc)) m \<longleftrightarrow> m = dec 77" for m
    by (auto simp: compatible_def sample_posted_def empty_store_def sample_stored_def sample_order_def
        sample_signals_def isTokenCompatible_def isPriceCompatible_def Let_def js_simps split: if_splits)
  show ?thesis using findMatch_spec [OF one_order_ok num diff, of "dec 78"] only
    by (auto split: option.splits)
qed

theorem validate_iff_witness: "wf_order (sample_order (dec 77) 1 2 100 50) (hexPad 40 10) 1000"
proof -
  have "validateAuthorizeOrder (sample_order (dec 77) 1 2 100 50) (hexPad 40 10) 1000 = None"
    using sample_valid [OF field_77, of 1 2 100 50 1000] by simp
  then show ?thesis using validate_iff [of 1000 "sample_order (dec 77) 1 2 100 50" "hexPad 40 10"] by simp
qed

lemma checkTaker_iff_witness: "checkTakerSignalsConsistent (sample_order (dec 77) 1 2 100 50) = None"
proof -
  have "validateAuthorizeOrder (sample_order (dec 77) 1 2 100 50) (hexPad 40 10) 1000 = None"
    using sample_valid [OF field_77, of 1 2 100 50 1000] by simp
  then show ?thesis using checkTaker_iff by blast
qed

lemma pairKey_eq_iff_witness: "pairKey 1 2 = pairKey 2 1 \<and> pairKey 1 2 \<noteq> pairKey 1 3"
  using pairKey_eq_iff [of 1 2 2 1] pairKey_eq_iff [of 1 2 1 3] by (auto simp: doubleton_eq_iff)

lemma computeSideFee_bounds_witness:
  "\<exists>fee. computeSideFee (Some (dec 1000)) (Some (dec 30)) 50 = Some fee \<and> fee * 10000 \<le> 1000 * 30"
  using computeSideFee_bounds [of "Some (dec 1000)" 1000 "Some (dec 30)" 30 50] by (auto simp: js_simps)

abbreviation one_row :: order_db where
  "one_row \<equiv> on_table (jset (dec 77) (sample_row (dec 77) 1 2 100 50)) empty_db"

lemma one_row_ok: "db_ok one_row"
  by (simp add: db_ok_def empty_db_def jset_def jmap_ok_def)

theorem claim_spec_witness:
  "getAuthorizeOrder (snd (claimNextSettlementJob 2000000 one_row)) (dec 77) =
     Some (claim_row 2000000 (sample_row (dec 77) 1 2 100 50))"
proof -
  let ?r = "sample_row (dec 77) 1 2 100 50"
  have g: "getAuthorizeOrder one_row m = (if m = dec 77 then Some ?r else None)" for m
    by (simp add: getAuthorizeOrder_def empty_db_def)
  have "due 2000000 ?r" by (simp add: due_def sample_row_def)
  then show ?thesis using claim_spec [OF one_row_ok, of 2000000] g
    by (auto split: prod.splits option.splits if_splits)
qed

definition matched_db :: order_db where
  "matched_db = updateAuthorizeOrderStatus (dec 77) Matched None 3 one_row"

lemma matched_row_is_stuck_witness:
  "\<exists>r. getAuthorizeOrder (maintain_all [MBoot 9, MSweep 9000000, MClaim 9000000] matched_db) (dec 77) = Some r \<and>
     r_status r = Matched"
proof -
  have ok: "db_ok matched_db"
    by (simp add: matched_db_def updateAuthorizeOrderStatus_def db_ok_def empty_db_def jset_def jmap_ok_def jmodify_def)
  obtain r where r: "getAuthorizeOrder matched_db (dec 77) = Some r" "r_status r = Matched"
    by (simp add: matched_db_def updateAuthorizeOrderStatus_def getAuthorizeOrder_def)
  show ?thesis using matched_row_is_stuck [OF ok r] r(2) by blast
qed

lemma purge_spec_witness:
  "getAuthorizeOrder (snd (purgeNonPendingAuthorizeOrdersDB (Some 0) 9000000 matched_db)) (dec 77) \<noteq> None"
proof -
  have ok: "db_ok matched_db"
    by (simp add: matched_db_def updateAuthorizeOrderStatus_def db_ok_def empty_db_def jset_def jmap_ok_def jmodify_def)
  obtain r where r: "getAuthorizeOrder matched_db (dec 77) = Some r" "r_status r = Matched"
    by (simp add: matched_db_def updateAuthorizeOrderStatus_def getAuthorizeOrder_def)
  show ?thesis
    using purge_spec [OF ok, of "Some 0" 9000000 "fst (purgeNonPendingAuthorizeOrdersDB (Some 0) 9000000 matched_db)"
        "snd (purgeNonPendingAuthorizeOrdersDB (Some 0) 9000000 matched_db)"] r
    by (auto simp: terminal_iff)
qed

end
