(* ===== verification/Worker.thy ===== *)
theory Worker
  imports Matching
begin

text \<open>
  The settlement worker (\<open>zk-relayer/src/core/settlement-worker.ts\<close>) and the failure tracker it
  reports to (\<open>settlement-failure-tracker.ts\<close>).

  A job runs in two synchronous segments around the awaited submission: \<open>job_begin\<close> up to the call
  and \<open>job_finish\<close> on its result, which is an input (a transaction hash or a thrown value).  What the
  rest of the process does meanwhile is an arbitrary function on the shared state.  An operation
  that may throw returns the thrown value beside the state it leaves.
\<close>

section \<open>The failure tracker\<close>

datatype outcome_kind = OSettled | OFailed

datatype alert = SettlementRecovered nat | SettlementFailureStreak nat nat

record failure_tracker =
  consecutiveFailures :: nat
  alerted :: bool

definition recordSettlementOutcome :: "nat \<Rightarrow> outcome_kind \<Rightarrow> failure_tracker \<Rightarrow> failure_tracker \<times> alert list" where
  "recordSettlementOutcome threshold kind t =
     (if kind = OSettled
      then (\<lparr>consecutiveFailures = 0, alerted = False\<rparr>,
            if alerted t then [SettlementRecovered (consecutiveFailures t)] else [])
      else let k = consecutiveFailures t + 1 in
        if \<not> alerted t \<and> threshold \<le> k
        then (\<lparr>consecutiveFailures = k, alerted = True\<rparr>, [SettlementFailureStreak k threshold])
        else (t\<lparr>consecutiveFailures := k\<rparr>, []))"

section \<open>Error classification\<close>

text \<open>A thrown value: an \<open>Error\<close> with its message, or anything else with its \<open>String(err)\<close>.\<close>

datatype thrown = ErrorObj string | NonError string

datatype settle_error_kind = PermanentError | TransientError | UnknownError

definition PERMANENT_PATTERNS :: "string list" where
  "PERMANENT_PATTERNS = [''revert'', ''execution reverted'', ''insufficient funds'', ''nonce too low'',
     ''replacement fee too low'', ''invalid argument'', ''invalid address'', ''unpredictable_gas_limit'']"

definition TRANSIENT_PATTERNS :: "string list" where
  "TRANSIENT_PATTERNS = [''timeout'', ''econnrefused'', ''econnreset'', ''enotfound'', ''socket hang up'',
     ''network error'', ''bad response'', ''missing response'', ''server error'', ''502'', ''503'', ''429'']"

fun classifySettleError :: "thrown \<Rightarrow> settle_error_kind" where
  "classifySettleError (NonError s) = UnknownError"
| "classifySettleError (ErrorObj m) = (let msg = toLowerCase m in
     if \<exists>p \<in> set PERMANENT_PATTERNS. str_includes msg p then PermanentError
     else if \<exists>p \<in> set TRANSIENT_PATTERNS. str_includes msg p then TransientError
     else UnknownError)"

fun err_text :: "thrown \<Rightarrow> string" where
  "err_text (ErrorObj m) = m"
| "err_text (NonError s) = s"

definition SETTLEMENT_RETRY_SCHEDULE_MS :: "ms list" where
  "SETTLEMENT_RETRY_SCHEDULE_MS = [2000, 8000, 30000, 120000, 300000]"

definition MAX_SETTLEMENT_ATTEMPTS :: nat where
  "MAX_SETTLEMENT_ATTEMPTS = length SETTLEMENT_RETRY_SCHEDULE_MS"

definition NO_MATCH_REPOLL_MS :: ms where "NO_MATCH_REPOLL_MS = 30000"
definition MAX_JOBS_PER_TICK :: nat where "MAX_JOBS_PER_TICK = 10"

section \<open>The state of the worker\<close>

record wstate =
  w_store :: store
  w_db :: order_db
  w_tracker :: failure_tracker
  w_alerts :: "alert list"
  w_calls :: "ob_call list"

record worker_deps =
  wd_threshold :: nat
  wd_shared :: bool

definition w_record :: "worker_deps \<Rightarrow> outcome_kind \<Rightarrow> wstate \<Rightarrow> wstate" where
  "w_record cfg k w = (let (t, as) = recordSettlementOutcome (wd_threshold cfg) k (w_tracker w) in
     w\<lparr>w_tracker := t, w_alerts := w_alerts w @ as\<rparr>)"

definition w_status :: "string \<Rightarrow> order_status \<Rightarrow> wstate \<Rightarrow> wstate" where
  "w_status n s w = w\<lparr>w_store := set_status n s (w_store w)\<rparr>"

text \<open>\<open>stored.status = "settled"; stored.settleTxHash = txHash\<close>.\<close>

definition w_settled :: "string \<Rightarrow> string \<Rightarrow> wstate \<Rightarrow> wstate" where
  "w_settled n tx w = w\<lparr>w_store := (w_store w)\<lparr>authorizeOrders :=
     jmodify n (\<lambda>so. so\<lparr>so_status := Settled, so_settleTxHash := Some tx\<rparr>) (authorizeOrders (w_store w))\<rparr>\<rparr>"

definition w_finish :: "job_outcome \<Rightarrow> string \<Rightarrow> ms \<Rightarrow> wstate \<Rightarrow> wstate" where
  "w_finish o' n now w = w\<lparr>w_db := finish_job o' n now (w_db w)\<rparr>"

text \<open>The Error \<open>decPubKeyCount\<close> throws on keys that do not parse.\<close>

definition pubkey_error :: "string option \<Rightarrow> string option \<Rightarrow> thrown" where
  "pubkey_error ax ay =
     (case (ax, ay) of (Some x, Some y) \<Rightarrow>
        if MAX_PUBKEY_LEN < length x \<or> MAX_PUBKEY_LEN < length y then ErrorObj ''pubKey value too large''
        else ErrorObj (''Cannot convert '' @ (if js_BigInt x = None then x else y) @ '' to a BigInt'')
      | _ \<Rightarrow> NonError [])"

definition w_release :: "string option \<Rightarrow> string option \<Rightarrow> wstate \<Rightarrow> thrown option \<times> wstate" where
  "w_release ax ay w =
     (case release_slot ax ay (w_store w) of
        None \<Rightarrow> (Some (pubkey_error ax ay), w)
      | Some st \<Rightarrow> (None, w\<lparr>w_store := st\<rparr>))"

text \<open>The keys of the captured entry, or those of the job row where the entry has none.\<close>

definition nullish :: "'a option \<Rightarrow> 'a option \<Rightarrow> 'a option" where
  "nullish a b = (case a of None \<Rightarrow> b | Some x \<Rightarrow> Some x)"

definition releasePubKeySlot :: "db_row \<Rightarrow> stored_order option \<Rightarrow> wstate \<Rightarrow> thrown option \<times> wstate" where
  "releasePubKeySlot row stored =
     w_release (nullish (Option.bind stored so_pubKeyAx) (r_pubKeyAx row))
               (nullish (Option.bind stored so_pubKeyAy) (r_pubKeyAy row))"

section \<open>Failures\<close>

text \<open>\<open>if (stored) stored.status = s\<close>; then release the slot and count the failure.\<close>

definition give_up :: "worker_deps \<Rightarrow> string \<Rightarrow> db_row \<Rightarrow> stored_order option \<Rightarrow> order_status \<Rightarrow> wstate \<Rightarrow>
  thrown option \<times> wstate" where
  "give_up cfg n row stored s w =
     (case releasePubKeySlot row stored (if stored = None then w else w_status n s w) of
        (Some e, w') \<Rightarrow> (Some e, w')
      | (None, w') \<Rightarrow> (None, w_record cfg OFailed w'))"

definition handleSettleError ::
  "worker_deps \<Rightarrow> string \<Rightarrow> db_row \<Rightarrow> thrown \<Rightarrow> stored_order option \<Rightarrow> ms \<Rightarrow> wstate \<Rightarrow> thrown option \<times> wstate" where
  "handleSettleError cfg n row err stored now w =
     (let msg = err_text err; kind = classifySettleError err in
      if kind = PermanentError
      then give_up cfg n row stored Failed (w_finish (JFailed msg) n now w)
      else let budget = (if kind = TransientError then MAX_SETTLEMENT_ATTEMPTS else 1);
               nextAttempt = r_attempt row + 1 in
        if budget < nextAttempt
        then (if kind = TransientError
              then give_up cfg n row stored DeadLetter (w_finish (JDeadLetter msg) n now w)
              else give_up cfg n row stored Failed (w_finish (JFailed msg) n now w))
        else let idx = min (nextAttempt - 1) (length SETTLEMENT_RETRY_SCHEDULE_MS - 1);
                 delay = SETTLEMENT_RETRY_SCHEDULE_MS ! idx;
                 w1 = w_finish (JRetry nextAttempt (now + delay) msg) n now w in
          (None, if stored = None then w1 else w_status n Retrying w1))"

section \<open>A job\<close>

text \<open>The awaited call: the order of a same-token job, or the matched maker and taker entries.\<close>

datatype settle_call =
    SameCall authorize_order_file
  | CrossCall string stored_order string stored_order

datatype begun = JobDone | JobThrew | JobAwaits settle_call

text \<open>The catch of the cross-token path.\<close>

definition cross_failed ::
  "worker_deps \<Rightarrow> string \<Rightarrow> db_row \<Rightarrow> stored_order \<Rightarrow> string \<Rightarrow> thrown \<Rightarrow> ms \<Rightarrow> wstate \<Rightarrow> thrown option \<times> wstate" where
  "cross_failed cfg n row stored m err now w =
     handleSettleError cfg n row err (Some stored) now (w_status n Pending (w_status m Pending w))"

definition park :: "string \<Rightarrow> ms \<Rightarrow> wstate \<Rightarrow> wstate" where
  "park n now = w_finish (JDefer (now + NO_MATCH_REPOLL_MS)) n now"

definition cross_begin :: "worker_deps \<Rightarrow> string \<Rightarrow> db_row \<Rightarrow> ms \<Rightarrow> wstate \<Rightarrow> begun \<times> wstate" where
  "cross_begin cfg n row now w =
     (case jget (authorizeOrders (w_store w)) n of
        None \<Rightarrow> (JobDone, park n now w)
      | Some stored \<Rightarrow>
          (case findMatch n stored (w_store w) of
             None \<Rightarrow> (JobThrew, w)
           | Some None \<Rightarrow> (JobDone, park n now w)
           | Some (Some m) \<Rightarrow>
               (case jget (authorizeOrders (w_store w)) m of
                  None \<Rightarrow> (JobThrew, w)
                | Some maker \<Rightarrow>
                    let w1 = w_status n Matched (w_status m Matched w) in
                    (case (nullifierToOfferHandle (order_nullifier (so_order maker)),
                           nullifierToOfferHandle (order_nullifier (so_order stored))) of
                       (Some _, Some _) \<Rightarrow> (JobAwaits (CrossCall m maker n stored), w1)
                     | _ \<Rightarrow> (case cross_failed cfg n row stored m (NonError []) now w1 of
                               (None, w2) \<Rightarrow> (JobDone, w2)
                             | (Some _, w2) \<Rightarrow> (JobThrew, w2))))))"

definition job_begin :: "worker_deps \<Rightarrow> string \<Rightarrow> db_row \<Rightarrow> ms \<Rightarrow> wstate \<Rightarrow> begun \<times> wstate" where
  "job_begin cfg n row now w =
     (case (case jget (authorizeOrders (w_store w)) n of Some so \<Rightarrow> Some (so_order so) | None \<Rightarrow> r_orderJson row) of
        None \<Rightarrow> (JobDone, w_record cfg OFailed (w_finish (JFailed ''corrupt order_json'') n now w))
      | Some order \<Rightarrow>
          (case sameToken order of
             None \<Rightarrow> (JobThrew, w)
           | Some True \<Rightarrow> (JobAwaits (SameCall order), w_status n Matched w)
           | Some False \<Rightarrow> cross_begin cfg n row now w))"

definition same_finish ::
  "worker_deps \<Rightarrow> string \<Rightarrow> db_row \<Rightarrow> stored_order option \<Rightarrow> thrown + string \<Rightarrow> ms \<Rightarrow> wstate \<Rightarrow> thrown option \<times> wstate" where
  "same_finish cfg n row stored res now w =
     (case res of
        Inl err \<Rightarrow> handleSettleError cfg n row err stored now w
      | Inr tx \<Rightarrow>
          let w1 = w_finish (JSettled tx) n now w;
              w2 = (if stored = None then w1 else w_settled n tx w1) in
          (case releasePubKeySlot row stored w2 of
             (Some e, w3) \<Rightarrow> handleSettleError cfg n row e stored now w3
           | (None, w3) \<Rightarrow> (None, w_record cfg OSettled w3)))"

definition matched_calls :: "bool \<Rightarrow> string \<Rightarrow> string \<Rightarrow> ob_call list" where
  "matched_calls shared makerN takerN =
     (if shared then map CallMatched (List.map_filter nullifierToOfferHandle [makerN, takerN]) else [])"

definition cross_finish ::
  "worker_deps \<Rightarrow> string \<Rightarrow> db_row \<Rightarrow> string \<Rightarrow> stored_order \<Rightarrow> stored_order \<Rightarrow> thrown + string \<Rightarrow> ms \<Rightarrow> wstate \<Rightarrow>
   thrown option \<times> wstate" where
  "cross_finish cfg n row m maker taker res now w =
     (case res of
        Inl err \<Rightarrow> cross_failed cfg n row taker m err now w
      | Inr tx \<Rightarrow>
          let makerN = order_nullifier (so_order maker); takerN = order_nullifier (so_order taker);
              w1 = w_settled m tx (w_finish (JSettled tx) takerN now (w_finish (JSettled tx) makerN now w)) in
          (case w_release (so_pubKeyAx maker) (so_pubKeyAy maker) w1 of
             (Some e, w2) \<Rightarrow> cross_failed cfg n row taker m e now w2
           | (None, w2) \<Rightarrow>
               (case w_release (so_pubKeyAx taker) (so_pubKeyAy taker) (w_settled n tx w2) of
                  (Some e, w3) \<Rightarrow> cross_failed cfg n row taker m e now w3
                | (None, w3) \<Rightarrow> (None, w_record cfg OSettled
                    (w3\<lparr>w_calls := w_calls w3 @ matched_calls (wd_shared cfg) makerN takerN\<rparr>)))))"

fun job_finish ::
  "worker_deps \<Rightarrow> string \<Rightarrow> db_row \<Rightarrow> stored_order option \<Rightarrow> settle_call \<Rightarrow> thrown + string \<Rightarrow> ms \<Rightarrow> wstate \<Rightarrow>
   thrown option \<times> wstate" where
  "job_finish cfg n row stored (SameCall order) res now w = same_finish cfg n row stored res now w"
| "job_finish cfg n row stored (CrossCall m maker k taker) res now w =
     cross_finish cfg n row m maker taker res now w"

section \<open>A tick\<close>

text \<open>What one job of a tick meets: the clock, the submission's result and the interference.\<close>

record job_env =
  je_claim :: ms
  je_result :: "thrown + string"
  je_meanwhile :: "wstate \<Rightarrow> wstate"
  je_finish :: ms

definition handleJob :: "worker_deps \<Rightarrow> job_env \<Rightarrow> string \<Rightarrow> db_row \<Rightarrow> wstate \<Rightarrow> bool \<times> wstate" where
  "handleJob cfg e n row w =
     (case job_begin cfg n row (je_claim e) w of
        (JobDone, w1) \<Rightarrow> (True, w1)
      | (JobThrew, w1) \<Rightarrow> (False, w1)
      | (JobAwaits c, w1) \<Rightarrow>
          (case job_finish cfg n row (jget (authorizeOrders (w_store w)) n) c (je_result e) (je_finish e)
                  (je_meanwhile e w1) of
             (None, w2) \<Rightarrow> (True, w2)
           | (Some _, w2) \<Rightarrow> (False, w2)))"

text \<open>
  The loop of a tick.  The list has one entry per job the loop gets to before the worker is
  stopped; the result lists the jobs it took.
\<close>

fun tick_loop :: "worker_deps \<Rightarrow> nat \<Rightarrow> job_env list \<Rightarrow> wstate \<Rightarrow> string list \<times> wstate" where
  "tick_loop cfg drained [] w = ([], w)"
| "tick_loop cfg drained (e # es) w =
     (if MAX_JOBS_PER_TICK \<le> drained then ([], w)
      else case claimNextSettlementJob (je_claim e) (w_db w) of
        (None, d) \<Rightarrow> ([], w\<lparr>w_db := d\<rparr>)
      | (Some (n, row), d) \<Rightarrow>
          (case handleJob cfg e n row (w\<lparr>w_db := d\<rparr>) of
             (False, w') \<Rightarrow> ([n], w')
           | (True, w') \<Rightarrow> (case tick_loop cfg (Suc drained) es w' of (ns, w'') \<Rightarrow> (n # ns, w''))))"

definition tick :: "worker_deps \<Rightarrow> job_env list \<Rightarrow> wstate \<Rightarrow> string list \<times> wstate" where
  "tick cfg es w = tick_loop cfg 0 es w"

end
