(* ===== verification/WorkerFacts.thy ===== *)
theory WorkerFacts
  imports Worker
begin

text \<open>
  Properties of the settlement worker and of the failure tracker: what each outcome does to the
  row, the slot and the in-memory entry, the retry budget, and what a tick may take.
\<close>

section \<open>The tracker\<close>

fun tracker_run :: "nat \<Rightarrow> outcome_kind list \<Rightarrow> failure_tracker \<Rightarrow> failure_tracker \<times> alert list" where
  "tracker_run th [] t = (t, [])"
| "tracker_run th (k # ks) t = (case recordSettlementOutcome th k t of (t1, a1) \<Rightarrow>
     case tracker_run th ks t1 of (t2, a2) \<Rightarrow> (t2, a1 @ a2))"

fun is_streak :: "alert \<Rightarrow> bool" where
  "is_streak (SettlementFailureStreak k th) = True"
| "is_streak (SettlementRecovered k) = False"

text \<open>The trailing run of failures.\<close>

definition trailing :: "outcome_kind list \<Rightarrow> nat" where
  "trailing ks = length (takeWhile (\<lambda>k. k = OFailed) (rev ks))"

fun alternating :: "bool \<Rightarrow> alert list \<Rightarrow> bool" where
  "alternating b [] = True"
| "alternating b (a # as) = (is_streak a = b \<and> alternating (\<not> b) as)"

lemma alternating_append:
  "alternating b (as @ bs) \<longleftrightarrow> alternating b as \<and> alternating (if even (length as) then b else \<not> b) bs"
  by (induction as arbitrary: b) auto

lemma tracker_run_append:
  "tracker_run th (xs @ ys) t = (case tracker_run th xs t of (t1, a1) \<Rightarrow>
     case tracker_run th ys t1 of (t2, a2) \<Rightarrow> (t2, a1 @ a2))"
  by (induction xs arbitrary: t) (auto split: prod.splits)

lemma trailing_snoc [simp]: "trailing (ks @ [OSettled]) = 0" "trailing (ks @ [OFailed]) = Suc (trailing ks)"
  by (simp_all add: trailing_def)

text \<open>
  Settlement alerts: the tracker counts the trailing run of failures and is in alarm exactly
  while that run has reached the threshold; the alerts it sends alternate between failure streak
  and recovery, beginning with a streak, and every streak alert is sent at the moment the run
  reaches the threshold.
\<close>

lemma tracker_alerts:
  assumes "0 < th" and "tracker_run th ks \<lparr>consecutiveFailures = 0, alerted = False\<rparr> = (t, as)"
  shows "consecutiveFailures t = trailing ks \<and> (alerted t \<longleftrightarrow> th \<le> trailing ks) \<and>
    alternating True as \<and> (alerted t \<longleftrightarrow> odd (length as)) \<and>
    (\<forall>k th'. SettlementFailureStreak k th' \<in> set as \<longrightarrow> k = th \<and> th' = th)"
  using assms(2)
proof (induction ks arbitrary: t as rule: rev_induct)
  case Nil
  then show ?case using assms(1) by (auto simp: trailing_def)
next
  case (snoc k ks)
  obtain t1 a1 where r: "tracker_run th ks \<lparr>consecutiveFailures = 0, alerted = False\<rparr> = (t1, a1)"
    by (metis prod.exhaust)
  note IH = snoc.IH [OF r]
  obtain a2 where a2: "recordSettlementOutcome th k t1 = (t, a2)" "as = a1 @ a2"
    using snoc.prems r by (auto simp: tracker_run_append split: prod.splits)
  show ?case
  proof (cases k)
    case OSettled
    then show ?thesis using IH a2 assms(1)
      by (auto simp: recordSettlementOutcome_def alternating_append split: if_splits)
  next
    case OFailed
    then show ?thesis using IH a2 assms(1)
      by (auto simp: recordSettlementOutcome_def alternating_append Let_def split: if_splits)
  qed
qed

lemma tracker_alerts_witness:
  "\<exists>t as. tracker_run 2 [OFailed, OFailed, OSettled, OFailed] \<lparr>consecutiveFailures = 0, alerted = False\<rparr> = (t, as) \<and>
     consecutiveFailures t = 1 \<and> \<not> alerted t"
proof -
  obtain t as where r: "tracker_run 2 [OFailed, OFailed, OSettled, OFailed] \<lparr>consecutiveFailures = 0, alerted = False\<rparr> = (t, as)"
    by (metis prod.exhaust)
  from tracker_alerts [OF _ this] show ?thesis using r by (simp add: trailing_def)
qed

section \<open>Effects on the row\<close>

text \<open>What an error makes of a job, by the attempts it had before.\<close>

definition error_outcome :: "nat \<Rightarrow> thrown \<Rightarrow> ms \<Rightarrow> job_outcome" where
  "error_outcome attempt err now =
     (case classifySettleError err of
        PermanentError \<Rightarrow> JFailed (err_text err)
      | TransientError \<Rightarrow> if attempt < 5 then JRetry (Suc attempt) (now + SETTLEMENT_RETRY_SCHEDULE_MS ! attempt) (err_text err)
                          else JDeadLetter (err_text err)
      | UnknownError \<Rightarrow> if attempt = 0 then JRetry 1 (now + 2000) (err_text err) else JFailed (err_text err))"

lemma release_frame:
  "w_release ax ay w = (e, w') \<Longrightarrow> w_db w' = w_db w \<and> w_calls w' = w_calls w \<and>
     authorizeOrders (w_store w') = authorizeOrders (w_store w) \<and> ordersByPair (w_store w') = ordersByPair (w_store w)"
  using release_slot_frame by (auto simp: w_release_def split: option.splits)

lemma slot_frame:
  "releasePubKeySlot row stored w = (e, w') \<Longrightarrow> w_db w' = w_db w \<and> w_calls w' = w_calls w \<and>
     authorizeOrders (w_store w') = authorizeOrders (w_store w) \<and> ordersByPair (w_store w') = ordersByPair (w_store w)"
  unfolding releasePubKeySlot_def by (rule release_frame)

lemma w_simps [simp]:
  "w_db (w_status n s w) = w_db w" "w_db (w_settled n tx w) = w_db w" "w_db (w_record cfg k w) = w_db w"
  "w_store (w_record cfg k w) = w_store w" "w_store (w_finish o' n now w) = w_store w"
  "w_db (w_finish o' n now w) = finish_job o' n now (w_db w)"
  "w_store (w_status n s w) = set_status n s (w_store w)"
  "w_calls (w_status n s w) = w_calls w" "w_calls (w_finish o' n now w) = w_calls w"
  by (simp_all add: w_status_def w_settled_def w_record_def w_finish_def Let_def split: prod.splits)

lemma give_up_db [simp]: "w_db (snd (give_up cfg n row stored s w)) = w_db w"
proof -
  obtain e w' where r: "releasePubKeySlot row stored (if stored = None then w else w_status n s w) = (e, w')"
    by (metis prod.exhaust)
  have "w_db w' = w_db w" using slot_frame [OF r] by simp
  then show ?thesis using r by (simp add: give_up_def split: option.splits)
qed

lemma schedule_simps [simp]: "length SETTLEMENT_RETRY_SCHEDULE_MS = 5" "MAX_SETTLEMENT_ATTEMPTS = 5"
  "SETTLEMENT_RETRY_SCHEDULE_MS ! 0 = 2000"
  by (simp_all add: MAX_SETTLEMENT_ATTEMPTS_def SETTLEMENT_RETRY_SCHEDULE_MS_def)

lemma settle_error_db:
  "w_db (snd (handleSettleError cfg n row err stored now w)) =
     finish_job (error_outcome (r_attempt row) err now) n now (w_db w)"
  by (cases "classifySettleError err") (auto simp: handleSettleError_def Let_def error_outcome_def)

lemma schedule_positive: "i < 5 \<Longrightarrow> 0 < SETTLEMENT_RETRY_SCHEDULE_MS ! i"
  by (auto simp: SETTLEMENT_RETRY_SCHEDULE_MS_def less_Suc_eq numeral_nat)

lemma error_outcome_later: "later now (error_outcome a err now)"
  using schedule_positive by (auto simp: error_outcome_def split: settle_error_kind.splits)

text \<open>Successive failures of one job, each after the dequeue handed it out again.\<close>

fun fail_rounds :: "worker_deps \<Rightarrow> string \<Rightarrow> (thrown \<times> ms) list \<Rightarrow> wstate \<Rightarrow> wstate" where
  "fail_rounds cfg n [] w = w"
| "fail_rounds cfg n ((err, t) # rs) w =
     (case getAuthorizeOrder (w_db w) n of
        None \<Rightarrow> w
      | Some row \<Rightarrow>
          if r_status row = Accepted \<or> r_status row = Retrying
          then fail_rounds cfg n rs (snd (handleSettleError cfg n (claim_row t row) err
                 (jget (authorizeOrders (w_store w)) n) t
                 (w\<lparr>w_db := on_table (jmodify n (claim_row t)) (w_db w)\<rparr>)))
          else w)"

lemma fail_round_row:
  assumes "getAuthorizeOrder (w_db w) n = Some row" "r_status row = Accepted \<or> r_status row = Retrying"
  shows "\<exists>w'. fail_rounds cfg n ((err, t) # rs) w = fail_rounds cfg n rs w' \<and>
    getAuthorizeOrder (w_db w') n =
      Some (finish_row (error_outcome (r_attempt row) err t) t (claim_row t row))"
proof -
  have "r_attempt (claim_row t row) = r_attempt row" by (simp add: claim_row_def)
  then have "getAuthorizeOrder (w_db (snd (handleSettleError cfg n (claim_row t row) err
       (jget (authorizeOrders (w_store w)) n) t (w\<lparr>w_db := on_table (jmodify n (claim_row t)) (w_db w)\<rparr>)))) n =
     Some (finish_row (error_outcome (r_attempt row) err t) t (claim_row t row))"
    using assms(1) by (simp add: settle_error_db finish_job_get) (simp add: getAuthorizeOrder_def)
  then show ?thesis using assms by auto
qed

lemma fail_rounds_done:
  "getAuthorizeOrder (w_db w) n = Some row \<Longrightarrow> \<not> (r_status row = Accepted \<or> r_status row = Retrying) \<Longrightarrow>
   fail_rounds cfg n rs w = w"
  by (cases rs) auto

text \<open>An error outcome ends the job or raises the attempt, which is at most five.\<close>

lemma error_step:
  "isTerminalStatus (r_status (finish_row (error_outcome a err t) t r)) \<or>
   (r_status (finish_row (error_outcome a err t) t r) = Retrying \<and>
    r_attempt (finish_row (error_outcome a err t) t r) = Suc a \<and> a < 5)"
  by (auto simp: error_outcome_def terminal_iff split: settle_error_kind.splits)

lemma fail_rounds_end:
  assumes "getAuthorizeOrder (w_db w) n = Some row" "r_status row = Accepted \<or> r_status row = Retrying"
    and "r_attempt row \<le> 5" "6 - r_attempt row \<le> length rs"
  shows "\<exists>row'. getAuthorizeOrder (w_db (fail_rounds cfg n rs w)) n = Some row' \<and> isTerminalStatus (r_status row')"
  using assms
proof (induction rs arbitrary: w row)
  case (Cons x rs)
  obtain err t where x: "x = (err, t)" by (cases x)
  obtain w' where w': "fail_rounds cfg n (x # rs) w = fail_rounds cfg n rs w'"
    "getAuthorizeOrder (w_db w') n = Some (finish_row (error_outcome (r_attempt row) err t) t (claim_row t row))"
    using fail_round_row [OF Cons.prems(1,2), of cfg err t rs] x by blast
  let ?r = "finish_row (error_outcome (r_attempt row) err t) t (claim_row t row)"
  show ?case
  proof (cases "isTerminalStatus (r_status ?r)")
    case True
    then have "\<not> (r_status ?r = Accepted \<or> r_status ?r = Retrying)" by (auto simp: terminal_iff)
    then show ?thesis using w' True fail_rounds_done [OF w'(2)] by simp
  next
    case False
    then have r: "r_status ?r = Retrying" "r_attempt ?r = Suc (r_attempt row)" "r_attempt row < 5"
      using error_step [of "r_attempt row" err t "claim_row t row"] by blast+
    have "\<exists>row'. getAuthorizeOrder (w_db (fail_rounds cfg n rs w')) n = Some row' \<and> isTerminalStatus (r_status row')"
    proof (rule Cons.IH [OF w'(2)])
      show "6 - r_attempt ?r \<le> length rs" using r(2,3) Cons.prems(4) by simp
    qed (use r in simp_all)
    then show ?thesis using w' by simp
  qed
qed simp

lemma transient_rounds:
  assumes "getAuthorizeOrder (w_db w) n = Some row" "r_status row = Accepted \<or> r_status row = Retrying"
    and "\<And>e t. (e, t) \<in> set rs \<Longrightarrow> classifySettleError e = TransientError"
    and "rs \<noteq> []" "r_attempt row + length rs \<le> 5"
  shows "\<exists>row'. getAuthorizeOrder (w_db (fail_rounds cfg n rs w)) n = Some row' \<and> r_status row' = Retrying \<and>
    r_attempt row' = r_attempt row + length rs \<and>
    r_nextRetryAt row' = Some (snd (last rs) + SETTLEMENT_RETRY_SCHEDULE_MS ! (r_attempt row + length rs - 1))"
  using assms
proof (induction rs arbitrary: w row)
  case (Cons x rs)
  obtain err t where x: "x = (err, t)" by (cases x)
  obtain w' where w': "fail_rounds cfg n (x # rs) w = fail_rounds cfg n rs w'"
    "getAuthorizeOrder (w_db w') n = Some (finish_row (error_outcome (r_attempt row) err t) t (claim_row t row))"
    using fail_round_row [OF Cons.prems(1,2), of cfg err t rs] x by blast
  have tr: "classifySettleError err = TransientError" using Cons.prems(3) [of err t] x by simp
  let ?r = "finish_row (error_outcome (r_attempt row) err t) t (claim_row t row)"
  have r: "r_status ?r = Retrying" "r_attempt ?r = Suc (r_attempt row)"
    "r_nextRetryAt ?r = Some (t + SETTLEMENT_RETRY_SCHEDULE_MS ! r_attempt row)"
    using tr Cons.prems(5) by (simp_all add: error_outcome_def)
  show ?case
  proof (cases "rs = []")
    case True
    then show ?thesis using w' r x by simp
  next
    case False
    have tr': "classifySettleError e = TransientError" if "(e, t) \<in> set rs" for e t
      using Cons.prems(3) that by (metis list.set_intros(2))
    have "\<exists>row'. getAuthorizeOrder (w_db (fail_rounds cfg n rs w')) n = Some row' \<and> r_status row' = Retrying \<and>
        r_attempt row' = r_attempt ?r + length rs \<and>
        r_nextRetryAt row' = Some (snd (last rs) + SETTLEMENT_RETRY_SCHEDULE_MS ! (r_attempt ?r + length rs - 1))"
      by (rule Cons.IH [OF w'(2)]) (use r tr' False Cons.prems(5) in simp_all)
    then show ?thesis using w' r False by simp
  qed
qed simp

lemma fail_rounds_append: "fail_rounds cfg n (xs @ ys) w = fail_rounds cfg n ys (fail_rounds cfg n xs w)"
proof (induction xs arbitrary: w)
  case (Cons x xs)
  obtain e t where x: "x = (e, t)" by (cases x)
  show ?case
  proof (cases "getAuthorizeOrder (w_db w) n")
    case None
    then show ?thesis using x by (cases ys) auto
  next
    case (Some row)
    then show ?thesis using x Cons fail_rounds_done [OF Some] by (cases ys) auto
  qed
qed simp

text \<open>
  C37.  The retry budget.  Whatever errors a job meets, it is in a terminal state after at most six
  submissions; while all of them are transient, the k-th failure (k up to five) schedules the next
  try after the k-th delay of the schedule and the sixth puts the job in \<open>dead_letter\<close>.
\<close>

theorem retry_budget:
  assumes "getAuthorizeOrder (w_db w) n = Some row" "r_status row = Accepted" "r_attempt row = 0" "length rs = 6"
  shows "\<exists>row'. getAuthorizeOrder (w_db (fail_rounds cfg n rs w)) n = Some row' \<and> isTerminalStatus (r_status row') \<and>
    ((\<forall>(e, t) \<in> set rs. classifySettleError e = TransientError) \<longrightarrow> r_status row' = DeadLetter \<and>
      (\<forall>k. 0 < k \<and> k \<le> 5 \<longrightarrow>
        (\<exists>row'. getAuthorizeOrder (w_db (fail_rounds cfg n (take k rs) w)) n = Some row' \<and>
           r_status row' = Retrying \<and> r_attempt row' = k \<and>
           r_nextRetryAt row' = Some (snd (rs ! (k - 1)) + SETTLEMENT_RETRY_SCHEDULE_MS ! (k - 1)))))"
proof -
  obtain row' where row': "getAuthorizeOrder (w_db (fail_rounds cfg n rs w)) n = Some row' \<and> isTerminalStatus (r_status row')"
    using fail_rounds_end [OF assms(1), of rs cfg] assms(2-4) by auto
  have early: "\<exists>row'. getAuthorizeOrder (w_db (fail_rounds cfg n (take k rs) w)) n = Some row' \<and>
      r_status row' = Retrying \<and> r_attempt row' = k \<and>
      r_nextRetryAt row' = Some (snd (rs ! (k - 1)) + SETTLEMENT_RETRY_SCHEDULE_MS ! (k - 1))"
    if tr: "\<forall>(e, t) \<in> set rs. classifySettleError e = TransientError" and k: "0 < k" "k \<le> 5" for k
  proof -
    have "classifySettleError e = TransientError" if "(e, t) \<in> set (take k rs)" for e t
      using tr in_set_takeD [OF that] by auto
    moreover have ne: "take k rs \<noteq> []" "length (take k rs) = k" using k assms(4) by auto
    moreover have "last (take k rs) = rs ! (k - 1)" using last_conv_nth [OF ne(1)] ne(2) k assms(4) by simp
    ultimately show ?thesis
      using transient_rounds [OF assms(1), of "take k rs" cfg] assms(2,3) k by simp
  qed
  have last: "r_status row' = DeadLetter" if tr: "\<forall>(e, t) \<in> set rs. classifySettleError e = TransientError"
  proof -
    obtain w5 row5 where w5: "w5 = fail_rounds cfg n (take 5 rs) w" "getAuthorizeOrder (w_db w5) n = Some row5"
      "r_status row5 = Retrying" "r_attempt row5 = 5"
      using early [OF tr, of 5] by auto
    obtain e t where et: "drop 5 rs = [(e, t)]" "(e, t) \<in> set rs"
    proof -
      have "length (drop 5 rs) = 1" using assms(4) by simp
      then obtain y where y: "drop 5 rs = [y]"
        by (cases "drop 5 rs"; cases "tl (drop 5 rs)") (simp_all del: length_drop)
      then have "y \<in> set rs" using set_drop_subset [of 5 rs] by auto
      then show thesis using that [of "fst y" "snd y"] y by simp
    qed
    have rs: "rs = take 5 rs @ [(e, t)]" using append_take_drop_id [of 5 rs] et(1) by metis
    have "fail_rounds cfg n rs w = fail_rounds cfg n [(e, t)] w5"
      unfolding w5(1) by (subst rs) (rule fail_rounds_append)
    then have "row' = finish_row (error_outcome 5 e t) t (claim_row t row5)"
      using fail_round_row [OF w5(2), of cfg e t "[]"] w5 row' by auto
    moreover have "classifySettleError e = TransientError" using tr et by auto
    ultimately show ?thesis by (simp add: error_outcome_def)
  qed
  show ?thesis
  proof (rule exI [of _ row'], intro conjI impI allI)
    fix k :: nat
    assume tr: "\<forall>(e, t) \<in> set rs. classifySettleError e = TransientError" and "0 < k \<and> k \<le> 5"
    then show "\<exists>row'. getAuthorizeOrder (w_db (fail_rounds cfg n (take k rs) w)) n = Some row' \<and>
      r_status row' = Retrying \<and> r_attempt row' = k \<and>
      r_nextRetryAt row' = Some (snd (rs ! (k - 1)) + SETTLEMENT_RETRY_SCHEDULE_MS ! (k - 1))"
      using early by simp
  qed (use row' last in simp_all)
qed

section \<open>One job\<close>

text \<open>Keys that the slot release can parse, whichever side they come from.\<close>

definition keys_ok :: "db_row \<Rightarrow> stored_order option \<Rightarrow> bool" where
  "keys_ok row stored \<longleftrightarrow> (\<forall>ax ay.
     nullish (Option.bind stored so_pubKeyAx) (r_pubKeyAx row) = Some ax \<longrightarrow>
     nullish (Option.bind stored so_pubKeyAy) (r_pubKeyAy row) = Some ay \<longrightarrow> pubKeyId ax ay \<noteq> None)"

lemma slot_total: "keys_ok row stored \<Longrightarrow> \<exists>w'. releasePubKeySlot row stored w = (None, w')"
  by (auto simp: keys_ok_def releasePubKeySlot_def w_release_def release_slot_def decPubKeyCount_def
      split: option.splits)

lemma entry_release_total: "entry_ok n so \<Longrightarrow> \<exists>w'. w_release (so_pubKeyAx so) (so_pubKeyAy so) w = (None, w')"
  using release_total [of n so "w_store w"] by (auto simp: w_release_def)

lemma give_up_total: "keys_ok row stored \<Longrightarrow> \<exists>w'. give_up cfg n row stored s w = (None, w')"
  using slot_total [of row stored "if stored = None then w else w_status n s w"] by (auto simp: give_up_def)

lemma settle_error_total:
  "keys_ok row stored \<Longrightarrow> \<exists>w'. handleSettleError cfg n row err stored now w = (None, w') \<and>
     w_db w' = finish_job (error_outcome (r_attempt row) err now) n now (w_db w)"
proof -
  assume k: "keys_ok row stored"
  have "\<exists>w'. handleSettleError cfg n row err stored now w = (None, w')"
    using give_up_total [OF k] by (auto simp: handleSettleError_def Let_def)
  then show ?thesis using settle_error_db [of cfg n row err stored now w] by (metis snd_conv)
qed

lemma same_finish_total:
  assumes "keys_ok row stored"
  shows "\<exists>w'. same_finish cfg n row stored res now w = (None, w') \<and>
    w_db w' = finish_job (case res of Inl err \<Rightarrow> error_outcome (r_attempt row) err now | Inr tx \<Rightarrow> JSettled tx) n now (w_db w)"
proof (cases res)
  case (Inl err)
  then show ?thesis using settle_error_total [OF assms] by (simp add: same_finish_def)
next
  case (Inr tx)
  let ?w2 = "if stored = None then w_finish (JSettled tx) n now w else w_settled n tx (w_finish (JSettled tx) n now w)"
  obtain w3 where r: "releasePubKeySlot row stored ?w2 = (None, w3)" using slot_total [OF assms] by blast
  have "w_db w3 = finish_job (JSettled tx) n now (w_db w)" using slot_frame [OF r] by simp
  then show ?thesis using Inr r by (simp add: same_finish_def Let_def)
qed

text \<open>A settled pair writes both rows; a failed one only the job's.\<close>

definition cross_db :: "string \<Rightarrow> nat \<Rightarrow> string \<Rightarrow> string \<Rightarrow> thrown + string \<Rightarrow> ms \<Rightarrow> order_db \<Rightarrow> order_db" where
  "cross_db n attempt makerN takerN res now d =
     (case res of Inl err \<Rightarrow> finish_job (error_outcome attempt err now) n now d
      | Inr tx \<Rightarrow> finish_job (JSettled tx) takerN now (finish_job (JSettled tx) makerN now d))"

lemma cross_db_row:
  "getAuthorizeOrder (cross_db n a mk n res now d) n =
     map_option (finish_row (case res of Inl err \<Rightarrow> error_outcome a err now | Inr tx \<Rightarrow> JSettled tx) now) (getAuthorizeOrder d n)"
  by (cases "getAuthorizeOrder d n") (auto simp: cross_db_def finish_job_get simp del: finish_job.simps split: sum.splits)

lemma cross_finish_total:
  assumes "keys_ok row (Some taker)" "entry_ok m maker" "entry_ok n taker"
  shows "\<exists>w'. cross_finish cfg n row m maker taker res now w = (None, w') \<and>
    w_db w' = cross_db n (r_attempt row) (order_nullifier (so_order maker)) (order_nullifier (so_order taker)) res now (w_db w)"
proof (cases res)
  case (Inl err)
  then show ?thesis using settle_error_total [OF assms(1), of cfg n err now "w_status n Pending (w_status m Pending w)"]
    by (simp add: cross_finish_def cross_failed_def cross_db_def)
next
  case (Inr tx)
  let ?w1 = "w_settled m tx (w_finish (JSettled tx) (order_nullifier (so_order taker)) now
      (w_finish (JSettled tx) (order_nullifier (so_order maker)) now w))"
  obtain w2 where w2: "w_release (so_pubKeyAx maker) (so_pubKeyAy maker) ?w1 = (None, w2)"
    using entry_release_total [OF assms(2)] by blast
  obtain w3 where w3: "w_release (so_pubKeyAx taker) (so_pubKeyAy taker) (w_settled n tx w2) = (None, w3)"
    using entry_release_total [OF assms(3)] by blast
  show ?thesis using Inr w2 w3 release_frame [OF w2] release_frame [OF w3]
    by (simp add: cross_finish_def Let_def cross_db_def)
qed

text \<open>How the first segment ends on a well-formed store.\<close>

definition parked :: "string \<Rightarrow> ms \<Rightarrow> wstate \<Rightarrow> wstate \<Rightarrow> bool" where
  "parked n t w w' \<longleftrightarrow> w_store w' = w_store w \<and>
     (w_db w' = finish_job (JDefer (t + 30000)) n t (w_db w) \<or>
      w_db w' = finish_job (JFailed ''corrupt order_json'') n t (w_db w))"

lemma park_parked: "parked n t w (park n t w)"
  by (simp add: parked_def park_def NO_MATCH_REPOLL_MS_def)

lemma cross_begin_cases:
  assumes "store_ok (w_store w)"
    and "\<And>so. jget (authorizeOrders (w_store w)) n = Some so \<Longrightarrow> sameToken (so_order so) = Some False"
  shows "(\<exists>w'. cross_begin cfg n row t w = (JobDone, w') \<and> parked n t w w') \<or>
    (\<exists>m maker stored. cross_begin cfg n row t w =
       (JobAwaits (CrossCall m maker n stored), w_status n Matched (w_status m Matched w)) \<and>
       jget (authorizeOrders (w_store w)) n = Some stored \<and> jget (authorizeOrders (w_store w)) m = Some maker \<and>
       compatible (w_store w) n (publicSignals (so_order stored)) m)"
proof (cases "jget (authorizeOrders (w_store w)) n")
  case None
  then show ?thesis using park_parked by (simp add: cross_begin_def)
next
  case (Some stored)
  have e: "entry_ok n stored" using assms(1) Some by (simp add: store_ok_def)
  have num: "numeric (so_order stored)" using e by (simp add: entry_ok_def)
  note f = findMatch_answers [OF assms(1) num assms(2) [OF Some], of n]
  show ?thesis
  proof (cases "findMatch n stored (w_store w)")
    case None
    then show ?thesis using f by simp
  next
    case found: (Some mm)
    show ?thesis
    proof (cases mm)
      case None
      then show ?thesis using found Some park_parked by (simp add: cross_begin_def)
    next
      case (Some m)
      then have c: "compatible (w_store w) n (publicSignals (so_order stored)) m" using f found by simp
      then obtain maker where maker: "jget (authorizeOrders (w_store w)) m = Some maker"
        by (auto simp: compatible_def)
      have em: "entry_ok m maker" using assms(1) maker by (simp add: store_ok_def)
      then have "numeric (so_order maker)" by (simp add: entry_ok_def)
      from numericD(6) [OF this] numericD(6) [OF num]
      have "\<exists>h h'. nullifierToOfferHandle (order_nullifier (so_order maker)) = Some h \<and>
          nullifierToOfferHandle (order_nullifier (so_order stored)) = Some h'"
        by (auto simp: nullifierToOfferHandle_def)
      then show ?thesis using found Some maker c \<open>jget (authorizeOrders (w_store w)) n = Some stored\<close>
        by (auto simp: cross_begin_def Let_def)
    qed
  qed
qed

lemma job_begin_cases:
  assumes "store_ok (w_store w)"
    and "\<And>ord. jget (authorizeOrders (w_store w)) n = None \<Longrightarrow> r_orderJson row = Some ord \<Longrightarrow> numeric ord"
  shows "(\<exists>w'. job_begin cfg n row t w = (JobDone, w') \<and> parked n t w w') \<or>
    (\<exists>order. job_begin cfg n row t w = (JobAwaits (SameCall order), w_status n Matched w)) \<or>
    (\<exists>m maker stored. job_begin cfg n row t w =
       (JobAwaits (CrossCall m maker n stored), w_status n Matched (w_status m Matched w)) \<and>
       jget (authorizeOrders (w_store w)) n = Some stored \<and> jget (authorizeOrders (w_store w)) m = Some maker \<and>
       compatible (w_store w) n (publicSignals (so_order stored)) m)"
proof (cases "case jget (authorizeOrders (w_store w)) n of Some so \<Rightarrow> Some (so_order so) | None \<Rightarrow> r_orderJson row")
  case None
  then show ?thesis by (simp add: job_begin_def parked_def)
next
  case (Some order)
  have num: "numeric order"
  proof (cases "jget (authorizeOrders (w_store w)) n")
    case None
    then show ?thesis using assms(2) Some by simp
  next
    case (Some so)
    then show ?thesis using assms(1) \<open>(case jget (authorizeOrders (w_store w)) n of
      Some so \<Rightarrow> Some (so_order so) | None \<Rightarrow> r_orderJson row) = Some order\<close>
      by (auto simp: store_ok_def entry_ok_def)
  qed
  obtain b where b: "sameToken order = Some b" using numeric_pair [OF num] by blast
  show ?thesis
  proof (cases b)
    case True
    then show ?thesis using Some b by (simp add: job_begin_def)
  next
    case False
    have "sameToken (so_order so) = Some False" if "jget (authorizeOrders (w_store w)) n = Some so" for so
      using that Some b False by simp
    from cross_begin_cases [OF assms(1) this, where cfg = cfg and row = row and t = t]
    have "(\<exists>w'. cross_begin cfg n row t w = (JobDone, w') \<and> parked n t w w') \<or>
      (\<exists>m maker stored. cross_begin cfg n row t w =
         (JobAwaits (CrossCall m maker n stored), w_status n Matched (w_status m Matched w)) \<and>
         jget (authorizeOrders (w_store w)) n = Some stored \<and> jget (authorizeOrders (w_store w)) m = Some maker \<and>
         compatible (w_store w) n (publicSignals (so_order stored)) m)" by blast
    moreover have "job_begin cfg n row t w = cross_begin cfg n row t w"
      using Some b False by (simp add: job_begin_def)
    ultimately show ?thesis by metis
  qed
qed

text \<open>What a job may rely on: a well-formed store, its claimed row, and parsable keys.\<close>

definition job_ok :: "string \<Rightarrow> db_row \<Rightarrow> wstate \<Rightarrow> bool" where
  "job_ok n row w \<longleftrightarrow> store_ok (w_store w) \<and> getAuthorizeOrder (w_db w) n = Some row \<and>
     keys_ok row (jget (authorizeOrders (w_store w)) n) \<and>
     (\<forall>so. jget (authorizeOrders (w_store w)) n = Some so \<longrightarrow> order_nullifier (so_order so) = n) \<and>
     (\<forall>ord. jget (authorizeOrders (w_store w)) n = None \<longrightarrow> r_orderJson row = Some ord \<longrightarrow> numeric ord)"

text \<open>The outcome of a job whose submission was awaited.\<close>

definition result_outcome :: "db_row \<Rightarrow> job_env \<Rightarrow> job_outcome" where
  "result_outcome row e = (case je_result e of
     Inl err \<Rightarrow> error_outcome (r_attempt row) err (je_finish e) | Inr tx \<Rightarrow> JSettled tx)"

lemma result_outcome_later: "later (je_finish e) (result_outcome row e)"
  by (simp add: result_outcome_def error_outcome_later split: sum.splits)


section \<open>Settled pairs and slots\<close>

text \<open>The counter a release decrements.\<close>

definition slot_key :: "string option \<Rightarrow> string option \<Rightarrow> string option" where
  "slot_key ax ay = (case (ax, ay) of (Some x, Some y) \<Rightarrow> if x = [] \<or> y = [] then None else pubKeyId x y
     | _ \<Rightarrow> None)"

definition owes :: "string option \<Rightarrow> string option \<Rightarrow> string \<Rightarrow> int" where
  "owes ax ay i = (if slot_key ax ay = Some i then 1 else 0)"

lemma owes_nonneg: "0 \<le> owes ax ay i"
  by (simp add: owes_def)

lemma pendingCount_release:
  assumes "counters_ok st" "release_slot ax ay st = Some st'"
  shows "pendingCount st' i = max 0 (pendingCount st i - owes ax ay i)"
proof (cases "\<exists>x y. ax = Some x \<and> ay = Some y \<and> x \<noteq> [] \<and> y \<noteq> []")
  case True
  then obtain x y where xy: "ax = Some x" "ay = Some y" "x \<noteq> []" "y \<noteq> []" by blast
  then have d: "decPubKeyCount x y st = Some st'" using assms(2) by (simp add: release_slot_def)
  then obtain k where k: "pubKeyId x y = Some k" by (auto simp: decPubKeyCount_def)
  show ?thesis using pendingCount_dec [OF assms(1) d k, of i] xy k counters_ok_bounds [OF assms(1), of i]
    by (simp add: owes_def slot_key_def)
next
  case False
  then have "st' = st" using assms(2) by (auto simp: release_slot_def split: option.splits if_splits)
  moreover have "owes ax ay i = 0" using False
    by (auto simp: owes_def slot_key_def split: option.splits if_splits)
  ultimately show ?thesis using counters_ok_bounds [OF assms(1), of i] by simp
qed

lemma w_release_Some:
  assumes "counters_ok (w_store w)" "w_release ax ay w = (None, w')"
  shows "counters_ok (w_store w') \<and>
    pendingCount (w_store w') i = max 0 (pendingCount (w_store w) i - owes ax ay i)"
  using assms pendingCount_release [of "w_store w" ax ay "w_store w'" i] counters_ok_release [of "w_store w" ax ay "w_store w'"]
  by (auto simp: w_release_def split: option.splits)

lemma w_settled_store [simp]:
  "authorizeOrders (w_store (w_settled n tx w)) =
     jmodify n (\<lambda>so. so\<lparr>so_status := Settled, so_settleTxHash := Some tx\<rparr>) (authorizeOrders (w_store w))"
  "pendingCount (w_store (w_settled n tx w)) i = pendingCount (w_store w) i"
  "counters_ok (w_store (w_settled n tx w)) = counters_ok (w_store w)"
  "w_calls (w_settled n tx w) = w_calls w"
  by (simp_all add: w_settled_def pendingCount_def counters_ok_def)

lemma w_record_calls [simp]: "w_calls (w_record cfg k w) = w_calls w"
  by (simp add: w_record_def Let_def split: prod.splits)

text \<open>
  When the submission of a matched pair succeeds, both rows become \<open>settled\<close> with its
  transaction hash, both in-memory entries too, one slot of each side's key is given back, both
  listings are reported as matched, and nothing else changes.
\<close>

lemma pair_settled:
  assumes "counters_ok (w_store w)" "entry_ok m maker" "entry_ok n taker" "m \<noteq> n"
    and "order_nullifier (so_order maker) = m" "order_nullifier (so_order taker) = n"
  shows "\<exists>w'. cross_finish cfg n row m maker taker (Inr tx) now w = (None, w') \<and>
    (\<forall>k. getAuthorizeOrder (w_db w') k = (if k = m \<or> k = n
       then map_option (finish_row (JSettled tx) now) (getAuthorizeOrder (w_db w) k) else getAuthorizeOrder (w_db w) k)) \<and>
    (\<forall>k. jget (authorizeOrders (w_store w')) k = (if k = m \<or> k = n
       then map_option (\<lambda>so. so\<lparr>so_status := Settled, so_settleTxHash := Some tx\<rparr>) (jget (authorizeOrders (w_store w)) k)
       else jget (authorizeOrders (w_store w)) k)) \<and>
    (\<forall>i. pendingCount (w_store w') i = max 0 (pendingCount (w_store w) i
       - owes (so_pubKeyAx maker) (so_pubKeyAy maker) i - owes (so_pubKeyAx taker) (so_pubKeyAy taker) i)) \<and>
    w_calls w' = w_calls w @ matched_calls (wd_shared cfg) m n"
proof -
  let ?w1 = "w_settled m tx (w_finish (JSettled tx) n now (w_finish (JSettled tx) m now w))"
  obtain w2 where w2: "w_release (so_pubKeyAx maker) (so_pubKeyAy maker) ?w1 = (None, w2)"
    using entry_release_total [OF assms(2)] by blast
  obtain w3 where w3: "w_release (so_pubKeyAx taker) (so_pubKeyAy taker) (w_settled n tx w2) = (None, w3)"
    using entry_release_total [OF assms(3)] by blast
  let ?w' = "w_record cfg OSettled (w3\<lparr>w_calls := w_calls w3 @ matched_calls (wd_shared cfg) m n\<rparr>)"
  have run: "cross_finish cfg n row m maker taker (Inr tx) now w = (None, ?w')"
    using w2 w3 assms(5,6) by (simp add: cross_finish_def Let_def)
  note f2 = release_frame [OF w2] and f3 = release_frame [OF w3]
  have c1: "counters_ok (w_store ?w1)" using assms(1) by simp
  have c2: "counters_ok (w_store (w_settled n tx w2))" using w_release_Some [OF c1 w2] by simp
  have count: "pendingCount (w_store w3) i = max 0 (pendingCount (w_store w) i
       - owes (so_pubKeyAx maker) (so_pubKeyAy maker) i - owes (so_pubKeyAx taker) (so_pubKeyAy taker) i)" for i
    using w_release_Some [OF c1 w2, of i] w_release_Some [OF c2 w3, of i]
      owes_nonneg [of "so_pubKeyAx taker" "so_pubKeyAy taker" i]
    by (auto simp: max_def)
  have rows: "getAuthorizeOrder (w_db w3) k = (if k = m \<or> k = n
       then map_option (finish_row (JSettled tx) now) (getAuthorizeOrder (w_db w) k) else getAuthorizeOrder (w_db w) k)" for k
    using f2 f3 assms(4) by (simp add: finish_job_get del: finish_job.simps finish_row.simps)
  have mem: "jget (authorizeOrders (w_store w3)) k = (if k = m \<or> k = n
       then map_option (\<lambda>so. so\<lparr>so_status := Settled, so_settleTxHash := Some tx\<rparr>) (jget (authorizeOrders (w_store w)) k)
       else jget (authorizeOrders (w_store w)) k)" for k
    using f2 f3 assms(4) by simp
  have calls: "w_calls w3 = w_calls w" using f2 f3 by simp
  show ?thesis
    by (intro exI [of _ ?w'] conjI run) (use rows mem count calls in \<open>simp_all add: pendingCount_def [of "w_store w3"] pendingCount_def\<close>)
qed

lemma give_up_effect:
  assumes "keys_ok row stored" "counters_ok (w_store w)"
  shows "\<exists>w'. give_up cfg n row stored s w = (None, w') \<and> w_db w' = w_db w \<and> w_calls w' = w_calls w \<and>
    authorizeOrders (w_store w') = (if stored = None then authorizeOrders (w_store w)
      else jmodify n (\<lambda>so. so\<lparr>so_status := s\<rparr>) (authorizeOrders (w_store w))) \<and>
    (\<forall>i. pendingCount (w_store w') i = max 0 (pendingCount (w_store w) i -
       owes (nullish (Option.bind stored so_pubKeyAx) (r_pubKeyAx row)) (nullish (Option.bind stored so_pubKeyAy) (r_pubKeyAy row)) i))"
proof -
  let ?w1 = "if stored = None then w else w_status n s w"
  obtain w' where r: "releasePubKeySlot row stored ?w1 = (None, w')" using slot_total [OF assms(1)] by blast
  have c: "counters_ok (w_store ?w1)" using assms(2) counters_ok_cong [of "set_status n s (w_store w)" "w_store w"] by simp
  have "pendingCount (w_store w') i = max 0 (pendingCount (w_store ?w1) i -
       owes (nullish (Option.bind stored so_pubKeyAx) (r_pubKeyAx row)) (nullish (Option.bind stored so_pubKeyAy) (r_pubKeyAy row)) i)" for i
    using w_release_Some [OF c r [unfolded releasePubKeySlot_def]] by simp
  moreover have "pendingCount (w_store ?w1) i = pendingCount (w_store w) i" for i by simp
  ultimately show ?thesis using r slot_frame [OF r] by (simp add: give_up_def)
qed

text \<open>The whole effect of an error on one job.\<close>

lemma settle_error_effect:
  fixes err :: thrown and now :: ms
  assumes "keys_ok row stored" "counters_ok (w_store w)"
  defines "o' \<equiv> error_outcome (r_attempt row) err now"
  shows "\<exists>w'. handleSettleError cfg n row err stored now w = (None, w') \<and>
    w_db w' = finish_job o' n now (w_db w) \<and> w_calls w' = w_calls w \<and>
    authorizeOrders (w_store w') = (if stored = None then authorizeOrders (w_store w)
      else jmodify n (\<lambda>so. so\<lparr>so_status := r_status (finish_row o' now row)\<rparr>) (authorizeOrders (w_store w))) \<and>
    (\<forall>i. pendingCount (w_store w') i =
      (if isTerminalStatus (r_status (finish_row o' now row))
       then max 0 (pendingCount (w_store w) i - owes (nullish (Option.bind stored so_pubKeyAx) (r_pubKeyAx row))
              (nullish (Option.bind stored so_pubKeyAy) (r_pubKeyAy row)) i)
       else pendingCount (w_store w) i))"
proof (cases "isTerminalStatus (r_status (finish_row o' now row))")
  case True
  have "\<exists>s o''. handleSettleError cfg n row err stored now w = give_up cfg n row stored s (w_finish o'' n now w) \<and>
      o'' = o' \<and> s = r_status (finish_row o' now row)"
    using True unfolding o'_def
    by (cases "classifySettleError err")
      (auto simp: handleSettleError_def Let_def error_outcome_def terminal_iff split: if_splits)
  then have h: "handleSettleError cfg n row err stored now w =
      give_up cfg n row stored (r_status (finish_row o' now row)) (w_finish o' n now w)" by blast
  have c: "counters_ok (w_store (w_finish o' n now w))" using assms(2) by simp
  show ?thesis using give_up_effect [OF assms(1) c, of cfg n "r_status (finish_row o' now row)"] True
    unfolding h by (cases stored) simp_all
next
  case False
  have h: "handleSettleError cfg n row err stored now w =
      (None, if stored = None then w_finish o' n now w else w_status n (r_status (finish_row o' now row)) (w_finish o' n now w))"
    using False unfolding o'_def
    by (cases "classifySettleError err")
      (auto simp: handleSettleError_def Let_def error_outcome_def terminal_iff split: if_splits)
  show ?thesis using False unfolding h by (cases stored) simp_all
qed

text \<open>
  When the submission of a matched pair fails, only the claimed job pays: its row gets the
  outcome of the error and its entry the status of its row, its slot is given back exactly when
  that status is final; the counterparty's row and slot are untouched and its entry is a live
  candidate again.
\<close>

lemma pair_failed:
  fixes err :: thrown and now :: ms
  assumes "counters_ok (w_store w)" "keys_ok row (Some taker)" "m \<noteq> n"
  defines "o' \<equiv> error_outcome (r_attempt row) err now"
  shows "\<exists>w'. cross_finish cfg n row m maker taker (Inl err) now w = (None, w') \<and>
    (\<forall>k. getAuthorizeOrder (w_db w') k =
       (if k = n then map_option (finish_row o' now) (getAuthorizeOrder (w_db w) k) else getAuthorizeOrder (w_db w) k)) \<and>
    (\<forall>k. map_option so_status (jget (authorizeOrders (w_store w')) k) = map_option (\<lambda>so.
       if k = n then r_status (finish_row o' now row) else if k = m then Pending else so_status so)
         (jget (authorizeOrders (w_store w)) k)) \<and>
    (\<forall>i. pendingCount (w_store w') i = (if isTerminalStatus (r_status (finish_row o' now row))
       then max 0 (pendingCount (w_store w) i - owes (nullish (so_pubKeyAx taker) (r_pubKeyAx row))
              (nullish (so_pubKeyAy taker) (r_pubKeyAy row)) i)
       else pendingCount (w_store w) i)) \<and> w_calls w' = w_calls w"
proof -
  let ?v = "w_status n Pending (w_status m Pending w)"
  have c: "counters_ok (w_store ?v)"
    using assms(1) counters_ok_cong [of "w_store ?v" "w_store w"] by simp
  obtain w' where w': "handleSettleError cfg n row err (Some taker) now ?v = (None, w')"
    "w_db w' = finish_job o' n now (w_db ?v)" "w_calls w' = w_calls ?v"
    "authorizeOrders (w_store w') = jmodify n (\<lambda>so. so\<lparr>so_status := r_status (finish_row o' now row)\<rparr>) (authorizeOrders (w_store ?v))"
    "\<forall>i. pendingCount (w_store w') i =
      (if isTerminalStatus (r_status (finish_row o' now row))
       then max 0 (pendingCount (w_store ?v) i - owes (nullish (so_pubKeyAx taker) (r_pubKeyAx row))
              (nullish (so_pubKeyAy taker) (r_pubKeyAy row)) i)
       else pendingCount (w_store ?v) i)"
    using settle_error_effect [OF assms(2) c, of cfg n err now] unfolding o'_def [symmetric] by auto
  have "map_option so_status (jget (authorizeOrders (w_store w')) k) = map_option (\<lambda>so.
       if k = n then r_status (finish_row o' now row) else if k = m then Pending else so_status so)
         (jget (authorizeOrders (w_store w)) k)" for k
    using w'(4) assms(3) by (auto simp: option.map_comp comp_def)
  moreover have "getAuthorizeOrder (w_db w') k = (if k = n then map_option (finish_row o' now) (getAuthorizeOrder (w_db w) k)
      else getAuthorizeOrder (w_db w) k)" for k
    using w'(2) by (simp add: finish_job_get)
  ultimately show ?thesis using w' by (intro exI [of _ w']) (simp add: cross_finish_def cross_failed_def)
qed

section \<open>Witnesses\<close>

definition sample_cfg :: worker_deps where
  "sample_cfg = \<lparr>wd_threshold = 3, wd_shared = True\<rparr>"

definition claimed_db :: order_db where
  "claimed_db = on_table (jset (dec 77) (claim_row 2000000 (sample_row (dec 77) 1 2 100 50))) empty_db"

definition sample_wstate :: "order_db \<Rightarrow> wstate" where
  "sample_wstate d = \<lparr>w_store = one_order, w_db = d,
     w_tracker = \<lparr>consecutiveFailures = 0, alerted = False\<rparr>, w_alerts = [], w_calls = []\<rparr>"

lemma sample_wstate_sel [simp]: "w_store (sample_wstate d) = one_order" "w_db (sample_wstate d) = d"
  by (simp_all add: sample_wstate_def)

lemma sample_entry: "n = dec i \<Longrightarrow> numeric (sample_order n s b x y) \<Longrightarrow> 0 \<le> i \<Longrightarrow> entry_ok n (sample_stored n s b x y)"
  using sample_pubKeyId by (simp add: entry_ok_def sample_stored_def js_simps)

lemma maker_entry: "entry_ok (dec 77) (sample_stored (dec 77) 1 2 100 50)"
  using sample_numeric by (intro sample_entry) auto

lemma taker_entry: "entry_ok (dec 78) (sample_stored (dec 78) 2 1 60 90)"
proof -
  have "numeric (sample_order (dec 78) 2 1 60 90)"
    using sample_valid [of "dec 78" 78 2 1 60 90 1000]
    by (intro validated_numeric) (auto simp: js_simps BN254_FIELD_MODULUS_def)
  then show ?thesis by (intro sample_entry) auto
qed

lemma one_order_counters: "counters_ok one_order"
  by (simp add: counters_ok_def sample_posted_def empty_store_def pendingCount_def MAX_ORDERS_PER_PUBKEY_def
      jget_def jset_def)

lemma sample_keys: "keys_ok (claim_row 2000000 (sample_row (dec 77) 1 2 100 50)) (Some (sample_stored n s b x y))"
  using sample_pubKeyId by (simp add: keys_ok_def nullish_def sample_stored_def)

lemma sample_nullifier_of: "order_nullifier (so_order (sample_stored n s b x y)) = n"
  by (simp add: sample_stored_def order_nullifier_def sample_order_def sample_signals_def)


theorem retry_budget_witness:
  "\<exists>row'. getAuthorizeOrder (w_db (fail_rounds sample_cfg (dec 77)
     (replicate 6 (ErrorObj ''request timeout'', 2000000)) (sample_wstate one_row))) (dec 77) = Some row' \<and>
     r_status row' = DeadLetter"
proof -
  have g: "getAuthorizeOrder (w_db (sample_wstate one_row)) (dec 77) = Some (sample_row (dec 77) 1 2 100 50)"
    by (simp add: getAuthorizeOrder_def)
  have "classifySettleError (ErrorObj ''request timeout'') = TransientError"
    by code_simp
  then show ?thesis
    using retry_budget [OF g, of "replicate 6 (ErrorObj ''request timeout'', 2000000)" sample_cfg]
    by (auto simp: sample_row_def)
qed

lemma pair_settled_witness:
  "\<exists>w'. cross_finish sample_cfg (dec 78) (sample_row (dec 78) 2 1 60 90) (dec 77) (sample_stored (dec 77) 1 2 100 50)
     (sample_stored (dec 78) 2 1 60 90) (Inr ''0xab'') 5 (sample_wstate one_row) = (None, w') \<and>
     getAuthorizeOrder (w_db w') (dec 77) = Some (finish_row (JSettled ''0xab'') 5 (sample_row (dec 77) 1 2 100 50))"
proof -
  have c: "counters_ok (w_store (sample_wstate one_row))" using one_order_counters by simp
  have g: "getAuthorizeOrder one_row (dec 77) = Some (sample_row (dec 77) 1 2 100 50)"
    by (simp add: getAuthorizeOrder_def)
  from pair_settled [OF c maker_entry taker_entry _ sample_nullifier_of sample_nullifier_of,
      of sample_cfg "sample_row (dec 78) 2 1 60 90" "''0xab''" 5]
  obtain w' where "cross_finish sample_cfg (dec 78) (sample_row (dec 78) 2 1 60 90) (dec 77)
      (sample_stored (dec 77) 1 2 100 50) (sample_stored (dec 78) 2 1 60 90) (Inr ''0xab'') 5 (sample_wstate one_row) = (None, w')"
    "getAuthorizeOrder (w_db w') (dec 77) =
      map_option (finish_row (JSettled ''0xab'') 5) (getAuthorizeOrder (w_db (sample_wstate one_row)) (dec 77))"
    by auto
  then show ?thesis using g by simp
qed

lemma pair_failed_witness:
  "\<exists>w'. cross_finish sample_cfg (dec 78) (claim_row 2000000 (sample_row (dec 77) 1 2 100 50)) (dec 77)
     (sample_stored (dec 77) 1 2 100 50) (sample_stored (dec 78) 2 1 60 90) (Inl (ErrorObj ''timeout'')) 5
     (sample_wstate one_row) = (None, w') \<and>
     map_option so_status (jget (authorizeOrders (w_store w')) (dec 77)) = Some Pending"
proof -
  have c: "counters_ok (w_store (sample_wstate one_row))" using one_order_counters by simp
  have ne: "dec 77 \<noteq> dec 78" by simp
  have g: "\<exists>so. jget (authorizeOrders one_order) (dec 77) = Some so" by (simp add: sample_posted_def)
  obtain w' where run: "cross_finish sample_cfg (dec 78) (claim_row 2000000 (sample_row (dec 77) 1 2 100 50)) (dec 77)
      (sample_stored (dec 77) 1 2 100 50) (sample_stored (dec 78) 2 1 60 90) (Inl (ErrorObj ''timeout'')) 5
      (sample_wstate one_row) = (None, w')"
    and st: "\<forall>k. map_option so_status (jget (authorizeOrders (w_store w')) k) = map_option (\<lambda>so.
       if k = dec 78 then r_status (finish_row (error_outcome (r_attempt (claim_row 2000000 (sample_row (dec 77) 1 2 100 50)))
            (ErrorObj ''timeout'') 5) 5 (claim_row 2000000 (sample_row (dec 77) 1 2 100 50)))
       else if k = dec 77 then Pending else so_status so) (jget (authorizeOrders (w_store (sample_wstate one_row))) k)"
    using pair_failed [where cfg = sample_cfg and maker = "sample_stored (dec 77) 1 2 100 50"
      and err = "ErrorObj ''timeout''" and now = 5, OF c sample_keys [of "dec 78" 2 1 60 90] ne] by blast
  show ?thesis using run g ne spec [OF st, of "dec 77"] by auto
qed

end
