(* ===== verification/Addresses.thy ===== *)
theory Addresses
  imports AuthorizeOrder
begin

text \<open>
  The identifiers that all components exchange as text (\<open>packages/types/src/index.ts\<close>): the two
  syntactic classes of hexadecimal strings, and the key of a pair of token addresses.
\<close>

text \<open>\<open>pairKey\<close> on address strings: lower-cased, in increasing order.\<close>

definition tokenPairKey :: "string \<Rightarrow> string \<Rightarrow> string" where
  "tokenPairKey tokenA tokenB =
     (let a = toLowerCase tokenA; b = toLowerCase tokenB in
      if str_less a b then a @ ''-'' @ b else b @ ''-'' @ a)"

definition is_hex_digit :: "char \<Rightarrow> bool" where
  "is_hex_digit c \<longleftrightarrow> (let k = code c in (48 \<le> k \<and> k \<le> 57) \<or> (97 \<le> k \<and> k \<le> 102) \<or> (65 \<le> k \<and> k \<le> 70))"

text \<open>The regular expression \<open>0x\<close> followed by exactly \<open>n\<close> hexadecimal digits.\<close>

definition hex_string :: "nat \<Rightarrow> string \<Rightarrow> bool" where
  "hex_string n s \<longleftrightarrow> (case s of z # x # h \<Rightarrow>
     z = CHR ''0'' \<and> x = CHR ''x'' \<and> length h = n \<and> (\<forall>c \<in> set h. is_hex_digit c) | _ \<Rightarrow> False)"

definition ETH_ADDRESS_RE :: "string \<Rightarrow> bool" where "ETH_ADDRESS_RE = hex_string 40"
definition OFFER_HANDLE_RE :: "string \<Rightarrow> bool" where "OFFER_HANDLE_RE = hex_string 64"

definition isValidPair :: "string \<Rightarrow> (string \<times> string) option" where
  "isValidPair pair =
     (let a = take 42 pair; b = drop 43 pair in
      if length pair \<le> 42 \<or> pair ! 42 \<noteq> CHR ''-'' then None
      else if \<not> ETH_ADDRESS_RE a \<or> \<not> ETH_ADDRESS_RE b then None
      else Some (a, b))"

section \<open>Pair keys\<close>

lemma hex_string_length: "hex_string n s \<Longrightarrow> length s = n + 2"
  by (auto simp: hex_string_def split: list.splits)

lemma ETH_length: "ETH_ADDRESS_RE s \<Longrightarrow> length s = 42"
  using hex_string_length [of 40 s] by (simp add: ETH_ADDRESS_RE_def)

lemma toLowerCase_length [simp]: "length (toLowerCase s) = length s"
  by (simp add: toLowerCase_def)

lemma tokenPairKey_sym: "tokenPairKey a b = tokenPairKey b a"
  using str_less_trichotomy [of "toLowerCase a" "toLowerCase b"] str_less_asym
  by (auto simp: tokenPairKey_def Let_def)

lemma tokenPairKey_cong:
  "toLowerCase a = toLowerCase c \<Longrightarrow> toLowerCase b = toLowerCase d \<Longrightarrow> tokenPairKey a b = tokenPairKey c d"
  by (simp add: tokenPairKey_def)

lemma tokenPairKey_cases:
  "\<exists>x y. tokenPairKey a b = x @ ''-'' @ y \<and> {x, y} = {toLowerCase a, toLowerCase b}"
  by (auto simp: tokenPairKey_def Let_def)

lemma hex_lower: "is_hex_digit c \<Longrightarrow> is_hex_digit (lower_char c)"
  by (auto simp: is_hex_digit_def lower_char_def Let_def code_char_of)

lemma ETH_lower: "ETH_ADDRESS_RE s \<Longrightarrow> ETH_ADDRESS_RE (toLowerCase s)"
proof -
  assume s: "ETH_ADDRESS_RE s"
  then obtain h where h: "s = CHR ''0'' # CHR ''x'' # h" "length h = 40" "\<forall>c \<in> set h. is_hex_digit c"
    by (auto simp: ETH_ADDRESS_RE_def hex_string_def split: list.splits)
  have "lower_char (CHR ''0'') = CHR ''0''" "lower_char (CHR ''x'') = CHR ''x''"
    by (simp_all add: lower_char_def code_def)
  then show ?thesis using h hex_lower
    by (auto simp: ETH_ADDRESS_RE_def hex_string_def toLowerCase_def)
qed

lemma tokenPairKey_split:
  assumes "ETH_ADDRESS_RE a" "ETH_ADDRESS_RE b" "ETH_ADDRESS_RE c" "ETH_ADDRESS_RE d"
  shows "(tokenPairKey a b = tokenPairKey c d \<longleftrightarrow>
      {toLowerCase a, toLowerCase b} = {toLowerCase c, toLowerCase d}) \<and>
    (\<exists>x y. isValidPair (tokenPairKey a b) = Some (x, y) \<and> {x, y} = {toLowerCase a, toLowerCase b})"
proof (intro conjI iffI)
  obtain x y where xy: "tokenPairKey a b = x @ ''-'' @ y" "{x, y} = {toLowerCase a, toLowerCase b}"
    using tokenPairKey_cases by blast
  obtain u v where uv: "tokenPairKey c d = u @ ''-'' @ v" "{u, v} = {toLowerCase c, toLowerCase d}"
    using tokenPairKey_cases by blast
  have eth: "ETH_ADDRESS_RE x" "ETH_ADDRESS_RE y" "ETH_ADDRESS_RE u" "ETH_ADDRESS_RE v"
    using xy(2) uv(2) assms ETH_lower by (auto simp: doubleton_eq_iff)
  then have len: "length x = 42" "length y = 42" "length u = 42" using ETH_length by blast+
  show "{toLowerCase a, toLowerCase b} = {toLowerCase c, toLowerCase d}" if "tokenPairKey a b = tokenPairKey c d"
    using that xy uv len by auto
  show "tokenPairKey a b = tokenPairKey c d" if "{toLowerCase a, toLowerCase b} = {toLowerCase c, toLowerCase d}"
    using that tokenPairKey_cong [of a c b d] tokenPairKey_cong [of a d b c] tokenPairKey_sym [of d c]
    by (auto simp: doubleton_eq_iff)
  have "isValidPair (x @ ''-'' @ y) = Some (x, y)"
    using len eth by (simp add: isValidPair_def Let_def nth_append)
  then show "\<exists>x y. isValidPair (tokenPairKey a b) = Some (x, y) \<and> {x, y} = {toLowerCase a, toLowerCase b}"
    using xy by auto
qed

lemmas tokenPairKey_iff = tokenPairKey_split [THEN conjunct1]

text \<open>
  On addresses the string pair key identifies unordered pairs up to letter case, and a key
  built from two addresses is accepted by \<open>isValidPair\<close>, which splits it into the two tokens.
\<close>

lemma token_pair_key_iff:
  assumes "ETH_ADDRESS_RE a" "ETH_ADDRESS_RE b" "ETH_ADDRESS_RE c" "ETH_ADDRESS_RE d"
  shows "(tokenPairKey a b = tokenPairKey c d \<longleftrightarrow>
      {toLowerCase a, toLowerCase b} = {toLowerCase c, toLowerCase d}) \<and>
    (\<exists>x y. isValidPair (tokenPairKey a b) = Some (x, y) \<and> {x, y} = {toLowerCase a, toLowerCase b})"
  using assms by (rule tokenPairKey_split)

lemma token_pair_key_iff_witness:
  "tokenPairKey (''0x'' @ replicate 40 (CHR ''A'')) (''0x'' @ replicate 40 (CHR ''b'')) =
   tokenPairKey (''0x'' @ replicate 40 (CHR ''B'')) (''0x'' @ replicate 40 (CHR ''a''))"
proof -
  have e: "ETH_ADDRESS_RE (''0x'' @ replicate 40 (CHR ''A''))" "ETH_ADDRESS_RE (''0x'' @ replicate 40 (CHR ''b''))"
    "ETH_ADDRESS_RE (''0x'' @ replicate 40 (CHR ''B''))" "ETH_ADDRESS_RE (''0x'' @ replicate 40 (CHR ''a''))"
    by (simp_all add: ETH_ADDRESS_RE_def hex_string_def is_hex_digit_def code_def)
  have c: "lower_char (CHR ''A'') = CHR ''a''" "lower_char (CHR ''B'') = CHR ''b''"
    "lower_char (CHR ''a'') = CHR ''a''" "lower_char (CHR ''b'') = CHR ''b''"
    by code_simp+
  have l: "toLowerCase (''0x'' @ replicate 40 (CHR ''A'')) = toLowerCase (''0x'' @ replicate 40 (CHR ''a''))"
    "toLowerCase (''0x'' @ replicate 40 (CHR ''b'')) = toLowerCase (''0x'' @ replicate 40 (CHR ''B''))"
    using c by (simp_all add: toLowerCase_def)
  show ?thesis using token_pair_key_iff [OF e] l by auto
qed

end
