(* ===== verification/JsNumber.thy ===== *)
theory JsNumber
  imports Prelude Complex_Main
begin

text \<open>
  JavaScript numbers and the values of a JSON body: IEEE doubles as rationals with NaN and the two
  infinities (the sign of zero is not represented), rounding to the nearest double, \<open>Number(s)\<close> on
  strings with the full grammar of numeric strings, \<open>String(n)\<close> on numbers, and \<open>String(v)\<close> and
  \<open>Number(v)\<close> on any value that \<open>JSON.parse\<close> can return.
\<close>

datatype js_number = JsNaN | JsInf bool | JsFin rat

section \<open>Rounding\<close>

definition pow2 :: "int \<Rightarrow> rat" where
  "pow2 e = (if 0 \<le> e then 2 ^ nat e else 1 / 2 ^ nat (- e))"

definition pow10 :: "int \<Rightarrow> rat" where
  "pow10 e = (if 0 \<le> e then 10 ^ nat e else 1 / 10 ^ nat (- e))"

text \<open>The exponent of a positive rational: \<open>2 ^ e \<le> x < 2 ^ (e + 1)\<close>.\<close>

definition floor_log2 :: "rat \<Rightarrow> int" where
  "floor_log2 x = (case quotient_of x of (n, d) \<Rightarrow>
     let e = int (bitlen (nat n)) - int (bitlen (nat d)) in if pow2 e \<le> x then e else e - 1)"

definition round_half_even :: "rat \<Rightarrow> int" where
  "round_half_even q = (let f = \<lfloor>q\<rfloor>; r = q - of_int f in
     if r < 1 / 2 \<or> (r = 1 / 2 \<and> even f) then f else f + 1)"

text \<open>The nearest double: 53 significant bits, least exponent -1074, infinity from \<open>2 ^ 1024\<close>.\<close>

definition to_double :: "rat \<Rightarrow> js_number" where
  "to_double x = (if x = 0 then JsFin 0 else
     let u = pow2 (max (floor_log2 \<bar>x\<bar>) (- 1022) - 52); y = of_int (round_half_even (\<bar>x\<bar> / u)) * u in
     if 2 ^ 1024 \<le> y then JsInf (x < 0) else JsFin (sgn x * y))"

section \<open>Numeric strings\<close>

definition is_digit :: "char \<Rightarrow> bool" where "is_digit c \<longleftrightarrow> 48 \<le> code c \<and> code c \<le> 57"

fun exponent_part :: "string \<Rightarrow> int option" where
  "exponent_part [] = Some 0"
| "exponent_part (c # cs) =
     (if c \<noteq> CHR ''e'' \<and> c \<noteq> CHR ''E'' then None
      else case cs of
        [] \<Rightarrow> None
      | d # ds \<Rightarrow> if d = CHR ''-'' then map_option uminus (parse_digits 10 ds)
                  else if d = CHR ''+'' then parse_digits 10 ds
                  else parse_digits 10 cs)"

text \<open>Digits, a fraction, an exponent; at least one digit before or after the point.\<close>

definition decimal_literal :: "string \<Rightarrow> rat option" where
  "decimal_literal s =
     (let ip = takeWhile is_digit s; r = dropWhile is_digit s;
          (fp, r') = (case r of [] \<Rightarrow> ([], []) | c # cs \<Rightarrow>
             if c = CHR ''.'' then (takeWhile is_digit cs, dropWhile is_digit cs) else ([], r)) in
      case parse_digits 10 (ip @ fp) of
        None \<Rightarrow> None
      | Some m \<Rightarrow> map_option (\<lambda>e. of_int m * pow10 (e - int (length fp))) (exponent_part r'))"

definition unsigned_part :: "string \<Rightarrow> string" where
  "unsigned_part s = (if s \<noteq> [] \<and> hd s \<in> {CHR ''-'', CHR ''+''} then tl s else s)"

definition Number_literal :: "string \<Rightarrow> js_number" where
  "Number_literal s =
     (let neg = (s \<noteq> [] \<and> hd s = CHR ''-'') in
      if unsigned_part s = ''Infinity'' then JsInf neg
      else case decimal_literal (unsigned_part s) of None \<Rightarrow> JsNaN | Some q \<Rightarrow> to_double (if neg then - q else q))"

definition Number_radix :: "nat \<Rightarrow> string \<Rightarrow> js_number" where
  "Number_radix r h = (case parse_digits r h of None \<Rightarrow> JsNaN | Some i \<Rightarrow> to_double (of_int i))"

text \<open>\<open>Number(s)\<close> on a string.\<close>

definition Number_of_string :: "string \<Rightarrow> js_number" where
  "Number_of_string s0 = (let s = trim s0 in
     if s = [] then JsFin 0 else
     case strip_prefix2 (CHR ''x'') (CHR ''X'') s of Some h \<Rightarrow> Number_radix 16 h | None \<Rightarrow>
     case strip_prefix2 (CHR ''o'') (CHR ''O'') s of Some h \<Rightarrow> Number_radix 8 h | None \<Rightarrow>
     case strip_prefix2 (CHR ''b'') (CHR ''B'') s of Some h \<Rightarrow> Number_radix 2 h | None \<Rightarrow>
     Number_literal s)"

section \<open>Numbers as text\<close>

text \<open>\<open>10 ^ k \<le> x < 10 ^ (k + 1)\<close> for a positive x.\<close>

definition floor_log10 :: "rat \<Rightarrow> int" where
  "floor_log10 x = (if 1 \<le> x then int (length (dec \<lfloor>x\<rfloor>)) - 1 else - int (length (dec (\<lceil>1 / x\<rceil> - 1))))"

text \<open>The fewest significant digits that read back as x, with the exponent of the first: \<open>(s, n)\<close> for \<open>0.s \<cdot> 10 ^ n\<close>.\<close>

definition digits_at :: "rat \<Rightarrow> nat \<Rightarrow> int \<times> int" where
  "digits_at x k = (let n = floor_log10 x + 1; s = round_half_even (x / pow10 (n - int k)) in
     if s = 10 ^ k then (10 ^ (k - 1), n + 1) else (s, n))"

definition shortest_digits :: "rat \<Rightarrow> int \<times> int" where
  "shortest_digits x =
     (case find (\<lambda>k. case digits_at x k of (s, n) \<Rightarrow> to_double (of_int s * pow10 (n - int k)) = JsFin x) [1..<18] of
        Some k \<Rightarrow> digits_at x k | None \<Rightarrow> digits_at x 17)"

definition positive_text :: "rat \<Rightarrow> string" where
  "positive_text x =
     (case shortest_digits x of (s, n) \<Rightarrow>
        let ds = dec s; k = int (length ds); e = n - 1;
            ex = ''e'' @ (if e < 0 then ''-'' else ''+'') @ dec \<bar>e\<bar> in
        if k \<le> n \<and> n \<le> 21 then ds @ replicate (nat (n - k)) (CHR ''0'')
        else if 0 < n \<and> n \<le> 21 then take (nat n) ds @ ''.'' @ drop (nat n) ds
        else if - 6 < n \<and> n \<le> 0 then ''0.'' @ replicate (nat (- n)) (CHR ''0'') @ ds
        else if k = 1 then ds @ ex
        else take 1 ds @ ''.'' @ drop 1 ds @ ex)"

definition Number_toString :: "js_number \<Rightarrow> string" where
  "Number_toString v = (case v of JsNaN \<Rightarrow> ''NaN'' | JsInf neg \<Rightarrow> (if neg then ''-Infinity'' else ''Infinity'')
     | JsFin x \<Rightarrow> if x = 0 then ''0'' else if x < 0 then CHR ''-'' # positive_text (- x) else positive_text x)"

section \<open>JSON values\<close>

text \<open>
  What a field of a parsed body may hold.  The flag of an object says that it has a field named
  \<open>toString\<close>, which hides the method, so that the object has no primitive value.
\<close>

datatype raw_value = VUndefined | VNull | VBool bool | VNumber js_number | VString string
  | VArray "raw_value list" | VObject bool

abbreviation VInt :: "int \<Rightarrow> raw_value" where "VInt i \<equiv> VNumber (JsFin (of_int i))"

fun join_texts :: "string option list \<Rightarrow> string option" where
  "join_texts [] = Some []"
| "join_texts [t] = t"
| "join_texts (t # ts) = (case t of None \<Rightarrow> None | Some a \<Rightarrow> map_option (\<lambda>b. a @ '','' @ b) (join_texts ts))"

text \<open>\<open>String(v)\<close>; None is the TypeError of a value that has no primitive.\<close>

fun js_String :: "raw_value \<Rightarrow> string option" where
  "js_String VUndefined = Some ''undefined''"
| "js_String VNull = Some ''null''"
| "js_String (VBool b) = Some (if b then ''true'' else ''false'')"
| "js_String (VNumber n) = Some (Number_toString n)"
| "js_String (VString s) = Some s"
| "js_String (VArray xs) = join_texts (map (\<lambda>x. if x = VUndefined \<or> x = VNull then Some [] else js_String x) xs)"
| "js_String (VObject shadowed) = (if shadowed then None else Some ''[object Object]'')"

text \<open>\<open>String(v ?? d)\<close> and \<open>Number(v)\<close>.\<close>

definition raw_string :: "string \<Rightarrow> raw_value \<Rightarrow> string option" where
  "raw_string d v = (if v = VUndefined \<or> v = VNull then Some d else js_String v)"

fun raw_number :: "raw_value \<Rightarrow> js_number option" where
  "raw_number VUndefined = Some JsNaN"
| "raw_number VNull = Some (JsFin 0)"
| "raw_number (VBool b) = Some (JsFin (if b then 1 else 0))"
| "raw_number (VNumber n) = Some n"
| "raw_number (VString s) = Some (Number_of_string s)"
| "raw_number v = map_option Number_of_string (js_String v)"

definition NO_PRIMITIVE :: string where "NO_PRIMITIVE = ''Cannot convert object to primitive value''"

text \<open>\<open>Number.isInteger(n)\<close>, with the integer.\<close>

definition js_integer :: "js_number \<Rightarrow> int option" where
  "js_integer n = (case n of JsFin q \<Rightarrow> if of_int \<lfloor>q\<rfloor> = q then Some \<lfloor>q\<rfloor> else None | _ \<Rightarrow> None)"

definition raw_integer :: "raw_value \<Rightarrow> int option" where
  "raw_integer v = (case v of VNumber n \<Rightarrow> js_integer n | _ \<Rightarrow> None)"

lemma js_integer_Some: "js_integer n = Some i \<longleftrightarrow> n = JsFin (of_int i)"
  by (auto simp: js_integer_def split: js_number.splits if_splits)

lemma js_integer_int [simp]: "js_integer (JsFin (of_int i)) = Some i"
  by (simp add: js_integer_Some)

lemma js_integer_numeral [simp]:
  "js_integer (JsFin 0) = Some 0" "js_integer (JsFin 1) = Some 1" "js_integer (JsFin (numeral k)) = Some (numeral k)"
  using js_integer_int [of 0] js_integer_int [of 1] js_integer_int [of "numeral k"] by simp_all

lemma raw_integer_simps [simp]:
  "raw_integer VUndefined = None" "raw_integer VNull = None" "raw_integer (VString s) = None"
  "raw_integer (VNumber n) = js_integer n"
  by (simp_all add: raw_integer_def)

section \<open>Facts\<close>

lemma floor_log2_int:
  assumes "0 < a"
  shows "floor_log2 (of_int a) = int (bitlen (nat a)) - 1"
proof -
  have "2 ^ (bitlen (nat a) - 1) \<le> nat a" using assms by (intro bitlen_lower) simp
  then have "int (2 ^ (bitlen (nat a) - 1)) \<le> a" using assms by (simp add: le_nat_iff)
  then have "(2 :: int) ^ (bitlen (nat a) - 1) \<le> a" by simp
  then have "(2 :: rat) ^ (bitlen (nat a) - 1) \<le> of_int a" by (metis of_int_le_iff of_int_numeral of_int_power)
  moreover have "0 < bitlen (nat a)" using assms by (simp add: bitlen.simps)
  moreover have "quotient_of (of_int a) = (a, 1)" by simp
  moreover have "bitlen (nat 1) = 1" by (simp add: bitlen.simps)
  ultimately show ?thesis by (simp add: floor_log2_def Let_def pow2_def nat_diff_distrib)
qed

lemma round_half_even_int [simp]: "round_half_even (of_int i) = i"
  by (simp add: round_half_even_def)

text \<open>Safe integers are doubles.\<close>

lemma to_double_int:
  assumes "\<bar>i\<bar> < 2 ^ 53"
  shows "to_double (of_int i) = JsFin (of_int i)"
proof (cases "i = 0")
  case False
  define a where "a = \<bar>i\<bar>"
  define m where "m = bitlen (nat a) - 1"
  have a: "0 < a" "a < 2 ^ 53" using assms False by (simp_all add: a_def)
  have e: "floor_log2 (of_int a) = int m" using floor_log2_int [OF a(1)] a(1) by (simp add: m_def bitlen.simps)
  have "2 ^ m \<le> nat a" unfolding m_def using a by (intro bitlen_lower) simp
  also have "nat a < 2 ^ 53" using a by (simp add: nat_less_iff)
  finally have m: "m < 53" using power_strict_increasing_iff [of "2 :: nat" m 53] by simp
  define u where "u = pow2 (max (int m) (- 1022) - 52)"
  have u: "u = 1 / 2 ^ (52 - m)" using m by (simp add: u_def pow2_def nat_diff_distrib max_def of_nat_diff)
  have q: "of_int a / u = of_int (a * 2 ^ (52 - m))" by (simp add: u)
  have y: "of_int (round_half_even (of_int a / u)) * u = of_int a"
    unfolding q round_half_even_int by (simp add: u)
  have r: "\<bar>of_int i\<bar> = (of_int a :: rat)" by (simp add: a_def)
  have "(of_int a :: rat) < 2 ^ 53" using a(2) by (metis of_int_less_iff of_int_numeral of_int_power)
  also have "(2 :: rat) ^ 53 < 2 ^ 1024" by (rule power_strict_increasing) simp_all
  finally have "\<not> (2 :: rat) ^ 1024 \<le> of_int a" by simp
  moreover have "sgn (of_int i) * of_int a = (of_int i :: rat)" by (simp add: a_def sgn_mult_abs)
  ultimately show ?thesis using False y
    unfolding to_double_def Let_def r e u_def [symmetric] y by simp
qed (simp add: to_double_def)

lemma to_double_numeral [simp]: "(numeral k :: int) < 2 ^ 53 \<Longrightarrow> to_double (numeral k) = JsFin (numeral k)"
  using to_double_int [of "numeral k"] by simp

text \<open>A numeric string has no colon.\<close>

lemma digits_val_set: "digits_val r acc s = Some v \<Longrightarrow> c \<in> set s \<Longrightarrow> digit_val c < r"
  by (induction s arbitrary: acc) (auto split: if_splits)

lemma parse_digits_set: "parse_digits r s = Some v \<Longrightarrow> c \<in> set s \<Longrightarrow> digit_val c < r"
  using digits_val_set by (auto simp: parse_digits_def split: if_splits)

lemma colon_digit [simp]: "digit_val (CHR '':'') = 99" "\<not> is_digit (CHR '':'')"
  by (simp_all add: digit_val_def is_digit_def code_def)

lemma exponent_no_colon: "exponent_part s = Some e \<Longrightarrow> CHR '':'' \<notin> set s"
  using parse_digits_set [of 10 _ _ "CHR '':''"]
  by (cases s) (auto split: if_splits list.splits, fastforce+)

lemma decimal_no_colon: "decimal_literal s = Some q \<Longrightarrow> CHR '':'' \<notin> set s"
proof -
  assume a: "decimal_literal s = Some q"
  define r where "r = dropWhile is_digit s"
  have tw: "CHR '':'' \<notin> set (takeWhile is_digit t)" for t
    using set_takeWhileD by fastforce
  have "CHR '':'' \<notin> set r"
  proof (cases r)
    case (Cons c cs)
    show ?thesis
    proof (cases "c = CHR ''.''")
      case True
      then have "CHR '':'' \<notin> set (dropWhile is_digit cs)" using a Cons exponent_no_colon
        by (auto simp: decimal_literal_def Let_def r_def [symmetric] split: option.splits)
      then have "CHR '':'' \<notin> set cs" using tw [of cs] by (metis Un_iff set_append takeWhile_dropWhile_id)
      then show ?thesis using Cons True by simp
    next
      case False
      then show ?thesis using a Cons exponent_no_colon [of "c # cs"]
        by (auto simp: decimal_literal_def Let_def r_def [symmetric] split: option.splits)
    qed
  qed simp
  then show ?thesis using tw [of s] unfolding r_def by (metis Un_iff set_append takeWhile_dropWhile_id)
qed

lemma trim_colon: "CHR '':'' \<in> set s \<Longrightarrow> CHR '':'' \<in> set (trim s)"
proof -
  have k: "CHR '':'' \<in> set (dropWhile is_ws t)" if "CHR '':'' \<in> set t" for t
    using that by (induction t) (auto simp: is_ws_def code_def)
  assume "CHR '':'' \<in> set s"
  then show ?thesis using k [of s] k [of "rev (dropWhile is_ws s)"] by (simp add: trim_def)
qed

lemma Number_no_colon: "CHR '':'' \<in> set s \<Longrightarrow> Number_of_string s = JsNaN"
proof -
  assume "CHR '':'' \<in> set s"
  then have t: "CHR '':'' \<in> set (trim s)" by (rule trim_colon)
  have radix: "Number_radix r h = JsNaN" if "CHR '':'' \<in> set h" "r \<le> 16" for r h
    using parse_digits_set [of r h _ "CHR '':''"] that by (auto simp: Number_radix_def split: option.split)
  have pre: "CHR '':'' \<in> set h" if "strip_prefix2 a b (trim s) = Some h" "a \<noteq> CHR '':''" "b \<noteq> CHR '':''" for a b h
    using that t by (auto simp: strip_prefix2_def split: list.splits if_splits)
  have lit: "Number_literal (trim s) = JsNaN"
  proof -
    have b: "CHR '':'' \<in> set (unsigned_part (trim s))" using t unfolding unsigned_part_def by (cases "trim s") auto
    then have "unsigned_part (trim s) \<noteq> ''Infinity''" by auto
    moreover have "decimal_literal (unsigned_part (trim s)) = None" using decimal_no_colon b by (metis option.exhaust)
    ultimately show ?thesis by (simp add: Number_literal_def)
  qed
  show ?thesis using t lit radix pre
    by (auto simp: Number_of_string_def Let_def split: option.split)
qed

end
