(* ===== verification/SharedTypes.thy ===== *)
theory SharedTypes
  imports Addresses JsNumber
begin

text \<open>
  The types and helpers that the shared-orderbook server and the relayer share
  (\<open>packages/types/src/index.ts\<close>): the public order summary and its status.  The fee and the expiry are the
  numbers of the poster, which need not be integers.
\<close>

record order_summary =
  sm_id :: string
  sm_chainId :: "int option"
  sm_relayer :: string
  sm_relayerUrl :: string
  sm_sellToken :: string
  sm_buyToken :: string
  sm_sellAmount :: string
  sm_buyAmount :: string
  sm_minFillAmount :: string
  sm_maxFee :: rat
  sm_expiry :: rat
  sm_createdAt :: int

datatype ob_status = OpenOrder | MatchedOrder | CancelledOrder | ExpiredOrder

record ob_stored =
  ob_order :: order_summary
  ob_status :: ob_status
  ob_matchId :: "string option"

end
