(* ===== verification/CrossMatcher.thy ===== *)
theory CrossMatcher
  imports WorkerFacts SharedTypes
begin

text \<open>
  Cross-relayer matching (\<open>zk-relayer/src/core/authorize-cross-relayer-matcher.ts\<close>): the reactive
  matcher run on every order summary a peer publishes, and the handler of trade offers that peers
  send.  Both are cut at their awaits; the network, the submitter, the on-chain check of a peer's
  settlement and the Groth16 verifier are inputs, and what else runs during an await is an arbitrary
  function on the shared state.

  A handler keeps a reference to the entry it works on.  Should that entry leave the order map while
  the handler waits (an on-chain cancel does that), the object lives on in \<open>c_detached\<close>; reads and
  writes through the reference go there first.
\<close>

record cstate =
  c_store :: store
  c_db :: "order_db option"
  c_locks :: "string list"
  c_detached :: "(string, stored_order) jmap"
  c_calls :: "ob_call list"
  c_onSettled :: "(string \<times> string) list"
  c_events :: "(string \<times> string option) list"   \<comment> \<open>recordSettlementEvent: txHash and taker fee\<close>

record match_cfg =
  mc_own :: string
  mc_relayerFee :: int
  mc_verifyOrderProofs :: bool

section \<open>Entries held by reference\<close>

definition ref_get :: "string \<Rightarrow> cstate \<Rightarrow> stored_order option" where
  "ref_get n c = (case jget (c_detached c) n of Some so \<Rightarrow> Some so | None \<Rightarrow> jget (authorizeOrders (c_store c)) n)"

definition ref_upd :: "string \<Rightarrow> (stored_order \<Rightarrow> stored_order) \<Rightarrow> cstate \<Rightarrow> cstate" where
  "ref_upd n f c =
     (if jhas (c_detached c) n then c\<lparr>c_detached := jmodify n f (c_detached c)\<rparr>
      else c\<lparr>c_store := (c_store c)\<lparr>authorizeOrders := jmodify n f (authorizeOrders (c_store c))\<rparr>\<rparr>)"

text \<open>Taking a reference to the entry now in the map.\<close>

definition ref_take :: "string \<Rightarrow> cstate \<Rightarrow> cstate" where
  "ref_take n c = c\<lparr>c_detached := jdelete n (c_detached c)\<rparr>"

definition ref_status :: "string \<Rightarrow> order_status \<Rightarrow> cstate \<Rightarrow> cstate" where
  "ref_status n s = ref_upd n (\<lambda>so. so\<lparr>so_status := s\<rparr>)"

definition ref_settled :: "string \<Rightarrow> string \<Rightarrow> cstate \<Rightarrow> cstate" where
  "ref_settled n tx = ref_upd n (\<lambda>so. so\<lparr>so_status := Settled, so_settleTxHash := Some tx, so_crossRelayer := True\<rparr>)"

definition c_dbStatus :: "string \<Rightarrow> order_status \<Rightarrow> string option \<Rightarrow> ms \<Rightarrow> cstate \<Rightarrow> cstate" where
  "c_dbStatus n s tx now c = c\<lparr>c_db := map_option (updateAuthorizeOrderStatus n s tx now) (c_db c)\<rparr>"

definition c_lock :: "string \<Rightarrow> cstate \<Rightarrow> cstate" where
  "c_lock n c = c\<lparr>c_locks := sadd n (c_locks c)\<rparr>"

definition c_unlock :: "string \<Rightarrow> cstate \<Rightarrow> cstate" where
  "c_unlock n c = c\<lparr>c_locks := sdelete n (c_locks c)\<rparr>"

section \<open>Sending an offer\<close>

datatype offer_status = OfferSettled | OfferRejected | OfferError

record offer_response =
  or_status :: offer_status
  or_txHash :: "string option"
  or_reason :: "string option"
  or_takerFee :: "string option"
  or_takerFeeToken :: "string option"

definition offer_reply :: "offer_status \<Rightarrow> string \<Rightarrow> offer_response" where
  "offer_reply s reason = \<lparr>or_status = s, or_txHash = None, or_reason = Some reason, or_takerFee = None,
     or_takerFeeToken = None\<rparr>"

text \<open>What the URL guard and the request to the peer answer.\<close>

datatype send_result =
    UrlUnsafe string
  | GuardThrows
  | AuthThrows
  | FetchThrows thrown
  | HttpNotOk string
  | HttpOk offer_response

text \<open>None is a throw.\<close>

fun sendTradeOffer :: "send_result \<Rightarrow> offer_response option" where
  "sendTradeOffer (UrlUnsafe m) = Some (offer_reply OfferRejected (''unsafe peer URL: '' @ m))"
| "sendTradeOffer GuardThrows = None"
| "sendTradeOffer AuthThrows = None"
| "sendTradeOffer (FetchThrows (ErrorObj m)) = Some (offer_reply OfferError m)"
| "sendTradeOffer (FetchThrows (NonError m)) = Some (offer_reply OfferError ''network error'')"
| "sendTradeOffer (HttpNotOk r) = Some (offer_reply OfferRejected r)"
| "sendTradeOffer (HttpOk r) = Some r"

section \<open>Reactive matching\<close>

text \<open>
  What one offer meets: the peer's answer, whether the settlement is confirmed on chain (None: the
  check throws), the clock, and the interference at the two awaits.
\<close>

record offer_env =
  oe_send :: send_result
  oe_verify :: "bool option"
  oe_now :: ms
  oe_meanwhile1 :: "cstate \<Rightarrow> cstate"
  oe_meanwhile2 :: "cstate \<Rightarrow> cstate"

text \<open>The record of a confirmed cross-relayer settlement; a throw inside is caught.\<close>

definition persist_counterparty ::
  "string \<Rightarrow> authorize_public_signals \<Rightarrow> offer_response \<Rightarrow> cstate \<Rightarrow> cstate" where
  "persist_counterparty tx ps r c =
     (if publicSignalToAddress (sellToken ps) = None \<or> big (sellAmount ps) = None \<or>
         publicSignalToAddress (buyToken ps) = None \<or> big (buyAmount ps) = None then c
      else let fee = (if truthy (or_takerFee r) \<and> truthy (or_takerFeeToken r) then or_takerFee r else None);
               c1 = (if c_db c = None then c else c\<lparr>c_events := c_events c @ [(tx, fee)]\<rparr>) in
        (case big (claimsRoot ps) of
           None \<Rightarrow> c1
         | Some r \<Rightarrow> c1\<lparr>c_db := map_option (saveSettledClaimsRoot (hexPad 64 r)) (c_db c1)\<rparr>))"

text \<open>After a confirmed settlement; the flag tells whether the block ran to its end.\<close>

definition offer_confirmed ::
  "string \<Rightarrow> stored_order \<Rightarrow> string \<Rightarrow> offer_response \<Rightarrow> ms \<Rightarrow> cstate \<Rightarrow> bool \<times> cstate" where
  "offer_confirmed n local tx r now c =
     (let c1 = ref_settled n tx c in
      case release_slot (so_pubKeyAx local) (so_pubKeyAy local) (c_store c1) of
        None \<Rightarrow> (False, c1)
      | Some st \<Rightarrow>
          let c2 = c_dbStatus n Settled (Some tx) now (c1\<lparr>c_store := st\<rparr>);
              c3 = persist_counterparty tx (publicSignals (so_order local)) r
                     (c2\<lparr>c_onSettled := c_onSettled c2 @ [(n, tx)]\<rparr>) in
          (case nullifierToOfferHandle n of
             None \<Rightarrow> (False, c3)
           | Some h \<Rightarrow> (True, c3\<lparr>c_calls := c_calls c3 @ [CallMatched h]\<rparr>)))"

definition offer_restore :: "string \<Rightarrow> order_status \<Rightarrow> ms \<Rightarrow> cstate \<Rightarrow> cstate" where
  "offer_restore n prior now c = c_dbStatus n prior None now (ref_status n prior c)"

text \<open>The catch block restores only an entry that is still \<open>matched\<close>.\<close>

definition offer_catch :: "string \<Rightarrow> order_status \<Rightarrow> ms \<Rightarrow> cstate \<Rightarrow> cstate" where
  "offer_catch n prior now c =
     (if map_option so_status (ref_get n c) = Some Matched then offer_restore n prior now c else c)"

text \<open>From the lock to the end of the \<open>finally\<close>; the flag tells whether the loop returns.\<close>

definition try_offer :: "offer_env \<Rightarrow> string \<Rightarrow> stored_order \<Rightarrow> cstate \<Rightarrow> bool \<times> cstate" where
  "try_offer e n local c =
     (let prior = so_status local; now = oe_now e;
          c0 = c_dbStatus n Matched None now (ref_status n Matched (c_lock n (ref_take n c)));
          c1 = oe_meanwhile1 e c0 in
      case sendTradeOffer (oe_send e) of
        None \<Rightarrow> (False, c_unlock n (offer_catch n prior now c1))
      | Some r \<Rightarrow>
          if or_status r = OfferSettled \<and> truthy (or_txHash r)
          then let c2 = oe_meanwhile2 e c1 in
            (case oe_verify e of
               None \<Rightarrow> (False, c_unlock n (offer_catch n prior now c2))
             | Some False \<Rightarrow> (False, c_unlock n (offer_restore n prior now c2))
             | Some True \<Rightarrow>
                 (case offer_confirmed n local (the (or_txHash r)) r now c2 of
                    (True, c3) \<Rightarrow> (True, c_unlock n c3)
                  | (False, c3) \<Rightarrow> (False, c_unlock n (offer_catch n prior now c3))))
          else (False, c_unlock n (offer_restore n prior now c1)))"

text \<open>The checks on a local candidate; None is a throw.\<close>

definition candidate_fits :: "order_summary \<Rightarrow> seconds \<Rightarrow> string \<Rightarrow> stored_order \<Rightarrow> cstate \<Rightarrow> bool option" where
  "candidate_fits s now n local c =
     (let ps = publicSignals (so_order local) in
      if \<not> isLiveStatus (so_status local) then Some False
      else if n \<in> set (c_locks c) then Some False
      else Option.bind (big (expiry ps)) (\<lambda>ex.
        if ex \<le> now then Some False
        else Option.bind (big (sellAmount ps)) (\<lambda>localSell. Option.bind (big (buyAmount ps)) (\<lambda>localBuy.
             Option.bind (js_BigInt (sm_sellAmount s)) (\<lambda>remoteSell. Option.bind (js_BigInt (sm_buyAmount s)) (\<lambda>remoteBuy.
               Some (\<not> (remoteBuy * localBuy > remoteSell * localSell))))))))"

text \<open>The loop over the keys the pair index yields; the flag tells whether it threw.\<close>

fun remote_loop :: "(string \<Rightarrow> offer_env) \<Rightarrow> order_summary \<Rightarrow> seconds \<Rightarrow> string list \<Rightarrow> cstate \<Rightarrow> bool \<times> cstate" where
  "remote_loop env s now [] c = (False, c)"
| "remote_loop env s now (n # ns) c =
     (case jget (authorizeOrders (c_store c)) n of
        None \<Rightarrow> remote_loop env s now ns c
      | Some local \<Rightarrow>
          (case candidate_fits s now n local c of
             None \<Rightarrow> (True, c)
           | Some False \<Rightarrow> remote_loop env s now ns c
           | Some True \<Rightarrow>
               (case try_offer (env n) n local c of
                  (True, c') \<Rightarrow> (False, c')
                | (False, c') \<Rightarrow> remote_loop env s now ns c')))"

text \<open>
  The handler.  The pair index is iterated while offers are awaited; \<open>visits\<close> turns the bucket found
  at the start into the keys visited (it is the identity when no order enters or leaves the bucket
  meanwhile).
\<close>

definition onRemoteOrderArrived ::
  "match_cfg \<Rightarrow> (string list \<Rightarrow> string list) \<Rightarrow> (string \<Rightarrow> offer_env) \<Rightarrow> order_summary \<Rightarrow> ms \<Rightarrow> cstate \<Rightarrow> bool \<times> cstate" where
  "onRemoteOrderArrived cfg visits env s nowMs c =
     (let now = nowMs div 1000 in
      if eqAddr (Some (sm_relayer s)) (Some (mc_own cfg)) then (False, c)
      else if sm_expiry s \<le> of_int now then (False, c)
      else if js_BigInt (sm_sellAmount s) = None \<or> js_BigInt (sm_buyAmount s) = None then (True, c)
      else (case directedPairKey (Some (sm_buyToken s)) (Some (sm_sellToken s)) of
              None \<Rightarrow> (True, c)
            | Some key \<Rightarrow> remote_loop env s now (visits (bucket (ordersByPair (c_store c)) key)) c))"

section \<open>Handling an offer\<close>

record trade_offer =
  to_makerNullifier :: string
  to_takerOrder :: authorize_order_file

text \<open>Reasons as the handler words them.\<close>

definition status_name :: "order_status \<Rightarrow> string" where
  "status_name s = (case s of Pending \<Rightarrow> ''pending'' | Matched \<Rightarrow> ''matched'' | Accepted \<Rightarrow> ''accepted''
     | Settling \<Rightarrow> ''settling'' | Retrying \<Rightarrow> ''retrying'' | Settled \<Rightarrow> ''settled'' | Failed \<Rightarrow> ''failed''
     | DeadLetter \<Rightarrow> ''dead_letter'' | Cancelled \<Rightarrow> ''cancelled'' | Expired \<Rightarrow> ''expired'')"

datatype offer_check = OfferThrows | OfferReply offer_response | OfferPasses string stored_order

definition reject :: "string \<Rightarrow> offer_check" where
  "reject reason = OfferReply (offer_reply OfferRejected reason)"

text \<open>The synchronous checks, up to the verification of the taker's proof.\<close>

definition offer_checks :: "match_cfg \<Rightarrow> trade_offer \<Rightarrow> ms \<Rightarrow> cstate \<Rightarrow> offer_check" where
  "offer_checks cfg offer nowMs c =
     (case js_BigInt (to_makerNullifier offer) of
        None \<Rightarrow> OfferThrows
      | Some i \<Rightarrow>
      let mapKey = dec i; taker = to_takerOrder offer; takerPs = publicSignals taker; now = nowMs div 1000 in
      case jget (authorizeOrders (c_store c)) mapKey of
        None \<Rightarrow> reject ''maker order not found''
      | Some maker \<Rightarrow>
      let makerPs = publicSignals (so_order maker) in
      if \<not> isLiveStatus (so_status maker) then reject (''maker order status is '' @ status_name (so_status maker))
      else if mapKey \<in> set (c_locks c) then reject ''maker order is being matched''
      else case checkTakerSignalsConsistent taker of
        Some err \<Rightarrow> reject (''taker order: '' @ err)
      | None \<Rightarrow>
      case isTokenCompatible makerPs takerPs of
        None \<Rightarrow> OfferThrows
      | Some False \<Rightarrow> reject ''token mismatch''
      | Some True \<Rightarrow>
      case isPriceCompatible makerPs takerPs of
        None \<Rightarrow> OfferThrows
      | Some False \<Rightarrow> reject ''price incompatible''
      | Some True \<Rightarrow>
      case big (expiry makerPs) of
        None \<Rightarrow> OfferThrows
      | Some mex \<Rightarrow>
      if mex \<le> now then reject ''expired''
      else case big (expiry takerPs) of
        None \<Rightarrow> OfferThrows
      | Some tex \<Rightarrow>
      if tex \<le> now then reject ''expired''
      else case big (maxFee takerPs) of
        None \<Rightarrow> OfferThrows
      | Some fee \<Rightarrow>
      if mc_relayerFee cfg > fee then reject ''taker maxFee below this relayer's minimum''
      else OfferPasses mapKey maker)"

text \<open>
  The settlement segment: lock, mark \<open>matched\<close>, submit, record.  The status to restore is read from
  the entry at this point, after the proof check was awaited.
\<close>

definition offer_lock :: "string \<Rightarrow> ms \<Rightarrow> cstate \<Rightarrow> order_status option \<times> cstate" where
  "offer_lock n now c =
     (let prior = map_option so_status (ref_get n c) in
      (prior, c_dbStatus n Matched None now (ref_status n Matched (c_lock n c))))"

definition offer_fail :: "string \<Rightarrow> order_status option \<Rightarrow> string \<Rightarrow> ms \<Rightarrow> cstate \<Rightarrow> offer_response \<times> cstate" where
  "offer_fail n prior reason now c =
     (offer_reply OfferError reason,
      c_unlock n (case prior of None \<Rightarrow> c | Some p \<Rightarrow> offer_restore n p now c))"

definition offer_settle ::
  "match_cfg \<Rightarrow> trade_offer \<Rightarrow> string \<Rightarrow> stored_order \<Rightarrow> order_status option \<Rightarrow> thrown + string \<Rightarrow> ms \<Rightarrow> cstate \<Rightarrow>
   offer_response \<times> cstate" where
  "offer_settle cfg offer n maker prior res now c =
     (let takerPs = publicSignals (to_takerOrder offer) in
      case res of
        Inl (ErrorObj m) \<Rightarrow> offer_fail n prior m now c
      | Inl (NonError m) \<Rightarrow> offer_fail n prior ''settleAuth failed'' now c
      | Inr tx \<Rightarrow>
          (case (computeSideFee (buyAmount takerPs) (maxFee takerPs) (mc_relayerFee cfg),
                 publicSignalToAddress (buyToken takerPs), nullifierToOfferHandle n) of
             (Some fee, Some feeToken, Some h) \<Rightarrow>
               let c1 = ref_settled n tx c in
               (case release_slot (so_pubKeyAx maker) (so_pubKeyAy maker) (c_store c1) of
                  None \<Rightarrow> offer_fail n prior ''pubKey value too large'' now c1
                | Some st \<Rightarrow>
                    let c2 = c_dbStatus n Settled (Some tx) now (c1\<lparr>c_store := st\<rparr>);
                        c3 = c2\<lparr>c_onSettled := c_onSettled c2 @ [(n, tx)], c_calls := c_calls c2 @ [CallMatched h]\<rparr> in
                    (\<lparr>or_status = OfferSettled, or_txHash = Some tx, or_reason = None, or_takerFee = Some (dec fee),
                      or_takerFeeToken = Some feeToken\<rparr>, c_unlock n c3))
           | _ \<Rightarrow> offer_fail n prior ''Cannot convert to a BigInt'' now c))"

text \<open>What one offer meets while it is handled.\<close>

record handle_env =
  he_now :: ms
  he_proof :: proof_check
  he_submit :: "thrown + string"
  he_meanwhile1 :: "cstate \<Rightarrow> cstate"   \<comment> \<open>during the proof check\<close>
  he_meanwhile2 :: "cstate \<Rightarrow> cstate"   \<comment> \<open>during the submission\<close>

text \<open>The handler; None is a throw.\<close>

definition handleTradeOffer :: "match_cfg \<Rightarrow> handle_env \<Rightarrow> trade_offer \<Rightarrow> cstate \<Rightarrow> offer_response option \<times> cstate" where
  "handleTradeOffer cfg e offer c =
     (case offer_checks cfg offer (he_now e) c of
        OfferThrows \<Rightarrow> (None, c)
      | OfferReply r \<Rightarrow> (Some r, c)
      | OfferPasses n maker \<Rightarrow>
          let c0 = ref_take n c; c1 = (if mc_verifyOrderProofs cfg then he_meanwhile1 e c0 else c0) in
          if mc_verifyOrderProofs cfg \<and> he_proof e = ProofUnavailable
          then (Some (offer_reply OfferError ''proof verification unavailable''), c1)
          else if mc_verifyOrderProofs cfg \<and> he_proof e = ProofInvalid
          then (Some (offer_reply OfferRejected ''invalid taker proof''), c1)
          else (case offer_lock n (he_now e) c1 of
            (prior, c2) \<Rightarrow>
              (case offer_settle cfg offer n maker prior (he_submit e) (he_now e) (he_meanwhile2 e c2) of
                 (r, c3) \<Rightarrow> (Some r, c3))))"

section \<open>Events of the rest of the process\<close>

text \<open>An on-chain cancel, seen by a handler that holds a reference to the entry.\<close>

definition cancel_event :: "string \<Rightarrow> ms \<Rightarrow> cstate \<Rightarrow> cstate" where
  "cancel_event n now c =
     (case applyOnChainAuthorizeCancel n now (c_store c, c_db c) of
        (dropped, (st, db)) \<Rightarrow>
          (case (dropped, jget (authorizeOrders (c_store c)) n) of
             (True, Some so) \<Rightarrow> c\<lparr>c_store := st, c_db := db,
                c_detached := jset n (if isLiveStatus (so_status so) then so\<lparr>so_status := Cancelled\<rparr> else so) (c_detached c)\<rparr>
           | _ \<Rightarrow> c\<lparr>c_store := st, c_db := db\<rparr>))"

end
