(* ===== verification/CrossMatcherFacts.thy ===== *)
theory CrossMatcherFacts
  imports CrossMatcher
begin

text \<open>
  Properties of cross-relayer matching: what one offer does to the local order, the guards behind a
  settlement made for a peer, the restoration of both on failure, and two interleavings that lose an
  outcome.
\<close>

section \<open>References and rows\<close>

lemma ref_get_upd [simp]:
  "ref_get k (ref_upd n f c) = (if k = n then map_option f (ref_get n c) else ref_get k c)"
  by (auto simp: ref_get_def ref_upd_def jhas_jget split: option.splits)

lemma ref_get_take [simp]: "ref_get n (ref_take n c) = jget (authorizeOrders (c_store c)) n"
  by (simp add: ref_get_def ref_take_def)

text \<open>Updates of other parts of the state.\<close>

lemma ref_get_cong:
  "c_detached c' = c_detached c \<Longrightarrow> authorizeOrders (c_store c') = authorizeOrders (c_store c) \<Longrightarrow> ref_get n c' = ref_get n c"
  by (cases "jget (c_detached c) n") (simp_all add: ref_get_def)

lemma ref_frames [simp]:
  "ref_get n (c_dbStatus m s tx now c) = ref_get n c"
  "ref_get n (c_lock m c) = ref_get n c" "ref_get n (c_unlock m c) = ref_get n c"
  "ref_get n (c\<lparr>c_onSettled := x\<rparr>) = ref_get n c" "ref_get n (c\<lparr>c_calls := y\<rparr>) = ref_get n c"
  by (auto intro!: ref_get_cong simp: c_dbStatus_def c_lock_def c_unlock_def)

definition c_row :: "cstate \<Rightarrow> string \<Rightarrow> db_row option" where
  "c_row c n = Option.bind (c_db c) (\<lambda>d. getAuthorizeOrder d n)"

lemma c_row_dbStatus [simp]:
  "c_row (c_dbStatus m s tx now c) n =
     (if n = m then map_option (\<lambda>r. r\<lparr>r_status := s, r_settleTx := tx, r_updatedAt := now\<rparr>) (c_row c n) else c_row c n)"
  by (cases "c_db c") (auto simp: c_row_def c_dbStatus_def updateAuthorizeOrderStatus_def getAuthorizeOrder_def)

lemma c_row_cong: "c_db c' = c_db c \<Longrightarrow> c_row c' n = c_row c n"
  by (simp add: c_row_def)

lemma ref_upd_frames [simp]:
  "c_db (ref_upd n f c) = c_db c" "c_locks (ref_upd n f c) = c_locks c" "c_calls (ref_upd n f c) = c_calls c"
  by (simp_all add: ref_upd_def)

lemma row_frames [simp]:
  "c_row (ref_upd m f c) n = c_row c n" "c_row (c_lock m c) n = c_row c n" "c_row (c_unlock m c) n = c_row c n"
  "c_row (ref_take m c) n = c_row c n" "c_row (c\<lparr>c_onSettled := x\<rparr>) n = c_row c n"
  "c_row (c\<lparr>c_calls := y\<rparr>) n = c_row c n" "c_row (c\<lparr>c_store := z\<rparr>) n = c_row c n"
  by (auto intro!: c_row_cong simp: c_lock_def c_unlock_def ref_take_def)

lemma persist_row [simp]: "c_row (persist_counterparty tx ps r c) n = c_row c n"
  by (cases "c_db c")
    (auto simp: persist_counterparty_def Let_def c_row_def saveSettledClaimsRoot_def getAuthorizeOrder_def split: option.splits)

lemma persist_ref [simp]: "ref_get n (persist_counterparty tx ps r c) = ref_get n c"
  by (rule ref_get_cong) (auto simp: persist_counterparty_def Let_def split: option.splits)

lemma unlock_locks [simp]: "set (c_locks (c_unlock n c)) = set (c_locks c) - {n}"
  by (simp add: c_unlock_def)

lemma release_ref:
  "release_slot ax ay (c_store c) = Some st \<Longrightarrow> ref_get n (c\<lparr>c_store := st\<rparr>) = ref_get n c"
  using release_slot_frame by (intro ref_get_cong) auto

section \<open>One offer to a peer\<close>

text \<open>The peer claimed a settlement and the chain confirms it.\<close>

definition confirmed :: "offer_env \<Rightarrow> string \<Rightarrow> bool" where
  "confirmed e tx \<longleftrightarrow> (\<exists>r. sendTradeOffer (oe_send e) = Some r \<and> or_status r = OfferSettled \<and>
     or_txHash r = Some tx \<and> tx \<noteq> [] \<and> oe_verify e = Some True)"

lemma offer_restore_ref [simp]: "ref_get n (offer_restore n s now c) = map_option (\<lambda>so. so\<lparr>so_status := s\<rparr>) (ref_get n c)"
  by (simp add: offer_restore_def ref_status_def)

lemma offer_restore_row [simp]:
  "c_row (offer_restore n s now c) n = map_option (\<lambda>r. r\<lparr>r_status := s, r_settleTx := None, r_updatedAt := now\<rparr>) (c_row c n)"
  by (simp add: offer_restore_def ref_status_def)

lemma offer_catch_matched:
  "map_option so_status (ref_get n c) = Some Matched \<Longrightarrow> offer_catch n s now c = offer_restore n s now c"
  by (simp add: offer_catch_def)

lemma offer_confirmed_effect:
  assumes "entry_ok n local" "ref_get n c = Some so" "c_row c n = Some row"
  shows "\<exists>c'. offer_confirmed n local tx r now c = (True, c') \<and>
    ref_get n c' = Some (so\<lparr>so_status := Settled, so_settleTxHash := Some tx, so_crossRelayer := True\<rparr>) \<and>
    c_row c' n = Some (row\<lparr>r_status := Settled, r_settleTx := Some tx, r_updatedAt := now\<rparr>)"
proof -
  obtain st where st: "release_slot (so_pubKeyAx local) (so_pubKeyAy local) (c_store (ref_settled n tx c)) = Some st"
    using release_total [OF assms(1)] by blast
  obtain h where h: "nullifierToOfferHandle n = Some h"
    using assms(1) by (auto simp: entry_ok_def nullifierToOfferHandle_def)
  show ?thesis using st h assms(2,3) release_ref [OF st]
    by (simp add: offer_confirmed_def Let_def) (simp add: ref_settled_def)
qed


section \<open>Offers from peers\<close>

text \<open>What \<open>offer_checks\<close> lets pass.\<close>

definition offer_acceptable :: "match_cfg \<Rightarrow> trade_offer \<Rightarrow> ms \<Rightarrow> cstate \<Rightarrow> string \<Rightarrow> stored_order \<Rightarrow> bool" where
  "offer_acceptable cfg offer nowMs c n maker \<longleftrightarrow>
     (let makerPs = publicSignals (so_order maker); takerPs = publicSignals (to_takerOrder offer) in
      map_option dec (js_BigInt (to_makerNullifier offer)) = Some n \<and>
      jget (authorizeOrders (c_store c)) n = Some maker \<and> isLiveStatus (so_status maker) \<and>
      n \<notin> set (c_locks c) \<and> checkTakerSignalsConsistent (to_takerOrder offer) = None \<and>
      isTokenCompatible makerPs takerPs = Some True \<and> isPriceCompatible makerPs takerPs = Some True \<and>
      (\<exists>a b f. big (expiry makerPs) = Some a \<and> nowMs div 1000 < a \<and>
         big (expiry takerPs) = Some b \<and> nowMs div 1000 < b \<and>
         big (maxFee takerPs) = Some f \<and> mc_relayerFee cfg \<le> f))"

lemma offer_checks_passes:
  "offer_checks cfg offer nowMs c = OfferPasses n maker \<longleftrightarrow> offer_acceptable cfg offer nowMs c n maker"
proof (cases "js_BigInt (to_makerNullifier offer)")
  case None
  then show ?thesis by (simp add: offer_checks_def offer_acceptable_def)
next
  case (Some i)
  show ?thesis
  proof (cases "jget (authorizeOrders (c_store c)) (dec i)")
    case None
    then show ?thesis using Some by (auto simp: offer_checks_def offer_acceptable_def reject_def Let_def)
  next
    case s2: (Some mk)
    show ?thesis using Some s2
      by (auto simp: offer_checks_def offer_acceptable_def reject_def Let_def not_le not_less
          split: option.splits bool.splits if_splits)
  qed
qed

lemma offer_fail_status [simp]: "or_status (fst (offer_fail n prior reason now c)) = OfferError"
  by (simp add: offer_fail_def offer_reply_def)

lemma offer_settle_settled:
  assumes "offer_settle cfg offer n maker prior res now c = (r, c')" "or_status r = OfferSettled"
  shows "\<exists>tx fee. res = Inr tx \<and> or_txHash r = Some tx \<and> or_takerFee r = Some (dec fee) \<and>
    computeSideFee (buyAmount (publicSignals (to_takerOrder offer))) (maxFee (publicSignals (to_takerOrder offer)))
      (mc_relayerFee cfg) = Some fee"
proof (cases res)
  case (Inl err)
  then have "or_status r = OfferError" using assms(1) offer_fail_status
    by (cases err) (simp_all add: offer_settle_def Let_def, metis fst_conv offer_fail_status, metis fst_conv offer_fail_status)
  then show ?thesis using assms(2) by simp
next
  case (Inr tx)
  have nf: "offer_fail n prior m now v \<noteq> (r, c')" for m v
    using assms(2) offer_fail_status by (metis fst_conv offer_status.distinct(3))
  show ?thesis using assms(1) Inr nf
    by (auto simp: offer_settle_def Let_def split: option.splits)
qed

text \<open>
  C4.  A settlement is made for a peer only behind every guard: if the handler answers \<open>settled\<close>
  then the offer named a local live order that was not being matched, the taker's proof array
  equals its named signals, tokens and price are compatible, neither side has expired, the taker's
  fee cap covers this relayer's fee, the taker's proof verified (where verification is on), and the
  transaction is the submitter's.
\<close>

theorem settled_offer_guards:
  assumes "handleTradeOffer cfg e offer c = (Some r, c')" "or_status r = OfferSettled"
  shows "\<exists>n maker tx fee. offer_acceptable cfg offer (he_now e) c n maker \<and>
    (mc_verifyOrderProofs cfg \<longrightarrow> he_proof e = ProofValid) \<and> he_submit e = Inr tx \<and> or_txHash r = Some tx \<and>
    or_takerFee r = Some (dec fee) \<and>
    computeSideFee (buyAmount (publicSignals (to_takerOrder offer))) (maxFee (publicSignals (to_takerOrder offer)))
      (mc_relayerFee cfg) = Some fee"
proof (cases "offer_checks cfg offer (he_now e) c")
  case OfferThrows
  then show ?thesis using assms(1) by (simp add: handleTradeOffer_def)
next
  case (OfferReply x)
  have "or_status x \<noteq> OfferSettled"
    using OfferReply
    by (auto simp: offer_checks_def reject_def offer_reply_def Let_def split: option.splits bool.splits if_splits)
  then show ?thesis using OfferReply assms by (auto simp: handleTradeOffer_def)
next
  case (OfferPasses n maker)
  have acc: "offer_acceptable cfg offer (he_now e) c n maker" using OfferPasses offer_checks_passes by simp
  let ?c1 = "if mc_verifyOrderProofs cfg then he_meanwhile1 e (ref_take n c) else ref_take n c"
  obtain prior c2 where l: "offer_lock n (he_now e) ?c1 = (prior, c2)" by (metis prod.exhaust)
  have pv: "mc_verifyOrderProofs cfg \<longrightarrow> he_proof e = ProofValid"
    using assms OfferPasses by (cases "he_proof e") (auto simp: handleTradeOffer_def offer_reply_def Let_def)
  then have "offer_settle cfg offer n maker prior (he_submit e) (he_now e) (he_meanwhile2 e c2) = (r, c')"
    using assms(1) OfferPasses l by (auto simp: handleTradeOffer_def Let_def split: prod.splits)
  from offer_settle_settled [OF this assms(2)] show ?thesis using acc pv by blast
qed

lemma acceptable_parses:
  assumes "offer_acceptable cfg offer t c n maker"
  shows "\<exists>fee tok. computeSideFee (buyAmount (publicSignals (to_takerOrder offer)))
      (maxFee (publicSignals (to_takerOrder offer))) (mc_relayerFee cfg) = Some fee \<and>
    publicSignalToAddress (buyToken (publicSignals (to_takerOrder offer))) = Some tok"
proof -
  let ?t = "publicSignals (to_takerOrder offer)" let ?m = "publicSignals (so_order maker)"
  have "isTokenCompatible ?m ?t = Some True" "isPriceCompatible ?m ?t = Some True"
    and f: "\<exists>f. big (maxFee ?t) = Some f"
    using assms by (auto simp: offer_acceptable_def Let_def)
  then have "\<exists>b. big (buyToken ?t) = Some b" "\<exists>b. big (buyAmount ?t) = Some b"
    by (auto simp: isTokenCompatible_def isPriceCompatible_def bind_eq_Some_conv)
  then show ?thesis using f by (auto simp: computeSideFee_def publicSignalToAddress_def Let_def)
qed

lemma offer_settle_ok:
  assumes "offer_acceptable cfg offer t c0 n maker" "entry_ok n maker" "ref_get n c = Some so" "c_row c n = Some row"
  shows "\<exists>r c'. offer_settle cfg offer n maker prior (Inr tx) now c = (r, c') \<and> or_status r = OfferSettled \<and>
    ref_get n c' = Some (so\<lparr>so_status := Settled, so_settleTxHash := Some tx, so_crossRelayer := True\<rparr>) \<and>
    c_row c' n = Some (row\<lparr>r_status := Settled, r_settleTx := Some tx, r_updatedAt := now\<rparr>) \<and>
    n \<notin> set (c_locks c')"
proof -
  obtain st where st: "release_slot (so_pubKeyAx maker) (so_pubKeyAy maker) (c_store (ref_settled n tx c)) = Some st"
    using release_total [OF assms(2)] by blast
  obtain h where h: "nullifierToOfferHandle n = Some h"
    using assms(2) by (auto simp: entry_ok_def nullifierToOfferHandle_def)
  obtain fee tok where f: "computeSideFee (buyAmount (publicSignals (to_takerOrder offer)))
      (maxFee (publicSignals (to_takerOrder offer))) (mc_relayerFee cfg) = Some fee"
    "publicSignalToAddress (buyToken (publicSignals (to_takerOrder offer))) = Some tok"
    using acceptable_parses [OF assms(1)] by blast
  show ?thesis using st h f assms(3,4) release_ref [OF st]
    by (simp add: offer_settle_def Let_def) (simp add: ref_settled_def)
qed

lemma offer_settle_error:
  assumes "ref_get n c = Some so" "c_row c n = Some row"
  shows "\<exists>r c'. offer_settle cfg offer n maker (Some p) (Inl err) now c = (r, c') \<and> or_status r = OfferError \<and>
    ref_get n c' = Some (so\<lparr>so_status := p\<rparr>) \<and>
    c_row c' n = Some (row\<lparr>r_status := p, r_settleTx := None, r_updatedAt := now\<rparr>) \<and> n \<notin> set (c_locks c')"
  using assms by (cases err) (simp_all add: offer_settle_def offer_fail_def offer_reply_def Let_def)

lemma offer_lock_effect:
  assumes "ref_get n c = Some so" "c_row c n = Some row"
  shows "\<exists>c'. offer_lock n now c = (Some (so_status so), c') \<and> ref_get n c' = Some (so\<lparr>so_status := Matched\<rparr>) \<and>
    c_row c' n = Some (row\<lparr>r_status := Matched, r_settleTx := None, r_updatedAt := now\<rparr>)"
  using assms by (simp add: offer_lock_def Let_def ref_status_def)

text \<open>
  The handler keeps memory and database in step: for an acceptable offer whose proof is fine,
  if the interference leaves the order alone, a successful submission leaves it settled with the
  transaction in both and a failed one leaves it in both in the status it had; it is unlocked either
  way and the answer says which.
\<close>

lemma handled_offer_effect:
  assumes "offer_acceptable cfg offer (he_now e) c n maker" "entry_ok n maker"
    and "mc_verifyOrderProofs cfg \<Longrightarrow> he_proof e = ProofValid"
    and "c_row c n = Some row" "r_status row = so_status maker"
    and "\<And>v. ref_get n (he_meanwhile1 e v) = ref_get n v" "\<And>v. ref_get n (he_meanwhile2 e v) = ref_get n v"
    and "\<And>v. c_row (he_meanwhile1 e v) n = c_row v n" "\<And>v. c_row (he_meanwhile2 e v) n = c_row v n"
  shows "\<exists>r c' so' row'. handleTradeOffer cfg e offer c = (Some r, c') \<and> n \<notin> set (c_locks c') \<and>
    ref_get n c' = Some so' \<and> c_row c' n = Some row' \<and>
    (case he_submit e of
       Inr tx \<Rightarrow> or_status r = OfferSettled \<and>
         so' = maker\<lparr>so_status := Settled, so_settleTxHash := Some tx, so_crossRelayer := True\<rparr> \<and>
         r_status row' = Settled \<and> r_settleTx row' = Some tx
     | Inl err \<Rightarrow> or_status r = OfferError \<and> so' = maker \<and> r_status row' = r_status row)"
proof -
  have pass: "offer_checks cfg offer (he_now e) c = OfferPasses n maker" using assms(1) offer_checks_passes by simp
  have mk: "jget (authorizeOrders (c_store c)) n = Some maker" using assms(1) by (simp add: offer_acceptable_def Let_def)
  let ?c1 = "if mc_verifyOrderProofs cfg then he_meanwhile1 e (ref_take n c) else ref_take n c"
  have r1: "ref_get n ?c1 = Some maker" "c_row ?c1 n = Some row" using assms(4,6,8) mk by simp_all
  obtain c2 where l: "offer_lock n (he_now e) ?c1 = (Some (so_status maker), c2)"
    "ref_get n c2 = Some (maker\<lparr>so_status := Matched\<rparr>)"
    "c_row c2 n = Some (row\<lparr>r_status := Matched, r_settleTx := None, r_updatedAt := he_now e\<rparr>)"
    using offer_lock_effect [OF r1] by blast
  let ?c3 = "he_meanwhile2 e c2"
  have r3: "ref_get n ?c3 = Some (maker\<lparr>so_status := Matched\<rparr>)"
    "c_row ?c3 n = Some (row\<lparr>r_status := Matched, r_settleTx := None, r_updatedAt := he_now e\<rparr>)"
    using l assms(7,9) by simp_all
  have run: "handleTradeOffer cfg e offer c = (Some r, c')"
    if "offer_settle cfg offer n maker (Some (so_status maker)) (he_submit e) (he_now e) ?c3 = (r, c')" for r c'
    using that pass l(1) assms(3)
    by (cases "mc_verifyOrderProofs cfg") (simp_all add: handleTradeOffer_def Let_def)
  show ?thesis
  proof (cases "he_submit e")
    case (Inl err)
    obtain r c' where "offer_settle cfg offer n maker (Some (so_status maker)) (Inl err) (he_now e) ?c3 = (r, c')"
      "or_status r = OfferError" "n \<notin> set (c_locks c')"
      "ref_get n c' = Some (maker\<lparr>so_status := Matched, so_status := so_status maker\<rparr>)"
      "c_row c' n = Some (row\<lparr>r_status := Matched, r_settleTx := None, r_updatedAt := he_now e,
         r_status := so_status maker, r_settleTx := None, r_updatedAt := he_now e\<rparr>)"
      using offer_settle_error [OF r3, of cfg offer maker "so_status maker" err "he_now e"] by auto
    then show ?thesis using run [of r c'] Inl assms(5) by simp
  next
    case (Inr tx)
    obtain r c' where "offer_settle cfg offer n maker (Some (so_status maker)) (Inr tx) (he_now e) ?c3 = (r, c')"
      "or_status r = OfferSettled" "n \<notin> set (c_locks c')"
      "ref_get n c' = Some (maker\<lparr>so_status := Matched, so_status := Settled, so_settleTxHash := Some tx, so_crossRelayer := True\<rparr>)"
      "c_row c' n = Some (row\<lparr>r_status := Matched, r_settleTx := None, r_updatedAt := he_now e,
         r_status := Settled, r_settleTx := Some tx, r_updatedAt := he_now e\<rparr>)"
      using offer_settle_ok [OF assms(1,2) r3, of "Some (so_status maker)" tx "he_now e"] by auto
    then show ?thesis using run [of r c'] Inr by simp
  qed
qed

text \<open>
  Two offers for one order can overlap, because the lock and the status are tested before the
  proof check is awaited and not again after it.  If a second offer passes its checks, and then the
  first one locks the order during the second's proof check and settles it during the second's
  submission, the failure of the second submission (the nullifier is spent by then) puts the order
  back to \<open>matched\<close>, in memory and in the database, although its settlement is confirmed.
\<close>

lemma overlapping_offers_lose_settlement:
  assumes "offer_acceptable cfg o1 (he_now e) c n maker" "offer_acceptable cfg o2 (he_now e) c n maker"
    and "entry_ok n maker" "mc_verifyOrderProofs cfg" "he_proof e = ProofValid" "c_row c n = Some row"
    and "he_meanwhile1 e = (\<lambda>v. snd (offer_lock n (he_now e) v))"
    and "he_meanwhile2 e = (\<lambda>v. snd (offer_settle cfg o1 n maker (Some (so_status maker)) (Inr tx) (he_now e) v))"
    and "he_submit e = Inl err"
  shows "\<exists>r c' so' row'. handleTradeOffer cfg e o2 c = (Some r, c') \<and>
    ref_get n c' = Some so' \<and> so_status so' = Matched \<and> so_settleTxHash so' = Some tx \<and>
    c_row c' n = Some row' \<and> r_status row' = Matched \<and> r_settleTx row' = None"
proof -
  have pass: "offer_checks cfg o2 (he_now e) c = OfferPasses n maker" using assms(2) offer_checks_passes by simp
  have mk: "ref_get n (ref_take n c) = Some maker" "c_row (ref_take n c) n = Some row"
    using assms(1,6) by (simp_all add: offer_acceptable_def Let_def)
  obtain c1 where c1: "offer_lock n (he_now e) (ref_take n c) = (Some (so_status maker), c1)"
    "ref_get n c1 = Some (maker\<lparr>so_status := Matched\<rparr>)"
    "c_row c1 n = Some (row\<lparr>r_status := Matched, r_settleTx := None, r_updatedAt := he_now e\<rparr>)"
    using offer_lock_effect [OF mk] by blast
  obtain c2 where c2: "offer_lock n (he_now e) c1 = (Some Matched, c2)"
    "ref_get n c2 = Some (maker\<lparr>so_status := Matched\<rparr>)"
    "c_row c2 n = Some (row\<lparr>r_status := Matched, r_settleTx := None, r_updatedAt := he_now e\<rparr>)"
    using offer_lock_effect [OF c1(2,3)] by auto
  obtain r3 c3 where c3: "offer_settle cfg o1 n maker (Some (so_status maker)) (Inr tx) (he_now e) c2 = (r3, c3)"
    "ref_get n c3 = Some (maker\<lparr>so_status := Settled, so_settleTxHash := Some tx, so_crossRelayer := True\<rparr>)"
    "c_row c3 n = Some (row\<lparr>r_status := Settled, r_settleTx := Some tx, r_updatedAt := he_now e\<rparr>)"
    using offer_settle_ok [OF assms(1,3) c2(2,3), of "Some (so_status maker)" tx "he_now e"] by auto
  obtain r c4 where c4: "offer_settle cfg o2 n maker (Some Matched) (Inl err) (he_now e) c3 = (r, c4)"
    "ref_get n c4 = Some (maker\<lparr>so_status := Matched, so_settleTxHash := Some tx, so_crossRelayer := True\<rparr>)"
    "c_row c4 n = Some (row\<lparr>r_status := Matched, r_settleTx := None, r_updatedAt := he_now e\<rparr>)"
    using offer_settle_error [OF c3(2,3), of cfg o2 maker Matched err "he_now e"] by auto
  have "handleTradeOffer cfg e o2 c = (Some r, c4)"
    using pass assms(4,5,7-9) c1(1) c2(1) c3(1) c4(1) by (simp add: handleTradeOffer_def Let_def)
  then show ?thesis using c4 by auto
qed

section \<open>A cancel during an offer\<close>

lemma store_frames [simp]:
  "c_store (c_dbStatus n s tx now c) = c_store c" "c_store (c_lock n c) = c_store c"
  "c_store (c_unlock n c) = c_store c" "c_store (ref_take n c) = c_store c"
  "c_db (c_lock n c) = c_db c" "c_db (ref_take n c) = c_db c" "c_detached (c_lock n c) = c_detached c"
  "c_detached (c_dbStatus n s tx now c) = c_detached c"
  by (simp_all add: c_dbStatus_def c_lock_def c_unlock_def ref_take_def)

lemma ref_upd_map:
  "\<not> jhas (c_detached c) n \<Longrightarrow> c_store (ref_upd n f c) = (c_store c)\<lparr>authorizeOrders := jmodify n f (authorizeOrders (c_store c))\<rparr>"
  "jhas (c_detached c) n \<Longrightarrow> c_store (ref_upd n f c) = c_store c"
  by (simp_all add: ref_upd_def)

lemma cancel_event_in_flight:
  assumes "jget (authorizeOrders (c_store c)) n = Some so" "so_status so = Matched" "numeric (so_order so)"
  shows "\<exists>c'. cancel_event n t c = c' \<and> jget (authorizeOrders (c_store c')) n = None \<and>
    jget (c_detached c') n = Some so \<and>
    c_db c' = map_option (updateAuthorizeOrderStatus n Cancelled None t) (c_db c) \<and>
    pendingCountByPubKey (c_store c') = pendingCountByPubKey (c_store c)"
proof -
  obtain st where u: "unindexAuthorizeOrder n (so_order so) (c_store c) = Some st"
    using unindex_total [OF assms(3)] by blast
  show ?thesis using assms(1,2) u unindex_frame [OF u]
    by (simp add: cancel_event_def applyOnChainAuthorizeCancel_def Let_def)
qed

text \<open>
  An order cancelled on chain while an offer for it is in flight comes back: the cancel drops
  it from the order map without releasing its slot (it is \<open>matched\<close>, not live), and when the peer
  then rejects, the status it had before is written over \<open>cancelled\<close> in the database.  The row is
  live again, there is no entry for it in memory, and its slot stays counted.
\<close>

lemma cancel_during_offer_resurrects:
  assumes "jget (authorizeOrders (c_store c)) n = Some local" "numeric (so_order local)" "isLiveStatus (so_status local)"
    and "c_row c n = Some row" "oe_meanwhile1 e = cancel_event n t"
    and "oe_send e = HttpNotOk reason"
  shows "\<exists>c' row'. try_offer e n local c = (False, c') \<and> jget (authorizeOrders (c_store c')) n = None \<and>
    c_row c' n = Some row' \<and> isLiveStatus (r_status row') \<and>
    (\<forall>i. pendingCount (c_store c') i = pendingCount (c_store c) i)"
proof -
  let ?now = "oe_now e"
  let ?c0 = "c_dbStatus n Matched None ?now (ref_status n Matched (c_lock n (ref_take n c)))"
  have nd: "\<not> jhas (c_detached (c_lock n (ref_take n c))) n" by (simp add: jhas_jget ref_take_def)
  have g: "jget (authorizeOrders (c_store ?c0)) n = Some (local\<lparr>so_status := Matched\<rparr>)"
    "pendingCountByPubKey (c_store ?c0) = pendingCountByPubKey (c_store c)"
    using assms(1) by (simp_all add: ref_status_def ref_upd_map(1) [OF nd])
  have row0: "c_row ?c0 n = Some (row\<lparr>r_status := Matched, r_settleTx := None, r_updatedAt := ?now\<rparr>)"
    using assms(4) by (simp add: ref_status_def)
  obtain c1 where c1: "cancel_event n t ?c0 = c1" "jget (authorizeOrders (c_store c1)) n = None"
    "jget (c_detached c1) n = Some (local\<lparr>so_status := Matched\<rparr>)"
    "c_db c1 = map_option (updateAuthorizeOrderStatus n Cancelled None t) (c_db ?c0)"
    "pendingCountByPubKey (c_store c1) = pendingCountByPubKey (c_store ?c0)"
    using cancel_event_in_flight [OF g(1), of t] assms(2) by auto
  have "c_row c1 n = c_row (c_dbStatus n Cancelled None t ?c0) n"
    using c1(4) by (intro c_row_cong) (simp add: c_dbStatus_def)
  then have row1: "\<exists>r. c_row c1 n = Some r" using row0 by auto
  let ?c' = "c_unlock n (offer_restore n (so_status local) ?now c1)"
  have run: "try_offer e n local c = (False, ?c')"
    using assms(5,6) c1(1) by (simp add: try_offer_def Let_def offer_reply_def)
  have jd: "jhas (c_detached c1) n" using c1(3) by (simp add: jhas_jget)
  have st: "c_store ?c' = c_store c1"
    by (simp add: offer_restore_def ref_status_def ref_upd_map(2) [OF jd])
  have "\<exists>row'. c_row ?c' n = Some row' \<and> isLiveStatus (r_status row')" using row1 assms(3) by auto
  moreover have "pendingCount (c_store ?c') i = pendingCount (c_store c) i" for i
    using st c1(5) g(2) by (simp add: pendingCount_def)
  ultimately show ?thesis using run st c1(2) by auto
qed

section \<open>Witnesses\<close>

definition sample_cstate :: cstate where
  "sample_cstate = \<lparr>c_store = one_order, c_db = Some one_row, c_locks = [], c_detached = [], c_calls = [],
     c_onSettled = [], c_events = []\<rparr>"

definition sample_mcfg :: match_cfg where
  "sample_mcfg = \<lparr>mc_own = hexPad 40 10, mc_relayerFee = 20, mc_verifyOrderProofs = True\<rparr>"

definition sample_offer :: trade_offer where
  "sample_offer = \<lparr>to_makerNullifier = dec 77, to_takerOrder = sample_order (dec 78) 2 1 60 90\<rparr>"

definition peer_reply :: offer_response where
  "peer_reply = \<lparr>or_status = OfferSettled, or_txHash = Some ''0xab'', or_reason = None, or_takerFee = None,
     or_takerFeeToken = None\<rparr>"

lemma sample_maker: "jget (authorizeOrders (c_store sample_cstate)) (dec 77) = Some (sample_stored (dec 77) 1 2 100 50)"
  by (simp add: sample_cstate_def sample_posted_def)

lemma sample_maker_row: "c_row sample_cstate (dec 77) = Some (sample_row (dec 77) 1 2 100 50)"
  by (simp add: c_row_def sample_cstate_def getAuthorizeOrder_def)

lemma sample_statuses [simp]:
  "so_status (sample_stored n a b x y) = Accepted" "r_status (sample_row n a b x y) = Accepted"
  "so_order (sample_stored n a b x y) = sample_order n a b x y"
  by (simp_all add: sample_stored_def sample_row_def)

lemma sample_taker_consistent: "checkTakerSignalsConsistent (sample_order (dec 78) 2 1 60 90) = None"
proof -
  have "validateAuthorizeOrder (sample_order (dec 78) 2 1 60 90) (hexPad 40 10) 1000 = None"
    by (rule sample_valid [of "dec 78" 78]) (auto simp: js_simps BN254_FIELD_MODULUS_def)
  then show ?thesis using validate_wf [of 1000] by (simp add: wf_order_def Let_def checkTaker_None)
qed

lemma sample_acceptable:
  "offer_acceptable sample_mcfg sample_offer 1000000 sample_cstate (dec 77) (sample_stored (dec 77) 1 2 100 50)"
  using sample_maker sample_taker_consistent
  by (simp add: offer_acceptable_def Let_def sample_offer_def sample_mcfg_def js_simps)
    (simp add: sample_cstate_def sample_order_def sample_signals_def js_simps isTokenCompatible_def isPriceCompatible_def)

definition sample_handle :: "thrown + string \<Rightarrow> handle_env" where
  "sample_handle res = \<lparr>he_now = 1000000, he_proof = ProofValid, he_submit = res,
     he_meanwhile1 = (\<lambda>v. v), he_meanwhile2 = (\<lambda>v. v)\<rparr>"

lemma handled_offer_effect_witness:
  "\<exists>r c' row'. handleTradeOffer sample_mcfg (sample_handle (Inr ''0xab'')) sample_offer sample_cstate = (Some r, c') \<and>
     c_row c' (dec 77) = Some row' \<and> r_status row' = Settled"
  using handled_offer_effect [OF _ maker_entry, of sample_mcfg sample_offer "sample_handle (Inr ''0xab'')" sample_cstate]
    sample_acceptable sample_maker_row
  by (auto simp: sample_handle_def)

theorem settled_offer_guards_witness:
  "\<exists>r c'. handleTradeOffer sample_mcfg (sample_handle (Inr ''0xab'')) sample_offer sample_cstate = (Some r, c') \<and>
     or_txHash r = Some ''0xab''"
proof -
  have l: "fst (offer_lock (dec 77) 1000000 (ref_take (dec 77) sample_cstate)) = Some Accepted"
    using sample_maker by (simp add: offer_lock_def)
  have pass: "offer_checks sample_mcfg sample_offer 1000000 sample_cstate =
      OfferPasses (dec 77) (sample_stored (dec 77) 1 2 100 50)"
    using sample_acceptable offer_checks_passes by simp
  obtain r c' where rc: "offer_settle sample_mcfg sample_offer (dec 77) (sample_stored (dec 77) 1 2 100 50) (Some Accepted)
      (Inr ''0xab'') 1000000 (snd (offer_lock (dec 77) 1000000 (ref_take (dec 77) sample_cstate))) = (r, c')"
      "or_status r = OfferSettled"
    using offer_settle_ok [OF sample_acceptable maker_entry, of "snd (offer_lock (dec 77) 1000000 (ref_take (dec 77) sample_cstate))"]
      sample_maker sample_maker_row by (fastforce simp: offer_lock_def Let_def ref_status_def)
  have run: "handleTradeOffer sample_mcfg (sample_handle (Inr ''0xab'')) sample_offer sample_cstate = (Some r, c')"
    using pass l rc by (cases "offer_lock (dec 77) 1000000 (ref_take (dec 77) sample_cstate)")
      (simp add: handleTradeOffer_def sample_handle_def Let_def)
  show ?thesis using settled_offer_guards [OF run rc(2)] run by (auto simp: sample_handle_def)
qed

definition sample_oenv :: "send_result \<Rightarrow> (cstate \<Rightarrow> cstate) \<Rightarrow> offer_env" where
  "sample_oenv s m = \<lparr>oe_send = s, oe_verify = Some False, oe_now = 5, oe_meanwhile1 = m, oe_meanwhile2 = (\<lambda>v. v)\<rparr>"


lemma cancel_during_offer_resurrects_witness:
  "\<exists>c' row'. try_offer (sample_oenv (HttpNotOk ''no'') (cancel_event (dec 77) 9)) (dec 77)
     (sample_stored (dec 77) 1 2 100 50) sample_cstate = (False, c') \<and>
     c_row c' (dec 77) = Some row' \<and> isLiveStatus (r_status row')"
  using cancel_during_offer_resurrects [OF sample_maker _ _ sample_maker_row,
      of "sample_oenv (HttpNotOk ''no'') (cancel_event (dec 77) 9)" 9 "''no''"] sample_numeric
  by (auto simp: sample_oenv_def)

lemma overlapping_offers_lose_settlement_witness:
  "\<exists>e r c' row'. handleTradeOffer sample_mcfg e sample_offer sample_cstate = (Some r, c') \<and>
     c_row c' (dec 77) = Some row' \<and> r_status row' = Matched"
proof -
  define e where "e = \<lparr>he_now = 1000000, he_proof = ProofValid, he_submit = Inl (ErrorObj ''execution reverted''),
     he_meanwhile1 = (\<lambda>v. snd (offer_lock (dec 77) 1000000 v)),
     he_meanwhile2 = (\<lambda>v. snd (offer_settle sample_mcfg sample_offer (dec 77) (sample_stored (dec 77) 1 2 100 50)
        (Some (so_status (sample_stored (dec 77) 1 2 100 50))) (Inr ''0xab'') 1000000 v))\<rparr>"
  have a: "offer_acceptable sample_mcfg sample_offer (he_now e) sample_cstate (dec 77) (sample_stored (dec 77) 1 2 100 50)"
    using sample_acceptable by (simp add: e_def)
  show ?thesis
    using overlapping_offers_lose_settlement [OF a a maker_entry _ _ sample_maker_row, of "''0xab''" "ErrorObj ''execution reverted''"]
    by (auto simp: e_def sample_mcfg_def)
qed

end
