(* ===== verification/SharedBook.thy ===== *)
theory SharedBook
  imports SharedTypes JsMap
begin

text \<open>
  The in-memory book of the shared-orderbook server (\<open>shared-orderbook/src/core/orderbook.ts\<close>): the
  listings, the index of each side of a pair, the relayer registry with its order counters, and the
  sweeps.  The configuration limits are arguments; a function that throws returns None or the error
  message; whether \<open>new URL(url)\<close> parses to an http(s) URL is a parameter.
\<close>

definition DEFAULT_CHAIN_ID :: int where "DEFAULT_CHAIN_ID = 11155111"

definition chain_of :: "order_summary \<Rightarrow> int" where
  "chain_of o' = (case sm_chainId o' of Some c \<Rightarrow> c | None \<Rightarrow> DEFAULT_CHAIN_ID)"

definition indexKey :: "order_summary \<Rightarrow> string" where
  "indexKey o' = dec (chain_of o') @ '':'' @ tokenPairKey (sm_sellToken o') (sm_buyToken o')"

definition isSellSide :: "order_summary \<Rightarrow> bool" where
  "isSellSide o' = str_less (toLowerCase (sm_sellToken o')) (toLowerCase (sm_buyToken o'))"

record relayer_info =
  ri_address :: string
  ri_url :: string
  ri_name :: "string option"
  ri_registeredAt :: seconds
  ri_lastHeartbeat :: seconds
  ri_orderCount :: int

record book =
  orders :: "(string, ob_stored) jmap"
  sellSide :: "(string, string list) jmap"
  buySide :: "(string, string list) jmap"
  relayers :: "(string, relayer_info) jmap"
  openCount :: int
  relayerOrders :: "(string, string list) jmap"

definition empty_book :: book where
  "empty_book = \<lparr>orders = [], sellSide = [], buySide = [], relayers = [], openCount = 0, relayerOrders = []\<rparr>"

record book_limits =
  maxOrders :: nat
  maxOrdersPerRelayer :: int

section \<open>The relayer registry\<close>

definition relayer_of :: "order_summary \<Rightarrow> string" where
  "relayer_of o' = toLowerCase (sm_relayer o')"

definition registerRelayer ::
  "(string \<Rightarrow> bool) \<Rightarrow> string \<Rightarrow> string \<Rightarrow> string option \<Rightarrow> seconds \<Rightarrow> book \<Rightarrow> book option" where
  "registerRelayer url_ok address url name now b =
     (if \<not> url_ok url then None
      else let key = toLowerCase address; existing = jget (relayers b) key;
               info = \<lparr>ri_address = key, ri_url = url,
                 ri_name = (case name of Some x \<Rightarrow> Some x | None \<Rightarrow> Option.bind existing ri_name),
                 ri_registeredAt = (case existing of Some r \<Rightarrow> ri_registeredAt r | None \<Rightarrow> now),
                 ri_lastHeartbeat = now,
                 ri_orderCount = (case existing of Some r \<Rightarrow> ri_orderCount r | None \<Rightarrow> 0)\<rparr> in
        Some (b\<lparr>relayers := jset key info (relayers b)\<rparr>))"

definition heartbeat :: "string \<Rightarrow> seconds \<Rightarrow> book \<Rightarrow> bool \<times> book" where
  "heartbeat address now b =
     (let key = toLowerCase address in
      if jhas (relayers b) key
      then (True, b\<lparr>relayers := jmodify key (\<lambda>r. r\<lparr>ri_lastHeartbeat := now\<rparr>) (relayers b)\<rparr>)
      else (False, b))"

definition getActiveRelayers :: "seconds \<Rightarrow> seconds \<Rightarrow> book \<Rightarrow> relayer_info list" where
  "getActiveRelayers staleThresholdSec now b =
     filter (\<lambda>r. now - staleThresholdSec \<le> ri_lastHeartbeat r) (jvalues (relayers b))"

definition decOrderCount :: "string \<Rightarrow> (string, relayer_info) jmap \<Rightarrow> (string, relayer_info) jmap" where
  "decOrderCount key = jmodify key (\<lambda>r. if 0 < ri_orderCount r then r\<lparr>ri_orderCount := ri_orderCount r - 1\<rparr> else r)"

definition incOrderCount :: "string \<Rightarrow> (string, relayer_info) jmap \<Rightarrow> (string, relayer_info) jmap" where
  "incOrderCount key = jmodify key (\<lambda>r. r\<lparr>ri_orderCount := ri_orderCount r + 1\<rparr>)"

section \<open>Listings\<close>

text \<open>\<open>if (!index.has(k)) index.set(k, new Set()); index.get(k).add(id)\<close>.\<close>

definition index_add :: "string \<Rightarrow> string \<Rightarrow> (string, string list) jmap \<Rightarrow> (string, string list) jmap" where
  "index_add k i m = jset k (sadd i (bucket m k)) m"

text \<open>\<open>index.get(k)?.delete(id)\<close>.\<close>

definition index_del :: "string \<Rightarrow> string \<Rightarrow> (string, string list) jmap \<Rightarrow> (string, string list) jmap" where
  "index_del k i = jmodify k (sdelete i)"

text \<open>The part shared by insertion and restore: pair index, reverse index, open counter.\<close>

definition index_order :: "order_summary \<Rightarrow> book \<Rightarrow> book" where
  "index_order o' b =
     b\<lparr>sellSide := (if isSellSide o' then index_add (indexKey o') (sm_id o') (sellSide b) else sellSide b),
       buySide := (if isSellSide o' then buySide b else index_add (indexKey o') (sm_id o') (buySide b)),
       openCount := openCount b + 1,
       relayerOrders := index_add (relayer_of o') (sm_id o') (relayerOrders b)\<rparr>"

definition unindex_pair :: "order_summary \<Rightarrow> string \<Rightarrow> book \<Rightarrow> book" where
  "unindex_pair o' i b =
     b\<lparr>sellSide := index_del (indexKey o') i (sellSide b), buySide := index_del (indexKey o') i (buySide b)\<rparr>"

definition addOrder :: "book_limits \<Rightarrow> order_summary \<Rightarrow> book \<Rightarrow> string + book" where
  "addOrder lims o' b =
     (if jhas (orders b) (sm_id o') then Inl ''duplicate order id''
      else if maxOrders lims \<le> jsize (orders b) then Inl ''orderbook full''
      else if (case jget (relayers b) (relayer_of o') of None \<Rightarrow> False
               | Some r \<Rightarrow> maxOrdersPerRelayer lims \<le> ri_orderCount r)
      then Inl ''relayer order limit reached''
      else let b1 = index_order o' (b\<lparr>orders := jset (sm_id o')
                      \<lparr>ob_order = o', ob_status = OpenOrder, ob_matchId = None\<rparr> (orders b)\<rparr>) in
        Inr (b1\<lparr>relayers := incOrderCount (relayer_of o') (relayers b1)\<rparr>))"

definition getOrder :: "string \<Rightarrow> book \<Rightarrow> ob_stored option" where
  "getOrder i b = jget (orders b) i"

definition removeOrder :: "string \<Rightarrow> book \<Rightarrow> bool \<times> book" where
  "removeOrder i b =
     (case jget (orders b) i of
        None \<Rightarrow> (False, b)
      | Some s \<Rightarrow>
          let o' = ob_order s;
              b1 = unindex_pair o' i (b\<lparr>orders := jdelete i (orders b)\<rparr>) in
          (True, b1\<lparr>relayerOrders := index_del (relayer_of o') i (relayerOrders b1),
                    relayers := decOrderCount (relayer_of o') (relayers b1),
                    openCount := (if ob_status s = OpenOrder then openCount b1 - 1 else openCount b1)\<rparr>))"

definition updateStatus :: "string \<Rightarrow> ob_status \<Rightarrow> string option \<Rightarrow> book \<Rightarrow> book" where
  "updateStatus i status matchId b =
     (case jget (orders b) i of
        None \<Rightarrow> b
      | Some s \<Rightarrow>
          let b1 = b\<lparr>orders := jmodify i (\<lambda>s. s\<lparr>ob_status := status,
                ob_matchId := (if truthy matchId then matchId else ob_matchId s)\<rparr>) (orders b)\<rparr> in
          if status \<noteq> OpenOrder \<and> ob_status s = OpenOrder
          then let b2 = unindex_pair (ob_order s) i b1 in
            b2\<lparr>relayers := decOrderCount (relayer_of (ob_order s)) (relayers b2), openCount := openCount b2 - 1\<rparr>
          else b1)"

definition open_at :: "book \<Rightarrow> string \<Rightarrow> ob_stored option" where
  "open_at b i = (case jget (orders b) i of
     Some s \<Rightarrow> if ob_status s = OpenOrder then Some s else None | None \<Rightarrow> None)"

definition getCounterpartyOrders :: "order_summary \<Rightarrow> book \<Rightarrow> ob_stored list" where
  "getCounterpartyOrders o' b =
     List.map_filter (open_at b)
       (bucket (if isSellSide o' then buySide b else sellSide b) (indexKey o'))"

definition by_created :: "ob_stored list \<Rightarrow> ob_stored list" where
  "by_created = sort_key (\<lambda>s. sm_createdAt (ob_order s))"

definition listOpen :: "string option \<Rightarrow> int \<Rightarrow> book \<Rightarrow> ob_stored list" where
  "listOpen pair chainId b =
     (if truthy pair
      then let key = dec chainId @ '':'' @ the pair in
        by_created (List.map_filter (open_at b) (bucket (sellSide b) key @ bucket (buySide b) key))
      else by_created (filter (\<lambda>s. ob_status s = OpenOrder \<and> chain_of (ob_order s) = chainId) (jvalues (orders b))))"

section \<open>Sweeps and restore\<close>

fun expire_loop :: "seconds \<Rightarrow> (string \<times> ob_stored) list \<Rightarrow> string list \<Rightarrow> book \<Rightarrow> string list \<times> book" where
  "expire_loop now [] ids b = (ids, b)"
| "expire_loop now ((i, s) # es) ids b =
     (if ob_status s = OpenOrder \<and> sm_expiry (ob_order s) \<le> of_int now
      then expire_loop now es (ids @ [i]) (updateStatus i ExpiredOrder None b)
      else expire_loop now es ids b)"

definition purgeExpired :: "seconds \<Rightarrow> book \<Rightarrow> string list \<times> book" where
  "purgeExpired now b = expire_loop now (orders b) [] b"

text \<open>Expiring every open listing among the given ids.\<close>

fun expire_ids :: "string list \<Rightarrow> book \<Rightarrow> book" where
  "expire_ids [] b = b"
| "expire_ids (i # is) b =
     expire_ids is (if open_at b i \<noteq> None then updateStatus i ExpiredOrder None b else b)"

definition purge_relayer :: "string \<Rightarrow> book \<Rightarrow> book" where
  "purge_relayer addr b =
     (let b1 = (case jget (relayerOrders b) addr of
                  None \<Rightarrow> b
                | Some ids \<Rightarrow> let b2 = expire_ids ids b in b2\<lparr>relayerOrders := jdelete addr (relayerOrders b2)\<rparr>)
      in b1\<lparr>relayers := jdelete addr (relayers b1)\<rparr>)"

definition purgeStaleRelayers :: "seconds \<Rightarrow> seconds \<Rightarrow> book \<Rightarrow> string list \<times> book" where
  "purgeStaleRelayers staleThresholdSec now b =
     (let stale = map fst (filter (\<lambda>(a, r). ri_lastHeartbeat r < now - staleThresholdSec) (relayers b)) in
      (stale, fold purge_relayer stale b))"

definition load_one :: "ob_stored \<Rightarrow> nat \<times> book \<Rightarrow> nat \<times> book" where
  "load_one s p = (case p of (k, b) \<Rightarrow>
     if ob_status s \<noteq> OpenOrder then (k, b)
     else (Suc k, index_order (ob_order s) (b\<lparr>orders := jset (sm_id (ob_order s)) s (orders b)\<rparr>)))"

definition loadFromStored :: "ob_stored list \<Rightarrow> book \<Rightarrow> nat \<times> book" where
  "loadFromStored rows b = fold load_one rows (0, b)"

record book_stats =
  bs_totalOrders :: int
  bs_pairs :: nat
  bs_relayers :: nat

definition getStats :: "book \<Rightarrow> book_stats" where
  "getStats b =
     \<lparr>bs_totalOrders = openCount b,
      bs_pairs = length (remdups (map fst (filter (\<lambda>(k, ids). ids \<noteq> []) (sellSide b)) @
                                  map fst (filter (\<lambda>(k, ids). ids \<noteq> []) (buySide b)))),
      bs_relayers = jsize (relayers b)\<rparr>"

end
