(* ===== verification/SharedBookFacts.thy ===== *)
theory SharedBookFacts
  imports SharedBook
begin

text \<open>
  The invariant of the shared book: the open counter is the number of open listings, each side
  index lists exactly the open listings of its side and pair, and the reverse index covers every
  open listing of a relayer.  It is preserved by every operation and holds in every reachable state.
\<close>

section \<open>Buckets\<close>

lemma bucket_add [simp]: "bucket (index_add k i m) k' = (if k' = k then sadd i (bucket m k) else bucket m k')"
  by (simp add: index_add_def)

lemma bucket_del [simp]: "bucket (index_del k i m) k' = (if k' = k then sdelete i (bucket m k) else bucket m k')"
  by (cases "jget m k'") (auto simp: index_del_def bucket_def sdelete_def)

section \<open>The invariant\<close>

definition is_open :: "ob_stored \<Rightarrow> bool" where "is_open s \<longleftrightarrow> ob_status s = OpenOrder"

lemma open_at_Some: "open_at b i = Some s \<longleftrightarrow> jget (orders b) i = Some s \<and> is_open s"
  by (auto simp: open_at_def is_open_def split: option.splits if_splits)

definition ids_ok :: "book \<Rightarrow> bool" where
  "ids_ok b \<longleftrightarrow> jmap_ok (orders b) \<and> (\<forall>i s. jget (orders b) i = Some s \<longrightarrow> sm_id (ob_order s) = i)"

definition count_ok :: "book \<Rightarrow> bool" where
  "count_ok b \<longleftrightarrow> openCount b = int (jcount is_open (orders b))"

definition side_ok :: "bool \<Rightarrow> (string, string list) jmap \<Rightarrow> (string, ob_stored) jmap \<Rightarrow> bool" where
  "side_ok sell m os \<longleftrightarrow> (\<forall>i k. i \<in> set (bucket m k) \<longleftrightarrow>
     (\<exists>s. jget os i = Some s \<and> is_open s \<and> isSellSide (ob_order s) = sell \<and> indexKey (ob_order s) = k))"

definition reverse_ok :: "book \<Rightarrow> bool" where
  "reverse_ok b \<longleftrightarrow>
     (\<forall>i s. jget (orders b) i = Some s \<and> is_open s \<longrightarrow> i \<in> set (bucket (relayerOrders b) (relayer_of (ob_order s)))) \<and>
     (\<forall>i r. i \<in> set (bucket (relayerOrders b) r) \<longrightarrow> (\<exists>s. jget (orders b) i = Some s \<and> relayer_of (ob_order s) = r))"

definition book_ok :: "book \<Rightarrow> bool" where
  "book_ok b \<longleftrightarrow> ids_ok b \<and> count_ok b \<and> side_ok True (sellSide b) (orders b) \<and>
     side_ok False (buySide b) (orders b) \<and> reverse_ok b"

lemmas book_ok_defs = book_ok_def ids_ok_def count_ok_def side_ok_def reverse_ok_def

lemma book_ok_cong:
  "book_ok b \<Longrightarrow> orders b' = orders b \<Longrightarrow> sellSide b' = sellSide b \<Longrightarrow> buySide b' = buySide b \<Longrightarrow>
   openCount b' = openCount b \<Longrightarrow> relayerOrders b' = relayerOrders b \<Longrightarrow> book_ok b'"
  by (simp add: book_ok_defs)

lemma book_ok_empty: "book_ok empty_book"
  by (simp add: book_ok_defs empty_book_def)

lemma book_ok_register: "book_ok b \<Longrightarrow> registerRelayer u a url nm now b = Some b' \<Longrightarrow> book_ok b'"
  by (erule book_ok_cong) (auto simp: registerRelayer_def Let_def split: if_splits)

lemma book_ok_heartbeat: "book_ok b \<Longrightarrow> book_ok (snd (heartbeat a now b))"
  by (erule book_ok_cong) (simp_all add: heartbeat_def Let_def)

text \<open>Entering an open listing under a fresh id.\<close>

lemma side_ok_enter:
  assumes "side_ok sell m os" "jget os (sm_id (ob_order s)) = None" "is_open s"
  shows "side_ok sell (if isSellSide (ob_order s) = sell then index_add (indexKey (ob_order s)) (sm_id (ob_order s)) m else m)
    (jset (sm_id (ob_order s)) s os)"
proof -
  have h: "i \<in> set (bucket m k) \<longleftrightarrow>
     (\<exists>s. jget os i = Some s \<and> is_open s \<and> isSellSide (ob_order s) = sell \<and> indexKey (ob_order s) = k)" for i k
    using assms(1) by (simp add: side_ok_def)
  show ?thesis using assms(2,3) by (auto simp: side_ok_def h)
qed

lemma book_ok_enter:
  assumes "book_ok b" "jget (orders b) (sm_id (ob_order s)) = None" "is_open s"
  shows "book_ok (index_order (ob_order s) (b\<lparr>orders := jset (sm_id (ob_order s)) s (orders b)\<rparr>))"
proof -
  let ?i = "sm_id (ob_order s)"
  have ids: "ids_ok b" and cnt: "count_ok b" and sl: "side_ok True (sellSide b) (orders b)"
    and by': "side_ok False (buySide b) (orders b)" and rv: "reverse_ok b"
    using assms(1) by (simp_all add: book_ok_def)
  have "reverse_ok (index_order (ob_order s) (b\<lparr>orders := jset ?i s (orders b)\<rparr>))"
    using rv assms(2) by (fastforce simp: reverse_ok_def index_order_def split: if_splits)
  moreover have "count_ok (index_order (ob_order s) (b\<lparr>orders := jset ?i s (orders b)\<rparr>))"
    using cnt assms(2,3) by (simp add: count_ok_def index_order_def jcount_jset_new)
  moreover have "ids_ok (index_order (ob_order s) (b\<lparr>orders := jset ?i s (orders b)\<rparr>))"
    using ids by (auto simp: ids_ok_def index_order_def)
  ultimately show ?thesis
    using side_ok_enter [OF sl assms(2,3)] side_ok_enter [OF by' assms(2,3)]
    by (cases "isSellSide (ob_order s)") (simp_all add: book_ok_def index_order_def)
qed

lemma book_ok_add: "book_ok b \<Longrightarrow> addOrder lims o' b = Inr b' \<Longrightarrow> book_ok b'"
proof -
  assume ok: "book_ok b" and a: "addOrder lims o' b = Inr b'"
  let ?s = "\<lparr>ob_order = o', ob_status = OpenOrder, ob_matchId = None\<rparr>"
  have f: "jget (orders b) (sm_id (ob_order ?s)) = None" using a by (auto simp: addOrder_def jhas_jget split: if_splits)
  have "book_ok (index_order (ob_order ?s) (b\<lparr>orders := jset (sm_id (ob_order ?s)) ?s (orders b)\<rparr>))"
    by (rule book_ok_enter [OF ok f]) (simp add: is_open_def)
  then show "book_ok b'"
    by (rule book_ok_cong) (use a in \<open>auto simp: addOrder_def Let_def split: if_splits\<close>)
qed

text \<open>Closing or dropping a listing.\<close>

lemma side_ok_leave:
  assumes "side_ok sell m os" "jget os i = Some s" "jmap_ok os"
    and "\<And>k. jget os' k = (if k = i then x else jget os k)" "\<And>s'. x = Some s' \<Longrightarrow> \<not> is_open s'"
  shows "side_ok sell (index_del (indexKey (ob_order s)) i m) os'"
proof -
  have h: "j \<in> set (bucket m k) \<longleftrightarrow>
     (\<exists>s. jget os j = Some s \<and> is_open s \<and> isSellSide (ob_order s) = sell \<and> indexKey (ob_order s) = k)" for j k
    using assms(1) by (simp add: side_ok_def)
  show ?thesis using assms(2,4,5) by (auto simp: side_ok_def h)
qed

lemma book_ok_remove: "book_ok b \<Longrightarrow> book_ok (snd (removeOrder i b))"
proof (cases "jget (orders b) i")
  case None
  then show "book_ok b \<Longrightarrow> book_ok (snd (removeOrder i b))" by (simp add: removeOrder_def)
next
  case (Some s)
  assume ok: "book_ok b"
  then have ids: "ids_ok b" and cnt: "count_ok b" and sl: "side_ok True (sellSide b) (orders b)"
    and by': "side_ok False (buySide b) (orders b)" and rv: "reverse_ok b"
    by (simp_all add: book_ok_def)
  have jm: "jmap_ok (orders b)" using ids by (simp add: ids_ok_def)
  have l: "side_ok sell (index_del (indexKey (ob_order s)) i m) (jdelete i (orders b))"
    if "side_ok sell m (orders b)" for sell m
    by (rule side_ok_leave [OF that Some jm, where x = None]) simp_all
  have "count_ok (snd (removeOrder i b))"
    using cnt jcount_jdelete [OF jm, of is_open i] Some
    by (auto simp: count_ok_def removeOrder_def unindex_pair_def Let_def is_open_def)
  moreover have "reverse_ok (snd (removeOrder i b))"
    using rv Some by (fastforce simp: reverse_ok_def removeOrder_def unindex_pair_def Let_def)
  moreover have "ids_ok (snd (removeOrder i b))"
    using ids Some by (auto simp: ids_ok_def removeOrder_def unindex_pair_def Let_def)
  ultimately show ?thesis using l [OF sl] l [OF by'] Some
    by (simp add: book_ok_def removeOrder_def unindex_pair_def Let_def)
qed

lemma book_ok_status: "book_ok b \<Longrightarrow> st \<noteq> OpenOrder \<Longrightarrow> book_ok (updateStatus i st mid b)"
proof (cases "jget (orders b) i")
  case None
  then show "book_ok b \<Longrightarrow> st \<noteq> OpenOrder \<Longrightarrow> book_ok (updateStatus i st mid b)" by (simp add: updateStatus_def)
next
  case (Some s)
  assume ok: "book_ok b" and st: "st \<noteq> OpenOrder"
  let ?f = "\<lambda>s. s\<lparr>ob_status := st, ob_matchId := (if truthy mid then mid else ob_matchId s)\<rparr>"
  have ids: "ids_ok b" and cnt: "count_ok b" and sl: "side_ok True (sellSide b) (orders b)"
    and by': "side_ok False (buySide b) (orders b)" and rv: "reverse_ok b"
    using ok by (simp_all add: book_ok_def)
  have jm: "jmap_ok (orders b)" using ids by (simp add: ids_ok_def)
  let ?os = "jmodify i ?f (orders b)"
  have g: "jget ?os k = (if k = i then Some (?f s) else jget (orders b) k)" for k using Some by simp
  have nop: "\<not> is_open (?f s)" using st by (simp add: is_open_def)
  have o_f: "ob_order (?f s) = ob_order s" by simp
  have ids': "jmap_ok ?os \<and> (\<forall>k s. jget ?os k = Some s \<longrightarrow> sm_id (ob_order s) = k)"
    using ids Some by (auto simp: ids_ok_def)
  have cnt': "jcount is_open ?os + (if is_open s then 1 else 0) = jcount is_open (orders b)"
    using jcount_jmodify [OF jm Some, of is_open ?f] nop by simp
  have rv': "reverse_ok (b\<lparr>orders := ?os\<rparr>)" using rv Some nop by (fastforce simp: reverse_ok_def split: if_splits)
  show ?thesis
  proof (cases "is_open s")
    case True
    have l: "side_ok sell (index_del (indexKey (ob_order s)) i m) ?os" if "side_ok sell m (orders b)" for sell m
      by (rule side_ok_leave [OF that Some jm g]) (use nop in simp)
    show ?thesis using Some True st l [OF sl] l [OF by'] ids' cnt' cnt rv'
      by (simp add: book_ok_def updateStatus_def unindex_pair_def Let_def is_open_def ids_ok_def count_ok_def reverse_ok_def)
  next
    case False
    have l: "side_ok sell m ?os" if "side_ok sell m (orders b)" for sell m
    proof -
      have e: "(\<exists>s. jget ?os k = Some s \<and> is_open s \<and> isSellSide (ob_order s) = sell \<and> indexKey (ob_order s) = kk) \<longleftrightarrow>
          (\<exists>s. jget (orders b) k = Some s \<and> is_open s \<and> isSellSide (ob_order s) = sell \<and> indexKey (ob_order s) = kk)" for k kk
        using g Some False nop by auto
      show ?thesis using that unfolding side_ok_def e .
    qed
    show ?thesis using Some False l [OF sl] l [OF by'] ids' cnt' cnt rv'
      by (simp add: book_ok_def updateStatus_def Let_def is_open_def ids_ok_def count_ok_def reverse_ok_def)
  qed
qed

section \<open>Sweeps\<close>

lemma status_orders:
  "jget (orders (updateStatus i st mid b)) k =
     (if k = i then map_option (\<lambda>s. s\<lparr>ob_status := st, ob_matchId := (if truthy mid then mid else ob_matchId s)\<rparr>)
        (jget (orders b) k) else jget (orders b) k)"
  by (auto simp: updateStatus_def unindex_pair_def Let_def split: option.splits)

lemma status_frame [simp]:
  "relayerOrders (updateStatus i st mid b) = relayerOrders b"
  "jsize (orders (updateStatus i st mid b)) = jsize (orders b)"
  "map fst (orders (updateStatus i st mid b)) = map fst (orders b)"
  by (auto simp: updateStatus_def unindex_pair_def Let_def split: option.splits)

lemma status_relayers: "jget (relayers (updateStatus i st mid b)) r = None \<longleftrightarrow> jget (relayers b) r = None"
  by (auto simp: updateStatus_def unindex_pair_def decOrderCount_def Let_def split: option.splits)

definition expired_at :: "seconds \<Rightarrow> ob_stored \<Rightarrow> bool" where
  "expired_at now s \<longleftrightarrow> is_open s \<and> sm_expiry (ob_order s) \<le> of_int now"

lemma expire_loop_spec:
  "expire_loop now es ids b = (ids', b') \<Longrightarrow>
   ids' = ids @ map fst (filter (\<lambda>(i, s). expired_at now s) es) \<and>
   (\<forall>k. jget (orders b') k = (if k \<in> fst ` set (filter (\<lambda>(i, s). expired_at now s) es)
      then map_option (\<lambda>s. s\<lparr>ob_status := ExpiredOrder\<rparr>) (jget (orders b) k) else jget (orders b) k)) \<and>
   (book_ok b \<longrightarrow> book_ok b') \<and> jsize (orders b') = jsize (orders b) \<and> map fst (orders b') = map fst (orders b)"
proof (induction now es ids b rule: expire_loop.induct)
  case (2 now i s es ids b)
  show ?case
  proof (cases "expired_at now s")
    case True
    then have c: "ob_status s = OpenOrder \<and> sm_expiry (ob_order s) \<le> of_int now" by (simp add: expired_at_def is_open_def)
    have run: "expire_loop now es (ids @ [i]) (updateStatus i ExpiredOrder None b) = (ids', b')" using 2(3) c by simp
    have twice: "map_option (\<lambda>s. s\<lparr>ob_status := ExpiredOrder\<rparr>) (map_option (\<lambda>s. s\<lparr>ob_status := ExpiredOrder\<rparr>) x) =
        map_option (\<lambda>s. s\<lparr>ob_status := ExpiredOrder\<rparr>) x" for x :: "ob_stored option"
      by (cases x) simp_all
    show ?thesis using 2(1) [OF c run] True book_ok_status [of b ExpiredOrder i None] twice
      by (simp add: status_orders)
  next
    case False
    then have c: "\<not> (ob_status s = OpenOrder \<and> sm_expiry (ob_order s) \<le> of_int now)" by (simp add: expired_at_def is_open_def)
    have run: "expire_loop now es ids b = (ids', b')" using 2(3) c by simp
    show ?thesis using 2(2) [OF c run] False by simp
  qed
qed simp

lemma expire_ids_spec:
  "(\<forall>k. jget (orders (expire_ids is b)) k =
      (if k \<in> set is then map_option (\<lambda>s. if is_open s then s\<lparr>ob_status := ExpiredOrder\<rparr> else s) (jget (orders b) k)
       else jget (orders b) k)) \<and>
   (book_ok b \<longrightarrow> book_ok (expire_ids is b)) \<and> relayerOrders (expire_ids is b) = relayerOrders b \<and>
   map fst (orders (expire_ids is b)) = map fst (orders b) \<and>
   (\<forall>r. jget (relayers (expire_ids is b)) r = None \<longleftrightarrow> jget (relayers b) r = None)"
proof (induction "is" arbitrary: b)
  case (Cons i "is")
  define b1 where "b1 = (if open_at b i \<noteq> None then updateStatus i ExpiredOrder None b else b)"
  have g: "jget (orders b1) k = (if k = i then map_option (\<lambda>s. if is_open s then s\<lparr>ob_status := ExpiredOrder\<rparr> else s) (jget (orders b) k)
      else jget (orders b) k)" for k
    by (cases "jget (orders b) i") (auto simp: b1_def status_orders open_at_def is_open_def)
  have twice: "map_option (\<lambda>s. if is_open s then s\<lparr>ob_status := ExpiredOrder\<rparr> else s)
      (map_option (\<lambda>s. if is_open s then s\<lparr>ob_status := ExpiredOrder\<rparr> else s) x) =
      map_option (\<lambda>s. if is_open s then s\<lparr>ob_status := ExpiredOrder\<rparr> else s) x" for x
    by (cases x) (simp_all add: is_open_def)
  have ok: "book_ok b \<longrightarrow> book_ok b1" using book_ok_status by (simp add: b1_def)
  have fr: "relayerOrders b1 = relayerOrders b" "map fst (orders b1) = map fst (orders b)"
    "jget (relayers b1) r = None \<longleftrightarrow> jget (relayers b) r = None" for r
    using status_relayers by (auto simp: b1_def)
  have run: "expire_ids (i # is) b = expire_ids is b1" by (simp add: b1_def)
  show ?case unfolding run using Cons.IH [of b1] ok fr twice by (simp add: g)
qed simp

text \<open>Removing a relayer closes its open listings and nothing else.\<close>

definition close_relayer :: "string \<Rightarrow> ob_stored \<Rightarrow> ob_stored" where
  "close_relayer r s = (if is_open s \<and> relayer_of (ob_order s) = r then s\<lparr>ob_status := ExpiredOrder\<rparr> else s)"

lemma purge_relayer_spec:
  assumes "book_ok b"
  shows "jget (orders (purge_relayer a b)) k = map_option (close_relayer a) (jget (orders b) k)"
    "book_ok (purge_relayer a b)" "map fst (orders (purge_relayer a b)) = map fst (orders b)"
    "jget (relayers (purge_relayer a b)) r = None \<longleftrightarrow> r = a \<or> jget (relayers b) r = None"
proof -
  define ids where "ids = bucket (relayerOrders b) a"
  have rv: "reverse_ok b" using assms by (simp add: book_ok_def)
  have member: "i \<in> set ids \<Longrightarrow> \<exists>s. jget (orders b) i = Some s \<and> relayer_of (ob_order s) = a" for i
    using rv by (simp add: reverse_ok_def ids_def)
  have cover: "jget (orders b) i = Some s \<Longrightarrow> is_open s \<Longrightarrow> relayer_of (ob_order s) = a \<Longrightarrow> i \<in> set ids" for i s
    using rv by (auto simp: reverse_ok_def ids_def)
  define b2 where "b2 = expire_ids ids b"
  note sp = expire_ids_spec [of ids b, folded b2_def]
  have ok2: "book_ok b2" using sp assms by simp
  have close: "jget (orders b2) i = map_option (close_relayer a) (jget (orders b) i)" for i
    using sp member [of i] cover [of i]
    by (cases "jget (orders b) i") (auto simp: close_relayer_def)
  define b3 where "b3 = b2\<lparr>relayerOrders := jdelete a (relayerOrders b2)\<rparr>"
  have none_open: "\<not> (is_open s \<and> relayer_of (ob_order s) = a)" if g: "jget (orders b2) i = Some s" for i s
  proof -
    obtain s0 where "s = close_relayer a s0" using g close [of i] by (cases "jget (orders b) i") auto
    then show ?thesis by (simp add: close_relayer_def is_open_def)
  qed
  have ok3: "book_ok b3"
  proof -
    have "reverse_ok b2" using ok2 by (simp add: book_ok_def)
    then have "reverse_ok b3" using none_open unfolding reverse_ok_def b3_def by (simp split: if_splits) blast
    then show ?thesis using ok2 by (simp add: book_ok_def ids_ok_def count_ok_def b3_def)
  qed
  have eq: "purge_relayer a b = (if jget (relayerOrders b) a = None then b else b3)
      \<lparr>relayers := jdelete a (relayers (if jget (relayerOrders b) a = None then b else b3))\<rparr>"
    by (cases "jget (relayerOrders b) a") (simp_all add: purge_relayer_def Let_def b3_def b2_def ids_def bucket_def)
  have empty: "b2 = b" if "jget (relayerOrders b) a = None" using that by (simp add: b2_def ids_def bucket_def)
  show "jget (orders (purge_relayer a b)) k = map_option (close_relayer a) (jget (orders b) k)"
    using close [of k] empty unfolding eq by (auto simp: b3_def)
  have "book_ok (if jget (relayerOrders b) a = None then b else b3)" using assms ok3 by simp
  then show "book_ok (purge_relayer a b)" unfolding eq by (rule book_ok_cong) simp_all
  show "map fst (orders (purge_relayer a b)) = map fst (orders b)" using sp unfolding eq by (simp add: b3_def)
  show "jget (relayers (purge_relayer a b)) r = None \<longleftrightarrow> r = a \<or> jget (relayers b) r = None"
    using sp unfolding eq by (simp add: b3_def)
qed

lemma close_again: "close_relayer a (close_relayer c s) = close_relayer c (close_relayer a s)"
  by (simp add: close_relayer_def)

definition close_all :: "string list \<Rightarrow> ob_stored \<Rightarrow> ob_stored" where
  "close_all rs s = (if is_open s \<and> relayer_of (ob_order s) \<in> set rs then s\<lparr>ob_status := ExpiredOrder\<rparr> else s)"

lemma close_all_Cons: "close_all (r # rs) s = close_all rs (close_relayer r s)"
  by (auto simp: close_all_def close_relayer_def is_open_def)

lemma purge_fold_spec:
  "book_ok b \<Longrightarrow>
   (\<forall>k. jget (orders (fold purge_relayer rs b)) k = map_option (close_all rs) (jget (orders b) k)) \<and>
   book_ok (fold purge_relayer rs b) \<and> map fst (orders (fold purge_relayer rs b)) = map fst (orders b) \<and>
   (\<forall>r. jget (relayers (fold purge_relayer rs b)) r = None \<longleftrightarrow> r \<in> set rs \<or> jget (relayers b) r = None)"
proof (induction rs arbitrary: b)
  case Nil
  have "map_option (close_all []) x = x" for x by (cases x) (simp_all add: close_all_def)
  then show ?case using Nil by simp
next
  case (Cons a rs)
  note p = purge_relayer_spec [OF Cons.prems, of a]
  have "map_option (close_all rs) (map_option (close_relayer a) x) = map_option (close_all (a # rs)) x" for x
    by (cases x) (simp_all add: close_all_Cons)
  then show ?case using Cons.IH [OF p(2)] p by auto
qed

section \<open>Restore\<close>

lemma load_fold:
  assumes "book_ok b" "distinct (map (\<lambda>s. sm_id (ob_order s)) rows)"
    and "\<And>s. s \<in> set rows \<Longrightarrow> jget (orders b) (sm_id (ob_order s)) = None"
  shows "book_ok (snd (fold load_one rows (k, b)))"
  using assms
proof (induction rows arbitrary: k b)
  case (Cons s rows)
  show ?case
  proof (cases "ob_status s = OpenOrder")
    case True
    let ?b = "index_order (ob_order s) (b\<lparr>orders := jset (sm_id (ob_order s)) s (orders b)\<rparr>)"
    have "book_ok ?b" using Cons.prems True by (intro book_ok_enter) (simp_all add: is_open_def)
    moreover have "jget (orders ?b) (sm_id (ob_order s')) = None" if "s' \<in> set rows" for s'
    proof -
      have "sm_id (ob_order s') \<in> (\<lambda>s. sm_id (ob_order s)) ` set rows" using that by (rule imageI)
      then have "sm_id (ob_order s') \<noteq> sm_id (ob_order s)" using Cons.prems(2) by auto
      then show ?thesis using Cons.prems(3) [of s'] that by (simp add: index_order_def)
    qed
    ultimately show ?thesis using Cons.IH [of ?b "Suc k"] Cons.prems(2) True by (simp add: load_one_def)
  next
    case False
    then show ?thesis using Cons.IH [of b k] Cons.prems by (simp add: load_one_def)
  qed
qed simp

section \<open>Reachable books\<close>

datatype book_event =
    BRegister "string \<Rightarrow> bool" string string "string option" seconds
  | BHeartbeat string seconds
  | BAdd order_summary
  | BRemove string
  | BClose string ob_status "string option"
  | BExpire seconds
  | BStale seconds seconds

fun book_step :: "book_limits \<Rightarrow> book_event \<Rightarrow> book \<Rightarrow> book" where
  "book_step lims (BRegister u a url nm now) b = (case registerRelayer u a url nm now b of None \<Rightarrow> b | Some b' \<Rightarrow> b')"
| "book_step lims (BHeartbeat a now) b = snd (heartbeat a now b)"
| "book_step lims (BAdd o') b = (case addOrder lims o' b of Inl e \<Rightarrow> b | Inr b' \<Rightarrow> b')"
| "book_step lims (BRemove i) b = snd (removeOrder i b)"
| "book_step lims (BClose i st mid) b = (if st = OpenOrder then b else updateStatus i st mid b)"
| "book_step lims (BExpire now) b = snd (purgeExpired now b)"
| "book_step lims (BStale th now) b = snd (purgeStaleRelayers th now b)"

text \<open>A book is reachable if it was restored from rows with distinct ids and then changed by operations.\<close>

inductive reachable :: "book_limits \<Rightarrow> book \<Rightarrow> bool" for lims where
  restored: "distinct (map (\<lambda>s. sm_id (ob_order s)) rows) \<Longrightarrow> reachable lims (snd (loadFromStored rows empty_book))"
| step: "reachable lims b \<Longrightarrow> reachable lims (book_step lims e b)"

lemma book_ok_step: "book_ok b \<Longrightarrow> book_ok (book_step lims e b)"
proof (cases e)
  case (BExpire now)
  assume "book_ok b"
  then show ?thesis using BExpire expire_loop_spec [of now "orders b" "[]" b]
    by (cases "expire_loop now (orders b) [] b") (simp add: purgeExpired_def)
next
  case (BStale th now)
  assume "book_ok b"
  then show ?thesis using BStale purge_fold_spec by (simp add: purgeStaleRelayers_def Let_def)
qed (auto simp: book_ok_heartbeat book_ok_remove book_ok_status
      intro: book_ok_register book_ok_add split: option.splits sum.splits)

lemma reachable_book_ok: "reachable lims b \<Longrightarrow> book_ok b"
proof (induction rule: reachable.induct)
  case (restored rows)
  show ?case unfolding loadFromStored_def
    by (rule load_fold [OF book_ok_empty restored]) (simp add: empty_book_def)
next
  case (step b e)
  then show ?case by (simp add: book_ok_step)
qed

section \<open>Properties\<close>

text \<open>
  C18.  In every reachable book the statistics report the true number of open listings, and each
  side of a pair lists exactly the open listings of that side, pair and network: no closed or dropped
  listing stays in an index and no open one is missing from it.
\<close>

theorem book_indexes_exact:
  assumes "reachable lims b"
  shows "bs_totalOrders (getStats b) = int (jcount is_open (orders b)) \<and>
    (\<forall>i k. i \<in> set (bucket (sellSide b) k) \<longleftrightarrow> (\<exists>s. jget (orders b) i = Some s \<and> is_open s \<and>
       isSellSide (ob_order s) \<and> indexKey (ob_order s) = k)) \<and>
    (\<forall>i k. i \<in> set (bucket (buySide b) k) \<longleftrightarrow> (\<exists>s. jget (orders b) i = Some s \<and> is_open s \<and>
       \<not> isSellSide (ob_order s) \<and> indexKey (ob_order s) = k))"
  using reachable_book_ok [OF assms] by (simp add: book_ok_def count_ok_def side_ok_def getStats_def)

definition listing_wf :: "order_summary \<Rightarrow> bool" where
  "listing_wf o' \<longleftrightarrow> ETH_ADDRESS_RE (sm_sellToken o') \<and> ETH_ADDRESS_RE (sm_buyToken o') \<and>
     toLowerCase (sm_sellToken o') \<noteq> toLowerCase (sm_buyToken o') \<and> 0 \<le> chain_of o'"

text \<open>Equal index keys: same network and same two tokens.\<close>

lemma indexKey_eq:
  assumes "listing_wf x" "listing_wf y"
  shows "indexKey x = indexKey y \<longleftrightarrow> chain_of x = chain_of y \<and>
    {toLowerCase (sm_sellToken x), toLowerCase (sm_buyToken x)} = {toLowerCase (sm_sellToken y), toLowerCase (sm_buyToken y)}"
proof -
  have c: "CHR '':'' \<notin> set (dec (chain_of x))" "CHR '':'' \<notin> set (dec (chain_of y))"
    using assms colon_not_digit by (simp_all add: listing_wf_def)
  have t: "tokenPairKey (sm_sellToken x) (sm_buyToken x) = tokenPairKey (sm_sellToken y) (sm_buyToken y) \<longleftrightarrow>
      {toLowerCase (sm_sellToken x), toLowerCase (sm_buyToken x)} = {toLowerCase (sm_sellToken y), toLowerCase (sm_buyToken y)}"
    using assms by (intro tokenPairKey_iff) (simp_all add: listing_wf_def)
  show ?thesis using split_at_sep [OF c] assms t by (simp add: indexKey_def listing_wf_def)
qed

lemma opposite_side:
  assumes "listing_wf x" "listing_wf y"
  shows "indexKey x = indexKey y \<and> isSellSide x = (\<not> isSellSide y) \<longleftrightarrow>
    chain_of x = chain_of y \<and> toLowerCase (sm_sellToken x) = toLowerCase (sm_buyToken y) \<and>
    toLowerCase (sm_buyToken x) = toLowerCase (sm_sellToken y)"
proof -
  let ?sx = "toLowerCase (sm_sellToken x)" and ?bx = "toLowerCase (sm_buyToken x)"
  let ?sy = "toLowerCase (sm_sellToken y)" and ?by = "toLowerCase (sm_buyToken y)"
  have "str_less ?sy ?by \<noteq> str_less ?by ?sy"
    using assms(2) str_less_trichotomy [of ?sy ?by] str_less_asym [of ?sy ?by] str_less_asym [of ?by ?sy]
    by (auto simp: listing_wf_def)
  then have "{?sx, ?bx} = {?sy, ?by} \<and> str_less ?sx ?bx = (\<not> str_less ?sy ?by) \<longleftrightarrow> ?sx = ?by \<and> ?bx = ?sy"
    by (auto simp: doubleton_eq_iff)
  then show ?thesis using indexKey_eq [OF assms] by (auto simp: isSellSide_def)
qed

text \<open>
  The counterparties offered for an order are exactly the open listings on the same network
  that sell what it buys and buy what it sells, whatever the letter case of the addresses.
\<close>

lemma counterparties_exact:
  assumes "reachable lims b" "listing_wf o'" "\<And>i s. jget (orders b) i = Some s \<Longrightarrow> listing_wf (ob_order s)"
  shows "set (getCounterpartyOrders o' b) = {s. \<exists>i. jget (orders b) i = Some s \<and> ob_status s = OpenOrder \<and>
    chain_of (ob_order s) = chain_of o' \<and>
    toLowerCase (sm_sellToken (ob_order s)) = toLowerCase (sm_buyToken o') \<and>
    toLowerCase (sm_buyToken (ob_order s)) = toLowerCase (sm_sellToken o')}"
proof -
  have ok: "book_ok b" using reachable_book_ok [OF assms(1)] .
  let ?m = "if isSellSide o' then buySide b else sellSide b"
  have side: "i \<in> set (bucket ?m (indexKey o')) \<longleftrightarrow> (\<exists>s. jget (orders b) i = Some s \<and> is_open s \<and>
      indexKey (ob_order s) = indexKey o' \<and> isSellSide (ob_order s) = (\<not> isSellSide o'))" for i
    using ok by (auto simp: book_ok_def side_ok_def)
  have "s \<in> set (getCounterpartyOrders o' b) \<longleftrightarrow> (\<exists>i. i \<in> set (bucket ?m (indexKey o')) \<and> open_at b i = Some s)" for s
    by (auto simp: getCounterpartyOrders_def List.map_filter_def image_iff intro: rev_bexI)
  also have "\<dots> s \<longleftrightarrow> (\<exists>i. jget (orders b) i = Some s \<and> is_open s \<and>
      indexKey (ob_order s) = indexKey o' \<and> isSellSide (ob_order s) = (\<not> isSellSide o'))" for s
    by (auto simp: side open_at_Some)
  finally show ?thesis using opposite_side [OF assms(3) assms(2)] by (auto simp: is_open_def)
qed

text \<open>
  The purge of expired listings closes exactly the open ones whose expiry has passed, reports
  exactly their ids (the list the database is brought up to date with), and leaves no open listing
  that has expired.
\<close>

lemma purge_expired_spec:
  assumes "reachable lims b" "purgeExpired now b = (ids, b')"
  shows "(\<forall>i. i \<in> set ids \<longleftrightarrow> (\<exists>s. jget (orders b) i = Some s \<and> is_open s \<and> sm_expiry (ob_order s) \<le> of_int now)) \<and>
    (\<forall>i. jget (orders b') i = (if i \<in> set ids then map_option (\<lambda>s. s\<lparr>ob_status := ExpiredOrder\<rparr>) (jget (orders b) i)
                            else jget (orders b) i)) \<and>
    (\<forall>i s. jget (orders b') i = Some s \<and> is_open s \<longrightarrow> of_int now < sm_expiry (ob_order s))"
proof -
  have ok: "book_ok b" using reachable_book_ok [OF assms(1)] .
  then have mem: "\<And>i s. (i, s) \<in> set (orders b) \<longleftrightarrow> jget (orders b) i = Some s"
    by (intro in_jget) (simp add: book_ok_def ids_ok_def)
  have sp: "ids = map fst (filter (\<lambda>(i, s). expired_at now s) (orders b))"
    "\<And>k. jget (orders b') k = (if k \<in> fst ` set (filter (\<lambda>(i, s). expired_at now s) (orders b))
      then map_option (\<lambda>s. s\<lparr>ob_status := ExpiredOrder\<rparr>) (jget (orders b) k) else jget (orders b) k)"
    using expire_loop_spec [of now "orders b" "[]" b ids b'] assms(2) by (simp_all add: purgeExpired_def)
  have ids: "i \<in> set ids \<longleftrightarrow> (\<exists>s. jget (orders b) i = Some s \<and> expired_at now s)" for i
    using mem by (force simp: sp(1))
  have upd: "jget (orders b') i = (if i \<in> set ids then map_option (\<lambda>s. s\<lparr>ob_status := ExpiredOrder\<rparr>) (jget (orders b) i)
      else jget (orders b) i)" for i
    using sp by simp
  have late: "of_int now < sm_expiry (ob_order s)" if "jget (orders b') i = Some s" "is_open s" for i s
    using that upd [of i] ids [of i] by (auto simp: expired_at_def is_open_def split: if_splits)
  show ?thesis
  proof (intro conjI)
    show "\<forall>i. i \<in> set ids \<longleftrightarrow> (\<exists>s. jget (orders b) i = Some s \<and> is_open s \<and> sm_expiry (ob_order s) \<le> of_int now)"
      using ids by (simp add: expired_at_def)
    show "\<forall>i. jget (orders b') i = (if i \<in> set ids then map_option (\<lambda>s. s\<lparr>ob_status := ExpiredOrder\<rparr>) (jget (orders b) i)
        else jget (orders b) i)" using upd by simp
    show "\<forall>i s. jget (orders b') i = Some s \<and> is_open s \<longrightarrow> of_int now < sm_expiry (ob_order s)" using late by blast
  qed
qed

end
