(* ===== verification/SharedRoutes.thy ===== *)
theory SharedRoutes
  imports SharedBookFacts
begin

text \<open>
  The HTTP handlers that write listings (\<open>shared-orderbook/src/routes/orders.ts\<close>), the parser of a
  posted summary (\<open>types/order.ts\<close>, \<open>core/chain.ts\<close>), the orders table (\<open>core/db.ts\<close>), and the
  timers and the restart of \<open>index.ts\<close>.  A request has passed \<open>relayerAuth\<close>, which lower-cases the
  address it authenticates; the URL guard's verdict is an input.
\<close>

section \<open>Parsing a summary\<close>

definition MAX_SAFE_INTEGER :: int where "MAX_SAFE_INTEGER = 2 ^ 53 - 1"

text \<open>\<open>coerceChainId\<close>: an error, nothing, or a chain id.\<close>

definition chain_error :: "raw_value \<Rightarrow> string" where
  "chain_error v = (case js_String v of None \<Rightarrow> NO_PRIMITIVE | Some t \<Rightarrow> ''invalid chainId: '' @ t)"

definition coerceChainId :: "raw_value \<Rightarrow> string + int option" where
  "coerceChainId v =
     (if v \<in> {VUndefined, VNull, VString []} then Inr None
      else case raw_number v of
        None \<Rightarrow> Inl NO_PRIMITIVE
      | Some n \<Rightarrow>
      (case js_integer n of
        None \<Rightarrow> Inl (chain_error v)
      | Some i \<Rightarrow> if i \<le> 0 \<or> MAX_SAFE_INTEGER < i then Inl (chain_error v) else Inr (Some i)))"

definition chainIdOrDefault :: "raw_value \<Rightarrow> string + int" where
  "chainIdOrDefault v = (case coerceChainId v of
     Inl e \<Rightarrow> Inl e | Inr None \<Rightarrow> Inr DEFAULT_CHAIN_ID | Inr (Some c) \<Rightarrow> Inr c)"

definition parseChainIdQuery :: "raw_value \<Rightarrow> string + int" where
  "parseChainIdQuery v = (case chainIdOrDefault v of
     Inl e \<Rightarrow> Inl ''chainId: must be a positive integer'' | Inr c \<Rightarrow> Inr c)"

record raw_order =
  raw_id :: raw_value
  raw_chainId :: raw_value
  raw_sellToken :: raw_value
  raw_buyToken :: raw_value
  raw_sellAmount :: raw_value
  raw_buyAmount :: raw_value
  raw_minFillAmount :: raw_value
  raw_maxFee :: raw_value
  raw_expiry :: raw_value

definition bigint_error :: "string \<Rightarrow> string" where
  "bigint_error s = ''Cannot convert '' @ s @ '' to a BigInt''"

text \<open>\<open>!s || BigInt(s) <= 0n\<close>; the error is that of BigInt.\<close>

definition not_positive :: "string \<Rightarrow> string + bool" where
  "not_positive s = (if s = [] then Inr True else case js_BigInt s of
     None \<Rightarrow> Inl (bigint_error s) | Some i \<Rightarrow> Inr (i \<le> 0))"

definition min_fill_negative :: "string \<Rightarrow> string + bool" where
  "min_fill_negative s = (if s = [] then Inr False else case js_BigInt s of
     None \<Rightarrow> Inl (bigint_error s) | Some i \<Rightarrow> Inr (i < 0))"

text \<open>\<open>Number.isFinite(n)\<close>, with the value.\<close>

definition finite_number :: "js_number \<Rightarrow> rat option" where
  "finite_number n = (case n of JsFin q \<Rightarrow> Some q | _ \<Rightarrow> None)"

text \<open>
  All conversions precede the checks, and each of them throws the same TypeError on a value without a
  primitive.
\<close>

definition summary_checks ::
  "int \<Rightarrow> string \<Rightarrow> string \<Rightarrow> string \<Rightarrow> string \<Rightarrow> string \<Rightarrow> js_number \<Rightarrow> js_number \<Rightarrow> string \<Rightarrow> string \<Rightarrow> string \<Rightarrow> seconds \<Rightarrow>
   string + order_summary" where
  "summary_checks chainId sellTok buyTok sellAmt buyAmt minFill feeNum expNum i rel relayerUrl now =
     (if \<not> OFFER_HANDLE_RE i then Inl ''invalid order id (expect 0x-prefixed 32-byte hex offer handle)''
      else if \<not> ETH_ADDRESS_RE sellTok then Inl ''invalid sellToken address''
      else if \<not> ETH_ADDRESS_RE buyTok then Inl ''invalid buyToken address''
      else if eqAddr (Some sellTok) (Some buyTok) then Inl ''sellToken == buyToken''
      else case not_positive sellAmt of
        Inl e \<Rightarrow> Inl e
      | Inr bad \<Rightarrow>
      if bad then Inl ''sellAmount must be > 0''
      else case not_positive buyAmt of
        Inl e \<Rightarrow> Inl e
      | Inr bad \<Rightarrow>
      if bad then Inl ''buyAmount must be > 0''
      else case min_fill_negative minFill of
        Inl e \<Rightarrow> Inl e
      | Inr bad \<Rightarrow>
      if bad then Inl ''minFillAmount must be >= 0''
      else case finite_number feeNum of
        None \<Rightarrow> Inl ''maxFee must be >= 0''
      | Some fee \<Rightarrow>
      if fee < 0 then Inl ''maxFee must be >= 0''
      else case finite_number expNum of
        None \<Rightarrow> Inl ''invalid expiry''
      | Some ex \<Rightarrow>
      if ex \<le> 0 then Inl ''invalid expiry''
      else if ex \<le> of_int now then Inl ''order already expired''
      else Inr \<lparr>sm_id = i, sm_chainId = Some chainId, sm_relayer = toLowerCase rel, sm_relayerUrl = relayerUrl,
             sm_sellToken = toLowerCase sellTok, sm_buyToken = toLowerCase buyTok,
             sm_sellAmount = sellAmt, sm_buyAmount = buyAmt,
             sm_minFillAmount = (if minFill = [] then ''0'' else minFill),
             sm_maxFee = fee, sm_expiry = ex, sm_createdAt = now\<rparr>)"

definition parseOrderSummary :: "raw_order \<Rightarrow> string \<Rightarrow> string \<Rightarrow> seconds \<Rightarrow> string + order_summary" where
  "parseOrderSummary raw rel relayerUrl now =
     (case chainIdOrDefault (raw_chainId raw) of
        Inl e \<Rightarrow> Inl e
      | Inr chainId \<Rightarrow>
      case (raw_string [] (raw_sellToken raw), raw_string [] (raw_buyToken raw),
            raw_string [] (raw_sellAmount raw), raw_string [] (raw_buyAmount raw),
            raw_string ''0'' (raw_minFillAmount raw), raw_number (raw_maxFee raw), raw_number (raw_expiry raw),
            raw_string [] (raw_id raw)) of
        (Some sellTok, Some buyTok, Some sellAmt, Some buyAmt, Some minFill, Some feeNum, Some expNum, Some i) \<Rightarrow>
          summary_checks chainId sellTok buyTok sellAmt buyAmt minFill feeNum expNum i rel relayerUrl now
      | _ \<Rightarrow> Inl NO_PRIMITIVE)"

section \<open>The orders table\<close>

type_synonym ob_table = "(string, ob_stored) jmap"

text \<open>None is the PRIMARY KEY error.\<close>

definition insertOrder :: "order_summary \<Rightarrow> ob_table \<Rightarrow> ob_table option" where
  "insertOrder o' t = (if jhas t (sm_id o') then None
     else Some (jset (sm_id o') \<lparr>ob_order = o'\<lparr>sm_chainId := Some (chain_of o')\<rparr>, ob_status = OpenOrder,
       ob_matchId = None\<rparr> t))"

definition updateRow :: "string \<Rightarrow> ob_status \<Rightarrow> string option \<Rightarrow> ob_table \<Rightarrow> ob_table" where
  "updateRow i st mid = jmodify i (\<lambda>s. s\<lparr>ob_status := st, ob_matchId := mid\<rparr>)"

definition expireByIds :: "string list \<Rightarrow> ob_table \<Rightarrow> ob_table" where
  "expireByIds ids t = fold (\<lambda>i. updateRow i ExpiredOrder None) ids t"

definition deleteRow :: "string \<Rightarrow> ob_table \<Rightarrow> ob_table" where
  "deleteRow i = jdelete i"

definition loadAllOpen :: "ob_table \<Rightarrow> ob_stored list" where
  "loadAllOpen t = by_created (filter is_open (jvalues t))"

definition listByPair :: "int \<Rightarrow> string \<Rightarrow> string \<Rightarrow> nat \<Rightarrow> nat \<Rightarrow> ob_table \<Rightarrow> ob_stored list" where
  "listByPair chainId tokenA tokenB limit offset t =
     (let a = toLowerCase tokenA; b = toLowerCase tokenB;
          side = (\<lambda>x y. filter (\<lambda>s. chain_of (ob_order s) = chainId \<and> is_open s \<and>
                    sm_sellToken (ob_order s) = x \<and> sm_buyToken (ob_order s) = y) (jvalues t)) in
      take limit (drop offset (by_created (side a b @ side b a))))"

section \<open>Handlers\<close>

datatype broadcast_event = OrderNew order_summary | OrderCancelled string string | OrderMatched string string
  | RelayerOffline string | RelayerRegistered string string

record server =
  sv_book :: book
  sv_db :: ob_table
  sv_sent :: "broadcast_event list"

datatype ob_response = OBError nat string | OBOk nat string ob_status | OBRelayer relayer_info | OBAlive string

datatype url_verdict = UrlSafe | UrlRefused string | UrlCheckThrows string

text \<open>The order route: POST, with the configuration, the verdict on the URL and the clock.  First a
  closed row with the same id is dropped from memory and table, then the listing enters both.\<close>

definition post_replace :: "string \<Rightarrow> server \<Rightarrow> server" where
  "post_replace i sv = (if getOrder i (sv_book sv) = None then sv
     else sv\<lparr>sv_book := snd (removeOrder i (sv_book sv)), sv_db := deleteRow i (sv_db sv)\<rparr>)"

definition post_enter :: "book_limits \<Rightarrow> order_summary \<Rightarrow> server \<Rightarrow> ob_response \<times> server" where
  "post_enter lims ord sv =
     (case addOrder lims ord (sv_book sv) of
        Inl e \<Rightarrow> (OBError 400 e, sv)
      | Inr b \<Rightarrow>
      (case insertOrder ord (sv_db sv) of
        None \<Rightarrow> (OBError 400 ''UNIQUE constraint failed: orders.id'', sv\<lparr>sv_book := b\<rparr>)
      | Some t \<Rightarrow> (OBOk 201 (sm_id ord) OpenOrder,
                   sv\<lparr>sv_book := b, sv_db := t, sv_sent := sv_sent sv @ [OrderNew ord]\<rparr>)))"

definition postListing ::
  "book_limits \<Rightarrow> (string \<Rightarrow> bool) \<Rightarrow> url_verdict \<Rightarrow> string \<Rightarrow> string \<Rightarrow> raw_order \<Rightarrow> seconds \<Rightarrow> server \<Rightarrow>
   ob_response \<times> server" where
  "postListing lims url_ok verdict relayerAddress relayerUrl raw now sv =
     (if relayerUrl = [] then (OBError 400 ''x-relayer-url header required for order posting'', sv)
      else case verdict of
        UrlRefused m \<Rightarrow> (OBError 400 (''unsafe relayer URL: '' @ m), sv)
      | UrlCheckThrows m \<Rightarrow> (OBError 400 m, sv)
      | UrlSafe \<Rightarrow>
      (case registerRelayer url_ok relayerAddress relayerUrl None now (sv_book sv) of
        None \<Rightarrow> (OBError 400 ''invalid relayer URL'', sv)
      | Some b \<Rightarrow>
      (case parseOrderSummary raw relayerAddress relayerUrl now of
        Inl e \<Rightarrow> (OBError 400 e, sv\<lparr>sv_book := b\<rparr>)
      | Inr ord \<Rightarrow>
          if (case getOrder (sm_id ord) b of Some s \<Rightarrow> ob_status s = OpenOrder | None \<Rightarrow> False)
          then (OBError 409 ''order already exists'', sv\<lparr>sv_book := b\<rparr>)
          else post_enter lims ord (post_replace (sm_id ord) (sv\<lparr>sv_book := b\<rparr>)))))"

definition ob_status_name :: "ob_status \<Rightarrow> string" where
  "ob_status_name s = (case s of OpenOrder \<Rightarrow> ''open'' | MatchedOrder \<Rightarrow> ''matched''
     | CancelledOrder \<Rightarrow> ''cancelled'' | ExpiredOrder \<Rightarrow> ''expired'')"

definition cancelListing :: "string \<Rightarrow> string \<Rightarrow> server \<Rightarrow> ob_response \<times> server" where
  "cancelListing relayerAddress i sv =
     (case getOrder i (sv_book sv) of
        None \<Rightarrow> (OBError 404 ''order not found'', sv)
      | Some s \<Rightarrow>
          if sm_relayer (ob_order s) \<noteq> relayerAddress then (OBError 403 ''not your order'', sv)
          else if ob_status s \<noteq> OpenOrder
          then (OBError 409 (''order is '' @ ob_status_name (ob_status s) @ '', cannot cancel''), sv)
          else (OBOk 200 i CancelledOrder,
            sv\<lparr>sv_book := updateStatus i CancelledOrder None (sv_book sv),
               sv_db := updateRow i CancelledOrder None (sv_db sv),
               sv_sent := sv_sent sv @ [OrderCancelled i relayerAddress]\<rparr>))"

definition matchListing :: "string \<Rightarrow> string \<Rightarrow> server \<Rightarrow> ob_response \<times> server" where
  "matchListing relayerAddress i sv =
     (case getOrder i (sv_book sv) of
        None \<Rightarrow> (OBError 404 ''order not found'', sv)
      | Some s \<Rightarrow>
          if \<not> (sm_relayer (ob_order s) = relayerAddress \<or>
                toLowerCase (sm_relayer (ob_order s)) = toLowerCase relayerAddress)
          then (OBError 403 ''not your order'', sv)
          else if ob_status s \<noteq> OpenOrder
          then (OBError 409 (''order is '' @ ob_status_name (ob_status s) @ '', cannot mark matched''), sv)
          else (OBOk 200 i MatchedOrder,
            sv\<lparr>sv_book := updateStatus i MatchedOrder None (sv_book sv),
               sv_db := updateRow i MatchedOrder None (sv_db sv),
               sv_sent := sv_sent sv @ [OrderMatched i relayerAddress]\<rparr>))"

text \<open>The relayer routes that write: registration, with an optional name, and the heartbeat.\<close>

definition registerRoute ::
  "(string \<Rightarrow> bool) \<Rightarrow> url_verdict \<Rightarrow> string \<Rightarrow> string \<Rightarrow> string option \<Rightarrow> seconds \<Rightarrow> server \<Rightarrow> ob_response \<times> server" where
  "registerRoute url_ok verdict relayerAddress relayerUrl name now sv =
     (case verdict of
        UrlRefused m \<Rightarrow> (OBError 400 (''unsafe relayer URL: '' @ m), sv)
      | UrlCheckThrows m \<Rightarrow> (OBError 500 m, sv)
      | UrlSafe \<Rightarrow>
      (case registerRelayer url_ok relayerAddress relayerUrl name now (sv_book sv) of
        None \<Rightarrow> (OBError 500 ''invalid relayer URL'', sv)
      | Some b \<Rightarrow> (OBRelayer (the (jget (relayers b) (toLowerCase relayerAddress))),
          sv\<lparr>sv_book := b, sv_sent := sv_sent sv @ [RelayerRegistered relayerAddress relayerUrl]\<rparr>)))"

definition heartbeatRoute :: "string \<Rightarrow> seconds \<Rightarrow> server \<Rightarrow> ob_response \<times> server" where
  "heartbeatRoute relayerAddress now sv =
     (case heartbeat relayerAddress now (sv_book sv) of
        (False, _) \<Rightarrow> (OBError 404 ''relayer not registered'', sv)
      | (True, b) \<Rightarrow> (OBAlive relayerAddress, sv\<lparr>sv_book := b\<rparr>))"

section \<open>Timers and restart\<close>

definition expireTimer :: "seconds \<Rightarrow> server \<Rightarrow> server" where
  "expireTimer now sv = (case purgeExpired now (sv_book sv) of
     (ids, b) \<Rightarrow> sv\<lparr>sv_book := b, sv_db := (if ids = [] then sv_db sv else expireByIds ids (sv_db sv))\<rparr>)"

definition staleTimer :: "seconds \<Rightarrow> server \<Rightarrow> server" where
  "staleTimer now sv = (case purgeStaleRelayers 600 now (sv_book sv) of
     (stale, b) \<Rightarrow> sv\<lparr>sv_book := b, sv_sent := sv_sent sv @ map RelayerOffline stale\<rparr>)"

definition restart :: "server \<Rightarrow> server" where
  "restart sv = \<lparr>sv_book = snd (loadFromStored (loadAllOpen (sv_db sv)) empty_book), sv_db = sv_db sv, sv_sent = []\<rparr>"

section \<open>What the parser lets through\<close>

lemma string_inr: "(case x of Inl e \<Rightarrow> Inl e | Inr b \<Rightarrow> if b then Inl m else f) = Inr y \<longleftrightarrow> x = Inr False \<and> f = Inr y"
  by (cases x) auto

lemma not_positive_False: "not_positive s = Inr False \<longleftrightarrow> s \<noteq> [] \<and> (\<exists>i. js_BigInt s = Some i \<and> 0 < i)"
  by (auto simp: not_positive_def not_le split: option.splits)

lemma chain_default_range: "chainIdOrDefault v = Inr c \<Longrightarrow> 0 < c \<and> c \<le> MAX_SAFE_INTEGER"
  by (auto simp: chainIdOrDefault_def coerceChainId_def DEFAULT_CHAIN_ID_def MAX_SAFE_INTEGER_def
      split: if_splits option.splits sum.splits)

lemma finite_number_Some: "finite_number n = Some q \<longleftrightarrow> n = JsFin q"
  by (auto simp: finite_number_def split: js_number.splits)

lemma min_fill_False:
  assumes "min_fill_negative s = Inr False"
  shows "\<exists>z. js_BigInt (if s = [] then ''0'' else s) = Some z \<and> 0 \<le> z"
proof -
  have "js_BigInt ''0'' = Some 0" by code_simp
  then show ?thesis using assms by (auto simp: min_fill_negative_def split: option.splits if_splits)
qed

lemma summary_checks_Inr:
  assumes "summary_checks c s b sa ba mf fee ex i rel url now = Inr o'"
  obtains f x where "fee = JsFin f" "ex = JsFin x" "OFFER_HANDLE_RE i" "ETH_ADDRESS_RE s" "ETH_ADDRESS_RE b"
    "toLowerCase s \<noteq> toLowerCase b" "not_positive sa = Inr False" "not_positive ba = Inr False" "min_fill_negative mf = Inr False"
    "0 \<le> f" "0 < x" "of_int now < x"
    "o' = \<lparr>sm_id = i, sm_chainId = Some c, sm_relayer = toLowerCase rel, sm_relayerUrl = url,
      sm_sellToken = toLowerCase s, sm_buyToken = toLowerCase b, sm_sellAmount = sa, sm_buyAmount = ba,
      sm_minFillAmount = (if mf = [] then ''0'' else mf), sm_maxFee = f, sm_expiry = x, sm_createdAt = now\<rparr>"
proof -
  obtain f x where p: "fee = JsFin f" "ex = JsFin x" "OFFER_HANDLE_RE i" "ETH_ADDRESS_RE s" "ETH_ADDRESS_RE b"
    "\<not> eqAddr (Some s) (Some b)" "not_positive sa = Inr False" "not_positive ba = Inr False" "min_fill_negative mf = Inr False"
    "0 \<le> f" "0 < x" "of_int now < x"
    and o': "o' = \<lparr>sm_id = i, sm_chainId = Some c, sm_relayer = toLowerCase rel, sm_relayerUrl = url,
      sm_sellToken = toLowerCase s, sm_buyToken = toLowerCase b, sm_sellAmount = sa, sm_buyAmount = ba,
      sm_minFillAmount = (if mf = [] then ''0'' else mf), sm_maxFee = f, sm_expiry = x, sm_createdAt = now\<rparr>"
    using assms by (auto simp: summary_checks_def string_inr not_le not_less finite_number_Some split: if_splits option.splits)
  have "s \<noteq> []" "b \<noteq> []" using p(4,5) ETH_length by fastforce+
  then have "toLowerCase s \<noteq> toLowerCase b" using p(6) by (simp add: eqAddr_iff)
  then show thesis using that p o' by blast
qed

lemma parse_Inr:
  assumes "parseOrderSummary raw rel url now = Inr o'"
  obtains c s b mf where "chainIdOrDefault (raw_chainId raw) = Inr c" "raw_string [] (raw_sellToken raw) = Some s"
    "raw_string [] (raw_buyToken raw) = Some b" "ETH_ADDRESS_RE s" "ETH_ADDRESS_RE b" "toLowerCase s \<noteq> toLowerCase b"
    "raw_string [] (raw_id raw) = Some (sm_id o')" "raw_string [] (raw_sellAmount raw) = Some (sm_sellAmount o')"
    "raw_string [] (raw_buyAmount raw) = Some (sm_buyAmount o')" "raw_string ''0'' (raw_minFillAmount raw) = Some mf"
    "raw_number (raw_maxFee raw) = Some (JsFin (sm_maxFee o'))" "raw_number (raw_expiry raw) = Some (JsFin (sm_expiry o'))"
    "OFFER_HANDLE_RE (sm_id o')" "not_positive (sm_sellAmount o') = Inr False" "not_positive (sm_buyAmount o') = Inr False"
    "min_fill_negative mf = Inr False" "sm_minFillAmount o' = (if mf = [] then ''0'' else mf)"
    "0 \<le> sm_maxFee o'" "0 < sm_expiry o'" "of_int now < sm_expiry o'"
    "sm_chainId o' = Some c" "sm_relayer o' = toLowerCase rel" "sm_relayerUrl o' = url" "sm_createdAt o' = now"
    "sm_sellToken o' = toLowerCase s" "sm_buyToken o' = toLowerCase b"
proof -
  obtain c where c: "chainIdOrDefault (raw_chainId raw) = Inr c"
    using assms by (auto simp: parseOrderSummary_def split: sum.splits)
  obtain s b sa ba mf fee ex i where v: "raw_string [] (raw_sellToken raw) = Some s" "raw_string [] (raw_buyToken raw) = Some b"
    "raw_string [] (raw_sellAmount raw) = Some sa" "raw_string [] (raw_buyAmount raw) = Some ba"
    "raw_string ''0'' (raw_minFillAmount raw) = Some mf" "raw_number (raw_maxFee raw) = Some fee"
    "raw_number (raw_expiry raw) = Some ex" "raw_string [] (raw_id raw) = Some i"
    and k: "summary_checks c s b sa ba mf fee ex i rel url now = Inr o'"
    using assms c by (auto simp: parseOrderSummary_def split: option.splits)
  show thesis by (rule summary_checks_Inr [OF k], rule that [OF c v(1,2)]) (use v in simp_all)
qed

lemma parse_ok:
  assumes "parseOrderSummary raw rel url now = Inr o'"
  shows "listing_wf o'" "sm_chainId o' = Some (chain_of o')" "0 < chain_of o'" "chain_of o' \<le> MAX_SAFE_INTEGER"
    "\<exists>z. js_BigInt (sm_minFillAmount o') = Some z \<and> 0 \<le> z"
proof -
  obtain c s b mf where p: "chainIdOrDefault (raw_chainId raw) = Inr c" "ETH_ADDRESS_RE s" "ETH_ADDRESS_RE b" "toLowerCase s \<noteq> toLowerCase b"
    "sm_chainId o' = Some c" "sm_sellToken o' = toLowerCase s" "sm_buyToken o' = toLowerCase b"
    "min_fill_negative mf = Inr False" "sm_minFillAmount o' = (if mf = [] then ''0'' else mf)"
    by (rule parse_Inr [OF assms]) blast
  show "listing_wf o'" "sm_chainId o' = Some (chain_of o')" "0 < chain_of o'" "chain_of o' \<le> MAX_SAFE_INTEGER"
    using p(2-7) ETH_lower chain_default_range [OF p(1)] by (simp_all add: listing_wf_def chain_of_def)
  show "\<exists>z. js_BigInt (sm_minFillAmount o') = Some z \<and> 0 \<le> z" using min_fill_False [OF p(8)] p(9) by simp
qed

text \<open>
  C40.  Whatever the body, numbers, fractions, booleans, arrays and objects included, a summary the parser
  accepts has: as id an offer handle, the text that was posted; as tokens the two posted addresses in
  lower case, which are different; as amounts the posted texts, which are positive integers; a fill
  minimum that is an integer and not negative; the finite values of the posted fee and expiry, the fee
  not negative and the expiry in the future; a valid network, and the authenticated relayer in lower case
  with the URL of the request.  So it meets the conditions under which the index separates pairs and sides.
\<close>

theorem parsed_summary_ok:
  assumes "parseOrderSummary raw rel url now = Inr o'"
  shows "OFFER_HANDLE_RE (sm_id o') \<and> raw_string [] (raw_id raw) = Some (sm_id o') \<and>
    (\<exists>s b. raw_string [] (raw_sellToken raw) = Some s \<and> raw_string [] (raw_buyToken raw) = Some b \<and>
       ETH_ADDRESS_RE s \<and> ETH_ADDRESS_RE b \<and> sm_sellToken o' = toLowerCase s \<and> sm_buyToken o' = toLowerCase b) \<and>
    toLowerCase (sm_sellToken o') = sm_sellToken o' \<and> toLowerCase (sm_buyToken o') = sm_buyToken o' \<and>
    sm_sellToken o' \<noteq> sm_buyToken o' \<and>
    raw_string [] (raw_sellAmount raw) = Some (sm_sellAmount o') \<and> raw_string [] (raw_buyAmount raw) = Some (sm_buyAmount o') \<and>
    (\<exists>x y z. js_BigInt (sm_sellAmount o') = Some x \<and> 0 < x \<and> js_BigInt (sm_buyAmount o') = Some y \<and> 0 < y \<and>
       js_BigInt (sm_minFillAmount o') = Some z \<and> 0 \<le> z) \<and>
    raw_number (raw_maxFee raw) = Some (JsFin (sm_maxFee o')) \<and> 0 \<le> sm_maxFee o' \<and>
    raw_number (raw_expiry raw) = Some (JsFin (sm_expiry o')) \<and> 0 < sm_expiry o' \<and> of_int now < sm_expiry o' \<and>
    sm_chainId o' = Some (chain_of o') \<and> 0 < chain_of o' \<and> chain_of o' \<le> MAX_SAFE_INTEGER \<and>
    sm_relayer o' = toLowerCase rel \<and> sm_relayerUrl o' = url \<and> sm_createdAt o' = now \<and> listing_wf o'"
  by (rule parse_Inr [OF assms]) (use parse_ok [OF assms] in \<open>auto simp: not_positive_False\<close>)

end
