(* ===== verification/SharedRoutesFacts.thy ===== *)
theory SharedRoutesFacts
  imports SharedRoutes
begin

text \<open>
  Properties of the listing routes: ownership, agreement of memory and table, and the situations in
  which the limits or the agreement fail.
\<close>

section \<open>Ownership\<close>

lemma getOrder_status:
  "getOrder k (updateStatus i st None b) =
     (if k = i then map_option (\<lambda>s. s\<lparr>ob_status := st\<rparr>) (getOrder k b) else getOrder k b)"
  by (cases "jget (orders b) i") (auto simp: getOrder_def status_orders)

text \<open>
  Only the relayer that posted a listing can close it, and only while it is open: a cancel or
  a match report either succeeds for the owner, closing that listing in memory and in the table and
  nothing else, or is refused and changes nothing.
\<close>

lemma only_owner_closes:
  assumes "(r, sv') = cancelListing a i sv \<and> st = CancelledOrder \<or> (r, sv') = matchListing a i sv \<and> st = MatchedOrder"
  shows "(r = OBOk 200 i st \<and> (\<exists>s. getOrder i (sv_book sv) = Some s \<and> ob_status s = OpenOrder \<and>
         toLowerCase (sm_relayer (ob_order s)) = toLowerCase a) \<and>
       (\<forall>k. getOrder k (sv_book sv') = (if k = i then map_option (\<lambda>s. s\<lparr>ob_status := st\<rparr>) (getOrder k (sv_book sv))
                                       else getOrder k (sv_book sv))) \<and>
       (\<forall>k. map_option ob_status (jget (sv_db sv') k) =
          (if k = i then map_option (\<lambda>_. st) (jget (sv_db sv) k) else map_option ob_status (jget (sv_db sv) k)))) \<or>
    (sv' = sv \<and> (\<exists>c m. r = OBError c m \<and> c \<in> {403, 404, 409}))"
  using assms
proof
  assume a: "(r, sv') = cancelListing a i sv \<and> st = CancelledOrder"
  show ?thesis using a
    by (auto simp: cancelListing_def getOrder_status updateRow_def option.map_comp comp_def
        split: option.splits if_splits)
next
  assume a: "(r, sv') = matchListing a i sv \<and> st = MatchedOrder"
  show ?thesis using a
    by (auto simp: matchListing_def getOrder_status updateRow_def option.map_comp comp_def
        split: option.splits if_splits)
qed

section \<open>The table\<close>

definition table_ok :: "ob_table \<Rightarrow> bool" where
  "table_ok t \<longleftrightarrow> jmap_ok t \<and> (\<forall>i s. jget t i = Some s \<longrightarrow> sm_id (ob_order s) = i)"

lemma table_ok_Nil [simp]: "table_ok []"
  by (simp add: table_ok_def)

lemma table_ok_insert: "table_ok t \<Longrightarrow> insertOrder o' t = Some t' \<Longrightarrow> table_ok t'"
  by (auto simp: table_ok_def insertOrder_def split: if_splits)

lemma table_ok_delete [simp]: "table_ok t \<Longrightarrow> table_ok (deleteRow i t)"
  by (auto simp: table_ok_def deleteRow_def)

lemma table_ok_update [simp]: "table_ok t \<Longrightarrow> table_ok (updateRow i st mid t)"
  by (auto simp: table_ok_def updateRow_def split: if_splits)

lemma table_ok_expire [simp]: "table_ok t \<Longrightarrow> table_ok (expireByIds ids t)"
  by (induction ids arbitrary: t) (simp_all add: expireByIds_def)

section \<open>Memory against the table\<close>

text \<open>
  How the status of an id in memory may differ from that of its row.  A stale sweep closes listings in
  memory only.  After a restart a closed row is not in memory, its id can be listed again (the insert then
  fails, the listing stays in memory), and that listing can fall to a stale sweep.
\<close>

definition drift :: "bool \<Rightarrow> bool \<Rightarrow> ob_status option \<Rightarrow> ob_status option \<Rightarrow> bool" where
  "drift swept restarts m t \<longleftrightarrow> m = t \<or> (swept \<and> m = Some ExpiredOrder \<and> t = Some OpenOrder) \<or>
     (restarts \<and> t \<in> {Some MatchedOrder, Some CancelledOrder, Some ExpiredOrder} \<and>
       (m \<in> {None, Some OpenOrder} \<or> (swept \<and> m = Some ExpiredOrder)))"

lemma drift_refl [simp]: "drift sw rs m m"
  by (simp add: drift_def)

lemma drift_mono: "drift sw rs m t \<Longrightarrow> (sw \<Longrightarrow> sw') \<Longrightarrow> (rs \<Longrightarrow> rs') \<Longrightarrow> drift sw' rs' m t"
  by (auto simp: drift_def)

lemma drift_open: "drift sw rs (Some OpenOrder) t \<Longrightarrow> t \<noteq> None"
  by (auto simp: drift_def)

lemma drift_enter: "drift sw rs None t \<Longrightarrow> t \<noteq> None \<Longrightarrow> drift sw rs (Some OpenOrder) t"
  by (auto simp: drift_def)

lemma drift_sweep: "drift sw rs (Some OpenOrder) t \<Longrightarrow> drift True rs (Some ExpiredOrder) t"
  by (auto simp: drift_def)

lemma drift_restart: "drift sw rs m t \<Longrightarrow> drift sw True (if t = Some OpenOrder then Some OpenOrder else None) t"
  by (cases t; cases "the t") (auto simp: drift_def)

lemma drift_after:
  "drift sw rs m t \<Longrightarrow> a = (if t = Some OpenOrder then Some OpenOrder else None) \<Longrightarrow>
   a = (if m = Some OpenOrder then Some OpenOrder else None) \<or>
   (sw \<and> m = Some ExpiredOrder \<and> a = Some OpenOrder) \<or> (rs \<and> m = Some OpenOrder \<and> a = None)"
  by (auto simp: drift_def)

abbreviation memory_status :: "string \<Rightarrow> server \<Rightarrow> ob_status option" where
  "memory_status i sv \<equiv> map_option ob_status (getOrder i (sv_book sv))"

abbreviation row_status :: "string \<Rightarrow> server \<Rightarrow> ob_status option" where
  "row_status i sv \<equiv> map_option ob_status (jget (sv_db sv) i)"

definition sound :: "bool \<Rightarrow> bool \<Rightarrow> server \<Rightarrow> bool" where
  "sound sw rs sv \<longleftrightarrow> book_ok (sv_book sv) \<and> table_ok (sv_db sv) \<and> (\<forall>i. drift sw rs (memory_status i sv) (row_status i sv))"

lemma soundI:
  "book_ok (sv_book sv) \<Longrightarrow> table_ok (sv_db sv) \<Longrightarrow> (\<And>i. drift sw rs (memory_status i sv) (row_status i sv)) \<Longrightarrow> sound sw rs sv"
  by (simp add: sound_def)

lemma soundD: assumes "sound sw rs sv"
  shows "book_ok (sv_book sv)" "table_ok (sv_db sv)" "drift sw rs (memory_status i sv) (row_status i sv)"
  using assms by (simp_all add: sound_def)

lemma sound_open_row: "sound sw rs sv \<Longrightarrow> memory_status i sv = Some OpenOrder \<Longrightarrow> row_status i sv \<noteq> None"
  using soundD(3) drift_open by metis

section \<open>Each operation\<close>

lemma register_orders: "registerRelayer u a url nm now b = Some b' \<Longrightarrow> orders b' = orders b"
  by (auto simp: registerRelayer_def Let_def split: if_splits)

lemma remove_orders: "jget (orders (snd (removeOrder i b))) k = (if k = i then None else jget (orders b) k)"
  by (auto simp: removeOrder_def unindex_pair_def Let_def split: option.splits)

lemma add_orders:
  "addOrder lims o' b = Inr b' \<Longrightarrow> jget (orders b) (sm_id o') = None \<and>
   jget (orders b') k = (if k = sm_id o' then Some \<lparr>ob_order = o', ob_status = OpenOrder, ob_matchId = None\<rparr>
                         else jget (orders b) k)"
  by (auto simp: addOrder_def index_order_def jhas_jget Let_def split: if_splits)

lemma sound_same_orders:
  assumes "sound sw rs sv" "orders b = orders (sv_book sv)" "book_ok b"
  shows "sound sw rs (sv\<lparr>sv_book := b, sv_sent := es\<rparr>)" "sound sw rs (sv\<lparr>sv_book := b\<rparr>)"
  using assms by (simp_all add: sound_def getOrder_def)

lemma sound_register:
  assumes "sound sw rs sv"
  shows "sound sw rs (snd (registerRoute u v a url nm now sv))"
  using sound_same_orders [OF assms register_orders book_ok_register [OF soundD(1) [OF assms]]] assms
  by (auto simp: registerRoute_def split: url_verdict.split option.split)

lemma heartbeat_orders: "orders (snd (heartbeat a now b)) = orders b"
  by (simp add: heartbeat_def Let_def)

lemma sound_heartbeat:
  assumes "sound sw rs sv"
  shows "sound sw rs (snd (heartbeatRoute a now sv))"
  using sound_same_orders(2) [OF assms heartbeat_orders book_ok_heartbeat [OF soundD(1) [OF assms]], of a now] assms
  by (auto simp: heartbeatRoute_def split: prod.split bool.split)

lemma post_cases:
  assumes "postListing lims u v a url raw now sv = (r, sv')"
  obtains (same) "sv' = sv" "\<exists>m. r = OBError 400 m"
    | (registered) b where "registerRelayer u a url None now (sv_book sv) = Some b" "sv' = sv\<lparr>sv_book := b\<rparr>"
        "\<exists>c m. r = OBError c m"
    | (entered) b ord where "registerRelayer u a url None now (sv_book sv) = Some b"
        "parseOrderSummary raw a url now = Inr ord"
        "\<And>s. getOrder (sm_id ord) b = Some s \<Longrightarrow> ob_status s \<noteq> OpenOrder"
        "(r, sv') = post_enter lims ord (post_replace (sm_id ord) (sv\<lparr>sv_book := b\<rparr>))"
proof (cases "url = [] \<or> v \<noteq> UrlSafe \<or> registerRelayer u a url None now (sv_book sv) = None")
  case True
  then have "sv' = sv \<and> (\<exists>m. r = OBError 400 m)"
    using assms by (auto simp: postListing_def split: url_verdict.splits if_splits)
  then show thesis using same by blast
next
  case False
  then obtain b where b: "registerRelayer u a url None now (sv_book sv) = Some b" by blast
  show thesis
  proof (cases "parseOrderSummary raw a url now")
    case (Inl e)
    then show thesis using registered [OF b] assms False b by (auto simp: postListing_def)
  next
    case (Inr ord)
    show thesis
    proof (cases "case getOrder (sm_id ord) b of Some s \<Rightarrow> ob_status s = OpenOrder | None \<Rightarrow> False")
      case True
      then show thesis using registered [OF b] assms False b Inr by (auto simp: postListing_def Let_def)
    next
      case no: False
      then have st: "\<And>s. getOrder (sm_id ord) b = Some s \<Longrightarrow> ob_status s \<noteq> OpenOrder" by simp
      have "(r, sv') = post_enter lims ord (post_replace (sm_id ord) (sv\<lparr>sv_book := b\<rparr>))"
        using assms False b Inr no by (simp add: postListing_def)
      then show thesis using entered [OF b Inr st] by blast
    qed
  qed
qed

lemma sound_replace:
  assumes "sound sw rs sv"
  shows "sound sw rs (post_replace i sv)"
proof (cases "getOrder i (sv_book sv) = None")
  case False
  then show ?thesis using assms book_ok_remove
    by (simp add: sound_def post_replace_def getOrder_def remove_orders) (simp add: deleteRow_def)
qed (use assms in \<open>simp add: post_replace_def\<close>)

lemma sound_enter:
  assumes s: "sound sw rs sv"
  shows "sound sw rs (snd (post_enter lims ord sv))"
proof (cases "addOrder lims ord (sv_book sv)")
  case (Inr b)
  note add = add_orders [OF Inr]
  have ok: "book_ok b" by (rule book_ok_add [OF soundD(1) [OF s] Inr])
  have none: "memory_status (sm_id ord) sv = None" using add by (simp add: getOrder_def)
  have mem: "map_option ob_status (getOrder i b) = (if i = sm_id ord then Some OpenOrder else memory_status i sv)" for i
    using add by (simp add: getOrder_def)
  show ?thesis
  proof (cases "insertOrder ord (sv_db sv)")
    case None
    then have "row_status (sm_id ord) sv \<noteq> None" by (simp add: insertOrder_def jhas_jget split: if_splits)
    then have "drift sw rs (Some OpenOrder) (row_status (sm_id ord) sv)"
      using drift_enter soundD(3) [OF s, of "sm_id ord"] none by simp
    then have "drift sw rs (map_option ob_status (getOrder i b)) (row_status i sv)" for i
      using soundD(3) [OF s, of i] by (simp add: mem)
    then show ?thesis using None Inr ok soundD(2) [OF s] by (simp add: post_enter_def sound_def)
  next
    case (Some t)
    have "map_option ob_status (jget t i) = (if i = sm_id ord then Some OpenOrder else row_status i sv)" for i
      using Some by (auto simp: insertOrder_def split: if_splits)
    then have "drift sw rs (map_option ob_status (getOrder i b)) (map_option ob_status (jget t i))" for i
      using soundD(3) [OF s, of i] by (simp add: mem)
    then show ?thesis using Some Inr ok table_ok_insert [OF soundD(2) [OF s] Some] by (simp add: post_enter_def sound_def)
  qed
qed (use s in \<open>simp add: post_enter_def\<close>)

lemma sound_post:
  assumes s: "sound sw rs sv"
  shows "sound sw rs (snd (postListing lims u v a url raw now sv))"
proof -
  obtain r sv' where run: "postListing lims u v a url raw now sv = (r, sv')" by fastforce
  have reg: "sound sw rs (sv\<lparr>sv_book := b\<rparr>)" if "registerRelayer u a url None now (sv_book sv) = Some b" for b
    using sound_same_orders(2) [OF s register_orders book_ok_register [OF soundD(1) [OF s]]] that by blast
  show ?thesis using run
  proof (cases rule: post_cases)
    case (entered b ord)
    then show ?thesis using sound_enter [OF sound_replace [OF reg [OF entered(1)]], of lims ord "sm_id ord"] run
      by (metis snd_conv)
  qed (use run s reg in simp_all)
qed

text \<open>Closing an open listing writes memory and row.\<close>

lemma sound_close_open:
  assumes s: "sound sw rs sv" and o: "memory_status i sv = Some OpenOrder" and st: "st \<noteq> OpenOrder"
  shows "sound sw rs (sv\<lparr>sv_book := updateStatus i st None (sv_book sv), sv_db := updateRow i st None (sv_db sv), sv_sent := es\<rparr>)"
proof (rule soundI)
  fix k
  have "row_status i sv \<noteq> None" by (rule sound_open_row [OF s o])
  then have "row_status i (sv\<lparr>sv_db := updateRow i st None (sv_db sv)\<rparr>) = Some st" by (auto simp: updateRow_def)
  moreover have "map_option ob_status (getOrder i (updateStatus i st None (sv_book sv))) = Some st"
    using o by (auto simp: getOrder_status)
  moreover have "map_option ob_status (getOrder k (updateStatus i st None (sv_book sv))) = memory_status k sv"
    "row_status k (sv\<lparr>sv_db := updateRow i st None (sv_db sv)\<rparr>) = row_status k sv" if "k \<noteq> i"
    using that by (simp_all add: getOrder_status updateRow_def)
  ultimately show "drift sw rs (memory_status k (sv\<lparr>sv_book := updateStatus i st None (sv_book sv),
      sv_db := updateRow i st None (sv_db sv), sv_sent := es\<rparr>))
    (row_status k (sv\<lparr>sv_book := updateStatus i st None (sv_book sv), sv_db := updateRow i st None (sv_db sv), sv_sent := es\<rparr>))"
    using soundD(3) [OF s, of k] by (cases "k = i") auto
qed (use soundD(1,2) [OF s] st book_ok_status in simp_all)

lemma sound_close:
  assumes "sound sw rs sv"
  shows "sound sw rs (snd (cancelListing a i sv))" "sound sw rs (snd (matchListing a i sv))"
  using assms sound_close_open [OF assms, of i]
  by (simp_all add: cancelListing_def matchListing_def split: option.splits)

lemma expireByIds_get:
  "map_option ob_status (jget (expireByIds ids t) k) =
     (if k \<in> set ids then map_option (\<lambda>_. ExpiredOrder) (jget t k) else map_option ob_status (jget t k))"
proof (induction ids arbitrary: t)
  case (Cons i ids)
  have "expireByIds (i # ids) t = expireByIds ids (updateRow i ExpiredOrder None t)" by (simp add: expireByIds_def)
  then show ?case using Cons.IH by (auto simp: updateRow_def option.map_comp comp_def)
qed (simp add: expireByIds_def)

lemma sound_expire:
  assumes s: "sound sw rs sv"
  shows "sound sw rs (expireTimer now sv)"
proof -
  obtain ids b where p: "purgeExpired now (sv_book sv) = (ids, b)" by fastforce
  then have ex: "expire_loop now (orders (sv_book sv)) [] (sv_book sv) = (ids, b)" by (simp add: purgeExpired_def)
  have sp: "book_ok b" "ids = map fst (filter (\<lambda>(i, s). expired_at now s) (orders (sv_book sv)))"
    "jget (orders b) k = (if k \<in> set ids then map_option (\<lambda>s. s\<lparr>ob_status := ExpiredOrder\<rparr>) (jget (orders (sv_book sv)) k)
      else jget (orders (sv_book sv)) k)" for k
    using expire_loop_spec [OF ex] soundD(1) [OF s] by simp_all
  have op: "memory_status k sv = Some OpenOrder" if "k \<in> set ids" for k
  proof -
    have "jmap_ok (orders (sv_book sv))" using soundD(1) [OF s] by (simp add: book_ok_def ids_ok_def)
    then show ?thesis using that in_jget unfolding sp(2)
      by (fastforce simp: getOrder_def expired_at_def is_open_def)
  qed
  have "drift sw rs (map_option ob_status (getOrder k b)) (map_option ob_status (jget (expireByIds ids (sv_db sv)) k))" for k
  proof (cases "k \<in> set ids")
    case True
    moreover have "row_status k sv \<noteq> None" by (rule sound_open_row [OF s op [OF True]])
    ultimately show ?thesis using op [OF True] by (auto simp: expireByIds_get getOrder_def sp(3))
  qed (use soundD(3) [OF s, of k] in \<open>simp add: expireByIds_get getOrder_def sp(3)\<close>)
  moreover have "(if ids = [] then sv_db sv else expireByIds ids (sv_db sv)) = expireByIds ids (sv_db sv)"
    by (simp add: expireByIds_def)
  ultimately show ?thesis using sp(1) soundD(2) [OF s] p by (simp add: sound_def expireTimer_def)
qed

lemma stale_get:
  assumes "book_ok (sv_book sv)"
  obtains rs where "book_ok (sv_book (staleTimer now sv))" "sv_db (staleTimer now sv) = sv_db sv"
    "\<And>k. getOrder k (sv_book (staleTimer now sv)) = map_option (close_all rs) (getOrder k (sv_book sv))"
    "rs = map fst (filter (\<lambda>(a, r). ri_lastHeartbeat r < now - 600) (relayers (sv_book sv)))"
  using purge_fold_spec [OF assms] that
  by (simp add: staleTimer_def purgeStaleRelayers_def Let_def getOrder_def)

lemma sound_stale:
  assumes s: "sound sw rs sv"
  shows "sound True rs (staleTimer now sv)"
proof (rule stale_get [OF soundD(1) [OF s]])
  fix xs
  assume b: "book_ok (sv_book (staleTimer now sv))" "sv_db (staleTimer now sv) = sv_db sv"
    "\<And>k. getOrder k (sv_book (staleTimer now sv)) = map_option (close_all xs) (getOrder k (sv_book sv))"
  have "drift True rs (memory_status k (staleTimer now sv)) (row_status k sv)" for k
  proof (cases "getOrder k (sv_book sv)")
    case None
    then show ?thesis using soundD(3) [OF s, of k] drift_mono b(3) by auto
  next
    case (Some x)
    have "drift True rs (Some (ob_status x)) (row_status k sv)" using soundD(3) [OF s, of k] drift_mono Some by auto
    moreover have "drift True rs (Some ExpiredOrder) (row_status k sv)" if "is_open x"
      using drift_sweep soundD(3) [OF s, of k] Some that by (auto simp: is_open_def)
    ultimately show ?thesis using b(3) Some by (simp add: close_all_def)
  qed
  then show ?thesis using b soundD(2) [OF s] by (simp add: sound_def)
qed

section \<open>The restored book\<close>

abbreviation row_key :: "ob_stored \<Rightarrow> string" where "row_key s \<equiv> sm_id (ob_order s)"

lemma load_get:
  "distinct (map row_key rows) \<Longrightarrow> \<forall>s \<in> set rows. is_open s \<Longrightarrow>
   jget (orders (snd (fold load_one rows (k, b)))) i =
     (case map_of (map (\<lambda>s. (row_key s, s)) rows) i of Some s \<Rightarrow> Some s | None \<Rightarrow> jget (orders b) i)"
proof (induction rows arbitrary: k b)
  case (Cons s rows)
  have o: "load_one s (k, b) =
      (Suc k, index_order (ob_order s) (b\<lparr>orders := jset (row_key s) s (orders b)\<rparr>))"
    using Cons.prems by (simp add: load_one_def is_open_def)
  have n: "map_of (map (\<lambda>s. (row_key s, s)) rows) (row_key s) = None"
    using Cons.prems(1) by (auto simp: map_of_eq_None_iff)
  show ?case
    using Cons.IH [of "Suc k" "index_order (ob_order s) (b\<lparr>orders := jset (row_key s) s (orders b)\<rparr>)"] Cons.prems o n
    by (cases "i = row_key s") (simp_all add: index_order_def split: option.splits)
qed simp

lemma load_size:
  "jsize (orders (snd (fold load_one rows (k, b)))) \<le> jsize (orders b) + length rows"
proof (induction rows arbitrary: k b)
  case (Cons s rows)
  obtain k' b' where l: "load_one s (k, b) = (k', b')" by fastforce
  have "jsize (orders b') \<le> Suc (jsize (orders b))"
    using l by (auto simp: load_one_def index_order_def jsize_jset split: if_splits)
  then show ?case using Cons.IH [of k' b'] l by simp
qed simp

lemma load_relayers: "relayers (snd (fold load_one rows (k, b))) = relayers b"
  by (induction rows arbitrary: k b) (auto simp: load_one_def index_order_def)

lemma table_ids:
  assumes "table_ok t"
  shows "distinct (map row_key (loadAllOpen t))"
    "s \<in> set (loadAllOpen t) \<longleftrightarrow> is_open s \<and> jget t (row_key s) = Some s"
proof -
  have mem: "(i, s) \<in> set t \<longleftrightarrow> jget t i = Some s" for i s
    using assms by (simp add: table_ok_def in_jget)
  have key: "(i, s) \<in> set t \<Longrightarrow> row_key s = i" for i s
    using assms mem by (simp add: table_ok_def)
  have "map row_key (jvalues t) = map fst t"
    unfolding jvalues_def map_map by (rule map_cong) (use key in auto)
  then have "distinct (map row_key (jvalues t))"
    using assms by (simp add: table_ok_def jmap_ok_def)
  then have "distinct (map row_key (filter is_open (jvalues t)))"
    by (rule distinct_map_filter)
  then show "distinct (map row_key (loadAllOpen t))"
    by (simp add: loadAllOpen_def by_created_def distinct_map)
  have "s \<in> set (jvalues t) \<longleftrightarrow> (row_key s, s) \<in> set t"
  proof
    assume "s \<in> set (jvalues t)"
    then obtain i where i: "(i, s) \<in> set t" by (auto simp: jvalues_def)
    show "(row_key s, s) \<in> set t" using i key [OF i] by simp
  qed (force simp: jvalues_def)
  then show "s \<in> set (loadAllOpen t) \<longleftrightarrow> is_open s \<and> jget t (row_key s) = Some s"
    by (auto simp: loadAllOpen_def by_created_def mem)
qed

lemma option_eqI: "(\<And>s. x = Some s \<longleftrightarrow> y = Some s) \<Longrightarrow> x = y"
  by (cases x; cases y) auto

lemma restart_get:
  assumes "table_ok (sv_db sv)"
  shows "getOrder i (sv_book (restart sv)) = (case jget (sv_db sv) i of
      Some s \<Rightarrow> if is_open s then Some s else None | None \<Rightarrow> None)"
proof -
  let ?rows = "loadAllOpen (sv_db sv)"
  note ids = table_ids [OF assms]
  have op: "\<forall>s \<in> set ?rows. is_open s" using ids(2) by blast
  have "map_of (map (\<lambda>s. (row_key s, s)) ?rows) i = Some s \<longleftrightarrow> jget (sv_db sv) i = Some s \<and> is_open s" for s
  proof -
    have "distinct (map fst (map (\<lambda>s. (row_key s, s)) ?rows))" using ids(1) by (simp add: comp_def)
    then have "map_of (map (\<lambda>s. (row_key s, s)) ?rows) i = Some s \<longleftrightarrow> row_key s = i \<and> s \<in> set ?rows"
      by (auto simp: map_of_eq_Some_iff)
    then show ?thesis using ids(2) assms by (auto simp: table_ok_def)
  qed
  then have "map_of (map (\<lambda>s. (row_key s, s)) ?rows) i = Some s \<longleftrightarrow>
      (case jget (sv_db sv) i of Some s \<Rightarrow> if is_open s then Some s else None | None \<Rightarrow> None) = Some s" for s
    by (auto split: option.split)
  then have m: "map_of (map (\<lambda>s. (row_key s, s)) ?rows) i =
      (case jget (sv_db sv) i of Some s \<Rightarrow> if is_open s then Some s else None | None \<Rightarrow> None)"
    by (rule option_eqI)
  show ?thesis
    using load_get [OF ids(1) op, of 0 empty_book i]
    by (simp add: restart_def getOrder_def loadFromStored_def m) (simp add: empty_book_def split: option.splits)
qed

lemma restart_book_ok: "table_ok (sv_db sv) \<Longrightarrow> book_ok (sv_book (restart sv))"
  unfolding restart_def loadFromStored_def
  by (simp, rule load_fold [OF book_ok_empty table_ids(1)]) (simp_all add: empty_book_def)

lemma restart_status:
  "table_ok (sv_db sv) \<Longrightarrow> memory_status i (restart sv) = (if row_status i sv = Some OpenOrder then Some OpenOrder else None)"
  using restart_get [of sv i] by (auto simp: is_open_def split: option.split)

lemma sound_restart:
  assumes s: "sound sw rs sv"
  shows "sound sw True (restart sv)"
proof (rule soundI)
  have db: "sv_db (restart sv) = sv_db sv" by (simp add: restart_def)
  show "book_ok (sv_book (restart sv))" by (rule restart_book_ok [OF soundD(2) [OF s]])
  show "table_ok (sv_db (restart sv))" using soundD(2) [OF s] by (simp add: db)
  show "drift sw True (memory_status i (restart sv)) (row_status i (restart sv))" for i
    using drift_restart [OF soundD(3) [OF s, of i]] restart_status [OF soundD(2) [OF s], of i] by (simp add: db)
qed

section \<open>Runs of the server\<close>

text \<open>Every request that writes, both timers, and restarts of the process.\<close>

datatype server_event =
    EvPost "string \<Rightarrow> bool" url_verdict string string raw_order seconds
  | EvCancel string string
  | EvMatched string string
  | EvRegister "string \<Rightarrow> bool" url_verdict string string "string option" seconds
  | EvHeartbeat string seconds
  | EvExpire seconds
  | EvStale seconds
  | EvRestart

fun server_step :: "book_limits \<Rightarrow> server_event \<Rightarrow> server \<Rightarrow> server" where
  "server_step lims (EvPost u v a url raw now) sv = snd (postListing lims u v a url raw now sv)"
| "server_step lims (EvCancel a i) sv = snd (cancelListing a i sv)"
| "server_step lims (EvMatched a i) sv = snd (matchListing a i sv)"
| "server_step lims (EvRegister u v a url nm now) sv = snd (registerRoute u v a url nm now sv)"
| "server_step lims (EvHeartbeat a now) sv = snd (heartbeatRoute a now sv)"
| "server_step lims (EvExpire now) sv = expireTimer now sv"
| "server_step lims (EvStale now) sv = staleTimer now sv"
| "server_step lims EvRestart sv = restart sv"

definition stale_swept :: "server_event list \<Rightarrow> bool" where
  "stale_swept = list_ex (\<lambda>e. case e of EvStale _ \<Rightarrow> True | _ \<Rightarrow> False)"

definition was_restarted :: "server_event list \<Rightarrow> bool" where
  "was_restarted = list_ex (\<lambda>e. case e of EvRestart \<Rightarrow> True | _ \<Rightarrow> False)"

definition fresh_server :: server where
  "fresh_server = \<lparr>sv_book = empty_book, sv_db = [], sv_sent = []\<rparr>"

lemma sound_step:
  assumes "sound sw rs sv"
  shows "sound (sw \<or> stale_swept [e]) (rs \<or> was_restarted [e]) (server_step lims e sv)"
  using assms sound_post sound_close sound_register sound_heartbeat sound_expire sound_stale sound_restart
  by (cases e) (simp_all add: stale_swept_def was_restarted_def)

lemma sound_run:
  "sound sw rs sv \<Longrightarrow> sound (sw \<or> stale_swept es) (rs \<or> was_restarted es) (fold (server_step lims) es sv)"
proof (induction es arbitrary: sw rs sv)
  case (Cons e es)
  have "((sw \<or> stale_swept [e]) \<or> stale_swept es) = (sw \<or> stale_swept (e # es))"
    "((rs \<or> was_restarted [e]) \<or> was_restarted es) = (rs \<or> was_restarted (e # es))"
    by (auto simp: stale_swept_def was_restarted_def)
  then show ?case using Cons.IH [OF sound_step [OF Cons.prems, of e lims]] by simp
qed (simp add: stale_swept_def was_restarted_def)

lemma sound_fresh: "sound False False fresh_server"
  by (simp add: sound_def fresh_server_def book_ok_empty getOrder_def) (simp add: empty_book_def)

lemma sound_server: "sound (stale_swept es) (was_restarted es) (fold (server_step lims) es fresh_server)"
  using sound_run [OF sound_fresh] by simp

text \<open>
  C19.  Memory and table of the server agree as far as its design lets them.  From an empty server, after any
  sequence of posted listings, cancels, match reports, registrations, heartbeats, expiry sweeps, stale sweeps
  and restarts: every id has the same status in memory and in the table (or is in neither), with two
  exceptions.  If a stale sweep ran, a listing may be expired in memory while its row is open.  If the process
  was restarted, a closed row may be missing from memory, or be listed there as open again (and then, by
  a stale sweep, expired).  In all these states the indexes and the counter of the book are exact.
\<close>

theorem memory_and_table_agree:
  "let sv = fold (server_step lims) es fresh_server in
   (\<forall>i. let m = map_option ob_status (getOrder i (sv_book sv)); t = map_option ob_status (jget (sv_db sv) i) in
      m = t \<or>
      (stale_swept es \<and> m = Some ExpiredOrder \<and> t = Some OpenOrder) \<or>
      (was_restarted es \<and> t \<in> {Some MatchedOrder, Some CancelledOrder, Some ExpiredOrder} \<and>
        (m \<in> {None, Some OpenOrder} \<or> (stale_swept es \<and> m = Some ExpiredOrder)))) \<and>
   bs_totalOrders (getStats (sv_book sv)) = int (jcount is_open (orders (sv_book sv))) \<and>
   (\<forall>i k. i \<in> set (bucket (sellSide (sv_book sv)) k) \<longleftrightarrow> (\<exists>s. jget (orders (sv_book sv)) i = Some s \<and> is_open s \<and>
      isSellSide (ob_order s) \<and> indexKey (ob_order s) = k)) \<and>
   (\<forall>i k. i \<in> set (bucket (buySide (sv_book sv)) k) \<longleftrightarrow> (\<exists>s. jget (orders (sv_book sv)) i = Some s \<and> is_open s \<and>
      \<not> isSellSide (ob_order s) \<and> indexKey (ob_order s) = k))"
proof -
  note s = sound_server [of es lims]
  have "book_ok (sv_book (fold (server_step lims) es fresh_server))" by (rule soundD(1) [OF s])
  then show ?thesis using soundD(3) [OF s]
    by (simp add: Let_def drift_def book_ok_def count_ok_def side_ok_def getStats_def)
qed

end
