(* ===== verification/SharedSamples.thy ===== *)
theory SharedSamples
  imports SharedRoutesFacts
begin

text \<open>
  Concrete listings of the shared orderbook, and the witnesses of the properties of its book and of
  its routes.
\<close>

definition token_a :: string where "token_a = ''0x'' @ replicate 40 (CHR ''a'')"
definition token_b :: string where "token_b = ''0x'' @ replicate 40 (CHR ''b'')"
definition handle_of :: "char \<Rightarrow> string" where "handle_of c = ''0x'' @ replicate 64 c"

definition sample_listing :: "char \<Rightarrow> string \<Rightarrow> string \<Rightarrow> order_summary" where
  "sample_listing c sell buy = \<lparr>sm_id = handle_of c, sm_chainId = Some 1, sm_relayer = ''0xre'', sm_relayerUrl = ''u'',
     sm_sellToken = sell, sm_buyToken = buy, sm_sellAmount = ''5'', sm_buyAmount = ''7'', sm_minFillAmount = ''0'',
     sm_maxFee = 30, sm_expiry = 2000, sm_createdAt = 1000\<rparr>"

definition open_listing :: "order_summary \<Rightarrow> ob_stored" where
  "open_listing o' = \<lparr>ob_order = o', ob_status = OpenOrder, ob_matchId = None\<rparr>"

definition sample_book :: book where
  "sample_book = snd (loadFromStored [open_listing (sample_listing (CHR ''1'') token_a token_b)] empty_book)"

lemma token_a_lower: "toLowerCase token_a = token_a" by code_simp
lemma token_b_lower: "toLowerCase token_b = token_b" by code_simp
lemma token_less: "str_less token_a token_b" "\<not> str_less token_b token_a" by code_simp+
lemma token_eth: "ETH_ADDRESS_RE token_a" "ETH_ADDRESS_RE token_b" by code_simp+
lemma token_neq: "token_a \<noteq> token_b" by (simp add: token_a_def token_b_def)
lemma handle_ok: "OFFER_HANDLE_RE (handle_of (CHR ''1''))" by code_simp

lemmas token_facts = token_a_lower token_b_lower token_less token_eth token_neq token_neq [symmetric]

lemma sample_wf: "listing_wf (sample_listing c token_a token_b)" "listing_wf (sample_listing c token_b token_a)"
  by (simp_all add: listing_wf_def sample_listing_def chain_of_def token_facts)

lemma sample_reachable: "reachable lims sample_book"
  unfolding sample_book_def by (rule restored) simp

lemma sample_orders:
  "orders sample_book = [(handle_of (CHR ''1''), open_listing (sample_listing (CHR ''1'') token_a token_b))]"
  by (simp add: sample_book_def loadFromStored_def load_one_def index_order_def empty_book_def open_listing_def
      sample_listing_def jset_def)

theorem book_indexes_exact_witness:
  "bs_totalOrders (getStats sample_book) = 1 \<and>
   handle_of (CHR ''1'') \<in> set (bucket (sellSide sample_book) (indexKey (sample_listing (CHR ''1'') token_a token_b)))"
  using book_indexes_exact [OF sample_reachable]
  by (simp add: sample_orders jcount_def is_open_def open_listing_def jget_def isSellSide_def sample_listing_def token_facts)

lemma counterparties_exact_witness:
  "set (getCounterpartyOrders (sample_listing (CHR ''2'') token_b token_a) sample_book) =
     {open_listing (sample_listing (CHR ''1'') token_a token_b)}"
proof -
  have wf: "listing_wf (ob_order s)" if "jget (orders sample_book) i = Some s" for i s
    using that sample_wf by (auto simp: sample_orders jget_def open_listing_def split: if_splits)
  show ?thesis using counterparties_exact [OF sample_reachable sample_wf(2) wf]
    by (auto simp: sample_orders jget_def open_listing_def sample_listing_def chain_of_def token_facts split: if_splits)
qed

lemma purge_expired_spec_witness:
  "jget (orders (snd (purgeExpired 2000 sample_book))) (handle_of (CHR ''1'')) =
     Some ((open_listing (sample_listing (CHR ''1'') token_a token_b))\<lparr>ob_status := ExpiredOrder\<rparr>)"
proof -
  obtain ids b' where p: "purgeExpired 2000 sample_book = (ids, b')" by fastforce
  show ?thesis using purge_expired_spec [OF sample_reachable p] p
    by (simp add: sample_orders jget_def open_listing_def is_open_def sample_listing_def)
qed

definition sample_raw :: raw_order where
  "sample_raw = \<lparr>raw_id = VString (handle_of (CHR ''1'')), raw_chainId = VUndefined, raw_sellToken = VString token_a,
     raw_buyToken = VString token_b, raw_sellAmount = VString ''5'', raw_buyAmount = VString ''7'',
     raw_minFillAmount = VUndefined, raw_maxFee = VInt 30, raw_expiry = VInt 2000\<rparr>"

definition parsed_sample :: order_summary where
  "parsed_sample = \<lparr>sm_id = handle_of (CHR ''1''), sm_chainId = Some 11155111, sm_relayer = ''0xre'',
     sm_relayerUrl = ''u'', sm_sellToken = token_a, sm_buyToken = token_b, sm_sellAmount = ''5'',
     sm_buyAmount = ''7'', sm_minFillAmount = ''0'', sm_maxFee = 30, sm_expiry = 2000, sm_createdAt = 1000\<rparr>"

lemma sample_parses: "parseOrderSummary sample_raw ''0xre'' ''u'' 1000 = Inr parsed_sample"
proof -
  have n: "not_positive ''5'' = Inr False" "not_positive ''7'' = Inr False" "min_fill_negative ''0'' = Inr False"
    by code_simp+
  have r: "toLowerCase ''0xre'' = ''0xre''" by code_simp
  show ?thesis
    using n r by (simp add: parseOrderSummary_def summary_checks_def raw_string_def finite_number_def sample_raw_def chainIdOrDefault_def coerceChainId_def
        DEFAULT_CHAIN_ID_def handle_ok token_facts eqAddr_iff parsed_sample_def)
qed

theorem parsed_summary_ok_witness:
  "listing_wf parsed_sample \<and> OFFER_HANDLE_RE (sm_id parsed_sample)"
  using parsed_summary_ok [OF sample_parses] by blast

definition sample_server :: server where
  "sample_server = \<lparr>sv_book = sample_book,
     sv_db = [(handle_of (CHR ''1''), open_listing (sample_listing (CHR ''1'') token_a token_b))], sv_sent = []\<rparr>"

lemma only_owner_closes_witness:
  "fst (cancelListing ''0xre'' (handle_of (CHR ''1'')) sample_server) = OBOk 200 (handle_of (CHR ''1'')) CancelledOrder \<and>
   map_option ob_status (getOrder (handle_of (CHR ''1'')) (sv_book (snd (cancelListing ''0xre'' (handle_of (CHR ''1'')) sample_server))))
     = Some CancelledOrder \<and>
   snd (cancelListing ''0xother'' (handle_of (CHR ''1'')) sample_server) = sample_server"
proof -
  have own: "fst (cancelListing ''0xre'' (handle_of (CHR ''1'')) sample_server) = OBOk 200 (handle_of (CHR ''1'')) CancelledOrder"
    "\<exists>c m. fst (cancelListing ''0xother'' (handle_of (CHR ''1'')) sample_server) = OBError c m"
    by (simp_all add: cancelListing_def sample_server_def getOrder_def sample_orders jget_def open_listing_def sample_listing_def)
  show ?thesis
    using own
      only_owner_closes [of _ _ "''0xre''" "handle_of (CHR ''1'')" sample_server CancelledOrder, OF disjI1, OF conjI, OF prod.collapse refl]
      only_owner_closes [of _ _ "''0xother''" "handle_of (CHR ''1'')" sample_server CancelledOrder, OF disjI1, OF conjI, OF prod.collapse refl]
    by (auto simp: getOrder_def sample_server_def sample_orders jget_def open_listing_def)
qed

end
