(* ===== verification/SharedRestart.thy ===== *)
theory SharedRestart
  imports SharedSamples
begin

text \<open>
  What a restart of the shared orderbook server brings back, and the two situations in which memory
  and table part: listings of a relayer removed as stale, and ids of listings closed before the
  restart.
\<close>

section \<open>Properties\<close>


text \<open>
  The removal of a stale relayer is not written to the table: a listing of that relayer that was
  open is closed in the book, yet its row stays open, the pair view goes on serving it, and a restart
  puts it back into the book.
\<close>

lemma stale_listings_return:
  assumes "sound sw False sv"
    and "getOrder i (sv_book sv) = Some s" "ob_status s = OpenOrder"
    and "jget (relayers (sv_book sv)) (relayer_of (ob_order s)) = Some info" "ri_lastHeartbeat info < now - 600"
  shows "memory_status i (staleTimer now sv) = Some ExpiredOrder \<and> row_status i (staleTimer now sv) = Some OpenOrder \<and>
    memory_status i (restart (staleTimer now sv)) = Some OpenOrder"
proof (rule stale_get [OF soundD(1) [OF assms(1)]])
  fix xs
  assume xs: "sv_db (staleTimer now sv) = sv_db sv"
    "\<And>k. getOrder k (sv_book (staleTimer now sv)) = map_option (close_all xs) (getOrder k (sv_book sv))"
    "xs = map fst (filter (\<lambda>(a, r). ri_lastHeartbeat r < now - 600) (relayers (sv_book sv)))"
  have "(relayer_of (ob_order s), info) \<in> set (relayers (sv_book sv))" using jget_in [OF assms(4)] .
  then have "relayer_of (ob_order s) \<in> set xs" using assms(5) unfolding xs(3) by force
  then have mem: "memory_status i (staleTimer now sv) = Some ExpiredOrder"
    using xs(2) [of i] assms(2,3) by (simp add: close_all_def is_open_def)
  have row: "row_status i sv = Some OpenOrder"
    using soundD(3) [OF assms(1), of i] assms(2,3) by (auto simp: drift_def)
  have "table_ok (sv_db (staleTimer now sv))" using soundD(2) [OF assms(1)] by (simp add: xs(1))
  then show ?thesis using mem row restart_status [of "staleTimer now sv" i] by (simp add: xs(1))
qed

text \<open>
  After a restart a closed listing locks its id.  The book no longer knows it, so a new POST with
  this id is not treated as a replacement: the listing enters the book, the insert fails on the primary
  key and the relayer is answered 400; the book now shows an open listing that the table does not have,
  and a second POST is answered 409.
\<close>

lemma restart_locks_closed_ids:
  assumes "table_ok (sv_db sv)" "jget (sv_db sv) (sm_id ord) = Some s" "ob_status s \<noteq> OpenOrder"
    and "parseOrderSummary raw a url now = Inr ord" "url \<noteq> []" "u url"
    and "length (loadAllOpen (sv_db sv)) < maxOrders lims" "0 < maxOrdersPerRelayer lims"
    and "postListing lims u UrlSafe a url raw now (restart sv) = (r, sv')"
  shows "r = OBError 400 ''UNIQUE constraint failed: orders.id'' \<and>
    map_option ob_status (getOrder (sm_id ord) (sv_book sv')) = Some OpenOrder \<and> sv_db sv' = sv_db sv \<and>
    fst (postListing lims u UrlSafe a url raw now sv') = OBError 409 ''order already exists''"
proof -
  define sr where "sr = restart sv"
  have none: "getOrder (sm_id ord) (sv_book sr) = None"
    using restart_get [OF assms(1), of "sm_id ord"] assms(2,3) by (simp add: sr_def is_open_def)
  have db: "sv_db sr = sv_db sv" by (simp add: sr_def restart_def)
  have rel: "relayers (sv_book sr) = []"
    by (simp add: sr_def restart_def loadFromStored_def load_relayers) (simp add: empty_book_def)
  have size: "jsize (orders (sv_book sr)) < maxOrders lims"
    using load_size [of "loadAllOpen (sv_db sv)" 0 empty_book] assms(7)
    by (simp add: sr_def restart_def loadFromStored_def) (simp add: empty_book_def jsize_def)
  obtain b where b: "registerRelayer u a url None now (sv_book sr) = Some b" using assms(6)
    by (simp add: registerRelayer_def Let_def)
  have ob: "orders b = orders (sv_book sr)" using register_orders [OF b] .
  have rb: "jget (relayers b) k = Some x \<Longrightarrow> ri_orderCount x = 0" for k x
    using b rel by (auto simp: registerRelayer_def Let_def split: if_splits)
  obtain b2 where b2: "addOrder lims ord b = Inr b2"
    using none ob size rb assms(8) by (fastforce simp: addOrder_def getOrder_def jhas_jget Let_def split: option.splits)
  have ins: "insertOrder ord (sv_db sr) = None" using assms(2) by (simp add: insertOrder_def jhas_jget db)
  have run: "postListing lims u UrlSafe a url raw now sr =
      (OBError 400 ''UNIQUE constraint failed: orders.id'', sr\<lparr>sv_book := b2\<rparr>)"
    using assms(4,5) b none ob b2 ins
    by (simp add: postListing_def post_replace_def post_enter_def getOrder_def)
  then have sv': "sv' = sr\<lparr>sv_book := b2\<rparr>" "r = OBError 400 ''UNIQUE constraint failed: orders.id''"
    using assms(9) by (simp_all add: sr_def)
  have open2: "map_option ob_status (getOrder (sm_id ord) b2) = Some OpenOrder"
    using add_orders [OF b2] by (simp add: getOrder_def)
  obtain b3 where b3: "registerRelayer u a url None now b2 = Some b3" using assms(6)
    by (simp add: registerRelayer_def Let_def)
  have "fst (postListing lims u UrlSafe a url raw now sv') = OBError 409 ''order already exists''"
    using assms(4,5) b3 open2 register_orders [OF b3]
    by (auto simp: postListing_def sv' getOrder_def split: option.splits)
  then show ?thesis using sv' open2 db by simp
qed

section \<open>Witnesses\<close>

definition one_listing_server :: server where
  "one_listing_server = fold (server_step \<lparr>maxOrders = 5, maxOrdersPerRelayer = 5\<rparr>)
     [EvPost (\<lambda>_. True) UrlSafe ''0xre'' ''u'' sample_raw 1000] fresh_server"

lemma one_listing_server_eq:
  "one_listing_server = \<lparr>sv_book = \<lparr>orders = [(handle_of (CHR ''1''), open_listing parsed_sample)],
     sellSide = [(indexKey parsed_sample, [handle_of (CHR ''1'')])], buySide = [],
     relayers = [(''0xre'', \<lparr>ri_address = ''0xre'', ri_url = ''u'', ri_name = None, ri_registeredAt = 1000,
       ri_lastHeartbeat = 1000, ri_orderCount = 1\<rparr>)], openCount = 1,
     relayerOrders = [(''0xre'', [handle_of (CHR ''1'')])]\<rparr>,
     sv_db = [(handle_of (CHR ''1''), open_listing parsed_sample)], sv_sent = [OrderNew parsed_sample]\<rparr>"
proof -
  have r: "toLowerCase ''0xre'' = ''0xre''" by code_simp
  have d: "parsed_sample\<lparr>sm_chainId := Some (chain_of parsed_sample)\<rparr> = parsed_sample"
    by (simp add: parsed_sample_def chain_of_def)
  have f: "sm_id parsed_sample = handle_of (CHR ''1'')" "relayer_of parsed_sample = ''0xre''" "isSellSide parsed_sample"
    by (simp_all add: parsed_sample_def relayer_of_def r isSellSide_def token_facts)
  show ?thesis
    by (simp add: one_listing_server_def fresh_server_def postListing_def registerRelayer_def r empty_book_def
        sample_parses getOrder_def post_replace_def post_enter_def addOrder_def jhas_jget jsize_def f Let_def
        index_order_def index_add_def insertOrder_def d)
      (simp add: jset_def jget_def bucket_def sadd_def incOrderCount_def jmodify_def open_listing_def jhas_def)
qed

lemma one_listing_sound: "sound False False one_listing_server"
  using sound_server [of "[EvPost (\<lambda>_. True) UrlSafe ''0xre'' ''u'' sample_raw 1000]"]
  by (simp add: one_listing_server_def stale_swept_def was_restarted_def)

lemma stale_listings_return_witness:
  "map_option ob_status (getOrder (handle_of (CHR ''1'')) (sv_book (staleTimer 1601 one_listing_server))) = Some ExpiredOrder \<and>
   map_option ob_status (getOrder (handle_of (CHR ''1'')) (sv_book (restart (staleTimer 1601 one_listing_server)))) = Some OpenOrder"
proof -
  have r: "relayer_of parsed_sample = ''0xre''" by code_simp
  show ?thesis
    using stale_listings_return [OF one_listing_sound, of "handle_of (CHR ''1'')" "open_listing parsed_sample"
        "\<lparr>ri_address = ''0xre'', ri_url = ''u'', ri_name = None, ri_registeredAt = 1000,
          ri_lastHeartbeat = 1000, ri_orderCount = 1\<rparr>" 1601]
    by (simp add: one_listing_server_eq getOrder_def jget_def open_listing_def r)
qed

definition closed_row_server :: server where
  "closed_row_server = \<lparr>sv_book = empty_book,
     sv_db = [(handle_of (CHR ''1''), (open_listing parsed_sample)\<lparr>ob_status := CancelledOrder\<rparr>)], sv_sent = []\<rparr>"

lemma restart_locks_closed_ids_witness:
  "fst (postListing \<lparr>maxOrders = 5, maxOrdersPerRelayer = 5\<rparr> (\<lambda>_. True) UrlSafe ''0xre'' ''u'' sample_raw 1000
     (restart closed_row_server)) = OBError 400 ''UNIQUE constraint failed: orders.id''"
proof -
  have t: "table_ok (sv_db closed_row_server)"
    by (auto simp: table_ok_def closed_row_server_def jmap_ok_def jget_def open_listing_def parsed_sample_def split: if_splits)
  have i: "sm_id parsed_sample = handle_of (CHR ''1'')" by (simp add: parsed_sample_def)
  have g: "jget (sv_db closed_row_server) (sm_id parsed_sample) =
      Some ((open_listing parsed_sample)\<lparr>ob_status := CancelledOrder\<rparr>)"
    by (simp add: closed_row_server_def jget_def i)
  have l: "loadAllOpen (sv_db closed_row_server) = []"
    by (simp add: closed_row_server_def loadAllOpen_def jvalues_def is_open_def by_created_def)
  show ?thesis
    using restart_locks_closed_ids [OF t g _ sample_parses, of "\<lambda>_. True" "\<lparr>maxOrders = 5, maxOrdersPerRelayer = 5\<rparr>"] l
    by (simp add: surj_pair) (metis prod.collapse)
qed

end
