(* ===== verification/Indexer.thy ===== *)
theory Indexer
  imports Addresses JsMap
begin

text \<open>
  The two chain indexers of the shared orderbook (\<open>shared-orderbook/src/core/commitment-indexer.ts\<close>,
  \<open>core/claim-indexer.ts\<close>) with the tables they write (\<open>core/db.ts\<close>).  Both walk the blocks between
  their cursor and the head in windows, store the events of a window and then advance the cursor; any
  step may fail, which ends the pass.  What each window meets is an input.  The interface of a table with
  a cursor is the locale \<open>scan_store\<close>; both tables are interpretations of it.
\<close>

section \<open>Tables\<close>

record commitment_leaf =
  cl_leafIndex :: int
  cl_commitment :: string
  cl_blockNumber :: int

record nullifier_row =
  nr_nullifier :: string
  nr_blockNumber :: int

record index_db =
  ix_commitments :: "(int \<times> int, string \<times> int) jmap"   \<comment> \<open>(chain, leaf): commitment, block\<close>
  ix_commitment_cursor :: "(int, int) jmap"
  ix_nullifiers :: "(int \<times> string, int) jmap"            \<comment> \<open>(chain, nullifier): block\<close>
  ix_claim_cursor :: "(int, int) jmap"

definition empty_index :: index_db where
  "empty_index = \<lparr>ix_commitments = [], ix_commitment_cursor = [], ix_nullifiers = [], ix_claim_cursor = []\<rparr>"

definition upsertCommitments :: "int \<Rightarrow> commitment_leaf list \<Rightarrow> index_db \<Rightarrow> index_db" where
  "upsertCommitments c rows d = d\<lparr>ix_commitments :=
     fold (\<lambda>r. jset (c, cl_leafIndex r) (cl_commitment r, cl_blockNumber r)) rows (ix_commitments d)\<rparr>"

definition listCommitments :: "int \<Rightarrow> int \<Rightarrow> nat \<Rightarrow> index_db \<Rightarrow> commitment_leaf list" where
  "listCommitments c fromLeaf limit d =
     take limit (sort_key cl_leafIndex
       (map (\<lambda>((c', i), (x, b)). \<lparr>cl_leafIndex = i, cl_commitment = x, cl_blockNumber = b\<rparr>)
         (filter (\<lambda>((c', i), _). c' = c \<and> fromLeaf \<le> i) (ix_commitments d))))"

definition commitmentNextIndex :: "int \<Rightarrow> index_db \<Rightarrow> int" where
  "commitmentNextIndex c d =
     (case map (\<lambda>((_, i), _). i) (filter (\<lambda>((c', _), _). c' = c) (ix_commitments d)) of
        [] \<Rightarrow> 0 | i # is \<Rightarrow> fold max is i + 1)"

definition getCommitmentCursor :: "int \<Rightarrow> index_db \<Rightarrow> int option" where
  "getCommitmentCursor c d = jget (ix_commitment_cursor d) c"

definition setCommitmentCursor :: "int \<Rightarrow> int \<Rightarrow> index_db \<Rightarrow> index_db" where
  "setCommitmentCursor c b d = d\<lparr>ix_commitment_cursor := jset c b (ix_commitment_cursor d)\<rparr>"

definition upsertClaimNullifiers :: "int \<Rightarrow> nullifier_row list \<Rightarrow> index_db \<Rightarrow> index_db" where
  "upsertClaimNullifiers c rows d = d\<lparr>ix_nullifiers :=
     fold (\<lambda>r. jset (c, toLowerCase (nr_nullifier r)) (nr_blockNumber r)) rows (ix_nullifiers d)\<rparr>"

text \<open>The rows come in table order; the caller treats them as a set.\<close>

definition getSpentClaimNullifiers :: "int \<Rightarrow> string list \<Rightarrow> index_db \<Rightarrow> string list" where
  "getSpentClaimNullifiers c ns d = (if ns = [] then []
     else map (\<lambda>((_, n), _). n) (filter (\<lambda>((c', n), _). c' = c \<and> n \<in> set (map toLowerCase ns)) (ix_nullifiers d)))"

definition getClaimCursor :: "int \<Rightarrow> index_db \<Rightarrow> int option" where
  "getClaimCursor c d = jget (ix_claim_cursor d) c"

definition setClaimCursor :: "int \<Rightarrow> int \<Rightarrow> index_db \<Rightarrow> index_db" where
  "setClaimCursor c b d = d\<lparr>ix_claim_cursor := jset c b (ix_claim_cursor d)\<rparr>"

section \<open>A pass\<close>

definition DEFAULT_INDEX_CHUNK_SIZE :: int where "DEFAULT_INDEX_CHUNK_SIZE = 50000"

definition effective_chunk :: "int option \<Rightarrow> int" where
  "effective_chunk chunkSize = (case chunkSize of
     Some n \<Rightarrow> if 1 \<le> n then n else DEFAULT_INDEX_CHUNK_SIZE | None \<Rightarrow> DEFAULT_INDEX_CHUNK_SIZE)"

text \<open>What a window meets: the fetch throws, or it answers and the two writes succeed or throw.\<close>

datatype 'r window = FetchThrows string | Fetched "'r list" "string option" "string option"

record pass_stats =
  ps_fromBlock :: int
  ps_toBlock :: int
  ps_indexed :: nat
  ps_error :: "string option"

text \<open>
  The loop over the windows, for the table with the given writers.  The chunk is at least 1 in every
  pass (see \<open>effective_chunk\<close>); the guard only makes the recursion total.
\<close>

function index_loop ::
  "(int \<Rightarrow> 'r list \<Rightarrow> 'd \<Rightarrow> 'd) \<Rightarrow> (int \<Rightarrow> int \<Rightarrow> 'd \<Rightarrow> 'd) \<Rightarrow> int \<Rightarrow> (int \<Rightarrow> 'r window) \<Rightarrow> int \<Rightarrow> int \<Rightarrow> int \<Rightarrow>
   nat \<Rightarrow> 'd \<Rightarrow> nat \<times> string option \<times> 'd" where
  "index_loop upsert set_cursor c env start toBlock chunk n d =
     (if toBlock < start \<or> chunk < 1 then (n, None, d)
      else case env start of
        FetchThrows e \<Rightarrow> (n, Some e, d)
      | Fetched rows up cu \<Rightarrow>
          if rows \<noteq> [] \<and> up \<noteq> None then (n, up, d)
          else let d1 = (if rows \<noteq> [] then upsert c rows d else d); n1 = n + length rows in
            (case cu of
               Some e \<Rightarrow> (n1, Some e, d1)
             | None \<Rightarrow> index_loop upsert set_cursor c env (start + chunk) toBlock chunk n1
                         (set_cursor c (min (start + chunk - 1) toBlock) d1)))"
  by pat_completeness auto
termination
  by (relation "measure (\<lambda>(u, s, c, env, start, toBlock, chunk, n, d). nat (toBlock + 1 - start))") auto

declare index_loop.simps [simp del]

definition index_pass ::
  "(int \<Rightarrow> 'r list \<Rightarrow> 'd \<Rightarrow> 'd) \<Rightarrow> (int \<Rightarrow> 'd \<Rightarrow> int option) \<Rightarrow> (int \<Rightarrow> int \<Rightarrow> 'd \<Rightarrow> 'd) \<Rightarrow> int \<Rightarrow> int \<Rightarrow> int \<Rightarrow>
   int option \<Rightarrow> (int \<Rightarrow> 'r window) \<Rightarrow> 'd \<Rightarrow> pass_stats \<times> 'd" where
  "index_pass upsert cursor set_cursor c deployBlock toBlock chunkSize env d =
     (let chunk = effective_chunk chunkSize;
          fromBlock = (case cursor c d of None \<Rightarrow> deployBlock | Some k \<Rightarrow> max deployBlock (k + 1)) in
      case index_loop upsert set_cursor c env fromBlock toBlock chunk 0 d of
        (n, err, d') \<Rightarrow> (\<lparr>ps_fromBlock = fromBlock, ps_toBlock = toBlock, ps_indexed = n, ps_error = err\<rparr>, d'))"

definition runCommitmentIndexPass ::
  "int \<Rightarrow> int \<Rightarrow> int \<Rightarrow> int option \<Rightarrow> (int \<Rightarrow> commitment_leaf window) \<Rightarrow> index_db \<Rightarrow> pass_stats \<times> index_db" where
  "runCommitmentIndexPass = index_pass upsertCommitments getCommitmentCursor setCommitmentCursor"

definition runClaimIndexPass ::
  "int \<Rightarrow> int \<Rightarrow> int \<Rightarrow> int option \<Rightarrow> (int \<Rightarrow> nullifier_row window) \<Rightarrow> index_db \<Rightarrow> pass_stats \<times> index_db" where
  "runClaimIndexPass = index_pass upsertClaimNullifiers getClaimCursor setClaimCursor"

text \<open>One turn of the periodic loop: the head may be unavailable, and the scan stays behind it.\<close>

record loop_opts =
  lo_chainId :: int
  lo_deployBlock :: int
  lo_blockSafetyMargin :: int
  lo_chunkSize :: "int option"

definition failed_pass :: "string \<Rightarrow> pass_stats" where
  "failed_pass e = \<lparr>ps_fromBlock = - 1, ps_toBlock = - 1, ps_indexed = 0, ps_error = Some e\<rparr>"

definition commitment_turn ::
  "loop_opts \<Rightarrow> string + int \<Rightarrow> (int \<Rightarrow> commitment_leaf window) \<Rightarrow> index_db \<Rightarrow> pass_stats \<times> index_db" where
  "commitment_turn opts head env d = (case head of
     Inl e \<Rightarrow> (failed_pass e, d)
   | Inr latest \<Rightarrow> runCommitmentIndexPass (lo_chainId opts) (lo_deployBlock opts)
       (max 0 (latest - lo_blockSafetyMargin opts)) (lo_chunkSize opts) env d)"

definition claim_turn ::
  "loop_opts \<Rightarrow> string + int \<Rightarrow> (int \<Rightarrow> nullifier_row window) \<Rightarrow> index_db \<Rightarrow> pass_stats \<times> index_db" where
  "claim_turn opts head env d = (case head of
     Inl e \<Rightarrow> (failed_pass e, d)
   | Inr latest \<Rightarrow> runClaimIndexPass (lo_chainId opts) (lo_deployBlock opts)
       (max 0 (latest - lo_blockSafetyMargin opts)) (lo_chunkSize opts) env d)"

section \<open>Tables with a cursor\<close>

text \<open>
  The history of a chain: the events of each block.  A fetcher is honest if a window it answers holds
  the events of its blocks.
\<close>

definition block_events :: "(int \<Rightarrow> 'r list) \<Rightarrow> int \<Rightarrow> int \<Rightarrow> 'r list" where
  "block_events ev a b = concat (map ev [a..b])"

definition honest :: "(int \<Rightarrow> 'r list) \<Rightarrow> int \<Rightarrow> int \<Rightarrow> (int \<Rightarrow> 'r window) \<Rightarrow> bool" where
  "honest ev toBlock chunk env \<longleftrightarrow>
     (\<forall>start rows up cu. env start = Fetched rows up cu \<longrightarrow> rows = block_events ev start (min (start + chunk - 1) toBlock))"

lemma set_block_events: "r \<in> set (block_events ev a b) \<longleftrightarrow> (\<exists>k. a \<le> k \<and> k \<le> b \<and> r \<in> set (ev k))"
  by (auto simp: block_events_def)

locale scan_store =
  fixes upsert :: "int \<Rightarrow> 'r list \<Rightarrow> 'd \<Rightarrow> 'd"
    and cursor :: "int \<Rightarrow> 'd \<Rightarrow> int option"
    and set_cursor :: "int \<Rightarrow> int \<Rightarrow> 'd \<Rightarrow> 'd"
    and has :: "int \<Rightarrow> 'r \<Rightarrow> 'd \<Rightarrow> bool"
    and key :: "'r \<Rightarrow> 'k"
    and entry :: "'r \<Rightarrow> 'n"
  assumes cursor_set: "cursor c (set_cursor c' b d) = (if c = c' then Some b else cursor c d)"
    and cursor_upsert: "cursor c (upsert c' rows d) = cursor c d"
    and has_set: "has c r (set_cursor c' b d) = has c r d"
    and has_add: "r \<in> set rows \<or> has c r d \<Longrightarrow> (\<And>r'. r' \<in> set rows \<Longrightarrow> key r' = key r \<Longrightarrow> entry r' = entry r) \<Longrightarrow>
      has c r (upsert c rows d)"
    and has_only: "has c r (upsert c rows d) \<Longrightarrow> has c r d \<or> entry r \<in> entry ` set rows"
begin

text \<open>Events with the same key are the same entry.\<close>

definition consistent :: "(int \<Rightarrow> 'r list) \<Rightarrow> bool" where
  "consistent ev \<longleftrightarrow> (\<forall>k l r r'. r \<in> set (ev k) \<longrightarrow> r' \<in> set (ev l) \<longrightarrow> key r' = key r \<longrightarrow> entry r' = entry r)"

text \<open>Every event of the blocks from \<open>a\<close> up to the cursor is stored, and nothing but events is.\<close>

definition synced :: "(int \<Rightarrow> 'r list) \<Rightarrow> int \<Rightarrow> int \<Rightarrow> 'd \<Rightarrow> bool" where
  "synced ev c a d \<longleftrightarrow>
     (\<forall>k. cursor c d = Some k \<longrightarrow> (\<forall>r \<in> set (block_events ev a k). has c r d)) \<and>
     (\<forall>r. has c r d \<longrightarrow> (\<exists>k. entry r \<in> entry ` set (ev k)))"

lemma window_keeps:
  assumes "consistent ev" "synced ev c a d" "\<forall>r \<in> set (block_events ev a (start - 1)). has c r d"
    and "rows = block_events ev start e" "d1 = (if rows \<noteq> [] then upsert c rows d else d)"
  shows "synced ev c a d1" "\<forall>r \<in> set (block_events ev a e). has c r d1"
proof -
  have add: "has c r d1" if "r \<in> set (ev k)" "r \<in> set rows \<or> has c r d" for r k
  proof (cases "rows = []")
    case False
    have "entry r' = entry r" if r': "r' \<in> set rows" "key r' = key r" for r'
    proof -
      obtain l where "r' \<in> set (ev l)" using r'(1) assms(4) by (auto simp: set_block_events)
      then show ?thesis using assms(1) \<open>r \<in> set (ev k)\<close> r'(2) unfolding consistent_def by blast
    qed
    then show ?thesis using has_add [OF that(2)] False assms(5) by simp
  qed (use that assms(5) in simp)
  have "has c r d1" if r: "r \<in> set (block_events ev a e)" for r
  proof -
    obtain k where k: "a \<le> k" "k \<le> e" "r \<in> set (ev k)" using r by (auto simp: set_block_events)
    have "r \<in> set rows \<or> has c r d"
    proof (cases "start \<le> k")
      case True
      then show ?thesis using k assms(4) by (auto simp: set_block_events)
    next
      case False
      then have "r \<in> set (block_events ev a (start - 1))" using k by (auto simp: set_block_events)
      then show ?thesis using assms(3) by blast
    qed
    then show ?thesis using add k(3) by blast
  qed
  then show "\<forall>r \<in> set (block_events ev a e). has c r d1" by blast
  have cur: "cursor c d1 = cursor c d" by (simp add: assms(5) cursor_upsert)
  have old: "has c r d1" if cur: "cursor c d = Some k" and r: "r \<in> set (block_events ev a k)" for r k
  proof -
    have "has c r d" using assms(2) cur r by (auto simp: synced_def)
    moreover obtain l where "r \<in> set (ev l)" using r by (auto simp: set_block_events)
    ultimately show ?thesis using add by blast
  qed
  have only: "\<exists>k. entry r \<in> entry ` set (ev k)" if "has c r d1" for r
  proof (cases "has c r d")
    case True
    then show ?thesis using assms(2) by (simp add: synced_def)
  next
    case False
    then have "entry r \<in> entry ` set rows" using has_only that assms(5) by (metis (full_types))
    then obtain r' where "r' \<in> set rows" "entry r = entry r'" by blast
    then show ?thesis using assms(4) by (auto simp: set_block_events)
  qed
  show "synced ev c a d1" using cur old only by (simp add: synced_def)
qed

lemma cursor_keeps:
  assumes "synced ev c a d" "\<forall>r \<in> set (block_events ev a e). has c r d"
  shows "synced ev c a (set_cursor c e d)"
  using assms by (simp add: synced_def cursor_set has_set)

lemma loop_keeps:
  assumes "consistent ev" "honest ev toBlock chunk env" "1 \<le> chunk"
    and "synced ev c a d" "\<forall>r \<in> set (block_events ev a (start - 1)). has c r d"
    and "index_loop upsert set_cursor c env start toBlock chunk n d = (m, err, d')"
  shows "synced ev c a d' \<and> (if toBlock < start then d' = d else err = None \<longrightarrow> cursor c d' = Some toBlock)"
  using assms(4-)
proof (induction "nat (toBlock + 1 - start)" arbitrary: start n d rule: less_induct)
  case less
  show ?case
  proof (cases "toBlock < start")
    case True
    then show ?thesis using less.prems by (simp add: index_loop.simps)
  next
    case False
    let ?e = "min (start + chunk - 1) toBlock"
    show ?thesis
    proof (cases "env start")
      case (FetchThrows e)
      then have "err = Some e \<and> d' = d" using less.prems(3) False assms(3) by (auto simp: index_loop.simps)
      then show ?thesis using less.prems(1) False by simp
    next
      case (Fetched rows up cu)
      have rows: "rows = block_events ev start ?e" using assms(2) Fetched by (simp add: honest_def)
      define d1 where "d1 = (if rows \<noteq> [] then upsert c rows d else d)"
      note w = window_keeps [OF assms(1) less.prems(1,2) rows d1_def]
      show ?thesis
      proof (cases "rows \<noteq> [] \<and> up \<noteq> None")
        case True
        then show ?thesis using less.prems False Fetched assms(3) by (auto simp: index_loop.simps)
      next
        case ok: False
        show ?thesis
        proof (cases cu)
          case (Some e)
          then have "err = Some e \<and> d' = d1"
            using less.prems(3) False Fetched ok assms(3)
            by (subst (asm) index_loop.simps) (auto simp: Let_def d1_def split: if_splits)
          then show ?thesis using w(1) False by simp
        next
          case None
          let ?d2 = "set_cursor c ?e d1"
          have run: "index_loop upsert set_cursor c env (start + chunk) toBlock chunk (n + length rows) ?d2 = (m, err, d')"
            using less.prems(3) False Fetched ok None assms(3)
            by (subst (asm) index_loop.simps) (auto simp: Let_def d1_def split: if_splits)
          have pre: "\<forall>r \<in> set (block_events ev a (start + chunk - 1)). has c r ?d2" if "start + chunk \<le> toBlock"
            using w(2) that by (simp add: has_set min_def)
          have s2: "synced ev c a ?d2" by (rule cursor_keeps [OF w])
          show ?thesis
          proof (cases "toBlock < start + chunk")
            case True
            then have "d' = ?d2" "err = None" using run by (simp_all add: index_loop.simps)
            then show ?thesis using s2 True False by (simp add: cursor_set min_def)
          next
            case more: False
            then show ?thesis using less.hyps [OF _ s2 _ run] pre False assms(3) by simp
          qed
        qed
      qed
    qed
  qed
qed

lemma pass_keeps:
  assumes "consistent ev" "honest ev toBlock (effective_chunk ch) env" "synced ev c a d"
    and "index_pass upsert cursor set_cursor c a toBlock ch env d = (st, d')"
  shows "synced ev c a d' \<and> (ps_error st = None \<and> a \<le> toBlock \<longrightarrow> (\<exists>k \<ge> toBlock. cursor c d' = Some k))"
proof -
  let ?from = "case cursor c d of None \<Rightarrow> a | Some k \<Rightarrow> max a (k + 1)"
  obtain n err d2 where run: "index_loop upsert set_cursor c env ?from toBlock (effective_chunk ch) 0 d = (n, err, d2)"
    using prod_cases3 by blast
  have st: "d' = d2" "ps_error st = err" using assms(4) run by (auto simp: index_pass_def Let_def)
  have ch: "1 \<le> effective_chunk ch"
    by (auto simp: effective_chunk_def DEFAULT_INDEX_CHUNK_SIZE_def split: option.splits)
  have pre: "\<forall>r \<in> set (block_events ev a (?from - 1)). has c r d"
  proof (cases "cursor c d")
    case (Some k)
    then have "\<forall>r \<in> set (block_events ev a k). has c r d" using assms(3) by (simp add: synced_def)
    then show ?thesis using Some by (auto simp: set_block_events max_def)
  qed (simp add: block_events_def)
  note keep = loop_keeps [OF assms(1,2) ch assms(3) pre run]
  have "\<exists>k \<ge> toBlock. cursor c d' = Some k" if "err = None" "a \<le> toBlock"
  proof (cases "toBlock < ?from")
    case True
    then have "d' = d" using keep st by simp
    then show ?thesis using True that by (cases "cursor c d") auto
  next
    case False
    then show ?thesis using keep st that by auto
  qed
  then show ?thesis using keep st by simp
qed

end

section \<open>The two tables\<close>

lemma fold_jset:
  "jget (fold (\<lambda>r. jset (k r) (v r)) rows t) q =
     (case map_of (rev (map (\<lambda>r. (k r, v r)) rows)) q of Some w \<Rightarrow> Some w | None \<Rightarrow> jget t q)"
  by (induction rows arbitrary: t) (auto simp: map_add_def split: option.splits)

lemma fold_jset_add:
  assumes "(\<exists>r \<in> set rows. k r = q \<and> v r = w) \<or> jget t q = Some w" "\<And>r. r \<in> set rows \<Longrightarrow> k r = q \<Longrightarrow> v r = w"
  shows "jget (fold (\<lambda>r. jset (k r) (v r)) rows t) q = Some w"
proof (cases "map_of (rev (map (\<lambda>r. (k r, v r)) rows)) q")
  case None
  then have "q \<notin> k ` set rows" by (auto simp: map_of_eq_None_iff image_image)
  then show ?thesis using assms(1) None by (auto simp: fold_jset)
next
  case (Some u)
  then have "(q, u) \<in> set (rev (map (\<lambda>r. (k r, v r)) rows))" by (rule map_of_SomeD)
  then have "u = w" using assms(2) by auto
  then show ?thesis using Some by (simp add: fold_jset)
qed

lemma fold_jset_only:
  assumes "jget (fold (\<lambda>r. jset (k r) (v r)) rows t) q = Some w"
  shows "jget t q = Some w \<or> (\<exists>r \<in> set rows. k r = q \<and> v r = w)"
proof (cases "map_of (rev (map (\<lambda>r. (k r, v r)) rows)) q")
  case (Some u)
  then have "(q, u) \<in> set (rev (map (\<lambda>r. (k r, v r)) rows))" by (rule map_of_SomeD)
  then show ?thesis using assms Some by (auto simp: fold_jset)
qed (use assms in \<open>simp add: fold_jset\<close>)

definition has_commitment :: "int \<Rightarrow> commitment_leaf \<Rightarrow> index_db \<Rightarrow> bool" where
  "has_commitment c r d \<longleftrightarrow> jget (ix_commitments d) (c, cl_leafIndex r) = Some (cl_commitment r, cl_blockNumber r)"

definition has_nullifier :: "int \<Rightarrow> nullifier_row \<Rightarrow> index_db \<Rightarrow> bool" where
  "has_nullifier c r d \<longleftrightarrow> jget (ix_nullifiers d) (c, toLowerCase (nr_nullifier r)) = Some (nr_blockNumber r)"

interpretation cm: scan_store upsertCommitments getCommitmentCursor setCommitmentCursor has_commitment
  cl_leafIndex "\<lambda>r. (cl_leafIndex r, cl_commitment r, cl_blockNumber r)"
proof
  show "has_commitment c r (upsertCommitments c rows d)"
    if "r \<in> set rows \<or> has_commitment c r d"
      and "\<And>r'. r' \<in> set rows \<Longrightarrow> cl_leafIndex r' = cl_leafIndex r \<Longrightarrow>
        (cl_leafIndex r', cl_commitment r', cl_blockNumber r') = (cl_leafIndex r, cl_commitment r, cl_blockNumber r)"
    for r rows c d
    unfolding has_commitment_def upsertCommitments_def
    by (simp, rule fold_jset_add) (use that in \<open>auto simp: has_commitment_def\<close>)
  show "has_commitment c r d \<or> (cl_leafIndex r, cl_commitment r, cl_blockNumber r)
      \<in> (\<lambda>r. (cl_leafIndex r, cl_commitment r, cl_blockNumber r)) ` set rows"
    if "has_commitment c r (upsertCommitments c rows d)" for c r rows d
    using that unfolding has_commitment_def upsertCommitments_def
    by (auto dest!: fold_jset_only intro: rev_image_eqI)
qed (simp_all add: getCommitmentCursor_def setCommitmentCursor_def upsertCommitments_def has_commitment_def)

interpretation cn: scan_store upsertClaimNullifiers getClaimCursor setClaimCursor has_nullifier
  "\<lambda>r. toLowerCase (nr_nullifier r)" "\<lambda>r. (toLowerCase (nr_nullifier r), nr_blockNumber r)"
proof
  show "has_nullifier c r (upsertClaimNullifiers c rows d)"
    if "r \<in> set rows \<or> has_nullifier c r d"
      and "\<And>r'. r' \<in> set rows \<Longrightarrow> toLowerCase (nr_nullifier r') = toLowerCase (nr_nullifier r) \<Longrightarrow>
        (toLowerCase (nr_nullifier r'), nr_blockNumber r') = (toLowerCase (nr_nullifier r), nr_blockNumber r)"
    for r rows c d
    unfolding has_nullifier_def upsertClaimNullifiers_def
    by (simp, rule fold_jset_add) (use that in \<open>auto simp: has_nullifier_def\<close>)
  show "has_nullifier c r d \<or> (toLowerCase (nr_nullifier r), nr_blockNumber r)
      \<in> (\<lambda>r. (toLowerCase (nr_nullifier r), nr_blockNumber r)) ` set rows"
    if "has_nullifier c r (upsertClaimNullifiers c rows d)" for c r rows d
    using that unfolding has_nullifier_def upsertClaimNullifiers_def
    by (auto dest!: fold_jset_only intro: rev_image_eqI)
qed (simp_all add: getClaimCursor_def setClaimCursor_def upsertClaimNullifiers_def has_nullifier_def)

end
