(* ===== verification/MerkleTree.thy ===== *)
theory MerkleTree
  imports JsMap
begin

text \<open>
  The commitment trees of the client SDK (\<open>packages/sdk/src/zk/incrementalTree.ts\<close>, \<open>merkle.ts\<close>): the
  incremental tree that mirrors the contract, with its O(depth) insertion and its on-demand inclusion
  proof, and the tree built at once from padded leaves.  The Poseidon hash of two elements is the
  parameter \<open>H\<close>.  The one fact used of it is the one the code documents for its table of constants:
  \<open>ZEROS[i]\<close> is the hash of \<open>ZEROS[i-1]\<close> with itself.
\<close>

section \<open>The incremental tree\<close>

definition ZEROS :: "int list" where
  "ZEROS = [
    0,
    0x2098f5fb9e239eab3ceac3f27b81e481dc3124d55ffed523a839ee8446b64864,
    0x1069673dcdb12263df301a6ff584a7ec261a44cb9dc68df067a4774460b1f1e1,
    0x18f43331537ee2af2e3d758d50f72106467c6eea50371dd528d57eb2b856d238,
    0x07f9d837cb17b0d36320ffe93ba52345f1b728571a568265caac97559dbc952a,
    0x2b94cf5e8746b3f5c9631f4c5df32907a699c58c94b2ad4d7b5cec1639183f55,
    0x2dee93c5a666459646ea7d22cca9e1bcfed71e6951b953611d11dda32ea09d78,
    0x078295e5a22b84e982cf601eb639597b8b0515a88cb5ac7fa8a4aabe3c87349d,
    0x2fa5e5f18f6027a6501bec864564472a616b2e274a41211a444cbe3a99f3cc61,
    0x0e884376d0d8fd21ecb780389e941f66e45e7acce3e228ab3e2156a614fcd747,
    0x1b7201da72494f1e28717ad1a52eb469f95892f957713533de6175e5da190af2,
    0x1f8d8822725e36385200c0b201249819a6e6e1e4650808b5bebc6bface7d7636,
    0x2c5d82f66c914bafb9701589ba8cfcfb6162b0a12acf88a8d0879a0471b5f85a,
    0x14c54148a0940bb820957f5adf3fa1134ef5c4aaa113f4646458f270e0bfbfd0,
    0x190d33b12f986f961e10c0ee44d8b9af11be25588cad89d416118e4bf4ebe80c,
    0x22f98aa9ce704152ac17354914ad73ed1167ae6596af510aa5b3649325e06c92,
    0x2a7c7c9b6ce5880b9f6f228d72bf6a575a526f29c66ecceef8b753d38bba7323,
    0x2e8186e558698ec1c67af9c14d463ffc470043c9c2988b954d75dd643f36b992,
    0x0f57c5571e9a4eab49e2c8cf050dae948aef6ead647392273546249d1c1ff10f,
    0x1830ee67b5fb554ad5f63d4388800e1cfe78e310697d46e43c9ce36134f72cca,
    0x2134e76ac5d21aab186c2be1dd8f84ee880a1e46eaf712f9d371b6df22191f3e]"

definition zeros_chain :: "(int \<Rightarrow> int \<Rightarrow> int) \<Rightarrow> bool" where
  "zeros_chain H \<longleftrightarrow> (\<forall>i < length ZEROS - 1. ZEROS ! Suc i = H (ZEROS ! i) (ZEROS ! i))"

record mtree =
  mt_depth :: nat
  mt_filled :: "int list"
  mt_leaves :: "int list"
  mt_root :: int

definition new_tree :: "nat \<Rightarrow> mtree option" where
  "new_tree depth = (if length ZEROS - 1 < depth then None
     else Some \<lparr>mt_depth = depth, mt_filled = take depth ZEROS, mt_leaves = [], mt_root = ZEROS ! depth\<rparr>)"

text \<open>The loop of \<open>insert\<close>: \<open>k\<close> levels are left, the next one is \<open>i\<close>.\<close>

fun insert_loop :: "(int \<Rightarrow> int \<Rightarrow> int) \<Rightarrow> nat \<Rightarrow> nat \<Rightarrow> nat \<Rightarrow> int \<Rightarrow> int list \<Rightarrow> int \<times> int list" where
  "insert_loop H 0 i idx cur fs = (cur, fs)"
| "insert_loop H (Suc k) i idx cur fs =
     (if idx mod 2 = 0
      then insert_loop H k (Suc i) (idx div 2) (H cur (ZEROS ! i)) (fs[i := cur])
      else insert_loop H k (Suc i) (idx div 2) (H (fs ! i) cur) fs)"

definition insert_leaf :: "(int \<Rightarrow> int \<Rightarrow> int) \<Rightarrow> int \<Rightarrow> mtree \<Rightarrow> (nat \<times> mtree) option" where
  "insert_leaf H leaf t =
     (let n = length (mt_leaves t) in
      if 2 ^ mt_depth t \<le> n then None
      else case insert_loop H (mt_depth t) 0 n leaf (mt_filled t) of
        (r, fs) \<Rightarrow> Some (n, t\<lparr>mt_leaves := mt_leaves t @ [leaf], mt_filled := fs, mt_root := r\<rparr>))"

fun insert_all :: "(int \<Rightarrow> int \<Rightarrow> int) \<Rightarrow> int list \<Rightarrow> mtree \<Rightarrow> mtree option" where
  "insert_all H [] t = Some t"
| "insert_all H (x # xs) t = (case insert_leaf H x t of None \<Rightarrow> None | Some (_, t') \<Rightarrow> insert_all H xs t')"

definition fromLeaves :: "(int \<Rightarrow> int \<Rightarrow> int) \<Rightarrow> int list \<Rightarrow> nat \<Rightarrow> mtree option" where
  "fromLeaves H leaves depth = (case new_tree depth of None \<Rightarrow> None | Some t \<Rightarrow> insert_all H leaves t)"

text \<open>The next layer over the inserted prefix; a missing right neighbour is the zero of the level.\<close>

fun next_layer :: "(int \<Rightarrow> int \<Rightarrow> int) \<Rightarrow> int \<Rightarrow> int list \<Rightarrow> int list" where
  "next_layer H z [] = []"
| "next_layer H z [a] = [H a z]"
| "next_layer H z (a # b # xs) = H a b # next_layer H z xs"

fun proof_loop :: "(int \<Rightarrow> int \<Rightarrow> int) \<Rightarrow> nat \<Rightarrow> nat \<Rightarrow> int list \<Rightarrow> nat \<Rightarrow> int list \<times> nat list" where
  "proof_loop H 0 level xs idx = ([], [])"
| "proof_loop H (Suc k) level xs idx =
     (let isRight = idx mod 2; siblingIdx = (if isRight = 1 then idx - 1 else idx + 1);
          sibling = (if siblingIdx < length xs then xs ! siblingIdx else ZEROS ! level) in
      case proof_loop H k (Suc level) (next_layer H (ZEROS ! level) xs) (idx div 2) of
        (es, bs) \<Rightarrow> (sibling # es, isRight # bs))"

definition tree_proof :: "(int \<Rightarrow> int \<Rightarrow> int) \<Rightarrow> int \<Rightarrow> mtree \<Rightarrow> (int \<times> int list \<times> nat list) option" where
  "tree_proof H leafIndex t =
     (if leafIndex < 0 \<or> int (length (mt_leaves t)) \<le> leafIndex then None
      else case proof_loop H (mt_depth t) 0 (mt_leaves t) (nat leafIndex) of
        (es, bs) \<Rightarrow> Some (mt_root t, es, bs))"

section \<open>The tree built at once\<close>

fun pair_up :: "(int \<Rightarrow> int \<Rightarrow> int) \<Rightarrow> int list \<Rightarrow> int list" where
  "pair_up H (a # b # xs) = H a b # pair_up H xs"
| "pair_up H xs = []"

fun layers_of :: "(int \<Rightarrow> int \<Rightarrow> int) \<Rightarrow> nat \<Rightarrow> int list \<Rightarrow> int list list" where
  "layers_of H 0 cur = [cur]"
| "layers_of H (Suc k) cur = cur # layers_of H k (pair_up H cur)"

record built_tree =
  bt_root :: int
  bt_layers :: "int list list"

definition buildMerkleTree :: "(int \<Rightarrow> int \<Rightarrow> int) \<Rightarrow> int list \<Rightarrow> int \<Rightarrow> built_tree option" where
  "buildMerkleTree H leaves depth =
     (if depth < 1 \<or> 30 < depth then None
      else let size = 2 ^ nat depth in
        if size < length leaves then None
        else let padded = leaves @ replicate (size - length leaves) 0; ls = layers_of H (nat depth) padded in
          Some \<lparr>bt_root = hd (last ls), bt_layers = ls\<rparr>)"

text \<open>None is the throw on a missing sibling.\<close>

fun path_loop :: "int list list \<Rightarrow> nat \<Rightarrow> (int list \<times> nat list) option" where
  "path_loop [] idx = Some ([], [])"
| "path_loop [layer] idx = Some ([], [])"
| "path_loop (layer # l2 # ls) idx =
     (let isRight = idx mod 2; siblingIdx = (if isRight = 1 then idx - 1 else idx + 1) in
      if length layer \<le> siblingIdx then None
      else case path_loop (l2 # ls) (idx div 2) of
        None \<Rightarrow> None | Some (es, bs) \<Rightarrow> Some (layer ! siblingIdx # es, isRight # bs))"

definition getMerkleProof :: "int list list \<Rightarrow> int \<Rightarrow> (int list \<times> nat list) option" where
  "getMerkleProof layers leafIndex =
     (if length layers < 2 then None
      else if leafIndex < 0 \<or> int (length (hd layers)) \<le> leafIndex then None
      else path_loop layers (nat leafIndex))"

section \<open>Reference: the value of a node\<close>

text \<open>The node \<open>j\<close> of a level, over the leaves followed by zeros.\<close>

fun node :: "(int \<Rightarrow> int \<Rightarrow> int) \<Rightarrow> int list \<Rightarrow> nat \<Rightarrow> nat \<Rightarrow> int" where
  "node H xs 0 j = (if j < length xs then xs ! j else 0)"
| "node H xs (Suc l) j = H (node H xs l (2 * j)) (node H xs l (2 * j + 1))"

text \<open>What a circuit computes from a leaf and a path.\<close>

fun path_root :: "(int \<Rightarrow> int \<Rightarrow> int) \<Rightarrow> int \<Rightarrow> int list \<Rightarrow> nat list \<Rightarrow> int" where
  "path_root H cur (e # es) (b # bs) = path_root H (if b = 0 then H cur e else H e cur) es bs"
| "path_root H cur _ _ = cur"

lemma zeros_0 [simp]: "ZEROS ! 0 = 0" and zeros_length: "length ZEROS = 21"
  by (simp_all add: ZEROS_def)

lemma node_empty:
  assumes "zeros_chain H" "l \<le> 20" "length xs \<le> j * 2 ^ l"
  shows "node H xs l j = ZEROS ! l"
  using assms(2,3)
proof (induction l arbitrary: j)
  case (Suc l)
  have "length xs \<le> 2 * j * 2 ^ l" using Suc.prems(2) by (simp add: mult.commute mult.left_commute)
  then have "node H xs l (2 * j) = ZEROS ! l" "node H xs l (2 * j + 1) = ZEROS ! l"
    using Suc.IH [of "2 * j"] Suc.IH [of "2 * j + 1"] Suc.prems(1) by (simp_all add: add_mult_distrib)
  then show ?case using assms(1) Suc.prems(1) by (simp add: zeros_chain_def zeros_length)
qed simp

lemma node_full:
  "Suc j * 2 ^ l \<le> length xs \<Longrightarrow> node H (xs @ ys) l j = node H xs l j"
proof (induction l arbitrary: j)
  case (Suc l)
  have a: "Suc (2 * j + 1) * 2 ^ l \<le> length xs" using Suc.prems by (simp add: algebra_simps)
  have b: "Suc (2 * j) * 2 ^ l \<le> length xs" by (rule le_trans [OF _ a]) simp
  show ?case using Suc.IH [OF a] Suc.IH [OF b] by simp
qed (simp add: nth_append)

section \<open>Insertion\<close>

text \<open>The subtree that waits at level \<open>i\<close> is the last complete left one.\<close>

definition filled_ok :: "(int \<Rightarrow> int \<Rightarrow> int) \<Rightarrow> nat \<Rightarrow> int list \<Rightarrow> int list \<Rightarrow> bool" where
  "filled_ok H d fs xs \<longleftrightarrow> length fs = d \<and> (\<forall>i < d. odd (length xs div 2 ^ i) \<longrightarrow>
     fs ! i = node H xs i (length xs div 2 ^ i - 1))"

definition mtree_ok :: "(int \<Rightarrow> int \<Rightarrow> int) \<Rightarrow> mtree \<Rightarrow> bool" where
  "mtree_ok H t \<longleftrightarrow> mt_depth t \<le> 20 \<and> length (mt_leaves t) \<le> 2 ^ mt_depth t \<and>
     filled_ok H (mt_depth t) (mt_filled t) (mt_leaves t) \<and> mt_root t = node H (mt_leaves t) (mt_depth t) 0"

lemma div_pow_Suc: "n div 2 ^ Suc i = n div 2 ^ i div (2::nat)"
  by (simp add: power_Suc2 div_mult2_eq del: power_Suc)

lemma insert_loop_spec:
  fixes H :: "int \<Rightarrow> int \<Rightarrow> int"
  defines "w \<equiv> \<lambda>xs (i::nat). length xs div 2 ^ i"
  assumes "zeros_chain H" "i + k = d" "d \<le> 20" "filled_ok H d fs0 xs"
    and "length fs = d" "\<forall>j \<ge> i. fs ! j = fs0 ! j" "cur = node H (xs @ [x]) i (w xs i)" "idx = w xs i"
    and "insert_loop H k i idx cur fs = (r, fs')"
  shows "r = node H (xs @ [x]) d (w xs d) \<and> length fs' = d \<and> (\<forall>j < i. fs' ! j = fs ! j) \<and>
    (\<forall>j. i \<le> j \<and> j < d \<longrightarrow> fs' ! j = (if even (w xs j) then node H (xs @ [x]) j (w xs j) else fs0 ! j))"
  using assms(3-)
proof (induction k arbitrary: i fs cur idx)
  case 0
  then show ?case by auto
next
  case (Suc k)
  note W = w_def
  have i: "i < d" using Suc.prems(1) by simp
  have next_idx: "idx div 2 = w xs (Suc i)" using Suc.prems(7) by (simp only: W div_pow_Suc)
  have step: "node H (xs @ [x]) (Suc i) (idx div 2) =
      H (node H (xs @ [x]) i (2 * (idx div 2))) (node H (xs @ [x]) i (2 * (idx div 2) + 1))" by simp
  show ?case
  proof (cases "idx mod 2 = 0")
    case True
    then have ev: "even idx" by presburger
    have "length xs < Suc idx * 2 ^ i"
      using Suc.prems(7) by (simp add: W) (metis dividend_less_times_div mult.commute zero_less_numeral zero_less_power
          mult_Suc_right)
    then have "node H (xs @ [x]) i (idx + 1) = ZEROS ! i"
      using node_empty [OF assms(2), of i "xs @ [x]" "idx + 1"] i Suc.prems(2) by simp
    then have cur': "H cur (ZEROS ! i) = node H (xs @ [x]) (Suc i) (w xs (Suc i))"
    proof -
      have "2 * (idx div 2) = idx" using ev by presburger
      then show ?thesis using step Suc.prems(6,7) next_idx \<open>node H (xs @ [x]) i (idx + 1) = ZEROS ! i\<close> by simp
    qed
    have run: "insert_loop H k (Suc i) (idx div 2) (H cur (ZEROS ! i)) (fs[i := cur]) = (r, fs')"
      using Suc.prems(8) True by simp
    have ih: "r = node H (xs @ [x]) d (w xs d) \<and> length fs' = d \<and> (\<forall>j < Suc i. fs' ! j = fs[i := cur] ! j) \<and>
      (\<forall>j. Suc i \<le> j \<and> j < d \<longrightarrow> fs' ! j = (if even (w xs j) then node H (xs @ [x]) j (w xs j) else fs0 ! j))"
      using Suc.prems cur' next_idx run by (intro Suc.IH [where fs = "fs[i := cur]"]) simp_all
    have here: "fs' ! i = node H (xs @ [x]) i (w xs i)" "even (w xs i)"
      using ih i Suc.prems(4,6,7) ev by simp_all
    have "fs' ! j = (if even (w xs j) then node H (xs @ [x]) j (w xs j) else fs0 ! j)" if "i \<le> j" "j < d" for j
      using that ih here by (cases "j = i") simp_all
    then show ?thesis using ih by simp
  next
    case False
    then have od: "odd idx" by presburger
    have old: "fs ! i = node H xs i (idx - 1)"
      using Suc.prems(3,5,7) i od by (simp add: filled_ok_def W)
    have "Suc (idx - 1) * 2 ^ i \<le> length xs"
      using od Suc.prems(7) by (simp add: W odd_pos)
    then have left: "node H (xs @ [x]) i (idx - 1) = fs ! i" using node_full old by simp
    have "2 * (idx div 2) = idx - 1" "2 * (idx div 2) + 1 = idx" using od by presburger+
    then have cur': "H (fs ! i) cur = node H (xs @ [x]) (Suc i) (w xs (Suc i))"
      using step left Suc.prems(6,7) next_idx by simp
    have run: "insert_loop H k (Suc i) (idx div 2) (H (fs ! i) cur) fs = (r, fs')"
      using Suc.prems(8) False by simp
    have ih: "r = node H (xs @ [x]) d (w xs d) \<and> length fs' = d \<and> (\<forall>j < Suc i. fs' ! j = fs ! j) \<and>
      (\<forall>j. Suc i \<le> j \<and> j < d \<longrightarrow> fs' ! j = (if even (w xs j) then node H (xs @ [x]) j (w xs j) else fs0 ! j))"
      using Suc.prems cur' next_idx run by (intro Suc.IH) simp_all
    have here: "fs' ! i = fs0 ! i" "odd (w xs i)" using ih i Suc.prems(5,7) od by simp_all
    have "fs' ! j = (if even (w xs j) then node H (xs @ [x]) j (w xs j) else fs0 ! j)" if "i \<le> j" "j < d" for j
      using that ih here by (cases "j = i") simp_all
    then show ?thesis using ih by simp
  qed
qed

text \<open>Adding one moves a level's index exactly when the remainder wraps.\<close>

lemma div_pow_step:
  fixes n :: nat
  shows "Suc n div 2 ^ i = n div 2 ^ i \<or> Suc n div 2 ^ i = Suc (n div 2 ^ i)"
  by (simp add: div_Suc)

lemma odd_complete: "odd (n div 2 ^ i) \<Longrightarrow> Suc (n div 2 ^ i - 1) * 2 ^ i \<le> (n::nat)"
  by (simp add: odd_pos)

lemma insert_ok:
  assumes "zeros_chain H" "mtree_ok H t" "insert_leaf H x t = Some (n, t')"
  shows "mtree_ok H t' \<and> n = length (mt_leaves t) \<and> mt_leaves t' = mt_leaves t @ [x] \<and> mt_depth t' = mt_depth t"
proof -
  let ?xs = "mt_leaves t" and ?d = "mt_depth t"
  obtain r fs where run: "insert_loop H ?d 0 (length ?xs) x (mt_filled t) = (r, fs)" by fastforce
  have room: "length ?xs < 2 ^ ?d" using assms(3) by (simp add: insert_leaf_def Let_def split: if_splits)
  have t': "t' = t\<lparr>mt_leaves := ?xs @ [x], mt_filled := fs, mt_root := r\<rparr>" "n = length ?xs"
    using assms(3) run room by (auto simp: insert_leaf_def Let_def)
  have ok: "?d \<le> 20" "filled_ok H ?d (mt_filled t) ?xs" using assms(2) by (simp_all add: mtree_ok_def)
  have sp: "r = node H (?xs @ [x]) ?d (length ?xs div 2 ^ ?d)" "length fs = ?d"
    "\<And>j. j < ?d \<Longrightarrow> fs ! j = (if even (length ?xs div 2 ^ j) then node H (?xs @ [x]) j (length ?xs div 2 ^ j)
       else mt_filled t ! j)"
    using insert_loop_spec [OF assms(1) _ ok, of 0 ?d "mt_filled t" x x "length ?xs" r fs] run ok(2)
    by (simp_all add: filled_ok_def nth_append)
  have "fs ! i = node H (?xs @ [x]) i (Suc (length ?xs) div 2 ^ i - 1)"
    if i: "i < ?d" and od: "odd (Suc (length ?xs) div 2 ^ i)" for i
  proof (cases "Suc (length ?xs) div 2 ^ i = length ?xs div 2 ^ i")
    case True
    then have o: "odd (length ?xs div 2 ^ i)" using od by simp
    have "mt_filled t ! i = node H ?xs i (length ?xs div 2 ^ i - 1)" using ok(2) i o by (simp add: filled_ok_def)
    then show ?thesis using sp(3) [OF i] o True node_full [OF odd_complete [OF o]] by simp
  next
    case False
    then have "Suc (length ?xs) div 2 ^ i = Suc (length ?xs div 2 ^ i)" using div_pow_step by blast
    then show ?thesis using sp(3) [OF i] od by simp
  qed
  then have "filled_ok H ?d fs (?xs @ [x])" using sp(2) by (simp add: filled_ok_def)
  then show ?thesis using sp(1) room ok(1) by (simp add: mtree_ok_def t')
qed

lemma new_ok: "zeros_chain H \<Longrightarrow> new_tree d = Some t \<Longrightarrow> mtree_ok H t \<and> mt_leaves t = [] \<and> mt_depth t = d"
  using node_empty [of H d "[]" 0]
  by (auto simp: new_tree_def mtree_ok_def filled_ok_def zeros_length split: if_splits)

lemma insert_all_ok:
  "zeros_chain H \<Longrightarrow> mtree_ok H t \<Longrightarrow> insert_all H xs t = Some t' \<Longrightarrow>
   mtree_ok H t' \<and> mt_leaves t' = mt_leaves t @ xs \<and> mt_depth t' = mt_depth t"
proof (induction xs arbitrary: t)
  case (Cons x xs)
  then obtain n u where u: "insert_leaf H x t = Some (n, u)" "insert_all H xs u = Some t'"
    by (auto split: option.splits)
  then show ?case using insert_ok [OF Cons.prems(1,2) u(1)] Cons.IH [of u] Cons.prems(1) by simp
qed simp

lemma fromLeaves_ok:
  assumes "zeros_chain H" "fromLeaves H xs d = Some t"
  shows "mtree_ok H t \<and> mt_leaves t = xs \<and> mt_depth t = d"
proof -
  obtain u where u: "new_tree d = Some u" "insert_all H xs u = Some t"
    using assms(2) by (auto simp: fromLeaves_def split: option.splits)
  show ?thesis using insert_all_ok [OF assms(1) _ u(2)] new_ok [OF assms(1) u(1)] by simp
qed

section \<open>Inclusion proofs\<close>

lemma next_layer_length: "length (next_layer H z xs) = (length xs + 1) div 2"
  by (induction H z xs rule: next_layer.induct) simp_all

lemma next_layer_nth:
  "j < (length xs + 1) div 2 \<Longrightarrow> next_layer H z xs ! j =
     H (xs ! (2 * j)) (if 2 * j + 1 < length xs then xs ! (2 * j + 1) else z)"
proof (induction H z xs arbitrary: j rule: next_layer.induct)
  case (3 H z a b xs)
  show ?case
  proof (cases j)
    case (Suc i)
    then show ?thesis using 3 by simp
  qed simp
qed simp_all

definition prefix_of :: "(int \<Rightarrow> int \<Rightarrow> int) \<Rightarrow> int list \<Rightarrow> nat \<Rightarrow> int list \<Rightarrow> bool" where
  "prefix_of H leaves l xs \<longleftrightarrow> (\<forall>j < length xs. xs ! j = node H leaves l j) \<and> length leaves \<le> length xs * 2 ^ l"

lemma prefix_node:
  assumes "zeros_chain H" "l \<le> 20" "prefix_of H leaves l xs"
  shows "(if j < length xs then xs ! j else ZEROS ! l) = node H leaves l j"
proof (cases "j < length xs")
  case False
  then have "length leaves \<le> j * 2 ^ l"
    using assms(3) by (meson mult_le_mono1 not_less order_trans prefix_of_def)
  then show ?thesis using node_empty [OF assms(1,2)] False by simp
qed (use assms(3) in \<open>simp add: prefix_of_def\<close>)

lemma prefix_next:
  assumes "zeros_chain H" "l \<le> 20" "prefix_of H leaves l xs"
  shows "prefix_of H leaves (Suc l) (next_layer H (ZEROS ! l) xs)"
proof -
  have "next_layer H (ZEROS ! l) xs ! j = node H leaves (Suc l) j" if "j < length (next_layer H (ZEROS ! l) xs)" for j
  proof -
    have j: "j < (length xs + 1) div 2" using that by (simp add: next_layer_length)
    then have "2 * j < length xs" by linarith
    then show ?thesis
      using next_layer_nth [OF j, of H "ZEROS ! l"] prefix_node [OF assms, of "2 * j"] prefix_node [OF assms, of "2 * j + 1"]
      by simp
  qed
  moreover have "length leaves \<le> (length xs + 1) div 2 * 2 ^ Suc l"
  proof -
    have "length xs \<le> (length xs + 1) div 2 * 2" by linarith
    then have "length xs * 2 ^ l \<le> ((length xs + 1) div 2 * 2) * 2 ^ l" by (rule mult_le_mono1)
    moreover have "length leaves \<le> length xs * 2 ^ l" using assms(3) by (simp add: prefix_of_def)
    ultimately have "length leaves \<le> ((length xs + 1) div 2 * 2) * 2 ^ l" by linarith
    then show ?thesis by (simp only: mult.assoc power_Suc)
  qed
  ultimately show ?thesis by (simp add: prefix_of_def next_layer_length)
qed

text \<open>The path of node \<open>idx\<close> of level \<open>l\<close>: siblings and sides.\<close>

fun node_path :: "(int \<Rightarrow> int \<Rightarrow> int) \<Rightarrow> int list \<Rightarrow> nat \<Rightarrow> nat \<Rightarrow> nat \<Rightarrow> int list \<times> nat list" where
  "node_path H leaves l 0 idx = ([], [])"
| "node_path H leaves l (Suc k) idx =
     (case node_path H leaves (Suc l) k (idx div 2) of (es, bs) \<Rightarrow>
        (node H leaves l (if idx mod 2 = 1 then idx - 1 else idx + 1) # es, idx mod 2 # bs))"

lemma proof_loop_path:
  "zeros_chain H \<Longrightarrow> l + k \<le> 20 \<Longrightarrow> prefix_of H leaves l xs \<Longrightarrow> proof_loop H k l xs idx = node_path H leaves l k idx"
proof (induction k arbitrary: l xs idx)
  case (Suc k)
  have "proof_loop H k (Suc l) (next_layer H (ZEROS ! l) xs) (idx div 2) = node_path H leaves (Suc l) k (idx div 2)"
    using Suc.prems prefix_next by (intro Suc.IH) simp_all
  then show ?case using prefix_node [OF Suc.prems(1) _ Suc.prems(3)] Suc.prems(2)
    by (simp add: Let_def split: prod.split)
qed simp

lemma node_path_root:
  "node_path H leaves l k idx = (es, bs) \<Longrightarrow> path_root H (node H leaves l idx) es bs = node H leaves (l + k) (idx div 2 ^ k)"
proof (induction k arbitrary: l idx es bs)
  case (Suc k)
  obtain es' bs' where p: "node_path H leaves (Suc l) k (idx div 2) = (es', bs')" by fastforce
  have ih: "path_root H (node H leaves (Suc l) (idx div 2)) es' bs' = node H leaves (Suc l + k) (idx div 2 div 2 ^ k)"
    by (rule Suc.IH [OF p])
  have d: "idx div 2 div 2 ^ k = idx div 2 ^ Suc k" by (simp add: div_mult2_eq)
  show ?case
  proof (cases "idx mod 2 = 0")
    case True
    then have "2 * (idx div 2) = idx" by presburger
    then have "node H leaves (Suc l) (idx div 2) = H (node H leaves l idx) (node H leaves l (idx + 1))" by simp
    then show ?thesis using Suc.prems p ih True d by (auto simp del: node.simps)
  next
    case False
    then have "idx mod 2 = 1" "2 * (idx div 2) = idx - 1" "2 * (idx div 2) + 1 = idx" by presburger+
    then have "node H leaves (Suc l) (idx div 2) = H (node H leaves l (idx - 1)) (node H leaves l idx)" by simp
    then show ?thesis using Suc.prems p ih \<open>idx mod 2 = 1\<close> d by (auto simp del: node.simps)
  qed
qed auto

lemma node_path_length: "node_path H leaves l k idx = (es, bs) \<Longrightarrow> length es = k \<and> length bs = k"
  by (induction k arbitrary: l idx es bs) (auto split: prod.splits)

section \<open>The built tree\<close>

lemma pair_up_spec:
  "even (length xs) \<Longrightarrow> length (pair_up H xs) = length xs div 2 \<and>
   (\<forall>j < length xs div 2. pair_up H xs ! j = H (xs ! (2 * j)) (xs ! (2 * j + 1)))"
proof (induction H xs rule: pair_up.induct)
  case (1 H a b xs)
  then have ih: "length (pair_up H xs) = length xs div 2"
    "\<And>j. j < length xs div 2 \<Longrightarrow> pair_up H xs ! j = H (xs ! (2 * j)) (xs ! (2 * j + 1))" by simp_all
  have "pair_up H (a # b # xs) ! j = H ((a # b # xs) ! (2 * j)) ((a # b # xs) ! (2 * j + 1))"
    if "j < length (a # b # xs) div 2" for j
    using that ih(2) by (cases j) simp_all
  then show ?case using ih(1) by simp
qed simp_all

definition layer_at :: "(int \<Rightarrow> int \<Rightarrow> int) \<Rightarrow> int list \<Rightarrow> nat \<Rightarrow> nat \<Rightarrow> int list \<Rightarrow> bool" where
  "layer_at H leaves l k xs \<longleftrightarrow> length xs = 2 ^ k \<and> (\<forall>j < 2 ^ k. xs ! j = node H leaves l j)"

lemma layer_next:
  assumes "layer_at H leaves l (Suc k) xs"
  shows "layer_at H leaves (Suc l) k (pair_up H xs)"
proof -
  have len: "length xs = 2 * 2 ^ k" "even (length xs)" using assms by (simp_all add: layer_at_def)
  have "pair_up H xs ! j = node H leaves (Suc l) j" if j: "j < 2 ^ k" for j
  proof -
    have "2 * j < 2 * 2 ^ k" "2 * j + 1 < 2 * 2 ^ k" using j by linarith+
    then show ?thesis using pair_up_spec [OF len(2), of H] len(1) j assms by (simp add: layer_at_def)
  qed
  then show ?thesis using pair_up_spec [OF len(2), of H] len(1) by (simp add: layer_at_def)
qed

lemma layers_root: "layer_at H leaves l k xs \<Longrightarrow> hd (last (layers_of H k xs)) = node H leaves (l + k) 0"
proof (induction k arbitrary: l xs)
  case 0
  then show ?case by (cases xs) (auto simp: layer_at_def)
next
  case (Suc k)
  have "layers_of H k (pair_up H xs) \<noteq> []" by (cases k) simp_all
  then show ?case using Suc.IH [OF layer_next [OF Suc.prems]] by simp
qed

lemma layers_path:
  "layer_at H leaves l k xs \<Longrightarrow> idx < 2 ^ k \<Longrightarrow> path_loop (layers_of H k xs) idx = Some (node_path H leaves l k idx)"
proof (induction k arbitrary: l xs idx)
  case (Suc k)
  let ?sib = "if idx mod 2 = 1 then idx - 1 else idx + 1"
  have nx: "layer_at H leaves (Suc l) k (pair_up H xs)" by (rule layer_next [OF Suc.prems(1)])
  have ih: "path_loop (layers_of H k (pair_up H xs)) (idx div 2) = Some (node_path H leaves (Suc l) k (idx div 2))"
    using Suc.prems(2) by (intro Suc.IH [OF nx]) simp
  obtain l2 ls where ls: "layers_of H k (pair_up H xs) = l2 # ls" by (cases k) simp_all
  have sib: "?sib < 2 ^ Suc k" using Suc.prems(2) by (cases "idx mod 2 = 1") (simp_all, presburger)
  then have "xs ! ?sib = node H leaves l ?sib" "?sib < length xs" using Suc.prems(1) by (simp_all add: layer_at_def)
  then show ?case using ih ls by (simp add: Let_def split: prod.split)
qed simp

lemma build_some:
  assumes "1 \<le> d" "d \<le> 30" "length xs \<le> 2 ^ d"
  shows "\<exists>b. buildMerkleTree H xs (int d) = Some b \<and> bt_root b = node H xs d 0 \<and>
    (\<forall>i. getMerkleProof (bt_layers b) i = (if 0 \<le> i \<and> i < 2 ^ d then Some (node_path H xs 0 d (nat i)) else None))"
proof -
  let ?p = "xs @ replicate (2 ^ d - length xs) 0"
  have p: "layer_at H xs 0 d ?p" using assms(3) by (auto simp: layer_at_def nth_append)
  obtain k where k: "d = Suc k" using assms(1) by (cases d) auto
  have ls: "2 \<le> length (layers_of H d ?p)" "hd (layers_of H d ?p) = ?p"
    by (cases k; simp add: k)+
  have proofs: "getMerkleProof (layers_of H d ?p) i = (if 0 \<le> i \<and> i < 2 ^ d then Some (node_path H xs 0 d (nat i)) else None)" for i
  proof (cases "0 \<le> i \<and> i < 2 ^ d")
    case True
    then have "nat i < 2 ^ d" by (simp add: nat_less_iff)
    then show ?thesis using layers_path [OF p] True ls assms(3) by (simp add: getMerkleProof_def)
  next
    case False
    then show ?thesis using ls assms(3) by (auto simp: getMerkleProof_def)
  qed
  show ?thesis using assms layers_root [OF p] proofs by (simp add: buildMerkleTree_def Let_def)
qed

lemma insert_all_some:
  "length (mt_leaves t) + length xs \<le> 2 ^ mt_depth t \<Longrightarrow> \<exists>t'. insert_all H xs t = Some t'"
proof (induction xs arbitrary: t)
  case (Cons x xs)
  obtain r fs where "insert_loop H (mt_depth t) 0 (length (mt_leaves t)) x (mt_filled t) = (r, fs)" by fastforce
  then have i: "insert_leaf H x t = Some (length (mt_leaves t),
      t\<lparr>mt_leaves := mt_leaves t @ [x], mt_filled := fs, mt_root := r\<rparr>)"
    using Cons.prems by (simp add: insert_leaf_def Let_def)
  show ?case using Cons.IH [of "t\<lparr>mt_leaves := mt_leaves t @ [x], mt_filled := fs, mt_root := r\<rparr>"] Cons.prems i by simp
qed simp

lemma fromLeaves_some: "d \<le> 20 \<Longrightarrow> length xs \<le> 2 ^ d \<Longrightarrow> \<exists>t. fromLeaves H xs d = Some t"
  using insert_all_some by (simp add: fromLeaves_def new_tree_def zeros_length)

lemma tree_proof_path:
  assumes "zeros_chain H" "fromLeaves H xs d = Some t"
  shows "tree_proof H i t = (if 0 \<le> i \<and> i < int (length xs)
    then case node_path H xs 0 d (nat i) of (es, bs) \<Rightarrow> Some (mt_root t, es, bs) else None)"
proof -
  note ok = fromLeaves_ok [OF assms]
  have "prefix_of H xs 0 xs" by (simp add: prefix_of_def)
  then have "proof_loop H d 0 xs (nat i) = node_path H xs 0 d (nat i)"
    using ok assms(1) by (intro proof_loop_path) (simp_all add: mtree_ok_def)
  then show ?thesis using ok by (auto simp: tree_proof_def)
qed

section \<open>Properties\<close>

text \<open>
  C32.  The incremental tree is the full tree: for every depth up to the table's and every list of
  leaves that fits, inserting the leaves one by one succeeds and gives the root that building the
  padded tree at once gives, and both give the same inclusion proof for every inserted leaf.
\<close>

theorem incremental_tree_is_full_tree:
  assumes "zeros_chain H" "1 \<le> d" "d \<le> 20" "length xs \<le> 2 ^ d"
  shows "\<exists>t b. fromLeaves H xs d = Some t \<and> buildMerkleTree H xs (int d) = Some b \<and> mt_root t = bt_root b \<and>
    (\<forall>i. 0 \<le> i \<and> i < int (length xs) \<longrightarrow> map_option snd (tree_proof H i t) = getMerkleProof (bt_layers b) i)"
proof -
  obtain t where t: "fromLeaves H xs d = Some t" using fromLeaves_some assms(3,4) by blast
  obtain b where b: "buildMerkleTree H xs (int d) = Some b" "bt_root b = node H xs d 0"
    "\<And>i. getMerkleProof (bt_layers b) i = (if 0 \<le> i \<and> i < 2 ^ d then Some (node_path H xs 0 d (nat i)) else None)"
    using build_some [of d xs H] assms by auto
  have "mt_root t = node H xs d 0" using fromLeaves_ok [OF assms(1) t] by (simp add: mtree_ok_def)
  moreover have "map_option snd (tree_proof H i t) = getMerkleProof (bt_layers b) i"
    if "0 \<le> i" "i < int (length xs)" for i
  proof -
    have "i < 2 ^ d" using that assms(4) by (metis le_less_trans not_le of_nat_le_iff of_nat_numeral of_nat_power)
    then show ?thesis using that tree_proof_path [OF assms(1) t] b(3) by (simp split: prod.split)
  qed
  ultimately show ?thesis using t b(1,2) by (intro exI [of _ t] exI [of _ b]) simp
qed

text \<open>
  Inclusion proofs verify: for every inserted leaf the incremental tree returns a path of as many
  siblings as the tree is deep, and folding it from the leaf gives the root of the tree; outside the
  inserted range it throws.
\<close>

lemma inclusion_proofs_verify:
  assumes "zeros_chain H" "fromLeaves H xs d = Some t"
  shows "if 0 \<le> i \<and> i < int (length xs)
    then \<exists>es bs. tree_proof H i t = Some (mt_root t, es, bs) \<and> length es = d \<and> length bs = d \<and>
      path_root H (xs ! nat i) es bs = mt_root t
    else tree_proof H i t = None"
proof (cases "0 \<le> i \<and> i < int (length xs)")
  case True
  obtain es bs where p: "node_path H xs 0 d (nat i) = (es, bs)" by fastforce
  have ok: "length xs \<le> 2 ^ d" "mt_root t = node H xs d 0"
    using fromLeaves_ok [OF assms] by (auto simp: mtree_ok_def)
  have "nat i < 2 ^ d" using True ok(1) by linarith
  then have "path_root H (xs ! nat i) es bs = mt_root t"
    using node_path_root [OF p] True ok(2) by (simp add: nat_less_iff)
  then show ?thesis using True tree_proof_path [OF assms] p node_path_length [OF p] by simp
next
  case False
  then show ?thesis using tree_proof_path [OF assms] by auto
qed

section \<open>Witnesses\<close>

text \<open>A function that maps each zero to the next one, and mixes everything else.\<close>

definition sample_hash :: "int \<Rightarrow> int \<Rightarrow> int" where
  "sample_hash a b = (case map_of (zip (butlast ZEROS) (tl ZEROS)) a of
     Some z \<Rightarrow> if b = a then z else 31 * a + 7 * b + 1 | None \<Rightarrow> 31 * a + 7 * b + 1)"

lemma sample_zeros: "zeros_chain sample_hash"
proof -
  have "list_all (\<lambda>i. ZEROS ! Suc i = sample_hash (ZEROS ! i) (ZEROS ! i)) [0..<20]" by code_simp
  then show ?thesis by (simp add: zeros_chain_def zeros_length list_all_iff)
qed

theorem incremental_tree_is_full_tree_witness:
  "\<exists>t b. fromLeaves sample_hash [5, 6, 7] 2 = Some t \<and> buildMerkleTree sample_hash [5, 6, 7] 2 = Some b \<and>
     mt_root t = bt_root b"
  using incremental_tree_is_full_tree [OF sample_zeros, of 2 "[5, 6, 7]"] by auto

lemma inclusion_proofs_verify_witness:
  "\<exists>t es bs. fromLeaves sample_hash [5, 6, 7] 2 = Some t \<and> path_root sample_hash 7 es bs = mt_root t"
proof -
  obtain t where "fromLeaves sample_hash [5, 6, 7] 2 = Some t" using fromLeaves_some [of 2 "[5, 6, 7]"] by auto
  then show ?thesis using inclusion_proofs_verify [OF sample_zeros, of "[5, 6, 7]" 2 t 2] by auto
qed

end
