(* ===== verification/IndexerFacts.thy ===== *)
theory IndexerFacts
  imports Indexer MerkleTree
begin

text \<open>
  What the indexed tables guarantee to their readers: nothing up to the cursor is missing, nothing is
  made up, an error-free turn reaches the head, and the pages of leaves rebuild the tree of the contract.
\<close>

section \<open>Turns\<close>

definition head_block :: "loop_opts \<Rightarrow> int \<Rightarrow> int" where
  "head_block opts latest = max 0 (latest - lo_blockSafetyMargin opts)"

text \<open>Every window the RPC answers holds the events of its blocks.\<close>

definition honest_turn :: "loop_opts \<Rightarrow> (int \<Rightarrow> 'r list) \<Rightarrow> (string + int) \<times> (int \<Rightarrow> 'r window) \<Rightarrow> bool" where
  "honest_turn opts ev turn \<longleftrightarrow> (case turn of (head, env) \<Rightarrow>
     (\<forall>latest. head = Inr latest \<longrightarrow> honest ev (head_block opts latest) (effective_chunk (lo_chunkSize opts)) env))"

definition commitment_turns :: "loop_opts \<Rightarrow> ((string + int) \<times> (int \<Rightarrow> commitment_leaf window)) list \<Rightarrow> index_db \<Rightarrow> index_db" where
  "commitment_turns opts turns d = fold (\<lambda>(head, env) d. snd (commitment_turn opts head env d)) turns d"

definition claim_turns :: "loop_opts \<Rightarrow> ((string + int) \<times> (int \<Rightarrow> nullifier_row window)) list \<Rightarrow> index_db \<Rightarrow> index_db" where
  "claim_turns opts turns d = fold (\<lambda>(head, env) d. snd (claim_turn opts head env d)) turns d"

lemma commitment_turn_keeps:
  assumes "cm.consistent ev" "honest_turn opts ev (head, env)" "cm.synced ev (lo_chainId opts) (lo_deployBlock opts) d"
    and "commitment_turn opts head env d = (st, d')"
  shows "cm.synced ev (lo_chainId opts) (lo_deployBlock opts) d' \<and>
    (ps_error st = None \<longrightarrow> (\<exists>latest. head = Inr latest \<and> (lo_deployBlock opts \<le> head_block opts latest \<longrightarrow>
       (\<exists>k \<ge> head_block opts latest. getCommitmentCursor (lo_chainId opts) d' = Some k))))"
proof (cases head)
  case (Inl e)
  then show ?thesis using assms(3,4) by (auto simp: commitment_turn_def failed_pass_def)
next
  case (Inr latest)
  then have h: "honest ev (head_block opts latest) (effective_chunk (lo_chunkSize opts)) env"
    using assms(2) by (simp add: honest_turn_def)
  have run: "index_pass upsertCommitments getCommitmentCursor setCommitmentCursor (lo_chainId opts) (lo_deployBlock opts)
      (head_block opts latest) (lo_chunkSize opts) env d = (st, d')"
    using assms(4) Inr by (simp add: commitment_turn_def runCommitmentIndexPass_def head_block_def)
  show ?thesis using cm.pass_keeps [OF assms(1) h assms(3) run] Inr by auto
qed

lemma claim_turn_keeps:
  assumes "cn.consistent ev" "honest_turn opts ev (head, env)" "cn.synced ev (lo_chainId opts) (lo_deployBlock opts) d"
    and "claim_turn opts head env d = (st, d')"
  shows "cn.synced ev (lo_chainId opts) (lo_deployBlock opts) d' \<and>
    (ps_error st = None \<longrightarrow> (\<exists>latest. head = Inr latest \<and> (lo_deployBlock opts \<le> head_block opts latest \<longrightarrow>
       (\<exists>k \<ge> head_block opts latest. getClaimCursor (lo_chainId opts) d' = Some k))))"
proof (cases head)
  case (Inl e)
  then show ?thesis using assms(3,4) by (auto simp: claim_turn_def failed_pass_def)
next
  case (Inr latest)
  then have h: "honest ev (head_block opts latest) (effective_chunk (lo_chunkSize opts)) env"
    using assms(2) by (simp add: honest_turn_def)
  have run: "index_pass upsertClaimNullifiers getClaimCursor setClaimCursor (lo_chainId opts) (lo_deployBlock opts)
      (head_block opts latest) (lo_chunkSize opts) env d = (st, d')"
    using assms(4) Inr by (simp add: claim_turn_def runClaimIndexPass_def head_block_def)
  show ?thesis using cn.pass_keeps [OF assms(1) h assms(3) run] Inr by auto
qed

lemma commitment_turns_synced:
  assumes "cm.consistent ev" "\<forall>t \<in> set turns. honest_turn opts ev t"
    and "cm.synced ev (lo_chainId opts) (lo_deployBlock opts) d"
  shows "cm.synced ev (lo_chainId opts) (lo_deployBlock opts) (commitment_turns opts turns d)"
  using assms(2,3)
proof (induction turns arbitrary: d)
  case (Cons t turns)
  obtain head env where t: "t = (head, env)" by (cases t)
  obtain st d' where run: "commitment_turn opts head env d = (st, d')" by fastforce
  have "cm.synced ev (lo_chainId opts) (lo_deployBlock opts) d'"
    using commitment_turn_keeps [OF assms(1) _ Cons.prems(2) run] Cons.prems(1) t by simp
  then show ?case using Cons.IH [of d'] Cons.prems(1) t run by (simp add: commitment_turns_def)
qed (simp add: commitment_turns_def)

lemma claim_turns_synced:
  assumes "cn.consistent ev" "\<forall>t \<in> set turns. honest_turn opts ev t"
    and "cn.synced ev (lo_chainId opts) (lo_deployBlock opts) d"
  shows "cn.synced ev (lo_chainId opts) (lo_deployBlock opts) (claim_turns opts turns d)"
  using assms(2,3)
proof (induction turns arbitrary: d)
  case (Cons t turns)
  obtain head env where t: "t = (head, env)" by (cases t)
  obtain st d' where run: "claim_turn opts head env d = (st, d')" by fastforce
  have "cn.synced ev (lo_chainId opts) (lo_deployBlock opts) d'"
    using claim_turn_keeps [OF assms(1) _ Cons.prems(2) run] Cons.prems(1) t by simp
  then show ?case using Cons.IH [of d'] Cons.prems(1) t run by (simp add: claim_turns_def)
qed (simp add: claim_turns_def)

lemma synced_empty: "cm.synced ev c a empty_index" "cn.synced ev2 c a empty_index"
  by (simp_all add: cm.synced_def cn.synced_def empty_index_def getCommitmentCursor_def getClaimCursor_def
      has_commitment_def has_nullifier_def)

section \<open>The spent set\<close>

text \<open>
  The spent query can be trusted both ways.  After any sequence of turns of the claim indexer,
  whatever calls to the RPC or the database failed in them, a nullifier claimed in a block between the
  deployment and the cursor is reported as spent, and every nullifier reported as spent was claimed in
  some block of the chain.
\<close>

lemma spent_query_exact:
  assumes "\<And>k l r r'. r \<in> set (ev k) \<Longrightarrow> r' \<in> set (ev l) \<Longrightarrow>
      toLowerCase (nr_nullifier r') = toLowerCase (nr_nullifier r) \<Longrightarrow> nr_blockNumber r' = nr_blockNumber r"
    and "\<forall>t \<in> set turns. honest_turn opts ev t" "d = claim_turns opts turns empty_index"
    and "n \<in> set ns"
  shows "(\<forall>k b r. getClaimCursor (lo_chainId opts) d = Some k \<and> lo_deployBlock opts \<le> b \<and> b \<le> k \<and> r \<in> set (ev b) \<and>
      toLowerCase (nr_nullifier r) = toLowerCase n \<longrightarrow> toLowerCase n \<in> set (getSpentClaimNullifiers (lo_chainId opts) ns d)) \<and>
    (toLowerCase n \<in> set (getSpentClaimNullifiers (lo_chainId opts) ns d) \<longrightarrow>
      (\<exists>b. \<exists>r \<in> set (ev b). toLowerCase (nr_nullifier r) = toLowerCase n))"
proof -
  let ?c = "lo_chainId opts"
  have con: "cn.consistent ev" unfolding cn.consistent_def using assms(1) by (metis prod.inject)
  have syn: "cn.synced ev ?c (lo_deployBlock opts) d"
    using claim_turns_synced [OF con assms(2) synced_empty(2)] assms(3) by simp
  have spent: "toLowerCase n \<in> set (getSpentClaimNullifiers ?c ns d) \<longleftrightarrow> (\<exists>b. ((?c, toLowerCase n), b) \<in> set (ix_nullifiers d))"
    using assms(4) by (force simp: getSpentClaimNullifiers_def)
  have "toLowerCase n \<in> set (getSpentClaimNullifiers ?c ns d)"
    if h: "getClaimCursor ?c d = Some k" "lo_deployBlock opts \<le> b" "b \<le> k" "r \<in> set (ev b)"
      "toLowerCase (nr_nullifier r) = toLowerCase n" for k b r
  proof -
    have "r \<in> set (block_events ev (lo_deployBlock opts) k)" using h by (auto simp: set_block_events)
    then have "has_nullifier ?c r d" using syn h(1) by (simp add: cn.synced_def)
    then have "((?c, toLowerCase n), nr_blockNumber r) \<in> set (ix_nullifiers d)"
      using h(5) by (simp add: has_nullifier_def jget_in)
    then show ?thesis using spent by blast
  qed
  moreover have "\<exists>b. \<exists>r \<in> set (ev b). toLowerCase (nr_nullifier r) = toLowerCase n"
    if s: "toLowerCase n \<in> set (getSpentClaimNullifiers ?c ns d)"
  proof -
    obtain b where "((?c, toLowerCase n), b) \<in> set (ix_nullifiers d)" using s spent by blast
    then obtain b' where "jget (ix_nullifiers d) (?c, toLowerCase n) = Some b'"
      by (metis jget_def map_of_eq_None_iff not_Some_eq fst_conv image_eqI)
    moreover have "toLowerCase (toLowerCase n) = toLowerCase n" by simp
    ultimately have "has_nullifier ?c \<lparr>nr_nullifier = toLowerCase n, nr_blockNumber = b'\<rparr> d"
      by (simp add: has_nullifier_def)
    then obtain k where "(toLowerCase n, b') \<in> (\<lambda>r. (toLowerCase (nr_nullifier r), nr_blockNumber r)) ` set (ev k)"
      using syn unfolding cn.synced_def by fastforce
    then show ?thesis by force
  qed
  ultimately show ?thesis by blast
qed

section \<open>Pages of leaves\<close>

lemma index_loop_inv:
  assumes "\<And>c rows d. P d \<Longrightarrow> P (upsert c rows d)" "\<And>c b d. P d \<Longrightarrow> P (set_cursor c b d)"
    and "P d" "index_loop upsert set_cursor c env start toBlock chunk n d = (m, err, d')"
  shows "P d'"
  using assms(3,4)
proof (induction "nat (toBlock + 1 - start)" arbitrary: start n d rule: less_induct)
  case less
  show ?case
  proof (cases "toBlock < start \<or> chunk < 1")
    case True
    then show ?thesis using less.prems by (simp add: index_loop.simps)
  next
    case go: False
    show ?thesis
    proof (cases "env start")
      case (FetchThrows e)
      then show ?thesis using less.prems go by (simp add: index_loop.simps)
    next
      case (Fetched rows up cu)
      let ?d1 = "if rows \<noteq> [] then upsert c rows d else d"
      have d1: "P ?d1" using less.prems(1) assms(1) by simp
      show ?thesis
      proof (cases "rows \<noteq> [] \<and> up \<noteq> None \<or> cu \<noteq> None")
        case True
        then have "d' = d \<or> d' = ?d1"
          using less.prems(2) go Fetched by (subst (asm) index_loop.simps) (auto simp: Let_def split: if_splits option.splits)
        then show ?thesis using d1 less.prems(1) by metis
      next
        case False
        then have run: "index_loop upsert set_cursor c env (start + chunk) toBlock chunk (n + length rows)
            (set_cursor c (min (start + chunk - 1) toBlock) ?d1) = (m, err, d')"
          using less.prems(2) go Fetched by (subst (asm) index_loop.simps) (auto simp: Let_def split: if_splits)
        show ?thesis using less.hyps [OF _ assms(2) [OF d1] run] go by simp
      qed
    qed
  qed
qed

lemma fold_jset_ok: "jmap_ok t \<Longrightarrow> jmap_ok (fold (\<lambda>r. jset (k r) (v r)) rows t)"
  by (induction rows arbitrary: t) simp_all

lemma commitment_turns_ok:
  "jmap_ok (ix_commitments d) \<Longrightarrow> jmap_ok (ix_commitments (commitment_turns opts turns d))"
proof (induction turns arbitrary: d)
  case (Cons t turns)
  obtain head env where t: "t = (head, env)" by (cases t)
  have "jmap_ok (ix_commitments (snd (commitment_turn opts head env d)))"
  proof (cases head)
    case (Inr latest)
    have inv: "jmap_ok (ix_commitments d')"
      if "index_loop upsertCommitments setCommitmentCursor c env start b ch n d = (m, err, d')" for c start b ch n m err d'
      by (rule index_loop_inv [where P = "\<lambda>d. jmap_ok (ix_commitments d)", OF _ _ Cons.prems that])
        (simp_all add: upsertCommitments_def setCommitmentCursor_def fold_jset_ok)
    show ?thesis using inv Inr
      by (auto simp: commitment_turn_def runCommitmentIndexPass_def index_pass_def Let_def split: prod.split)
  qed (use Cons.prems in \<open>simp add: commitment_turn_def\<close>)
  then show ?case using Cons.IH t by (simp add: commitment_turns_def)
qed (simp add: commitment_turns_def)

lemma sort_key_unique:
  assumes "distinct (map f xs)" "distinct (map f ys)" "sorted (map f ys)" "set xs = set ys"
  shows "sort_key f xs = ys"
proof -
  have "map f (sort_key f xs) = map f ys"
    using assms by (intro sorted_distinct_set_unique) (simp_all add: distinct_map)
  moreover have "inj_on f (set (sort_key f xs) \<union> set ys)" using assms by (simp add: distinct_map)
  ultimately show ?thesis by (rule map_inj_on)
qed

definition leaf_of :: "(int \<times> int) \<times> string \<times> int \<Rightarrow> commitment_leaf" where
  "leaf_of e = (case e of ((c, i), (x, b)) \<Rightarrow> \<lparr>cl_leafIndex = i, cl_commitment = x, cl_blockNumber = b\<rparr>)"

lemma leaf_eta: "\<lparr>cl_leafIndex = cl_leafIndex r, cl_commitment = cl_commitment r, cl_blockNumber = cl_blockNumber r\<rparr> = r"
  by (rule commitment_leaf.equality) simp_all

text \<open>
  Clients rebuild the commitment tree from the pages.  When the leaves of the chain are
  \<open>L\<close>, leaf \<open>i\<close> with index \<open>i\<close>, and the turns of the indexer have passed the block of every leaf,
  whatever failed on the way, then the page from leaf \<open>m\<close> with a limit is exactly that segment of \<open>L\<close>,
  in order, and the reported total is the number of leaves.
\<close>

lemma leaf_pages_exact:
  assumes "\<And>r. (\<exists>b. r \<in> set (ev b)) \<longleftrightarrow> r \<in> set L" "\<And>i. i < length L \<Longrightarrow> cl_leafIndex (L ! i) = int i"
    and "\<forall>t \<in> set turns. honest_turn opts ev t" "d = commitment_turns opts turns empty_index"
    and "getCommitmentCursor (lo_chainId opts) d = Some k"
    and "\<And>b r. r \<in> set (ev b) \<Longrightarrow> lo_deployBlock opts \<le> b \<and> b \<le> k"
  shows "listCommitments (lo_chainId opts) (int m) limit d = take limit (drop m L) \<and>
    commitmentNextIndex (lo_chainId opts) d = int (length L)"
proof -
  let ?c = "lo_chainId opts"
  have idx: "r = r'" if "r \<in> set L" "r' \<in> set L" "cl_leafIndex r' = cl_leafIndex r" for r r'
    using that assms(2) by (metis in_set_conv_nth of_nat_eq_iff)
  have "cm.consistent ev" unfolding cm.consistent_def using idx assms(1) by metis
  from commitment_turns_synced [OF this assms(3) synced_empty(1)]
  have syn: "cm.synced ev ?c (lo_deployBlock opts) d" using assms(4) by simp
  have ok: "jmap_ok (ix_commitments d)"
    unfolding assms(4) by (rule commitment_turns_ok) (simp add: empty_index_def)
  have mem: "r \<in> set L \<longleftrightarrow> has_commitment ?c r d" for r
  proof
    assume "r \<in> set L"
    then obtain b where b: "r \<in> set (ev b)" using assms(1) by blast
    then have "r \<in> set (block_events ev (lo_deployBlock opts) k)" using assms(6) by (auto simp: set_block_events)
    then show "has_commitment ?c r d" using syn assms(5) by (simp add: cm.synced_def)
  next
    assume "has_commitment ?c r d"
    then obtain k r' where "r' \<in> set (ev k)"
      "(cl_leafIndex r, cl_commitment r, cl_blockNumber r) = (cl_leafIndex r', cl_commitment r', cl_blockNumber r')"
      using syn unfolding cm.synced_def by blast
    then have "r = r'" "r' \<in> set L" using assms(1) by (auto intro: commitment_leaf.equality)
    then show "r \<in> set L" by simp
  qed
  have entry: "((?c, i), (x, b)) \<in> set (ix_commitments d) \<longleftrightarrow>
      \<lparr>cl_leafIndex = i, cl_commitment = x, cl_blockNumber = b\<rparr> \<in> set L" for i x b
    using mem ok by (simp add: in_jget has_commitment_def)
  let ?E = "filter (\<lambda>((c', i), _). c' = ?c \<and> int m \<le> i) (ix_commitments d)"
  have E: "map (\<lambda>((c', i), (x, b)). \<lparr>cl_leafIndex = i, cl_commitment = x, cl_blockNumber = b\<rparr>) ?E = map leaf_of ?E"
    by (rule map_cong) (auto simp: leaf_of_def)
  have setE: "set (map leaf_of ?E) = {r \<in> set L. int m \<le> cl_leafIndex r}"
  proof (intro set_eqI iffI)
    fix r assume "r \<in> set (map leaf_of ?E)"
    then obtain i x b where "((?c, i), (x, b)) \<in> set (ix_commitments d)" "int m \<le> i"
      "r = \<lparr>cl_leafIndex = i, cl_commitment = x, cl_blockNumber = b\<rparr>"
      by (auto simp: leaf_of_def split: prod.splits)
    then show "r \<in> {r \<in> set L. int m \<le> cl_leafIndex r}" using entry by simp
  next
    fix r assume r: "r \<in> {r \<in> set L. int m \<le> cl_leafIndex r}"
    then have "((?c, cl_leafIndex r), (cl_commitment r, cl_blockNumber r)) \<in> set ?E" using entry by (simp add: leaf_eta)
    then have "leaf_of ((?c, cl_leafIndex r), (cl_commitment r, cl_blockNumber r)) \<in> set (map leaf_of ?E)"
      unfolding list.set_map by (rule imageI)
    then show "r \<in> set (map leaf_of ?E)" by (simp add: leaf_of_def leaf_eta)
  qed
  have drop: "{r \<in> set L. int m \<le> cl_leafIndex r} = set (drop m L)"
  proof (intro set_eqI iffI)
    fix r assume "r \<in> {r \<in> set L. int m \<le> cl_leafIndex r}"
    then obtain i where i: "i < length L" "r = L ! i" "int m \<le> cl_leafIndex r" by (auto simp: in_set_conv_nth)
    then have "m \<le> i" using assms(2) by simp
    then show "r \<in> set (drop m L)" using i(1,2) by (auto simp: in_set_conv_nth intro!: exI [of _ "i - m"])
  next
    fix r assume "r \<in> set (drop m L)"
    then obtain i where "i < length L - m" "r = L ! (m + i)" by (auto simp: in_set_conv_nth)
    then show "r \<in> {r \<in> set L. int m \<le> cl_leafIndex r}" using assms(2) by simp
  qed
  have keys: "map cl_leafIndex (drop m L) = map int [m..<length L]"
    using assms(2) by (intro nth_equalityI) simp_all
  have srt: "sorted (map int [m..<length L])" by (simp add: sorted_map)
  have dist: "distinct (map cl_leafIndex (map leaf_of ?E))"
  proof -
    have "distinct (map fst ?E)" using ok by (simp add: jmap_ok_def distinct_map_filter)
    then have "distinct (map (snd \<circ> fst) ?E)"
      by (auto simp: distinct_map inj_on_def)
    moreover have "map cl_leafIndex (map leaf_of ?E) = map (snd \<circ> fst) ?E"
      by (auto simp: leaf_of_def)
    ultimately show ?thesis by (simp only:)
  qed
  have "sort_key cl_leafIndex (map leaf_of ?E) = drop m L"
    using dist setE drop keys srt by (intro sort_key_unique) (simp_all add: distinct_map)
  then have page: "listCommitments ?c (int m) limit d = take limit (drop m L)"
    by (simp add: listCommitments_def E)
  let ?I = "map (\<lambda>((_, i), _). i) (filter (\<lambda>((c', _), _). c' = ?c) (ix_commitments d))"
  have setI: "set ?I = int ` {..<length L}"
  proof (intro set_eqI iffI)
    fix i assume "i \<in> set ?I"
    then obtain x b where "((?c, i), (x, b)) \<in> set (ix_commitments d)" by auto
    then have "\<lparr>cl_leafIndex = i, cl_commitment = x, cl_blockNumber = b\<rparr> \<in> set L" using entry by simp
    then show "i \<in> int ` {..<length L}" using assms(2) by (force simp: in_set_conv_nth)
  next
    fix i assume "i \<in> int ` {..<length L}"
    then obtain j where j: "j < length L" "i = int j" by auto
    then have "((?c, cl_leafIndex (L ! j)), (cl_commitment (L ! j), cl_blockNumber (L ! j))) \<in> set (ix_commitments d)"
      using entry by (simp add: leaf_eta)
    then show "i \<in> set ?I" using j assms(2) by force
  qed
  have "commitmentNextIndex ?c d = int (length L)"
  proof (cases ?I)
    case Nil
    then have "L = []" using setI by (simp only: list.set_map list.set(1)) auto
    then show ?thesis using Nil by (simp add: commitmentNextIndex_def)
  next
    case (Cons i "is")
    have ne: "L \<noteq> []" using setI Cons by (cases L) auto
    have "fold max is i = Max (int ` {..<length L})" using setI Cons by (metis Max.set_eq_fold)
    also have "\<dots> = int (length L - 1)"
    proof (rule Max_eqI)
      show "int (length L - 1) \<in> int ` {..<length L}" using ne by (intro imageI) simp
    qed auto
    finally show ?thesis using Cons ne by (cases L) (simp_all add: commitmentNextIndex_def)
  qed
  then show ?thesis using page by simp
qed

text \<open>
  C27.  The indexer catches up.  Whatever failed in the turns before, one turn that reports no error
  leaves every leaf of the blocks from the deployment up to the head less the safety margin in the
  table.
\<close>

theorem error_free_turn_catches_up:
  assumes "\<And>k l r r'. r \<in> set (ev k) \<Longrightarrow> r' \<in> set (ev l) \<Longrightarrow> cl_leafIndex r' = cl_leafIndex r \<Longrightarrow> r' = r"
    and "\<forall>t \<in> set (turns @ [(Inr latest, env)]). honest_turn opts ev t"
    and "commitment_turn opts (Inr latest) env (commitment_turns opts turns empty_index) = (st, d)" "ps_error st = None"
    and "lo_deployBlock opts \<le> b" "b \<le> max 0 (latest - lo_blockSafetyMargin opts)" "r \<in> set (ev b)"
  shows "jget (ix_commitments d) (lo_chainId opts, cl_leafIndex r) = Some (cl_commitment r, cl_blockNumber r)"
proof -
  let ?c = "lo_chainId opts"
  have con: "cm.consistent ev" unfolding cm.consistent_def using assms(1) by metis
  have h: "\<forall>t \<in> set turns. honest_turn opts ev t" "honest_turn opts ev (Inr latest, env)" using assms(2) by simp_all
  have s0: "cm.synced ev ?c (lo_deployBlock opts) (commitment_turns opts turns empty_index)"
    by (rule commitment_turns_synced [OF con h(1) synced_empty(1)])
  note keep = commitment_turn_keeps [OF con h(2) s0 assms(3)]
  obtain k where k: "head_block opts latest \<le> k" "getCommitmentCursor ?c d = Some k"
    using keep assms(4-6) by (auto simp: head_block_def)
  have "r \<in> set (block_events ev (lo_deployBlock opts) k)"
    using assms(5-7) k(1) by (auto simp: set_block_events head_block_def)
  then show ?thesis using keep k(2) by (simp add: cm.synced_def has_commitment_def)
qed

section \<open>Witnesses\<close>

definition sample_opts :: loop_opts where
  "sample_opts = \<lparr>lo_chainId = 1, lo_deployBlock = 10, lo_blockSafetyMargin = 2, lo_chunkSize = Some 2\<rparr>"

definition sample_leaf :: "int \<Rightarrow> string \<Rightarrow> int \<Rightarrow> commitment_leaf" where
  "sample_leaf i x b = \<lparr>cl_leafIndex = i, cl_commitment = x, cl_blockNumber = b\<rparr>"

definition sample_history :: "int \<Rightarrow> commitment_leaf list" where
  "sample_history b = (if b = 11 then [sample_leaf 0 ''0xa'' 11] else if b = 13 then [sample_leaf 1 ''0xb'' 13] else [])"

text \<open>The first turn fails in its second window, the second one goes through.\<close>

definition sample_turns :: "((string + int) \<times> (int \<Rightarrow> commitment_leaf window)) list" where
  "sample_turns = [(Inr 15, \<lambda>s. if s = 10 then Fetched [sample_leaf 0 ''0xa'' 11] None None else FetchThrows ''429''),
     (Inr 15, \<lambda>s. if s = 12 then Fetched [sample_leaf 1 ''0xb'' 13] None None else FetchThrows ''429'')]"

lemma sample_honest: "\<forall>t \<in> set sample_turns. honest_turn sample_opts sample_history t"
proof -
  have up: "[10..11] = [10, 11::int]" "[12..13] = [12, 13::int]" by (simp_all add: upto.simps)
  show ?thesis
    by (auto simp: sample_turns_def honest_turn_def honest_def effective_chunk_def sample_opts_def head_block_def
        block_events_def up sample_history_def split: if_splits)
qed

definition sample_indexed :: index_db where
  "sample_indexed = commitment_turns sample_opts sample_turns empty_index"

lemma sample_indexed_eq:
  "sample_indexed = \<lparr>ix_commitments = [((1, 0), (''0xa'', 11)), ((1, 1), (''0xb'', 13))],
     ix_commitment_cursor = [(1, 13)], ix_nullifiers = [], ix_claim_cursor = []\<rparr>"
  unfolding sample_indexed_def
  by (simp add: commitment_turns_def sample_turns_def commitment_turn_def sample_opts_def runCommitmentIndexPass_def
      index_pass_def effective_chunk_def getCommitmentCursor_def empty_index_def index_loop.simps
      upsertCommitments_def setCommitmentCursor_def sample_leaf_def jset_def jget_def)

lemma sample_history_leaves: "(\<exists>b. r \<in> set (sample_history b)) \<longleftrightarrow> r \<in> set [sample_leaf 0 ''0xa'' 11, sample_leaf 1 ''0xb'' 13]"
proof
  show "r \<in> set [sample_leaf 0 ''0xa'' 11, sample_leaf 1 ''0xb'' 13]" if "\<exists>b. r \<in> set (sample_history b)"
    using that by (auto simp: sample_history_def split: if_splits)
  have "sample_leaf 0 ''0xa'' 11 \<in> set (sample_history 11)" "sample_leaf 1 ''0xb'' 13 \<in> set (sample_history 13)"
    by (simp_all add: sample_history_def)
  then show "\<exists>b. r \<in> set (sample_history b)" if "r \<in> set [sample_leaf 0 ''0xa'' 11, sample_leaf 1 ''0xb'' 13]"
    using that by auto
qed

lemma leaf_pages_exact_witness:
  "listCommitments 1 1 5 sample_indexed = [sample_leaf 1 ''0xb'' 13] \<and> commitmentNextIndex 1 sample_indexed = 2"
proof -
  have i: "cl_leafIndex ([sample_leaf 0 ''0xa'' 11, sample_leaf 1 ''0xb'' 13] ! i) = int i"
    if "i < length [sample_leaf 0 ''0xa'' 11, sample_leaf 1 ''0xb'' 13]" for i
    using that by (auto simp: sample_leaf_def less_Suc_eq)
  have c: "getCommitmentCursor (lo_chainId sample_opts) sample_indexed = Some 13"
    by (simp add: sample_indexed_eq getCommitmentCursor_def jget_def sample_opts_def)
  have b: "lo_deployBlock sample_opts \<le> b \<and> b \<le> 13" if "r \<in> set (sample_history b)" for b r
    using that by (auto simp: sample_history_def sample_opts_def split: if_splits)
  show ?thesis
    using leaf_pages_exact [OF sample_history_leaves i sample_honest sample_indexed_def c b, where m = 1 and limit = 5]
    by (simp add: sample_opts_def)
qed

theorem error_free_turn_catches_up_witness:
  "jget (ix_commitments (snd (commitment_turn sample_opts (Inr 15) (snd (sample_turns ! 1))
     (commitment_turns sample_opts [sample_turns ! 0] empty_index)))) (1, 1) = Some (''0xb'', 13)"
proof -
  have u: "r' = r" if "r \<in> set (sample_history k)" "r' \<in> set (sample_history l)" "cl_leafIndex r' = cl_leafIndex r" for k l r r'
    using that by (auto simp: sample_history_def sample_leaf_def split: if_splits)
  obtain st d where run: "commitment_turn sample_opts (Inr 15) (snd (sample_turns ! 1))
      (commitment_turns sample_opts [sample_turns ! 0] empty_index) = (st, d)" by fastforce
  have err: "ps_error st = None"
    using arg_cong [OF run, of fst]
    by (auto simp add: commitment_turns_def sample_turns_def commitment_turn_def sample_opts_def runCommitmentIndexPass_def
      index_pass_def effective_chunk_def getCommitmentCursor_def empty_index_def index_loop.simps
      upsertCommitments_def setCommitmentCursor_def jset_def jget_def)
  have h: "\<forall>t \<in> set ([sample_turns ! 0] @ [(Inr 15, snd (sample_turns ! 1))]). honest_turn sample_opts sample_history t"
    using sample_honest by (simp add: sample_turns_def)
  show ?thesis
    using error_free_turn_catches_up [OF u h run err, where b = 13 and r = "sample_leaf 1 ''0xb'' 13"] run
    by (simp add: sample_opts_def sample_history_def sample_leaf_def)
qed

definition spent_history :: "int \<Rightarrow> nullifier_row list" where
  "spent_history b = (if b = 11 then [\<lparr>nr_nullifier = ''0xAB'', nr_blockNumber = 11\<rparr>] else [])"

definition spent_turns :: "((string + int) \<times> (int \<Rightarrow> nullifier_row window)) list" where
  "spent_turns = [(Inr 13, \<lambda>s. if s = 10 then Fetched [\<lparr>nr_nullifier = ''0xAB'', nr_blockNumber = 11\<rparr>] None None
     else FetchThrows ''429'')]"

lemma spent_query_exact_witness:
  "''0xab'' \<in> set (getSpentClaimNullifiers 1 [''0xab''] (claim_turns sample_opts spent_turns empty_index))"
proof -
  have up: "[10..11] = [10, 11::int]" by (simp add: upto.simps)
  have low: "toLowerCase ''0xAB'' = ''0xab''" "toLowerCase ''0xab'' = ''0xab''" by code_simp+
  have u: "nr_blockNumber r' = nr_blockNumber r" if "r \<in> set (spent_history k)" "r' \<in> set (spent_history l)"
      "toLowerCase (nr_nullifier r') = toLowerCase (nr_nullifier r)" for k l r r'
    using that by (auto simp: spent_history_def split: if_splits)
  have h: "\<forall>t \<in> set spent_turns. honest_turn sample_opts spent_history t"
    by (auto simp: spent_turns_def honest_turn_def honest_def effective_chunk_def sample_opts_def head_block_def
        block_events_def up spent_history_def split: if_splits)
  have c: "getClaimCursor 1 (claim_turns sample_opts spent_turns empty_index) = Some 11"
    by (simp add: claim_turns_def spent_turns_def claim_turn_def sample_opts_def runClaimIndexPass_def
      index_pass_def effective_chunk_def getClaimCursor_def empty_index_def index_loop.simps
      upsertClaimNullifiers_def setClaimCursor_def jset_def jget_def)
  show ?thesis
    using spent_query_exact [OF u h refl, where n = "''0xab''" and ns = "[''0xab'']"] c low
    by (force simp: sample_opts_def spent_history_def)
qed

end
