(* ===== verification/RemoteBook.thy ===== *)
theory RemoteBook
  imports SharedBookFacts
begin

text \<open>
  The relayer's store of its peers' orders (\<open>zk-relayer/src/core/remote-orderbook.ts\<close>): the summaries
  by id, the ids by relayer and, for each side of a pair, the summaries sorted by price, with a hard
  limit on the number of orders.  A BigInt that throws makes an operation None.
\<close>

definition DEFAULT_MAX_SIZE :: int where "DEFAULT_MAX_SIZE = 10000"

record remote_store =
  rs_sells :: "(string, order_summary list) jmap"   \<comment> \<open>by pair, ascending price\<close>
  rs_buys :: "(string, order_summary list) jmap"    \<comment> \<open>by pair, descending price\<close>
  rs_byId :: "(string, order_summary) jmap"
  rs_byRelayer :: "(string, string list) jmap"
  rs_maxSize :: int

text \<open>The constructor; an absent or useless limit is replaced by the default.\<close>

definition new_remote :: "int option \<Rightarrow> remote_store" where
  "new_remote limit = \<lparr>rs_sells = [], rs_buys = [], rs_byId = [], rs_byRelayer = [],
     rs_maxSize = (case limit of Some n \<Rightarrow> if 0 < n then n else DEFAULT_MAX_SIZE | None \<Rightarrow> DEFAULT_MAX_SIZE)\<rparr>"

definition remote_size :: "remote_store \<Rightarrow> int" where
  "remote_size st = int (jsize (rs_byId st))"

definition remote_get :: "string \<Rightarrow> remote_store \<Rightarrow> order_summary option" where
  "remote_get orderId st = jget (rs_byId st) (toLowerCase orderId)"

definition getRelayer :: "string \<Rightarrow> remote_store \<Rightarrow> string option" where
  "getRelayer orderId st = map_option relayer_of (jget (rs_byId st) (toLowerCase orderId))"

section \<open>Price order\<close>

text \<open>Both amounts of a summary as BigInt; None if one of them throws.\<close>

definition amounts :: "order_summary \<Rightarrow> (int \<times> int) option" where
  "amounts o' = (case js_BigInt (sm_sellAmount o') of None \<Rightarrow> None
     | Some s \<Rightarrow> (case js_BigInt (sm_buyAmount o') of None \<Rightarrow> None | Some b \<Rightarrow> Some (s, b)))"

text \<open>The test of \<open>findIndex\<close>: strictly cheaper on the sell side, strictly dearer on the buy side.\<close>

definition goes_before :: "bool \<Rightarrow> order_summary \<Rightarrow> order_summary \<Rightarrow> bool option" where
  "goes_before sell new existing = (case amounts existing of None \<Rightarrow> None
     | Some (eSell, eBuy) \<Rightarrow> (case amounts new of None \<Rightarrow> None
       | Some (sellAmt, buyAmt) \<Rightarrow>
           Some (if sell then sellAmt * eBuy < eSell * buyAmt else eSell * buyAmt < sellAmt * eBuy)))"

text \<open>\<open>findIndex\<close> and then \<open>splice\<close>, or \<open>push\<close> when nothing is found.\<close>

fun splice_in :: "bool \<Rightarrow> order_summary \<Rightarrow> order_summary list \<Rightarrow> order_summary list option" where
  "splice_in sell new [] = Some [new]"
| "splice_in sell new (e # es) = (case goes_before sell new e of None \<Rightarrow> None
     | Some True \<Rightarrow> Some (new # e # es)
     | Some False \<Rightarrow> map_option ((#) e) (splice_in sell new es))"

definition pair_of :: "order_summary \<Rightarrow> string" where
  "pair_of o' = tokenPairKey (sm_sellToken o') (sm_buyToken o')"

section \<open>Operations\<close>

text \<open>The set of a relayer loses an id; an empty set is dropped.\<close>

definition relayer_drop :: "string \<Rightarrow> string \<Rightarrow> (string, string list) jmap \<Rightarrow> (string, string list) jmap" where
  "relayer_drop k i m = (case jget m k of None \<Rightarrow> m
     | Some s \<Rightarrow> if sdelete i s = [] then jdelete k m else jset k (sdelete i s) m)"

definition list_drop :: "string \<Rightarrow> string \<Rightarrow> (string, order_summary list) jmap \<Rightarrow> (string, order_summary list) jmap" where
  "list_drop p i = jmodify p (filter (\<lambda>o'. sm_id o' \<noteq> i))"

definition remote_remove :: "string \<Rightarrow> remote_store \<Rightarrow> remote_store" where
  "remote_remove orderId st =
     (let i = toLowerCase orderId in
      case jget (rs_byId st) i of
        None \<Rightarrow> st
      | Some o' \<Rightarrow>
          let st1 = st\<lparr>rs_byId := jdelete i (rs_byId st),
                       rs_byRelayer := relayer_drop (relayer_of o') i (rs_byRelayer st)\<rparr> in
          if isSellSide o' then st1\<lparr>rs_sells := list_drop (pair_of o') i (rs_sells st1)\<rparr>
          else st1\<lparr>rs_buys := list_drop (pair_of o') i (rs_buys st1)\<rparr>)"

definition removeByRelayer :: "string \<Rightarrow> remote_store \<Rightarrow> remote_store" where
  "removeByRelayer relayerAddr st =
     (case jget (rs_byRelayer st) (toLowerCase relayerAddr) of
        None \<Rightarrow> st
      | Some ids \<Rightarrow> let st1 = fold remote_remove ids st in
          st1\<lparr>rs_byRelayer := jdelete (toLowerCase relayerAddr) (rs_byRelayer st1)\<rparr>)"

fun remote_expire_loop :: "seconds \<Rightarrow> (string \<times> order_summary) list \<Rightarrow> nat \<Rightarrow> remote_store \<Rightarrow> nat \<times> remote_store" where
  "remote_expire_loop now [] count st = (count, st)"
| "remote_expire_loop now ((i, o') # es) count st =
     (if sm_expiry o' \<le> of_int now then remote_expire_loop now es (Suc count) (remote_remove i st)
      else remote_expire_loop now es count st)"

definition remote_purgeExpired :: "seconds \<Rightarrow> remote_store \<Rightarrow> nat \<times> remote_store" where
  "remote_purgeExpired now st = remote_expire_loop now (rs_byId st) 0 st"

text \<open>The part of \<open>add\<close> after its checks.\<close>

definition remote_insert :: "order_summary \<Rightarrow> remote_store \<Rightarrow> remote_store option" where
  "remote_insert o' st =
     (let i = toLowerCase (sm_id o'); normalised = o'\<lparr>sm_id := i\<rparr>; p = pair_of o';
          st1 = st\<lparr>rs_byId := jset i normalised (rs_byId st),
                   rs_byRelayer := index_add (relayer_of o') i (rs_byRelayer st)\<rparr> in
      if isSellSide o'
      then (case splice_in True normalised (bucket (rs_sells st1) p) of None \<Rightarrow> None
            | Some l \<Rightarrow> Some (st1\<lparr>rs_sells := jset p l (rs_sells st1)\<rparr>))
      else (case splice_in False normalised (bucket (rs_buys st1) p) of None \<Rightarrow> None
            | Some l \<Rightarrow> Some (st1\<lparr>rs_buys := jset p l (rs_buys st1)\<rparr>)))"

definition remote_add :: "seconds \<Rightarrow> order_summary \<Rightarrow> remote_store \<Rightarrow> remote_store option" where
  "remote_add now o' st =
     (if jhas (rs_byId st) (toLowerCase (sm_id o')) then Some st
      else if sm_expiry o' \<le> of_int now then Some st
      else if amounts o' = None then Some st
      else let st1 = (if rs_maxSize st \<le> remote_size st then snd (remote_purgeExpired now st) else st) in
        if rs_maxSize st1 \<le> remote_size st1 then Some st1 else remote_insert o' st1)"

definition getSellOrders :: "seconds \<Rightarrow> string \<Rightarrow> remote_store \<Rightarrow> order_summary list" where
  "getSellOrders now p st = filter (\<lambda>o'. of_int now < sm_expiry o') (bucket (rs_sells st) p)"

definition getBuyOrders :: "seconds \<Rightarrow> string \<Rightarrow> remote_store \<Rightarrow> order_summary list" where
  "getBuyOrders now p st = filter (\<lambda>o'. of_int now < sm_expiry o') (bucket (rs_buys st) p)"

definition clear :: "remote_store \<Rightarrow> remote_store" where
  "clear st = st\<lparr>rs_sells := [], rs_buys := [], rs_byId := [], rs_byRelayer := []\<rparr>"

text \<open>Everything that happens to a store.\<close>

datatype remote_event = RAdd seconds order_summary | RRemove string | RRemoveByRelayer string
  | RPurge seconds | RClear

fun remote_step :: "remote_event \<Rightarrow> remote_store \<Rightarrow> remote_store option" where
  "remote_step (RAdd now o') st = remote_add now o' st"
| "remote_step (RRemove i) st = Some (remote_remove i st)"
| "remote_step (RRemoveByRelayer a) st = Some (removeByRelayer a st)"
| "remote_step (RPurge now) st = Some (snd (remote_purgeExpired now st))"
| "remote_step RClear st = Some (clear st)"

fun remote_run :: "remote_event list \<Rightarrow> remote_store \<Rightarrow> remote_store option" where
  "remote_run [] st = Some st"
| "remote_run (e # es) st = Option.bind (remote_step e st) (remote_run es)"

section \<open>The invariant\<close>

text \<open>A list of one side of the book holds exactly the stored orders of this side and pair.\<close>

definition list_ok :: "bool \<Rightarrow> (string, order_summary list) jmap \<Rightarrow> (string, order_summary) jmap \<Rightarrow> bool" where
  "list_ok sell m ids \<longleftrightarrow> (\<forall>p. distinct (map sm_id (bucket m p)) \<and>
     (\<forall>o'. o' \<in> set (bucket m p) \<longleftrightarrow>
        jget ids (sm_id o') = Some o' \<and> isSellSide o' = sell \<and> pair_of o' = p))"

definition owners_ok :: "(string, string list) jmap \<Rightarrow> (string, order_summary) jmap \<Rightarrow> bool" where
  "owners_ok m ids \<longleftrightarrow> (\<forall>k. jget m k \<noteq> Some [] \<and> distinct (bucket m k) \<and>
     (\<forall>i. i \<in> set (bucket m k) \<longleftrightarrow> (\<exists>o'. jget ids i = Some o' \<and> relayer_of o' = k)))"

definition entries_ok :: "(string, order_summary) jmap \<Rightarrow> bool" where
  "entries_ok ids \<longleftrightarrow> jmap_ok ids \<and>
     (\<forall>i o'. jget ids i = Some o' \<longrightarrow> sm_id o' = i \<and> toLowerCase i = i \<and> amounts o' \<noteq> None)"

definition remote_ok :: "remote_store \<Rightarrow> bool" where
  "remote_ok st \<longleftrightarrow> entries_ok (rs_byId st) \<and> remote_size st \<le> rs_maxSize st \<and>
     list_ok True (rs_sells st) (rs_byId st) \<and> list_ok False (rs_buys st) (rs_byId st) \<and>
     owners_ok (rs_byRelayer st) (rs_byId st)"

lemma remote_ok_new: "remote_ok (new_remote limit)"
  by (simp add: remote_ok_def new_remote_def entries_ok_def remote_size_def jsize_def list_ok_def
      owners_ok_def DEFAULT_MAX_SIZE_def split: option.split)

lemma bucket_jmodify [simp]:
  "bucket (jmodify k f m) k' = (if k' = k then (case jget m k of None \<Rightarrow> [] | Some s \<Rightarrow> f s) else bucket m k')"
  by (simp add: bucket_def split: option.split)

lemma bucket_list_drop: "bucket (list_drop p i m) p' = (if p' = p then filter (\<lambda>o'. sm_id o' \<noteq> i) (bucket m p) else bucket m p')"
  by (simp add: list_drop_def bucket_def split: option.split)

lemma bucket_relayer_drop: "bucket (relayer_drop k i m) k' = (if k' = k then sdelete i (bucket m k) else bucket m k')"
  by (auto simp: relayer_drop_def bucket_def sdelete_def split: option.split)

lemma relayer_drop_nonempty: "jget m k' \<noteq> Some [] \<Longrightarrow> jget (relayer_drop k i m) k' \<noteq> Some []"
  by (auto simp: relayer_drop_def split: option.split)

lemma list_ok_other:
  assumes "list_ok sell m ids" "jget ids i = Some o'" "sm_id o' = i" "isSellSide o' \<noteq> sell"
  shows "list_ok sell m (jdelete i ids)"
proof -
  have eq: "jget (jdelete i ids) (sm_id y) = Some y \<and> isSellSide y = sell \<and> pair_of y = p \<longleftrightarrow>
      jget ids (sm_id y) = Some y \<and> isSellSide y = sell \<and> pair_of y = p" for y p
    using assms(2-4) by auto
  show ?thesis using assms(1) unfolding list_ok_def by (simp only: eq) simp
qed

lemma list_ok_drop:
  assumes "list_ok sell m ids" "jget ids i = Some o'" "sm_id o' = i"
  shows "list_ok sell (list_drop (pair_of o') i m) (jdelete i ids)"
proof -
  have "x \<in> set (bucket (list_drop (pair_of o') i m) p) \<longleftrightarrow>
      jget (jdelete i ids) (sm_id x) = Some x \<and> isSellSide x = sell \<and> pair_of x = p" for x p
    using assms by (auto simp: list_ok_def bucket_list_drop)
  then show ?thesis using assms(1) by (auto simp: list_ok_def bucket_list_drop distinct_map_filter)
qed

lemma owners_ok_drop:
  assumes "owners_ok m ids" "jget ids i = Some o'"
  shows "owners_ok (relayer_drop (relayer_of o') i m) (jdelete i ids)"
  using assms relayer_drop_nonempty by (auto simp: owners_ok_def bucket_relayer_drop)

lemma entries_ok_delete: "entries_ok ids \<Longrightarrow> entries_ok (jdelete i ids)"
  by (auto simp: entries_ok_def split: if_splits)

lemma jsize_jdelete_le: "jsize (jdelete k m) \<le> jsize m"
  by (simp add: jsize_def jdelete_filter)

lemma remove_byId: "rs_byId (remote_remove j st) = jdelete (toLowerCase j) (rs_byId st)"
proof (cases "jget (rs_byId st) (toLowerCase j)")
  case None
  then have "jdelete (toLowerCase j) (rs_byId st) = rs_byId st"
    by (force simp: jdelete_filter jget_def map_of_eq_None_iff filter_id_conv)
  then show ?thesis using None by (simp add: remote_remove_def)
qed (simp add: remote_remove_def Let_def)

lemma remove_max [simp]: "rs_maxSize (remote_remove j st) = rs_maxSize st"
  by (simp add: remote_remove_def Let_def split: option.split)

lemma remote_ok_remove: "remote_ok st \<Longrightarrow> remote_ok (remote_remove j st)"
proof (cases "jget (rs_byId st) (toLowerCase j)")
  case None
  then show "remote_ok st \<Longrightarrow> ?thesis" by (simp add: remote_remove_def)
next
  case (Some o')
  assume ok: "remote_ok st"
  let ?i = "toLowerCase j"
  have e: "entries_ok (rs_byId st)" and l: "list_ok True (rs_sells st) (rs_byId st)" "list_ok False (rs_buys st) (rs_byId st)"
    and w: "owners_ok (rs_byRelayer st) (rs_byId st)" and z: "remote_size st \<le> rs_maxSize st"
    using ok by (simp_all add: remote_ok_def)
  have i: "sm_id o' = ?i" using e Some by (simp add: entries_ok_def)
  have s: "int (jsize (jdelete ?i (rs_byId st))) \<le> rs_maxSize st"
    using z jsize_jdelete_le [of ?i "rs_byId st"] by (simp add: remote_size_def)
  show ?thesis
  proof (cases "isSellSide o'")
    case True
    then show ?thesis
      using Some s entries_ok_delete [OF e] owners_ok_drop [OF w Some] list_ok_drop [OF l(1) Some i]
        list_ok_other [OF l(2) Some i]
      by (simp add: remote_remove_def remote_ok_def remote_size_def Let_def)
  next
    case False
    then show ?thesis
      using Some s entries_ok_delete [OF e] owners_ok_drop [OF w Some] list_ok_drop [OF l(2) Some i]
        list_ok_other [OF l(1) Some i]
      by (simp add: remote_remove_def remote_ok_def remote_size_def Let_def)
  qed
qed


lemma remote_ok_fold: "remote_ok st \<Longrightarrow> remote_ok (fold remote_remove is st)"
  by (induction "is" arbitrary: st) (simp_all add: remote_ok_remove)

lemma fold_remove_max [simp]: "rs_maxSize (fold remote_remove is st) = rs_maxSize st"
  by (induction "is" arbitrary: st) simp_all

lemma owner_id:
  assumes "remote_ok st" "i \<in> set (bucket (rs_byRelayer st) k)"
  obtains o' where "jget (rs_byId st) i = Some o'" "relayer_of o' = k" "toLowerCase i = i" "sm_id o' = i"
  using assms by (auto simp: remote_ok_def owners_ok_def entries_ok_def)

lemma fold_remove_byId:
  "jget (rs_byId (fold remote_remove is st)) i = (if i \<in> toLowerCase ` set is then None else jget (rs_byId st) i)"
  by (induction "is" arbitrary: st) (auto simp: remove_byId)

text \<open>The set of a relayer is empty, and so absent, once all its ids are removed.\<close>

lemma removeByRelayer_owners:
  assumes "remote_ok st" "jget (rs_byRelayer st) k = Some ids"
  shows "jget (rs_byRelayer (fold remote_remove ids st)) k = None"
proof -
  let ?st = "fold remote_remove ids st"
  have ok: "remote_ok ?st" using assms(1) by (rule remote_ok_fold)
  have b: "bucket (rs_byRelayer st) k = ids" using assms(2) by (simp add: bucket_def)
  have "i \<notin> set (bucket (rs_byRelayer ?st) k)" for i
  proof
    assume "i \<in> set (bucket (rs_byRelayer ?st) k)"
    with ok obtain o' where o': "jget (rs_byId ?st) i = Some o'" "relayer_of o' = k" "toLowerCase i = i"
      by (rule owner_id)
    then have "jget (rs_byId st) i = Some o'" by (simp add: fold_remove_byId split: if_splits)
    then have "i \<in> set ids" using assms(1) b o'(2) by (auto simp: remote_ok_def owners_ok_def)
    then have "i \<in> toLowerCase ` set ids" using o'(3) by (metis image_eqI)
    then show False using o'(1) by (simp add: fold_remove_byId)
  qed
  then have "bucket (rs_byRelayer ?st) k = []" by (metis list.set_intros(1) neq_Nil_conv)
  moreover have "jget (rs_byRelayer ?st) k \<noteq> Some []" using ok by (simp add: remote_ok_def owners_ok_def)
  ultimately show ?thesis by (auto simp: bucket_def split: option.splits)
qed

lemma jdelete_absent: "jget m k = None \<Longrightarrow> jdelete k m = m"
  by (force simp: jdelete_filter jget_def map_of_eq_None_iff filter_id_conv)

lemma removeByRelayer_fold:
  "remote_ok st \<Longrightarrow> removeByRelayer a st = fold remote_remove (bucket (rs_byRelayer st) (toLowerCase a)) st"
  by (auto simp: removeByRelayer_def bucket_def removeByRelayer_owners jdelete_absent Let_def split: option.split)

lemma expire_loop_fold:
  "snd (remote_expire_loop now es n st) = fold remote_remove (map fst (filter (\<lambda>(i, o'). sm_expiry o' \<le> of_int now) es)) st"
  by (induction now es n st rule: remote_expire_loop.induct) auto

lemma purge_fold:
  "snd (remote_purgeExpired now st) =
   fold remote_remove (map fst (filter (\<lambda>(i, o'). sm_expiry o' \<le> of_int now) (rs_byId st))) st"
  by (simp add: remote_purgeExpired_def expire_loop_fold)

lemma purge_get:
  assumes "remote_ok st"
  shows "jget (rs_byId (snd (remote_purgeExpired now st))) i =
    (case jget (rs_byId st) i of Some o' \<Rightarrow> if sm_expiry o' \<le> of_int now then None else Some o' | None \<Rightarrow> None)"
proof -
  have m: "jmap_ok (rs_byId st)" and low: "jget (rs_byId st) j = Some x \<Longrightarrow> toLowerCase j = j" for j x
    using assms by (auto simp: remote_ok_def entries_ok_def)
  have "i \<in> toLowerCase ` set (map fst (filter (\<lambda>(i, o'). sm_expiry o' \<le> of_int now) (rs_byId st))) \<longleftrightarrow>
      (\<exists>x. jget (rs_byId st) i = Some x \<and> sm_expiry x \<le> of_int now)"
    using m low by (force simp: in_jget image_iff)
  then show ?thesis by (auto simp: purge_fold fold_remove_byId split: option.split)
qed

lemma remote_ok_purge: "remote_ok st \<Longrightarrow> remote_ok (snd (remote_purgeExpired now st))"
  by (simp add: purge_fold remote_ok_fold)

section \<open>Insertion\<close>

lemma splice_in_total:
  "amounts new \<noteq> None \<Longrightarrow> \<forall>e \<in> set es. amounts e \<noteq> None \<Longrightarrow> \<exists>l. splice_in sell new es = Some l"
proof (induction es)
  case (Cons e es)
  then obtain l where "splice_in sell new es = Some l" by auto
  moreover obtain b where "goes_before sell new e = Some b"
    using Cons.prems by (auto simp: goes_before_def split: option.splits prod.splits)
  ultimately show ?case by (cases b) simp_all
qed simp

lemma splice_in_parts:
  "splice_in sell new es = Some l \<Longrightarrow> \<exists>xs ys. es = xs @ ys \<and> l = xs @ new # ys \<and>
     (\<forall>x \<in> set xs. goes_before sell new x = Some False) \<and>
     (ys = [] \<or> goes_before sell new (hd ys) = Some True)"
proof (induction es arbitrary: l)
  case (Cons e es)
  show ?case
  proof (cases "goes_before sell new e = Some True")
    case True
    then show ?thesis using Cons.prems by (intro exI [of _ "[]"] exI [of _ "e # es"]) simp
  next
    case False
    then obtain l' where l': "splice_in sell new es = Some l'" "l = e # l'" "goes_before sell new e = Some False"
      using Cons.prems by (auto split: option.splits bool.splits)
    obtain xs ys where "es = xs @ ys \<and> l' = xs @ new # ys \<and>
        (\<forall>x \<in> set xs. goes_before sell new x = Some False) \<and>
        (ys = [] \<or> goes_before sell new (hd ys) = Some True)"
      using Cons.IH [OF l'(1)] by blast
    then show ?thesis using l' by (intro exI [of _ "e # xs"] exI [of _ ys]) simp
  qed
qed simp

lemma list_ok_insert:
  assumes "list_ok sell m ids" "jget ids (sm_id x) = None" "isSellSide x = sell"
    and "splice_in sell x (bucket m (pair_of x)) = Some l"
  shows "list_ok sell (jset (pair_of x) l m) (jset (sm_id x) x ids)"
proof -
  obtain xs ys where parts: "bucket m (pair_of x) = xs @ ys" "l = xs @ x # ys"
    using splice_in_parts [OF assms(4)] by blast
  have l: "set l = insert x (set (bucket m (pair_of x)))" using parts by auto
  have fresh: "sm_id y \<noteq> sm_id x" if "y \<in> set (bucket m p)" for y p
    using that assms(1,2) by (auto simp: list_ok_def)
  have "distinct (map sm_id (xs @ ys))" using assms(1) parts(1) by (metis list_ok_def)
  moreover have "sm_id x \<notin> sm_id ` set (xs @ ys)" using fresh [of _ "pair_of x"] parts(1) by fastforce
  ultimately have d: "distinct (map sm_id l)" using parts(2) by auto
  have "y \<in> set (bucket (jset (pair_of x) l m) p) \<longleftrightarrow>
      jget (jset (sm_id x) x ids) (sm_id y) = Some y \<and> isSellSide y = sell \<and> pair_of y = p" for y p
    using assms l fresh by (auto simp: list_ok_def)
  then show ?thesis using d assms(1) by (auto simp: list_ok_def)
qed

lemma list_ok_insert_other:
  assumes "list_ok sell m ids" "jget ids (sm_id x) = None" "isSellSide x \<noteq> sell"
  shows "list_ok sell m (jset (sm_id x) x ids)"
proof -
  have eq: "jget (jset (sm_id x) x ids) (sm_id y) = Some y \<and> isSellSide y = sell \<and> pair_of y = p \<longleftrightarrow>
      jget ids (sm_id y) = Some y \<and> isSellSide y = sell \<and> pair_of y = p" for y p
    using assms(2,3) by auto
  show ?thesis using assms(1) unfolding list_ok_def by (simp only: eq) simp
qed

lemma owners_ok_insert:
  assumes "owners_ok m ids" "jget ids i = None"
  shows "owners_ok (index_add (relayer_of x) i m) (jset i x ids)"
proof -
  have "sadd i s \<noteq> []" for s by (auto simp: sadd_def)
  then have "jget (index_add (relayer_of x) i m) k \<noteq> Some []" for k
    using assms(1) by (simp add: owners_ok_def index_add_def)
  moreover have "j \<in> set (bucket (index_add (relayer_of x) i m) k) \<longleftrightarrow>
      (\<exists>o'. jget (jset i x ids) j = Some o' \<and> relayer_of o' = k)" for j k
    using assms by (auto simp: owners_ok_def)
  moreover have "distinct (bucket (index_add (relayer_of x) i m) k)" for k
    using assms(1) by (simp add: owners_ok_def)
  ultimately show ?thesis by (simp add: owners_ok_def)
qed

abbreviation normalised :: "order_summary \<Rightarrow> order_summary" where
  "normalised x \<equiv> x\<lparr>sm_id := toLowerCase (sm_id x)\<rparr>"

lemma normalised_simps [simp]:
  "amounts (normalised x) = amounts x" "isSellSide (normalised x) = isSellSide x"
  "pair_of (normalised x) = pair_of x" "relayer_of (normalised x) = relayer_of x"
  by (simp_all add: amounts_def isSellSide_def pair_of_def relayer_of_def split: option.split)

lemma entries_ok_insert:
  "entries_ok ids \<Longrightarrow> amounts x \<noteq> None \<Longrightarrow> entries_ok (jset (toLowerCase (sm_id x)) (normalised x) ids)"
  by (auto simp: entries_ok_def split: if_splits)

lemma insert_total:
  assumes "remote_ok st" "amounts x \<noteq> None" "jget (rs_byId st) (toLowerCase (sm_id x)) = None"
    and "remote_size st < rs_maxSize st"
  shows "\<exists>st'. remote_insert x st = Some st' \<and> remote_ok st' \<and> rs_maxSize st' = rs_maxSize st \<and>
    rs_byId st' = jset (toLowerCase (sm_id x)) (normalised x) (rs_byId st) \<and>
    (let p = pair_of x; s = isSellSide x in
     if s then splice_in s (normalised x) (bucket (rs_sells st) p) = Some (bucket (rs_sells st') p) \<and>
       (\<forall>q. q \<noteq> p \<longrightarrow> bucket (rs_sells st') q = bucket (rs_sells st) q) \<and> rs_buys st' = rs_buys st
     else splice_in s (normalised x) (bucket (rs_buys st) p) = Some (bucket (rs_buys st') p) \<and>
       (\<forall>q. q \<noteq> p \<longrightarrow> bucket (rs_buys st') q = bucket (rs_buys st) q) \<and> rs_sells st' = rs_sells st)"
proof -
  let ?x = "normalised x" and ?m = "if isSellSide x then rs_sells st else rs_buys st"
  have e: "entries_ok (rs_byId st)" and l: "list_ok True (rs_sells st) (rs_byId st)" "list_ok False (rs_buys st) (rs_byId st)"
    and w: "owners_ok (rs_byRelayer st) (rs_byId st)"
    using assms(1) by (simp_all add: remote_ok_def)
  have "\<forall>y \<in> set (bucket ?m (pair_of x)). amounts y \<noteq> None"
    using l e by (auto simp: list_ok_def entries_ok_def)
  then obtain l' where l': "splice_in (isSellSide x) ?x (bucket ?m (pair_of x)) = Some l'"
    using splice_in_total [of ?x] assms(2) by fastforce
  have n: "jget (rs_byId st) (sm_id ?x) = None" using assms(3) by simp
  have z: "int (jsize (jset (toLowerCase (sm_id x)) ?x (rs_byId st))) \<le> rs_maxSize st"
    using assms(3,4) by (simp add: jsize_jset remote_size_def)
  show ?thesis
  proof (cases "isSellSide x")
    case True
    then have "list_ok True (jset (pair_of x) l' (rs_sells st)) (jset (toLowerCase (sm_id x)) ?x (rs_byId st))"
      using list_ok_insert [OF l(1) n] l' by simp
    moreover have "list_ok False (rs_buys st) (jset (toLowerCase (sm_id x)) ?x (rs_byId st))"
      using list_ok_insert_other [OF l(2) n] True by simp
    ultimately show ?thesis
      using True l' z entries_ok_insert [OF e assms(2)] owners_ok_insert [OF w assms(3), of ?x]
      by (simp add: remote_insert_def remote_ok_def remote_size_def Let_def)
  next
    case False
    then have "list_ok False (jset (pair_of x) l' (rs_buys st)) (jset (toLowerCase (sm_id x)) ?x (rs_byId st))"
      using list_ok_insert [OF l(2) n] l' by simp
    moreover have "list_ok True (rs_sells st) (jset (toLowerCase (sm_id x)) ?x (rs_byId st))"
      using list_ok_insert_other [OF l(1) n] False by simp
    ultimately show ?thesis
      using False l' z entries_ok_insert [OF e assms(2)] owners_ok_insert [OF w assms(3), of ?x]
      by (simp add: remote_insert_def remote_ok_def remote_size_def Let_def)
  qed
qed

end
