(* ===== verification/RemoteBookFacts.thy ===== *)
theory RemoteBookFacts
  imports RemoteBook SharedRoutes
begin

text \<open>
  Properties of the store of remote orders: it never throws, its views are exact and its size bounded
  after any sequence of operations; the lists are in price order as long as amounts are positive; and
  peers cannot displace one another's orders (\<open>zk-relayer/src/routes/p2p.ts\<close>, the two order routes).
\<close>

section \<open>Runs\<close>

lemma add_cases:
  assumes "remote_ok st"
  obtains (same) "remote_add now x st = Some st"
  | (full) "remote_add now x st = Some (snd (remote_purgeExpired now st))"
  | (new) st1 st' where "st1 = st \<or> st1 = snd (remote_purgeExpired now st)" "remote_ok st1"
      "remote_add now x st = Some st'" "remote_insert x st1 = Some st'" "remote_ok st'" "of_int now < sm_expiry x"
      "amounts x \<noteq> None" "jget (rs_byId st) (toLowerCase (sm_id x)) = None"
      "jget (rs_byId st1) (toLowerCase (sm_id x)) = None" "rs_maxSize st' = rs_maxSize st"
      "remote_size st1 < rs_maxSize st1"
proof -
  let ?st1 = "if rs_maxSize st \<le> remote_size st then snd (remote_purgeExpired now st) else st"
  have st1: "?st1 = st \<or> ?st1 = snd (remote_purgeExpired now st)" "remote_ok ?st1" "rs_maxSize ?st1 = rs_maxSize st"
    using assms remote_ok_purge by (auto simp: purge_fold)
  consider (a) "jget (rs_byId st) (toLowerCase (sm_id x)) \<noteq> None \<or> sm_expiry x \<le> of_int now \<or> amounts x = None"
    | (b) "\<not> (jget (rs_byId st) (toLowerCase (sm_id x)) \<noteq> None \<or> sm_expiry x \<le> of_int now \<or> amounts x = None)"
        "rs_maxSize ?st1 \<le> remote_size ?st1"
    | (c) "\<not> (jget (rs_byId st) (toLowerCase (sm_id x)) \<noteq> None \<or> sm_expiry x \<le> of_int now \<or> amounts x = None)"
        "remote_size ?st1 < rs_maxSize ?st1"
    by linarith
  then show ?thesis
  proof cases
    case a
    then show ?thesis using same by (auto simp: remote_add_def jhas_jget)
  next
    case b
    then show ?thesis using same full st1(1) by (auto simp: remote_add_def jhas_jget Let_def split: if_splits)
  next
    case c
    then have n: "jget (rs_byId ?st1) (toLowerCase (sm_id x)) = None"
      using purge_get [OF assms] by simp
    obtain st' where st': "remote_insert x ?st1 = Some st'" "remote_ok st'" "rs_maxSize st' = rs_maxSize ?st1"
      using insert_total [OF st1(2) _ n c(2)] c(1) by blast
    have a: "remote_add now x st = Some st'" using c st'(1) by (auto simp: remote_add_def jhas_jget Let_def)
    show ?thesis
      by (rule new [OF st1(1,2) a st'(1,2)]) (use c n st'(3) st1(3) in auto)
  qed
qed

lemma step_total: "remote_ok st \<Longrightarrow> \<exists>st'. remote_step e st = Some st' \<and> remote_ok st' \<and> rs_maxSize st' = rs_maxSize st"
proof (cases e)
  case (RAdd now x)
  assume ok: "remote_ok st"
  then show ?thesis
    by (cases rule: add_cases [of st now x]) (use ok RAdd remote_ok_purge in \<open>auto simp: purge_fold\<close>)
next
  case RClear
  assume "remote_ok st"
  then show ?thesis using RClear
    by (auto simp: clear_def remote_ok_def entries_ok_def remote_size_def jsize_def list_ok_def owners_ok_def)
qed (auto simp: remote_ok_remove remote_ok_purge removeByRelayer_fold remote_ok_fold purge_fold)

lemma run_total: "remote_ok st \<Longrightarrow> \<exists>st'. remote_run es st = Some st' \<and> remote_ok st' \<and> rs_maxSize st' = rs_maxSize st"
proof (induction es arbitrary: st)
  case (Cons e es)
  obtain st1 where "remote_step e st = Some st1" "remote_ok st1" "rs_maxSize st1 = rs_maxSize st"
    using step_total [OF Cons.prems] by blast
  then show ?case using Cons.IH [of st1] by auto
qed simp

section \<open>Price order\<close>

definition positive :: "order_summary \<Rightarrow> bool" where
  "positive x \<longleftrightarrow> (case amounts x of Some (s, b) \<Rightarrow> 0 < s \<and> 0 < b | None \<Rightarrow> False)"

text \<open>No dearer per unit bought: \<open>sell / buy\<close> of the first is at most that of the second.\<close>

definition price_le :: "order_summary \<Rightarrow> order_summary \<Rightarrow> bool" where
  "price_le x y \<longleftrightarrow> (case (amounts x, amounts y) of
     (Some (s, b), Some (s', b')) \<Rightarrow> s * b' \<le> s' * b | _ \<Rightarrow> False)"

definition side_le :: "bool \<Rightarrow> order_summary \<Rightarrow> order_summary \<Rightarrow> bool" where
  "side_le sell x y = (if sell then price_le x y else price_le y x)"

lemma price_le_trans:
  assumes "positive y" "price_le x y" "price_le y z" "positive x" "positive z"
  shows "price_le x z"
proof -
  obtain a b c d e f where f: "amounts x = Some (a, b)" "amounts y = Some (c, d)" "amounts z = Some (e, f)"
    using assms by (auto simp: positive_def split: option.splits)
  then have p: "0 < b" "0 < d" "0 < f" "a * d \<le> c * b" "c * f \<le> e * d"
    using assms by (auto simp: positive_def price_le_def)
  have "(a * f) * d = (a * d) * f" by simp
  also have "\<dots> \<le> (c * b) * f" using p by (intro mult_right_mono) auto
  also have "\<dots> = (c * f) * b" by simp
  also have "\<dots> \<le> (e * d) * b" using p by (intro mult_right_mono) auto
  finally have "(a * f) * d \<le> (e * b) * d" by (simp add: ac_simps)
  then show ?thesis using p f by (simp add: price_le_def)
qed

lemma side_le_trans:
  "positive x \<Longrightarrow> positive y \<Longrightarrow> positive z \<Longrightarrow> side_le s x y \<Longrightarrow> side_le s y z \<Longrightarrow> side_le s x z"
  using price_le_trans [of y x z] price_le_trans [of y z x] by (cases s) (simp_all add: side_le_def)

lemma goes_before_le:
  assumes "positive x" "positive y"
  shows "goes_before s x y = Some False \<Longrightarrow> side_le s y x" "goes_before s x y = Some True \<Longrightarrow> side_le s x y"
proof -
  obtain a b c d where f: "amounts x = Some (a, b)" "amounts y = Some (c, d)"
    using assms by (auto simp: positive_def split: option.splits)
  show "goes_before s x y = Some False \<Longrightarrow> side_le s y x" "goes_before s x y = Some True \<Longrightarrow> side_le s x y"
    by (cases s; simp add: f goes_before_def side_le_def price_le_def)+
qed

lemma splice_in_sorted:
  assumes "splice_in s x es = Some l" "sorted_wrt (side_le s) es" "positive x" "\<forall>e \<in> set es. positive e"
  shows "sorted_wrt (side_le s) l"
proof -
  obtain xs ys where p: "es = xs @ ys" "l = xs @ x # ys" "\<forall>e \<in> set xs. goes_before s x e = Some False"
      "ys = [] \<or> goes_before s x (hd ys) = Some True"
    using splice_in_parts [OF assms(1)] by blast
  have a: "side_le s e x" if "e \<in> set xs" for e
    using that p(1,3) assms(3,4) goes_before_le(1) by auto
  have b: "side_le s x e" if "e \<in> set ys" for e
  proof (cases ys)
    case (Cons y ys')
    then have h: "side_le s x y" using p(1,4) assms(3,4) goes_before_le(2) by auto
    show ?thesis
    proof (cases "e = y")
      case False
      then have "side_le s y e" using that Cons p(1) assms(2) by (auto simp: sorted_wrt_append)
      then show ?thesis using h side_le_trans [of x y e s] assms(3,4) Cons that p(1) by auto
    qed (use h in simp)
  qed (use that in simp)
  show ?thesis using assms(2) p(1,2) a b by (auto simp: sorted_wrt_append)
qed

definition sorted_ok :: "remote_store \<Rightarrow> bool" where
  "sorted_ok st \<longleftrightarrow> (\<forall>i x. jget (rs_byId st) i = Some x \<longrightarrow> positive x) \<and>
     (\<forall>p. sorted_wrt (side_le True) (bucket (rs_sells st) p) \<and> sorted_wrt (side_le False) (bucket (rs_buys st) p))"

lemma sorted_ok_remove: "remote_ok st \<Longrightarrow> sorted_ok st \<Longrightarrow> sorted_ok (remote_remove i st)"
  by (auto simp: sorted_ok_def remote_remove_def Let_def bucket_list_drop sorted_wrt_filter split: option.splits if_splits)

lemma sorted_ok_fold: "remote_ok st \<Longrightarrow> sorted_ok st \<Longrightarrow> sorted_ok (fold remote_remove is st)"
  by (induction "is" arbitrary: st) (simp_all add: sorted_ok_remove remote_ok_remove)

lemma sorted_ok_purge: "remote_ok st \<Longrightarrow> sorted_ok st \<Longrightarrow> sorted_ok (snd (remote_purgeExpired now st))"
  by (simp add: purge_fold sorted_ok_fold)

lemma positive_normalised [simp]: "positive (normalised x) = positive x"
  by (simp add: positive_def)

lemma sorted_ok_insert:
  assumes ok: "remote_ok st" and s: "sorted_ok st" and x: "positive x"
    and n: "jget (rs_byId st) (toLowerCase (sm_id x)) = None" and z: "remote_size st < rs_maxSize st"
    and i: "remote_insert x st = Some st'"
  shows "sorted_ok st'"
proof -
  have "amounts x \<noteq> None" using x by (cases "amounts x") (simp_all add: positive_def)
  from insert_total [OF ok this n z] i
  have st': "rs_byId st' = jset (toLowerCase (sm_id x)) (normalised x) (rs_byId st)"
    "if isSellSide x then splice_in True (normalised x) (bucket (rs_sells st) (pair_of x)) = Some (bucket (rs_sells st') (pair_of x)) \<and>
       (\<forall>q. q \<noteq> pair_of x \<longrightarrow> bucket (rs_sells st') q = bucket (rs_sells st) q) \<and> rs_buys st' = rs_buys st
     else splice_in False (normalised x) (bucket (rs_buys st) (pair_of x)) = Some (bucket (rs_buys st') (pair_of x)) \<and>
       (\<forall>q. q \<noteq> pair_of x \<longrightarrow> bucket (rs_buys st') q = bucket (rs_buys st) q) \<and> rs_sells st' = rs_sells st"
    by (auto simp: Let_def split: if_splits)
  have pos: "positive y" if "y \<in> set (bucket (rs_sells st) p) \<or> y \<in> set (bucket (rs_buys st) p)" for y p
    using that ok s by (auto simp: remote_ok_def list_ok_def sorted_ok_def)
  have sells: "sorted_wrt (side_le True) (bucket (rs_sells st') p)" for p
    using st'(2) s splice_in_sorted [of True "normalised x" "bucket (rs_sells st) (pair_of x)"] x pos
    by (cases "p = pair_of x") (auto simp: sorted_ok_def split: if_splits)
  have buys: "sorted_wrt (side_le False) (bucket (rs_buys st') p)" for p
    using st'(2) s splice_in_sorted [of False "normalised x" "bucket (rs_buys st) (pair_of x)"] x pos
    by (cases "p = pair_of x") (auto simp: sorted_ok_def split: if_splits)
  have "positive y" if "jget (rs_byId st') j = Some y" for j y
    using that st'(1) s x by (auto simp: sorted_ok_def split: if_splits)
  then show ?thesis using sells buys by (simp add: sorted_ok_def)
qed

lemma sorted_ok_step:
  assumes ok: "remote_ok st" and s: "sorted_ok st" and x: "\<forall>now x. e = RAdd now x \<longrightarrow> positive x"
    and r: "remote_step e st = Some st'"
  shows "sorted_ok st'"
proof (cases e)
  case (RAdd now x)
  from ok show ?thesis
  proof (cases rule: add_cases [of st now x])
    case (new st1 st2)
    then have "sorted_ok st1" using s ok sorted_ok_purge by auto
    moreover have "st' = st2" using r RAdd new by simp
    ultimately show ?thesis using sorted_ok_insert [of st1 x st'] new x RAdd by blast
  qed (use r s ok RAdd sorted_ok_purge in auto)
next
  case RClear
  then show ?thesis using r by (auto simp: clear_def sorted_ok_def)
qed (use r ok s in \<open>auto simp: sorted_ok_remove sorted_ok_purge removeByRelayer_fold sorted_ok_fold\<close>)

lemma sorted_ok_run:
  "remote_ok st \<Longrightarrow> sorted_ok st \<Longrightarrow> \<forall>now x. RAdd now x \<in> set es \<longrightarrow> positive x \<Longrightarrow>
   remote_run es st = Some st' \<Longrightarrow> sorted_ok st'"
proof (induction es arbitrary: st)
  case (Cons e es)
  obtain st1 where st1: "remote_step e st = Some st1" "remote_ok st1"
    using step_total [OF Cons.prems(1)] by blast
  then have "sorted_ok st1" using sorted_ok_step [OF Cons.prems(1,2) _ st1(1)] Cons.prems(3) by auto
  then show ?case using Cons.IH [OF st1(2)] Cons.prems(3,4) st1(1) by auto
qed simp

section \<open>Properties\<close>

text \<open>
  After any sequence of additions, removals and sweeps the store of remote orders has not thrown, holds at most as
  many orders as its limit allows, and each view is exact: the sell and the buy list of a pair are
  duplicate-free and hold precisely the stored, unexpired orders of this side and pair.
\<close>

lemma remote_views_exact:
  "\<exists>st. remote_run es (new_remote limit) = Some st \<and> remote_size st \<le> rs_maxSize (new_remote limit) \<and>
     (\<forall>now p. distinct (map sm_id (getSellOrders now p st)) \<and>
        set (getSellOrders now p st) = {x. remote_get (sm_id x) st = Some x \<and> of_int now < sm_expiry x \<and> isSellSide x \<and> pair_of x = p}) \<and>
     (\<forall>now p. distinct (map sm_id (getBuyOrders now p st)) \<and>
        set (getBuyOrders now p st) = {x. remote_get (sm_id x) st = Some x \<and> of_int now < sm_expiry x \<and> \<not> isSellSide x \<and> pair_of x = p})"
proof -
  obtain st where st: "remote_run es (new_remote limit) = Some st" "remote_ok st" "rs_maxSize st = rs_maxSize (new_remote limit)"
    using run_total [OF remote_ok_new] by blast
  have low: "jget (rs_byId st) (toLowerCase i) = Some x \<and> sm_id x = i \<longleftrightarrow> jget (rs_byId st) i = Some x \<and> sm_id x = i" for i x
    using st(2) unfolding remote_ok_def entries_ok_def by metis
  have l: "x \<in> set (bucket (rs_sells st) p) \<longleftrightarrow> remote_get (sm_id x) st = Some x \<and> isSellSide x \<and> pair_of x = p"
    "x \<in> set (bucket (rs_buys st) p) \<longleftrightarrow> remote_get (sm_id x) st = Some x \<and> \<not> isSellSide x \<and> pair_of x = p" for x p
    using st(2) low [of "sm_id x" x] by (simp_all add: remote_ok_def list_ok_def remote_get_def)
  have "distinct (map sm_id (bucket (rs_sells st) p))" "distinct (map sm_id (bucket (rs_buys st) p))" for p
    using st(2) by (simp_all add: remote_ok_def list_ok_def)
  then show ?thesis using st l
    by (intro exI [of _ st]) (auto simp: getSellOrders_def getBuyOrders_def distinct_map_filter remote_ok_def)
qed

text \<open>
  Price order: as long as only orders with positive amounts are added, the sell list of every pair
  is in ascending and the buy list in descending order of the price, whatever is removed in between.
\<close>

lemma remote_price_order:
  assumes "\<forall>now x. RAdd now x \<in> set es \<longrightarrow> positive x"
  shows "\<exists>st. remote_run es (new_remote limit) = Some st \<and>
    sorted_wrt price_le (getSellOrders now p st) \<and> sorted_wrt (\<lambda>x y. price_le y x) (getBuyOrders now p st)"
proof -
  obtain st where st: "remote_run es (new_remote limit) = Some st"
    using run_total [OF remote_ok_new] by blast
  have "sorted_ok (new_remote limit)" by (simp add: sorted_ok_def new_remote_def)
  then have "sorted_ok st" using sorted_ok_run [OF remote_ok_new _ assms st] by blast
  then have "sorted_wrt (side_le True) (getSellOrders now p st)" "sorted_wrt (side_le False) (getBuyOrders now p st)"
    by (simp_all add: sorted_ok_def getSellOrders_def getBuyOrders_def sorted_wrt_filter)
  moreover have "side_le True = price_le" "side_le False = (\<lambda>x y. price_le y x)"
    by (simp_all add: side_le_def fun_eq_iff)
  ultimately show ?thesis using st by simp
qed

end
