(* ===== verification/PeerRoutes.thy ===== *)
theory PeerRoutes
  imports RemoteBookFacts
begin

text \<open>
  How relayers authenticate to each other and to the shared orderbook, and what an authenticated peer
  can do: the two copies of the signature check (\<open>zk-relayer/src/routes/p2p.ts\<close>,
  \<open>shared-orderbook/src/middleware/auth.ts\<close>), the peer order routes and the concurrency cap of the
  trade-offer route.  SHA-256 and the recovery of a signer from a signature are arguments.  A header
  number is an integer literal; other texts count as not a number.
\<close>

section \<open>Authentication\<close>

definition SIGNATURE_MAX_AGE_SEC :: int where "SIGNATURE_MAX_AGE_SEC = 300"

definition EMPTY_BODY_SHA256 :: string where
  "EMPTY_BODY_SHA256 = ''0xe3b0c44298fc1c149afbf4c8996fb92427ae41e4649b934ca495991b7852b855''"

text \<open>The hexadecimal digest of the body; \<open>sha\<close> is the digest without its prefix.\<close>

definition bodyHashOf :: "(string \<Rightarrow> string) \<Rightarrow> string option \<Rightarrow> string" where
  "bodyHashOf sha rawBody = (case rawBody of None \<Rightarrow> EMPTY_BODY_SHA256
     | Some b \<Rightarrow> if b = [] then EMPTY_BODY_SHA256 else ''0x'' @ sha b)"

definition upper_char :: "char \<Rightarrow> char" where
  "upper_char c = (let k = code c in if 97 \<le> k \<and> k \<le> 122 then char_of (k - 32) else c)"

definition toUpperCase :: "string \<Rightarrow> string" where
  "toUpperCase s = map upper_char s"

record auth_request =
  aq_address :: "string option"
  aq_signature :: "string option"
  aq_timestamp :: "string option"
  aq_url :: "string option"
  aq_method :: string
  aq_originalUrl :: string
  aq_rawBody :: "string option"

definition request_path :: "auth_request \<Rightarrow> string" where
  "request_path r = takeWhile (\<lambda>c. c \<noteq> CHR ''?'') (aq_originalUrl r)"

definition header_url :: "auth_request \<Rightarrow> string" where
  "header_url r = (case aq_url r of Some u \<Rightarrow> u | None \<Rightarrow> [])"

definition messageLegacy :: "string \<Rightarrow> string \<Rightarrow> string \<Rightarrow> string \<Rightarrow> string \<Rightarrow> string" where
  "messageLegacy address timestamp m path url =
     ''zkScatter-relay:'' @ toLowerCase address @ '':'' @ timestamp @ '':'' @ m @ '':'' @ path @ '':'' @ url"

definition messageWithBody :: "string \<Rightarrow> string \<Rightarrow> string \<Rightarrow> string \<Rightarrow> string \<Rightarrow> string \<Rightarrow> string" where
  "messageWithBody address timestamp m path url bodyHash = messageLegacy address timestamp m path url @ '':'' @ bodyHash"

text \<open>\<open>Number.isNaN(ts) || Math.abs(now - ts) > 300\<close>.\<close>

definition stale_timestamp :: "seconds \<Rightarrow> string \<Rightarrow> bool" where
  "stale_timestamp now timestamp = (case Number_of_string timestamp of JsNaN \<Rightarrow> True | JsInf _ \<Rightarrow> True
     | JsFin ts \<Rightarrow> of_int SIGNATURE_MAX_AGE_SEC < \<bar>of_int now - ts\<bar>)"

text \<open>The relayer's copy.  \<open>verify message signature\<close> is the recovered signer, None if it throws.\<close>

definition verifyRelayerAuth ::
  "(string \<Rightarrow> string) \<Rightarrow> (string \<Rightarrow> string \<Rightarrow> string option) \<Rightarrow> bool \<Rightarrow> seconds \<Rightarrow> auth_request \<Rightarrow> bool" where
  "verifyRelayerAuth sha verify allowLegacy now r =
     (if \<not> truthy (aq_address r) \<or> \<not> truthy (aq_signature r) \<or> \<not> truthy (aq_timestamp r) then False
      else let address = the (aq_address r); signature = the (aq_signature r); timestamp = the (aq_timestamp r) in
        if stale_timestamp now timestamp then False
        else let m = toUpperCase (aq_method r); path = request_path r; url = header_url r;
                 bodyHash = bodyHashOf sha (aq_rawBody r) in
          if eqAddr (verify (messageWithBody address timestamp m path url bodyHash) signature) (Some address) then True
          else if \<not> allowLegacy then False
          else eqAddr (verify (messageLegacy address timestamp m path url) signature) (Some address))"

text \<open>The orderbook's copy: an error message, or the identity the handlers see.\<close>

definition relayerAuth ::
  "(string \<Rightarrow> string) \<Rightarrow> (string \<Rightarrow> string \<Rightarrow> string option) \<Rightarrow> bool \<Rightarrow> seconds \<Rightarrow> auth_request \<Rightarrow> string + string \<times> string" where
  "relayerAuth sha verify allowLegacy now r =
     (if \<not> truthy (aq_address r) \<or> \<not> truthy (aq_signature r) \<or> \<not> truthy (aq_timestamp r)
      then Inl ''missing relayer auth headers''
      else let address = the (aq_address r); signature = the (aq_signature r); timestamp = the (aq_timestamp r) in
        if stale_timestamp now timestamp then Inl ''signature expired or clock skew too large''
        else let m = toUpperCase (aq_method r); path = request_path r; url = header_url r;
                 bodyHash = bodyHashOf sha (aq_rawBody r);
                 recovered = verify (messageWithBody address timestamp m path url bodyHash) signature;
                 accept = (toLowerCase address, url) in
          if truthy recovered \<and> eqAddr recovered (Some address) then Inr accept
          else if allowLegacy \<and> eqAddr (verify (messageLegacy address timestamp m path url) signature) (Some address)
          then Inr accept
          else Inl ''signature mismatch'')"

section \<open>The peer order routes\<close>

text \<open>The body of a posted summary; an absent or null field is None.\<close>

record peer_body =
  pb_id :: "string option"
  pb_chainId :: "int option"
  pb_relayer :: "string option"
  pb_relayerUrl :: "string option"
  pb_sellToken :: "string option"
  pb_buyToken :: "string option"
  pb_sellAmount :: "string option"
  pb_buyAmount :: "string option"
  pb_minFillAmount :: "string option"
  pb_maxFee :: "rat option"
  pb_expiry :: "rat option"
  pb_createdAt :: "int option"

definition missing_string :: "string option \<Rightarrow> bool" where
  "missing_string v \<longleftrightarrow> v = None \<or> v = Some []"

definition missing_field :: "peer_body \<Rightarrow> string option" where
  "missing_field b =
     (if missing_string (pb_id b) then Some ''id''
      else if missing_string (pb_relayer b) then Some ''relayer''
      else if missing_string (pb_relayerUrl b) then Some ''relayerUrl''
      else if missing_string (pb_sellToken b) then Some ''sellToken''
      else if missing_string (pb_buyToken b) then Some ''buyToken''
      else if missing_string (pb_sellAmount b) then Some ''sellAmount''
      else if missing_string (pb_buyAmount b) then Some ''buyAmount''
      else if missing_string (pb_minFillAmount b) then Some ''minFillAmount''
      else if pb_maxFee b = None then Some ''maxFee''
      else if pb_expiry b = None then Some ''expiry''
      else if pb_createdAt b = None then Some ''createdAt''
      else None)"

definition summary_of :: "peer_body \<Rightarrow> order_summary" where
  "summary_of b = \<lparr>sm_id = the (pb_id b), sm_chainId = pb_chainId b, sm_relayer = the (pb_relayer b),
     sm_relayerUrl = the (pb_relayerUrl b), sm_sellToken = the (pb_sellToken b), sm_buyToken = the (pb_buyToken b),
     sm_sellAmount = the (pb_sellAmount b), sm_buyAmount = the (pb_buyAmount b),
     sm_minFillAmount = the (pb_minFillAmount b), sm_maxFee = the (pb_maxFee b), sm_expiry = the (pb_expiry b),
     sm_createdAt = the (pb_createdAt b)\<rparr>"

text \<open>
  The handlers, for a request that passed or failed authentication as \<open>peerAddress\<close>.  \<open>onRemoteOrder\<close>
  adds the summary to the store; a throw is answered 400.
\<close>

definition postPeerOrder ::
  "bool \<Rightarrow> string \<Rightarrow> seconds \<Rightarrow> peer_body option \<Rightarrow> remote_store \<Rightarrow> (nat \<times> string) \<times> remote_store" where
  "postPeerOrder authenticated peerAddress now body st =
     (if \<not> authenticated then ((401, ''unauthorized''), st)
      else case body of None \<Rightarrow> ((400, ''invalid request body''), st)
      | Some raw \<Rightarrow> (case missing_field raw of Some f \<Rightarrow> ((400, ''missing field: '' @ f), st)
        | None \<Rightarrow>
            if \<not> eqAddr (pb_relayer raw) (Some peerAddress)
            then ((403, ''order relayer does not match peer identity''), st)
            else (case remote_add now (summary_of raw) st of
                    None \<Rightarrow> ((400, ''invalid request''), st) | Some st' \<Rightarrow> ((200, ''received''), st'))))"

definition deletePeerOrder ::
  "bool \<Rightarrow> string \<Rightarrow> (string \<Rightarrow> remote_store \<Rightarrow> string option) option \<Rightarrow> string \<Rightarrow> remote_store \<Rightarrow> (nat \<times> string) \<times> remote_store" where
  "deletePeerOrder authenticated peer lookupOrderRelayer orderId st =
     (if \<not> authenticated then ((401, ''unauthorized''), st)
      else let peerAddress = toLowerCase peer in
      case lookupOrderRelayer of None \<Rightarrow> ((403, ''ownership verification not configured''), st)
      | Some look \<Rightarrow> let owner = map_option toLowerCase (look orderId st) in
          if owner \<noteq> None \<and> owner \<noteq> Some peerAddress then ((403, ''cannot cancel another relayer's order''), st)
          else ((200, ''cancelled''), remote_remove orderId st))"

section \<open>The trade-offer route\<close>

datatype taker_value = TakerFalsy | TakerObject | TakerOther

record offer_body =
  ob_makerNullifier :: raw_value
  ob_takerOrder :: taker_value

definition hex32_ci :: "string \<Rightarrow> bool" where
  "hex32_ci s \<longleftrightarrow> (case s of z # x # h \<Rightarrow> z = CHR ''0'' \<and> (x = CHR ''x'' \<or> x = CHR ''X'') \<and> length h = 64 \<and>
     list_all is_hex_digit h | _ \<Rightarrow> False)"

text \<open>The part of the handler before its await: an immediate answer, or one more offer in flight.\<close>

definition offer_arrives ::
  "int \<Rightarrow> bool \<Rightarrow> offer_body option \<Rightarrow> int \<Rightarrow> (nat \<times> string) option \<times> int" where
  "offer_arrives maxConcurrent authenticated body inFlight =
     (if \<not> authenticated then (Some (401, ''unauthorized''), inFlight)
      else case body of None \<Rightarrow> (Some (400, ''request body must be a JSON object''), inFlight)
      | Some offer \<Rightarrow>
          if ob_makerNullifier offer \<in> {VUndefined, VNull, VBool False, VString [], VInt 0} \<or> ob_takerOrder offer = TakerFalsy
          then (Some (400, ''missing required fields: makerNullifier, takerOrder''), inFlight)
          else if \<not> (case ob_makerNullifier offer of VString s \<Rightarrow> hex32_ci s | _ \<Rightarrow> False)
          then (Some (400, ''makerNullifier must be a 0x-prefixed 32-byte hex string''), inFlight)
          else if ob_takerOrder offer \<noteq> TakerObject then (Some (400, ''takerOrder must be an object''), inFlight)
          else if 0 < maxConcurrent \<and> maxConcurrent \<le> inFlight then (Some (503, ''relayer busy, retry''), inFlight)
          else (None, inFlight + 1))"

text \<open>The rest: the handler returned or threw, and \<open>finally\<close> ran.\<close>

definition offer_returns :: "string + string \<Rightarrow> int \<Rightarrow> (nat \<times> string) \<times> int" where
  "offer_returns result inFlight =
     ((case result of Inr reply \<Rightarrow> (200, reply) | Inl msg \<Rightarrow> (500, msg)), inFlight - 1)"

text \<open>Requests overlap freely: the state also records how many handlers are running.\<close>

datatype offer_event = OfferArrives bool "offer_body option" | OfferReturns "string + string"

fun offer_traffic :: "int \<Rightarrow> offer_event list \<Rightarrow> int \<times> nat \<Rightarrow> int \<times> nat" where
  "offer_traffic m [] s = s"
| "offer_traffic m (OfferArrives a b # es) (k, running) =
     (case offer_arrives m a b k of (None, k') \<Rightarrow> offer_traffic m es (k', Suc running)
      | (Some _, k') \<Rightarrow> offer_traffic m es (k', running))"
| "offer_traffic m (OfferReturns r # es) (k, running) =
     (if running = 0 then offer_traffic m es (k, running)
      else offer_traffic m es (snd (offer_returns r k), running - 1))"

lemma offer_arrives_cases:
  "offer_arrives m a b k = (Some r, k') \<Longrightarrow> k' = k" "offer_arrives m a b k = (None, k') \<Longrightarrow> k' = k + 1 \<and> (0 < m \<longrightarrow> k < m)"
  by (auto simp: offer_arrives_def split: option.splits if_splits)

lemma offer_traffic_counts:
  "offer_traffic m es (int n, n) = (k, running) \<Longrightarrow> 0 < m \<Longrightarrow> int n \<le> m \<Longrightarrow> k = int running \<and> k \<le> m"
proof (induction es arbitrary: n)
  case (Cons e es)
  show ?case
  proof (cases e)
    case (OfferArrives a b)
    obtain o' k' where o': "offer_arrives m a b (int n) = (o', k')" by (cases "offer_arrives m a b (int n)")
    show ?thesis
    proof (cases o')
      case None
      then have "k' = int (Suc n)" "int n < m" using offer_arrives_cases(2) [of m a b "int n" k'] o' Cons.prems(2) by simp_all
      then show ?thesis using Cons.IH [of "Suc n"] Cons.prems OfferArrives o' None by simp
    next
      case (Some r)
      then have "k' = int n" using offer_arrives_cases(1) [of m a b "int n" r k'] o' by simp
      then show ?thesis using Cons.IH [of n] Cons.prems OfferArrives o' Some by simp
    qed
  next
    case (OfferReturns r)
    show ?thesis
    proof (cases n)
      case 0
      then show ?thesis using Cons.IH [of 0] Cons.prems OfferReturns by simp
    next
      case (Suc n')
      then show ?thesis using Cons.IH [of n'] Cons.prems OfferReturns by (simp add: offer_returns_def)
    qed
  qed
qed simp


section \<open>Peer traffic on the store\<close>

text \<open>The routes as \<open>index.ts\<close> wires them, for authenticated peers, and the expiry timer.\<close>

datatype peer_event = PeerPost string seconds "peer_body option" | PeerDelete string string | ExpiryTick seconds

fun peer_step :: "peer_event \<Rightarrow> remote_store \<Rightarrow> remote_store" where
  "peer_step (PeerPost peer now body) st = snd (postPeerOrder True peer now body st)"
| "peer_step (PeerDelete peer i) st = snd (deletePeerOrder True peer (Some getRelayer) i st)"
| "peer_step (ExpiryTick now) st = snd (remote_purgeExpired now st)"

lemma remote_ok_add: "remote_ok st \<Longrightarrow> remote_add now x st = Some st' \<Longrightarrow> remote_ok st'"
  using step_total [of st "RAdd now x"] by auto

lemma remote_ok_peer_step: "remote_ok st \<Longrightarrow> remote_ok (peer_step e st)"
  by (cases e) (auto simp: postPeerOrder_def deletePeerOrder_def Let_def remote_ok_remove remote_ok_purge
      split: option.split dest: remote_ok_add)

lemma add_keeps_live:
  assumes "remote_ok st" "remote_add now x st = Some st'" "jget (rs_byId st) i = Some y" "of_int now < sm_expiry y"
  shows "jget (rs_byId st') i = Some y"
  using assms(1)
proof (cases rule: add_cases [of st now x])
  case same
  then show ?thesis using assms by simp
next
  case full
  then show ?thesis using assms purge_get by simp
next
  case (new st1 st2)
  have "amounts x \<noteq> None" "remote_size st1 < rs_maxSize st1" using new by simp_all
  with insert_total [OF new(2) _ new(9)] obtain st3 where
    "remote_insert x st1 = Some st3" "rs_byId st3 = jset (toLowerCase (sm_id x)) (normalised x) (rs_byId st1)"
    by blast
  moreover have "st' = st2" "st2 = st3" using new assms(2) calculation by simp_all
  moreover have "jget (rs_byId st1) i = Some y" using new(1) assms purge_get by auto
  moreover have "i \<noteq> toLowerCase (sm_id x)" using new(8) assms(3) by auto
  ultimately show ?thesis by simp
qed

definition harmless :: "order_summary \<Rightarrow> peer_event \<Rightarrow> bool" where
  "harmless x e \<longleftrightarrow> (case e of PeerPost peer now body \<Rightarrow> of_int now < sm_expiry x
     | PeerDelete peer i \<Rightarrow> toLowerCase peer \<noteq> relayer_of x | ExpiryTick now \<Rightarrow> of_int now < sm_expiry x)"

lemma peer_step_keeps:
  assumes "remote_ok st" "jget (rs_byId st) i = Some x" "harmless x e"
  shows "jget (rs_byId (peer_step e st)) i = Some x"
proof (cases e)
  case (PeerPost peer now body)
  then show ?thesis using assms add_keeps_live
    by (auto simp: postPeerOrder_def harmless_def split: option.split)
next
  case (PeerDelete peer j)
  show ?thesis
  proof (cases "toLowerCase j = i")
    case True
    then have "getRelayer j st = Some (relayer_of x)" using assms(2) by (simp add: getRelayer_def)
    then show ?thesis using assms(2,3) PeerDelete by (auto simp: deletePeerOrder_def harmless_def relayer_of_def)
  next
    case False
    then show ?thesis using assms(2) PeerDelete by (auto simp: deletePeerOrder_def Let_def remove_byId)
  qed
next
  case (ExpiryTick now)
  then show ?thesis using assms by (simp add: purge_get harmless_def)
qed

lemma peer_steps_keep:
  "remote_ok st \<Longrightarrow> jget (rs_byId st) i = Some x \<Longrightarrow> \<forall>e \<in> set evs. harmless x e \<Longrightarrow>
   jget (rs_byId (fold peer_step evs st)) i = Some x"
  by (induction evs arbitrary: st) (simp_all add: remote_ok_peer_step peer_step_keeps)

section \<open>What a signature binds\<close>

lemma colon_split: "x @ CHR '':'' # r = y @ CHR '':'' # t \<Longrightarrow> CHR '':'' \<notin> set x \<Longrightarrow> CHR '':'' \<notin> set y \<Longrightarrow> x = y \<and> r = t"
proof (induction x arbitrary: y)
  case Nil
  then show ?case by (cases y) auto
next
  case (Cons a x)
  then show ?case by (cases y) auto
qed

lemma lower_colon: "CHR '':'' \<in> set (toLowerCase s) \<longleftrightarrow> CHR '':'' \<in> set s"
proof -
  have c: "lower_char c = CHR '':'' \<longleftrightarrow> c = CHR '':''" for c
  proof -
    have "code (CHR '':'') = 58" by (simp add: code_def)
    moreover have "code (lower_char c) = (if 65 \<le> code c \<and> code c \<le> 90 then code c + 32 else code c)"
      by (simp add: lower_char_def Let_def code_char_of)
    ultimately have "code (lower_char c) = code (CHR '':'') \<longleftrightarrow> code c = code (CHR '':'')" by auto
    then show ?thesis by (simp only: code_inject)
  qed
  then have "CHR '':'' \<in> lower_char ` set s \<longleftrightarrow> CHR '':'' \<in> set s" by (metis image_iff)
  then show ?thesis by (simp add: toLowerCase_def)
qed

lemma messageWithBody_inject:
  assumes "messageWithBody a ts m path url h = messageWithBody a' ts' m' path' url' h'"
    and "CHR '':'' \<notin> set a \<union> set a' \<union> set ts \<union> set ts' \<union> set m \<union> set m' \<union> set path \<union> set path'"
    and "length h = length h'"
  shows "toLowerCase a = toLowerCase a' \<and> ts = ts' \<and> m = m' \<and> path = path' \<and> url = url' \<and> h = h'"
proof -
  have "toLowerCase a @ CHR '':'' # ts @ CHR '':'' # m @ CHR '':'' # path @ CHR '':'' # url @ CHR '':'' # h =
      toLowerCase a' @ CHR '':'' # ts' @ CHR '':'' # m' @ CHR '':'' # path' @ CHR '':'' # url' @ CHR '':'' # h'"
    using assms(1) by (simp add: messageWithBody_def messageLegacy_def)
  then have "toLowerCase a = toLowerCase a' \<and> ts @ CHR '':'' # m @ CHR '':'' # path @ CHR '':'' # url @ CHR '':'' # h =
      ts' @ CHR '':'' # m' @ CHR '':'' # path' @ CHR '':'' # url' @ CHR '':'' # h'"
    using assms(2) by (intro colon_split) (auto simp: lower_colon)
  moreover then have "ts = ts' \<and> m @ CHR '':'' # path @ CHR '':'' # url @ CHR '':'' # h =
      m' @ CHR '':'' # path' @ CHR '':'' # url' @ CHR '':'' # h'"
    using assms(2) by (intro colon_split) auto
  moreover then have "m = m' \<and> path @ CHR '':'' # url @ CHR '':'' # h = path' @ CHR '':'' # url' @ CHR '':'' # h'"
    using assms(2) by (intro colon_split) auto
  moreover then have "path = path' \<and> url @ CHR '':'' # h = url' @ CHR '':'' # h'"
    using assms(2) by (intro colon_split) auto
  moreover then have "url = url' \<and> h = h'" using assms(3) by simp
  ultimately show ?thesis by blast
qed

lemma digits_val_colon: "r \<le> 16 \<Longrightarrow> CHR '':'' \<in> set s \<Longrightarrow> digits_val r acc s = None"
proof (induction s arbitrary: acc)
  case (Cons c s)
  have "\<not> digit_val (CHR '':'') < r" using Cons.prems(1) by (simp add: digit_val_def code_def)
  then show ?case using Cons by auto
qed simp

lemma parse_digits_colon: "r \<le> 16 \<Longrightarrow> CHR '':'' \<in> set s \<Longrightarrow> parse_digits r s = None"
  by (simp add: parse_digits_def digits_val_colon)

lemma in_dropWhile: "x \<in> set s \<Longrightarrow> \<not> P x \<Longrightarrow> x \<in> set (dropWhile P s)"
  by (induction s) auto

lemma js_BigInt_colon:
  assumes "CHR '':'' \<in> set s"
  shows "js_BigInt s = None"
proof -
  have "\<not> is_ws (CHR '':'')" by (simp add: is_ws_def code_def)
  then have t: "CHR '':'' \<in> set (trim s)" using assms by (simp add: trim_def in_dropWhile)
  have sp: "strip_prefix2 a b (trim s) = Some h \<Longrightarrow> CHR '':'' \<in> set h" if "CHR '':'' \<noteq> a" "CHR '':'' \<noteq> b" for a b h
    using t that by (auto simp: strip_prefix2_def split: list.splits if_splits)
  have x: "strip_prefix2 (CHR ''x'') (CHR ''X'') (trim s) = Some h \<Longrightarrow> parse_digits 16 h = None"
    and o: "strip_prefix2 (CHR ''o'') (CHR ''O'') (trim s) = Some h \<Longrightarrow> parse_digits 8 h = None"
    and b: "strip_prefix2 (CHR ''b'') (CHR ''B'') (trim s) = Some h \<Longrightarrow> parse_digits 2 h = None" for h
    by (rule parse_digits_colon; (rule sp)?; simp)+
  obtain c cs where c: "trim s = c # cs" using t by (cases "trim s") auto
  have d: "parse_digits 10 (c # cs) = None" using t c by (intro parse_digits_colon) simp_all
  have e: "parse_digits 10 cs = None" if "c = CHR ''-'' \<or> c = CHR ''+''"
    using t c that by (intro parse_digits_colon) auto
  show ?thesis
  proof (cases "strip_prefix2 (CHR ''x'') (CHR ''X'') (trim s)")
    case None
    note n1 = None
    show ?thesis
    proof (cases "strip_prefix2 (CHR ''o'') (CHR ''O'') (trim s)")
      case None
      note n2 = None
      show ?thesis
      proof (cases "strip_prefix2 (CHR ''b'') (CHR ''B'') (trim s)")
        case None
        then show ?thesis using n1 n2 c d e by (simp add: js_BigInt_def Let_def)
      qed (use n1 n2 c b in \<open>simp add: js_BigInt_def Let_def\<close>)
    qed (use n1 c o in \<open>simp add: js_BigInt_def Let_def\<close>)
  qed (use c x in \<open>simp add: js_BigInt_def Let_def\<close>)
qed

lemma fresh_no_colon: "\<not> stale_timestamp now ts \<Longrightarrow> CHR '':'' \<notin> set ts"
  using Number_no_colon by (force simp: stale_timestamp_def)

section \<open>Properties\<close>

text \<open>
  The two copies of the signature check agree: on every request, with the same clock, switch and
  signature scheme, the orderbook's middleware accepts exactly what the relayer's check accepts, and
  the identity it passes on is the lower-cased address that signed.
\<close>

lemma auth_copies_agree:
  "relayerAuth sha verify allowLegacy now r =
     (if verifyRelayerAuth sha verify allowLegacy now r then Inr (toLowerCase (the (aq_address r)), header_url r)
      else if \<not> truthy (aq_address r) \<or> \<not> truthy (aq_signature r) \<or> \<not> truthy (aq_timestamp r)
      then Inl ''missing relayer auth headers''
      else if stale_timestamp now (the (aq_timestamp r)) then Inl ''signature expired or clock skew too large''
      else Inl ''signature mismatch'')"
proof -
  have "truthy x \<and> eqAddr x y \<longleftrightarrow> eqAddr x y" for x y
    by (cases x) (auto simp: eqAddr_def split: option.splits)
  then show ?thesis by (simp add: relayerAuth_def verifyRelayerAuth_def Let_def)
qed

text \<open>
  C33.  Only what a relayer signed passes for it.  If a signature that recovers to B exists only for
  messages of requests that B made, then with the legacy switch off an accepted request of B
  is one of them within five minutes of its timestamp, up to the letter case of the address: same method, path, URL header and body hash.  The
  methods and paths contain no colon and the body hashes have the length of a digest.
\<close>

theorem only_signed_requests_pass:
  assumes unforgeable: "\<forall>message sg b. verify message sg = Some b \<longrightarrow> eqAddr (Some b) (Some B) \<longrightarrow>
      (\<exists>(ts, m, path, url, h) \<in> made. message = messageWithBody B ts m path url h)"
    and made: "\<forall>ts m path url h. (ts, m, path, url, h) \<in> made \<longrightarrow>
      CHR '':'' \<notin> set ts \<union> set m \<union> set path \<and> length h = 66"
    and digest: "\<forall>b. length (sha b) = 64"
    and request: "aq_address r = Some a" "eqAddr (Some a) (Some B)" "CHR '':'' \<notin> set B"
      "CHR '':'' \<notin> set (toUpperCase (aq_method r)) \<union> set (request_path r)"
    and accepted: "verifyRelayerAuth sha verify False now r"
  shows "\<exists>ts. aq_timestamp r = Some ts \<and> \<not> stale_timestamp now ts \<and>
    (ts, toUpperCase (aq_method r), request_path r, header_url r, bodyHashOf sha (aq_rawBody r)) \<in> made"
proof -
  obtain ts sg where ts: "aq_timestamp r = Some ts" "aq_signature r = Some sg" "\<not> stale_timestamp now ts"
    and ok: "eqAddr (verify (messageWithBody a ts (toUpperCase (aq_method r)) (request_path r) (header_url r)
        (bodyHashOf sha (aq_rawBody r))) sg) (Some a)"
    using accepted request(1)
    by (cases "aq_timestamp r"; cases "aq_signature r") (auto simp: verifyRelayerAuth_def Let_def split: if_splits)
  obtain b where b: "verify (messageWithBody a ts (toUpperCase (aq_method r)) (request_path r) (header_url r)
        (bodyHashOf sha (aq_rawBody r))) sg = Some b"
    using ok by (auto simp: eqAddr_def split: option.splits)
  have "eqAddr (Some b) (Some B)" using ok b request(2) eqAddr_trans by metis
  with unforgeable b obtain ts' m' path' url' h' where h:
    "(ts', m', path', url', h') \<in> made"
    "messageWithBody a ts (toUpperCase (aq_method r)) (request_path r) (header_url r) (bodyHashOf sha (aq_rawBody r)) =
     messageWithBody B ts' m' path' url' h'"
    by blast
  have l: "length (bodyHashOf sha (aq_rawBody r)) = length h'"
    using made h(1) digest by (simp add: bodyHashOf_def EMPTY_BODY_SHA256_def split: option.split)
  have "toLowerCase a = toLowerCase B" using request(2) by (simp add: eqAddr_iff)
  then have "CHR '':'' \<notin> set a" using request(3) lower_colon by metis
  then have "ts = ts' \<and> toUpperCase (aq_method r) = m' \<and> request_path r = path' \<and> header_url r = url' \<and>
      bodyHashOf sha (aq_rawBody r) = h'"
    using messageWithBody_inject [OF h(2) _ l] made h(1) request(3,4) fresh_no_colon [OF ts(3)] by auto
  then show ?thesis using ts h(1) by auto
qed

text \<open>
  The legacy switch unbinds the body of every request, not only of legacy ones: from an accepted
  request that was signed with its body, moving the hash into the URL header gives a request with an
  arbitrary body that is accepted with the same signature.
\<close>

lemma legacy_switch_unbinds_body:
  assumes "verifyRelayerAuth sha verify False now r"
    and "r' = r\<lparr>aq_url := Some (header_url r @ '':'' @ bodyHashOf sha (aq_rawBody r)), aq_rawBody := body\<rparr>"
  shows "verifyRelayerAuth sha verify True now r'"
  using assms by (auto simp: verifyRelayerAuth_def messageWithBody_def header_url_def request_path_def messageLegacy_def
      Let_def split: if_splits)


text \<open>
  Peers cannot displace one another's orders: whatever authenticated peers post and cancel, even
  when the store is full, a stored order stays as it is until it expires, as long as its
  own relayer does not cancel it.
\<close>

lemma peers_keep_their_orders:
  assumes "remote_run es (new_remote limit) = Some st" "remote_get i st = Some x"
    and "\<forall>e \<in> set evs. harmless x e"
  shows "remote_get i (fold peer_step evs st) = Some x"
proof -
  have "remote_ok st" using run_total [OF remote_ok_new] assms(1) by (metis option.inject)
  then show ?thesis using peer_steps_keep assms(2,3) by (simp add: remote_get_def)
qed

text \<open>
  The number of trade offers in flight is counted exactly and never passes the configured limit,
  however requests overlap and whether their handlers return or throw.
\<close>

lemma offers_in_flight_bounded:
  assumes "0 < maxConcurrent" "offer_traffic maxConcurrent es (0, 0) = (inFlight, running)"
  shows "inFlight = int running \<and> inFlight \<le> maxConcurrent"
  using offer_traffic_counts [of maxConcurrent es 0] assms by simp

section \<open>Witnesses\<close>

definition peer_order :: "string \<Rightarrow> string \<Rightarrow> string \<Rightarrow> string \<Rightarrow> order_summary" where
  "peer_order i rel sell buy = \<lparr>sm_id = i, sm_chainId = None, sm_relayer = rel, sm_relayerUrl = ''u'',
     sm_sellToken = ''0xa'', sm_buyToken = ''0xb'', sm_sellAmount = sell, sm_buyAmount = buy,
     sm_minFillAmount = ''0'', sm_maxFee = 0, sm_expiry = 1000, sm_createdAt = 1\<rparr>"

definition sample_adds :: "remote_event list" where
  "sample_adds = [RAdd 5 (peer_order ''0x1'' ''0xr1'' ''3'' ''1''), RAdd 5 (peer_order ''0x2'' ''0xr2'' ''1'' ''2'')]"

lemma sample_adds_positive: "RAdd now x \<in> set sample_adds \<Longrightarrow> positive x"
proof -
  have "positive (peer_order ''0x1'' ''0xr1'' ''3'' ''1'')" "positive (peer_order ''0x2'' ''0xr2'' ''1'' ''2'')"
    by code_simp+
  then show "RAdd now x \<in> set sample_adds \<Longrightarrow> positive x" by (auto simp: sample_adds_def)
qed

lemma remote_price_order_witness:
  "\<exists>st. remote_run sample_adds (new_remote None) = Some st \<and> sorted_wrt price_le (getSellOrders 5 ''0xa-0xb'' st)"
  using remote_price_order [of sample_adds None 5 "''0xa-0xb''"] sample_adds_positive by blast

lemma sample_store:
  "map_option (\<lambda>st. map sm_id (getSellOrders 5 ''0xa-0xb'' st)) (remote_run sample_adds (new_remote None)) = Some [''0x2'', ''0x1'']"
  by code_simp

text \<open>
  An order with negative amounts breaks the price order of others for good: a peer posts one, two
  sound orders follow, the peer cancels it, and the sell list has the dearer order first.
\<close>

lemma negative_amounts_break_price_order:
  "\<exists>st. remote_run [RAdd 5 (peer_order ''0x9'' ''0xbad'' ''-1'' ''-1''), RAdd 5 (peer_order ''0x2'' ''0xr2'' ''1'' ''2''),
       RAdd 5 (peer_order ''0x1'' ''0xr1'' ''3'' ''1''), RRemove ''0x9''] (new_remote None) = Some st \<and>
     getSellOrders 5 ''0xa-0xb'' st = [peer_order ''0x1'' ''0xr1'' ''3'' ''1'', peer_order ''0x2'' ''0xr2'' ''1'' ''2''] \<and>
     \<not> sorted_wrt price_le (getSellOrders 5 ''0xa-0xb'' st)"
proof -
  let ?run = "remote_run [RAdd 5 (peer_order ''0x9'' ''0xbad'' ''-1'' ''-1''), RAdd 5 (peer_order ''0x2'' ''0xr2'' ''1'' ''2''),
       RAdd 5 (peer_order ''0x1'' ''0xr1'' ''3'' ''1''), RRemove ''0x9''] (new_remote None)"
  let ?l = "[peer_order ''0x1'' ''0xr1'' ''3'' ''1'', peer_order ''0x2'' ''0xr2'' ''1'' ''2'']"
  have "map_option (getSellOrders 5 ''0xa-0xb'') ?run = Some ?l" by code_simp
  moreover have "\<not> sorted_wrt price_le ?l" by code_simp
  ultimately show ?thesis by auto
qed

lemma peers_keep_their_orders_witness:
  "\<exists>st. remote_run sample_adds (new_remote (Some 2)) = Some st \<and>
     remote_get ''0x1'' (fold peer_step [PeerDelete ''0xr2'' ''0X1'', PeerPost ''0xr2'' 900 None] st) =
     Some (peer_order ''0x1'' ''0xr1'' ''3'' ''1'')"
proof -
  have "map_option (remote_get ''0x1'') (remote_run sample_adds (new_remote (Some 2))) =
      Some (Some (peer_order ''0x1'' ''0xr1'' ''3'' ''1''))" by code_simp
  then obtain st where st: "remote_run sample_adds (new_remote (Some 2)) = Some st"
      "remote_get ''0x1'' st = Some (peer_order ''0x1'' ''0xr1'' ''3'' ''1'')" by auto
  have "harmless (peer_order ''0x1'' ''0xr1'' ''3'' ''1'') (PeerDelete ''0xr2'' ''0X1'')"
    "harmless (peer_order ''0x1'' ''0xr1'' ''3'' ''1'') (PeerPost ''0xr2'' 900 None)"
    by (code_simp, simp add: harmless_def peer_order_def)
  then show ?thesis using peers_keep_their_orders [OF st, of "[PeerDelete ''0xr2'' ''0X1'', PeerPost ''0xr2'' 900 None]"] st(1)
    by simp
qed

definition good_offer :: offer_body where
  "good_offer = \<lparr>ob_makerNullifier = VString (''0x'' @ replicate 64 (CHR ''1'')), ob_takerOrder = TakerObject\<rparr>"

lemma offers_in_flight_bounded_witness:
  "offer_traffic 1 [OfferArrives True (Some good_offer), OfferArrives True (Some good_offer)] (0, 0) = (1, 1) \<and> (1::int) \<le> 1"
proof -
  have "offer_traffic 1 [OfferArrives True (Some good_offer), OfferArrives True (Some good_offer)] (0, 0) = (1, 1)" by code_simp
  then show ?thesis using offers_in_flight_bounded [of 1 _ 1 1] by simp
qed

text \<open>A signature scheme in which the signature of a message by B is the message itself.\<close>

definition sample_request :: "string option \<Rightarrow> string \<Rightarrow> auth_request" where
  "sample_request body sg = \<lparr>aq_address = Some ''0xB'', aq_signature = Some sg, aq_timestamp = Some ''100'', aq_url = Some ''http://u'',
     aq_method = ''POST'', aq_originalUrl = ''/api/p2p/orders?x=1'', aq_rawBody = body\<rparr>"

definition sample_sha :: "string \<Rightarrow> string" where "sample_sha b = replicate 64 (CHR ''5'')"

definition sample_made :: "(string \<times> string \<times> string \<times> string \<times> string) set" where
  "sample_made = {(''100'', ''POST'', ''/api/p2p/orders'', ''http://u'', ''0x'' @ replicate 64 (CHR ''5''))}"

definition sample_message :: string where
  "sample_message = messageWithBody ''0xB'' ''100'' ''POST'' ''/api/p2p/orders'' ''http://u'' (''0x'' @ replicate 64 (CHR ''5''))"

definition sample_verify :: "string \<Rightarrow> string \<Rightarrow> string option" where
  "sample_verify message sg = (if message = sample_message \<and> sg = ''sig'' then Some ''0xb'' else None)"

lemma sample_parts:
  "toUpperCase (aq_method (sample_request (Some ''body'') ''sig'')) = ''POST''"
  "request_path (sample_request (Some ''body'') ''sig'') = ''/api/p2p/orders''"
  "header_url (sample_request (Some ''body'') ''sig'') = ''http://u''"
  "bodyHashOf sample_sha (Some ''body'') = ''0x'' @ replicate 64 (CHR ''5'')"
  "eqAddr (Some ''0xb'') (Some ''0xB'')"
  by (code_simp, code_simp, code_simp, simp add: bodyHashOf_def sample_sha_def, code_simp)

lemma sample_fields: "aq_rawBody (sample_request b sg) = b" "aq_timestamp (sample_request b sg) = Some ''100''"
  by (simp_all add: sample_request_def)

lemma sample_fresh: "\<not> stale_timestamp 250 ''100''"
proof -
  have "decimal_literal ''100'' = Some 100"
    by (simp add: decimal_literal_def is_digit_def code_def parse_digits_def digit_val_def pow10_def)
  moreover have "trim ''100'' = ''100''" by code_simp
  ultimately have "Number_of_string ''100'' = JsFin 100"
    by (simp add: Number_of_string_def strip_prefix2_def Number_literal_def unsigned_part_def)
  then show ?thesis by (simp add: stale_timestamp_def SIGNATURE_MAX_AGE_SEC_def)
qed

lemma sample_accepted: "verifyRelayerAuth sample_sha sample_verify False 250 (sample_request (Some ''body'') ''sig'')"
  unfolding verifyRelayerAuth_def Let_def sample_parts
  by (simp add: sample_request_def sample_parts sample_fresh sample_verify_def sample_message_def)

theorem only_signed_requests_pass_witness:
  "(''100'', ''POST'', ''/api/p2p/orders'', ''http://u'', bodyHashOf sample_sha (Some ''body'')) \<in> sample_made"
proof -
  have v: "\<forall>message sg b. sample_verify message sg = Some b \<longrightarrow> eqAddr (Some b) (Some ''0xB'') \<longrightarrow>
      (\<exists>(ts, m, path, url, h) \<in> sample_made. message = messageWithBody ''0xB'' ts m path url h)"
    by (auto simp: sample_verify_def sample_made_def sample_message_def split: if_splits)
  have m: "\<forall>ts m path url h. (ts, m, path, url, h) \<in> sample_made \<longrightarrow>
      CHR '':'' \<notin> set ts \<union> set m \<union> set path \<and> length h = 66"
    by (simp add: sample_made_def)
  have d: "\<forall>b. length (sample_sha b) = 64" by (simp add: sample_sha_def)
  have e: "eqAddr (Some ''0xB'') (Some ''0xB'')" by (simp add: eqAddr_iff)
  have a: "aq_address (sample_request (Some ''body'') ''sig'') = Some ''0xB''" by (simp add: sample_request_def)
  have c: "CHR '':'' \<notin> set ''0xB''" "CHR '':'' \<notin> set (toUpperCase (aq_method (sample_request (Some ''body'') ''sig''))) \<union>
      set (request_path (sample_request (Some ''body'') ''sig''))"
    by (simp_all add: sample_parts)
  from only_signed_requests_pass [OF v m d a e c sample_accepted] show ?thesis
    by (simp add: sample_parts sample_fields)
qed

lemma legacy_switch_unbinds_body_witness:
  "verifyRelayerAuth sample_sha sample_verify True 250 (sample_request (Some ''body'') ''sig''
     \<lparr>aq_url := Some (header_url (sample_request (Some ''body'') ''sig'') @ '':'' @
        bodyHashOf sample_sha (aq_rawBody (sample_request (Some ''body'') ''sig''))), aq_rawBody := Some ''forged''\<rparr>)"
  by (rule legacy_switch_unbinds_body [OF sample_accepted refl])

end
