(* ===== verification/Outbox.thy ===== *)
theory Outbox
  imports JsMap
begin

text \<open>
  The settlement push outbox: the table \<open>settlement_push_outbox\<close> (\<open>zk-relayer/src/core/db.ts\<close>), the
  worker that replays it (\<open>core/settlement-push-worker.ts\<close>) and the immediate push of \<open>index.ts\<close>.  The
  worker is cut at its await: while a push is on its way, any other event may happen.
\<close>

section \<open>The table\<close>

definition MAX_PUSH_ATTEMPTS :: int where "MAX_PUSH_ATTEMPTS = 50"

text \<open>A payload that \<open>JSON.parse\<close> rejects is None.\<close>

record push_row =
  po_payload :: "string option"
  po_attempts :: int
  po_lastAttemptAt :: "ms option"
  po_lastError :: "string option"
  po_pushedAt :: "ms option"
  po_createdAt :: ms

type_synonym outbox = "(string, push_row) jmap"

definition enqueueSettlementPush :: "string \<Rightarrow> string \<Rightarrow> ms \<Rightarrow> outbox \<Rightarrow> outbox" where
  "enqueueSettlementPush txHash payload now m =
     (if jhas m (toLowerCase txHash) then m
      else jset (toLowerCase txHash) \<lparr>po_payload = Some payload, po_attempts = 0, po_lastAttemptAt = None,
             po_lastError = None, po_pushedAt = None, po_createdAt = now\<rparr> m)"

definition markSettlementPushSucceeded :: "string \<Rightarrow> ms \<Rightarrow> outbox \<Rightarrow> outbox" where
  "markSettlementPushSucceeded txHash now = jmodify (toLowerCase txHash)
     (\<lambda>r. r\<lparr>po_pushedAt := Some now, po_lastAttemptAt := Some now, po_lastError := None, po_attempts := po_attempts r + 1\<rparr>)"

definition markSettlementPushFailed :: "string \<Rightarrow> string \<Rightarrow> ms \<Rightarrow> outbox \<Rightarrow> outbox" where
  "markSettlementPushFailed txHash err now = jmodify (toLowerCase txHash)
     (\<lambda>r. r\<lparr>po_lastAttemptAt := Some now, po_lastError := Some (take 500 err), po_attempts := po_attempts r + 1\<rparr>)"

definition markSettlementPushDead :: "string \<Rightarrow> string \<Rightarrow> ms \<Rightarrow> outbox \<Rightarrow> outbox" where
  "markSettlementPushDead txHash err now = jmodify (toLowerCase txHash)
     (\<lambda>r. r\<lparr>po_lastAttemptAt := Some now, po_lastError := Some (take 500 err), po_attempts := MAX_PUSH_ATTEMPTS\<rparr>)"

definition push_due :: "ms \<Rightarrow> push_row \<Rightarrow> bool" where
  "push_due cutoff r \<longleftrightarrow> po_pushedAt r = None \<and> po_attempts r < MAX_PUSH_ATTEMPTS \<and>
     (case po_lastAttemptAt r of None \<Rightarrow> True | Some t \<Rightarrow> t \<le> cutoff)"

definition selectPendingPushes :: "nat \<Rightarrow> ms \<Rightarrow> outbox \<Rightarrow> (string \<times> push_row) list" where
  "selectPendingPushes limit cutoff m =
     take limit (sort_key (\<lambda>(_, r). po_createdAt r) (filter (\<lambda>(_, r). push_due cutoff r) m))"

fun claim_pushes :: "ms \<Rightarrow> (string \<times> push_row) list \<Rightarrow> outbox \<Rightarrow> (string \<times> string) list \<times> outbox" where
  "claim_pushes now [] m = ([], m)"
| "claim_pushes now ((tx, r) # rs) m = (case po_payload r of
     None \<Rightarrow> claim_pushes now rs (markSettlementPushDead tx ''payload_json parse failed'' now m)
   | Some p \<Rightarrow> (case claim_pushes now rs m of (out, m') \<Rightarrow> ((tx, p) # out, m')))"

definition getPendingSettlementPushes :: "nat \<Rightarrow> ms \<Rightarrow> ms \<Rightarrow> outbox \<Rightarrow> (string \<times> string) list \<times> outbox" where
  "getPendingSettlementPushes limit backoffMs now m =
     claim_pushes now (selectPendingPushes limit (now - backoffMs) m) m"

definition prunePushedSettlementPushes :: "ms \<Rightarrow> ms \<Rightarrow> outbox \<Rightarrow> outbox" where
  "prunePushedSettlementPushes olderThanMs now m =
     filter (\<lambda>(_, r). \<not> (case po_pushedAt r of None \<Rightarrow> False | Some t \<Rightarrow> t \<le> now - olderThanMs)) m"

record push_stats =
  pst_total :: nat
  pst_pending :: nat
  pst_dead :: nat
  pst_pushed :: nat
  pst_maxAttempts :: int

definition getSettlementPushOutboxStats :: "outbox \<Rightarrow> push_stats" where
  "getSettlementPushOutboxStats m = \<lparr>pst_total = length m,
     pst_pending = jcount (\<lambda>r. po_pushedAt r = None \<and> po_attempts r < MAX_PUSH_ATTEMPTS) m,
     pst_dead = jcount (\<lambda>r. po_pushedAt r = None \<and> MAX_PUSH_ATTEMPTS \<le> po_attempts r) m,
     pst_pushed = jcount (\<lambda>r. po_pushedAt r \<noteq> None) m,
     pst_maxAttempts = (case map po_attempts (jvalues m) of [] \<Rightarrow> 0 | a # as \<Rightarrow> fold max as a)\<rparr>"

section \<open>The worker\<close>

definition DEFAULT_TICK_INTERVAL_MS :: ms where "DEFAULT_TICK_INTERVAL_MS = 30000"
definition DEFAULT_BATCH_SIZE :: nat where "DEFAULT_BATCH_SIZE = 50"
definition DEFAULT_RETRY_BACKOFF_MS :: ms where "DEFAULT_RETRY_BACKOFF_MS = 30000"
definition DEFAULT_PRUNE_PUSHED_AFTER_MS :: ms where "DEFAULT_PRUNE_PUSHED_AFTER_MS = 7 * 24 * 60 * 60000"
definition DEFAULT_PRUNE_EVERY_TICKS :: nat where
  "DEFAULT_PRUNE_EVERY_TICKS = nat (max 1 (60 * 60000 div DEFAULT_TICK_INTERVAL_MS))"

text \<open>
  The worker and the outbox.  \<open>pw_rows\<close> are the claimed rows of a running tick, the first of them being
  pushed.  \<open>pw_sent\<close> and \<open>pw_acked\<close> log the pushes of the worker and the acknowledgements received.
\<close>

record push_worker =
  pw_outbox :: outbox
  pw_rows :: "(string \<times> string) list option"
  pw_stopped :: bool
  pw_tickCount :: nat
  pw_batchSize :: nat
  pw_retryBackoffMs :: ms
  pw_prunePushedAfterMs :: ms
  pw_pruneEveryTicks :: nat
  pw_sent :: "string list"
  pw_acked :: "string list"

definition new_push_worker :: "nat option \<Rightarrow> ms option \<Rightarrow> ms option \<Rightarrow> nat option \<Rightarrow> outbox \<Rightarrow> push_worker" where
  "new_push_worker batchSize retryBackoffMs prunePushedAfterMs pruneEveryTicks m =
     \<lparr>pw_outbox = m, pw_rows = None, pw_stopped = False, pw_tickCount = 0,
      pw_batchSize = (case batchSize of Some n \<Rightarrow> n | None \<Rightarrow> DEFAULT_BATCH_SIZE),
      pw_retryBackoffMs = (case retryBackoffMs of Some n \<Rightarrow> n | None \<Rightarrow> DEFAULT_RETRY_BACKOFF_MS),
      pw_prunePushedAfterMs = (case prunePushedAfterMs of Some n \<Rightarrow> n | None \<Rightarrow> DEFAULT_PRUNE_PUSHED_AFTER_MS),
      pw_pruneEveryTicks = (case pruneEveryTicks of Some n \<Rightarrow> n | None \<Rightarrow> DEFAULT_PRUNE_EVERY_TICKS),
      pw_sent = [], pw_acked = []\<rparr>"

text \<open>The end of a tick.\<close>

definition tick_end :: "ms \<Rightarrow> push_worker \<Rightarrow> push_worker" where
  "tick_end now w = (let n = Suc (pw_tickCount w) in
     w\<lparr>pw_rows := None, pw_tickCount := n,
       pw_outbox := (if 0 < pw_pruneEveryTicks w \<and> n mod pw_pruneEveryTicks w = 0
         then prunePushedSettlementPushes (pw_prunePushedAfterMs w) now (pw_outbox w) else pw_outbox w)\<rparr>)"

text \<open>The head of the loop over the claimed rows: the next push is sent, or the tick ends.\<close>

definition next_push :: "ms \<Rightarrow> (string \<times> string) list \<Rightarrow> push_worker \<Rightarrow> push_worker" where
  "next_push now rows w = (case rows of
     [] \<Rightarrow> tick_end now w
   | (tx, p) # _ \<Rightarrow> if pw_stopped w then tick_end now w
       else w\<lparr>pw_rows := Some rows, pw_sent := pw_sent w @ [tx]\<rparr>)"

definition push_tick :: "ms \<Rightarrow> push_worker \<Rightarrow> push_worker" where
  "push_tick now w = (if pw_rows w \<noteq> None \<or> pw_stopped w then w
     else case getPendingSettlementPushes (pw_batchSize w) (pw_retryBackoffMs w) now (pw_outbox w) of
       (rows, m) \<Rightarrow> next_push now rows (w\<lparr>pw_outbox := m\<rparr>))"

text \<open>What a push came to, the error text of a refusal being given.\<close>

definition push_outcome :: "string \<Rightarrow> string \<Rightarrow> string + bool \<Rightarrow> ms \<Rightarrow> push_worker \<Rightarrow> push_worker" where
  "push_outcome refusal tx answer now w = (case answer of
     Inr True \<Rightarrow> w\<lparr>pw_outbox := markSettlementPushSucceeded tx now (pw_outbox w), pw_acked := toLowerCase tx # pw_acked w\<rparr>
   | Inr False \<Rightarrow> w\<lparr>pw_outbox := markSettlementPushFailed tx refusal now (pw_outbox w)\<rparr>
   | Inl msg \<Rightarrow> w\<lparr>pw_outbox := markSettlementPushFailed tx msg now (pw_outbox w)\<rparr>)"

definition push_answer :: "string + bool \<Rightarrow> ms \<Rightarrow> push_worker \<Rightarrow> push_worker" where
  "push_answer answer now w = (case pw_rows w of
     Some ((tx, p) # rows) \<Rightarrow> next_push now rows (push_outcome ''pushSettlement returned false'' tx answer now w)
   | _ \<Rightarrow> w)"

definition push_stop :: "push_worker \<Rightarrow> push_worker" where
  "push_stop w = w\<lparr>pw_stopped := True\<rparr>"

text \<open>
  Events: a settlement is enqueued, its immediate push is answered (\<open>index.ts\<close>), the timer fires, a push
  of the worker is answered, the worker is stopped.
\<close>

datatype push_event = PEnqueue string string ms | PLive string "string + bool" ms | PTick ms
  | PAnswer "string + bool" ms | PStop

fun push_step :: "push_event \<Rightarrow> push_worker \<Rightarrow> push_worker" where
  "push_step (PEnqueue tx p now) w = w\<lparr>pw_outbox := enqueueSettlementPush tx p now (pw_outbox w)\<rparr>"
| "push_step (PLive tx answer now) w = push_outcome ''immediate push returned false'' tx answer now w"
| "push_step (PTick now) w = push_tick now w"
| "push_step (PAnswer answer now) w = push_answer answer now w"
| "push_step PStop w = push_stop w"

abbreviation push_run :: "push_event list \<Rightarrow> push_worker \<Rightarrow> push_worker" where
  "push_run \<equiv> fold push_step"

section \<open>Invariant\<close>

text \<open>
  Of an outbox together with the acknowledged hashes: keys are lower case, and a row is marked as pushed
  only after an acknowledgement.
\<close>

definition rows_ok :: "outbox \<Rightarrow> string set \<Rightarrow> bool" where
  "rows_ok m acked \<longleftrightarrow> jmap_ok m \<and>
     (\<forall>tx r. jget m tx = Some r \<longrightarrow> toLowerCase tx = tx \<and> 0 \<le> po_attempts r \<and> (po_pushedAt r \<noteq> None \<longrightarrow> tx \<in> acked))"

definition attempts_of :: "outbox \<Rightarrow> string \<Rightarrow> int" where
  "attempts_of m tx = (case jget m tx of None \<Rightarrow> 0 | Some r \<Rightarrow> po_attempts r)"

text \<open>The hash whose push is on its way.\<close>

definition in_flight :: "push_worker \<Rightarrow> string option" where
  "in_flight w = (case pw_rows w of Some ((tx, _) # _) \<Rightarrow> Some tx | _ \<Rightarrow> None)"

definition sent_ok :: "push_worker \<Rightarrow> string \<Rightarrow> bool" where
  "sent_ok w tx \<longleftrightarrow> int (count_list (pw_sent w) tx) \<le> MAX_PUSH_ATTEMPTS \<and>
     int (count_list (pw_sent w) tx) \<le> attempts_of (pw_outbox w) tx + (if in_flight w = Some tx then 1 else 0)"

definition queue_ok :: "push_worker \<Rightarrow> (string \<times> string) list \<Rightarrow> bool" where
  "queue_ok w q \<longleftrightarrow> distinct (map fst q) \<and> (\<forall>tx \<in> fst ` set q. toLowerCase tx = tx \<and>
     (tx \<notin> set (pw_acked w) \<longrightarrow> jget (pw_outbox w) tx \<noteq> None))"

definition waiting_ok :: "push_worker \<Rightarrow> (string \<times> string) list \<Rightarrow> bool" where
  "waiting_ok w q \<longleftrightarrow> (\<forall>tx \<in> fst ` set q. tx \<notin> set (pw_acked w) \<longrightarrow> int (count_list (pw_sent w) tx) < MAX_PUSH_ATTEMPTS)"

definition push_ok :: "push_worker \<Rightarrow> bool" where
  "push_ok w \<longleftrightarrow> rows_ok (pw_outbox w) (set (pw_acked w)) \<and> (\<forall>tx. tx \<notin> set (pw_acked w) \<longrightarrow> sent_ok w tx) \<and>
     (case pw_rows w of None \<Rightarrow> True | Some q \<Rightarrow> q \<noteq> [] \<and> queue_ok w q \<and> waiting_ok w (tl q))"

end
