(* ===== verification/OutboxFacts.thy ===== *)
theory OutboxFacts
  imports Outbox
begin

text \<open>
  Properties of the settlement push outbox under every interleaving of enqueues, immediate pushes, ticks
  and answers: what was enqueued stays until it is acknowledged, and the worker sends a settlement at
  most fifty times.
\<close>

section \<open>Effects on the table\<close>

text \<open>Rows of hashes outside a set stay, with their payload, and attempts do not decrease.\<close>

definition grows :: "string set \<Rightarrow> outbox \<Rightarrow> outbox \<Rightarrow> bool" where
  "grows A m m' \<longleftrightarrow> (\<forall>tx. tx \<notin> A \<longrightarrow> attempts_of m tx \<le> attempts_of m' tx \<and>
     (\<forall>r. jget m tx = Some r \<longrightarrow> (\<exists>r'. jget m' tx = Some r' \<and> po_payload r' = po_payload r)))"

lemma grows_refl: "grows A m m"
  by (simp add: grows_def)

lemma grows_trans: "grows A m m' \<Longrightarrow> grows A m' m'' \<Longrightarrow> grows A m m''"
proof -
  assume a: "grows A m m'" "grows A m' m''"
  have "attempts_of m tx \<le> attempts_of m'' tx" if "tx \<notin> A" for tx
    using a that order_trans [of "attempts_of m tx" "attempts_of m' tx"] by (simp add: grows_def)
  moreover have "\<exists>r'. jget m'' tx = Some r' \<and> po_payload r' = po_payload r" if tx: "tx \<notin> A" "jget m tx = Some r" for tx r
  proof -
    obtain r' where "jget m' tx = Some r'" "po_payload r' = po_payload r" using a(1) tx unfolding grows_def by blast
    then show ?thesis using a(2) tx(1) unfolding grows_def by metis
  qed
  ultimately show ?thesis unfolding grows_def by blast
qed

lemma grows_row: "grows A m m' \<Longrightarrow> tx \<notin> A \<Longrightarrow> jget m tx \<noteq> None \<Longrightarrow> jget m' tx \<noteq> None"
  unfolding grows_def by blast

lemma enqueue_ok:
  assumes "rows_ok m A"
  shows "rows_ok (enqueueSettlementPush tx p now m) A" "grows A m (enqueueSettlementPush tx p now m)"
  using assms by (auto simp: enqueueSettlementPush_def rows_ok_def grows_def attempts_of_def jhas_jget split: option.split)

text \<open>A modification of one row that keeps its payload and does not lower its attempts.\<close>

lemma modify_ok:
  assumes "rows_ok m A" "\<And>r. jget m k = Some r \<Longrightarrow> po_payload (f r) = po_payload r \<and> po_attempts r \<le> po_attempts (f r) \<and>
      (po_pushedAt (f r) \<noteq> None \<longrightarrow> k \<in> B)" "A \<subseteq> B"
  shows "rows_ok (jmodify k f m) B" "grows B m (jmodify k f m)"
  using assms by (fastforce simp: rows_ok_def, auto simp: grows_def attempts_of_def split: option.split)

lemma rows_okD: "rows_ok m A \<Longrightarrow> jget m k = Some r \<Longrightarrow> po_pushedAt r = Some t \<Longrightarrow> k \<in> A"
  by (simp add: rows_ok_def)

lemma failed_ok:
  assumes "rows_ok m A"
  shows "rows_ok (markSettlementPushFailed tx e now m) A" "grows A m (markSettlementPushFailed tx e now m)"
  unfolding markSettlementPushFailed_def by (rule modify_ok [OF assms]; simp; blast dest: rows_okD [OF assms])+

lemma succeeded_ok:
  assumes "rows_ok m A"
  shows "rows_ok (markSettlementPushSucceeded tx now m) (insert (toLowerCase tx) A)"
    "grows (insert (toLowerCase tx) A) m (markSettlementPushSucceeded tx now m)"
  unfolding markSettlementPushSucceeded_def by (rule modify_ok [OF assms]; auto)+

lemma dead_ok:
  assumes "rows_ok m A" "\<And>r. jget m (toLowerCase tx) = Some r \<Longrightarrow> po_attempts r \<le> MAX_PUSH_ATTEMPTS"
  shows "rows_ok (markSettlementPushDead tx e now m) A" "grows A m (markSettlementPushDead tx e now m)"
  unfolding markSettlementPushDead_def
  by (rule modify_ok [OF assms(1)]; use assms(2) rows_okD [OF assms(1)] in force)+

lemma failed_counts:
  "jget m tx \<noteq> None \<Longrightarrow> toLowerCase tx = tx \<Longrightarrow>
   attempts_of (markSettlementPushFailed tx e now m) t = attempts_of m t + (if t = tx then 1 else 0)"
  by (auto simp: markSettlementPushFailed_def attempts_of_def split: option.split)

lemma jget_filter: "jmap_ok m \<Longrightarrow> jget (filter (\<lambda>(k, v). P v) m) k =
    (case jget m k of Some v \<Rightarrow> if P v then Some v else None | None \<Rightarrow> None)"
proof (induction m)
  case (Cons q m)
  obtain k' v' where q: "q = (k', v')" by (cases q)
  then have "k' \<notin> fst ` set m" "jmap_ok m" using Cons.prems by (auto simp: jmap_ok_def)
  moreover then have "jget m k' = None" by (simp add: jget_None_keys jkeys_def)
  ultimately show ?case using Cons.IH q by (auto simp: jget_def split: option.splits)
qed simp

lemma prune_ok:
  assumes "rows_ok m A"
  shows "rows_ok (prunePushedSettlementPushes d now m) A" "grows A m (prunePushedSettlementPushes d now m)"
proof -
  have j: "jmap_ok m" using assms by (simp add: rows_ok_def)
  have jf: "jmap_ok (prunePushedSettlementPushes d now m)"
    using j by (simp add: jmap_ok_def prunePushedSettlementPushes_def distinct_map_filter)
  have g: "jget (prunePushedSettlementPushes d now m) k = (case jget m k of None \<Rightarrow> None
      | Some r \<Rightarrow> if \<not> (case po_pushedAt r of None \<Rightarrow> False | Some t \<Rightarrow> t \<le> now - d) then Some r else None)" for k
    by (simp add: prunePushedSettlementPushes_def jget_filter [OF j])
  show "rows_ok (prunePushedSettlementPushes d now m) A"
    using assms jf by (auto simp: rows_ok_def g split: option.splits if_splits)
  show "grows A m (prunePushedSettlementPushes d now m)"
    using assms by (auto simp: rows_ok_def grows_def attempts_of_def g split: option.splits)
qed

section \<open>Claiming\<close>

lemma claim_ok:
  assumes "rows_ok m A" "distinct (map fst rs)" "\<And>tx r. (tx, r) \<in> set rs \<Longrightarrow> jget m tx = Some r \<and> po_attempts r < MAX_PUSH_ATTEMPTS"
    and "claim_pushes now rs m = (q, m')"
  shows "rows_ok m' A \<and> grows A m m' \<and> distinct (map fst q) \<and> fst ` set q \<subseteq> fst ` set rs"
  using assms
proof (induction rs arbitrary: m q)
  case Nil
  then show ?case by (simp add: grows_refl)
next
  case (Cons x rs)
  obtain tx r where x: "x = (tx, r)" by (cases x)
  have tx: "jget m tx = Some r" "po_attempts r < MAX_PUSH_ATTEMPTS" "toLowerCase tx = tx"
    using Cons.prems(1,3) x by (auto simp: rows_ok_def)
  show ?case
  proof (cases "po_payload r")
    case None
    let ?m = "markSettlementPushDead tx ''payload_json parse failed'' now m"
    have d: "rows_ok ?m A" "grows A m ?m" using dead_ok [OF Cons.prems(1), of tx] tx by simp_all
    have "jget ?m t = Some s \<and> po_attempts s < MAX_PUSH_ATTEMPTS" if "(t, s) \<in> set rs" for t s
    proof -
      have "t \<noteq> tx" using that Cons.prems(2) x by force
      then show ?thesis using Cons.prems(3) [of t s] that tx(3) by (simp add: markSettlementPushDead_def)
    qed
    then have "rows_ok m' A \<and> grows A ?m m' \<and> distinct (map fst q) \<and> fst ` set q \<subseteq> fst ` set rs"
      using Cons.IH [OF d(1)] Cons.prems(2,4) x None by simp
    then show ?thesis using grows_trans [OF d(2)] by auto
  next
    case (Some p)
    then obtain out where out: "claim_pushes now rs m = (out, m')" "q = (tx, p) # out"
      using Cons.prems(4) x by (auto split: prod.splits)
    have "rows_ok m' A \<and> grows A m m' \<and> distinct (map fst out) \<and> fst ` set out \<subseteq> fst ` set rs"
    proof (rule Cons.IH [OF Cons.prems(1) _ _ out(1)])
      show "distinct (map fst rs)" using Cons.prems(2) by simp
      show "jget m t = Some s \<and> po_attempts s < MAX_PUSH_ATTEMPTS" if "(t, s) \<in> set rs" for t s
        using Cons.prems(3) [of t s] that by simp
    qed
    then show ?thesis using Cons.prems(2) x out(2) by auto
  qed
qed

lemma pending_ok:
  assumes "rows_ok m A" "getPendingSettlementPushes limit backoff now m = (q, m')"
  shows "rows_ok m' A \<and> grows A m m' \<and> distinct (map fst q) \<and>
    (\<forall>tx \<in> fst ` set q. \<exists>r. jget m tx = Some r \<and> push_due (now - backoff) r)"
proof -
  let ?rs = "selectPendingPushes limit (now - backoff) m"
  have j: "jmap_ok m" using assms(1) by (simp add: rows_ok_def)
  have i: "jget m tx = Some r \<and> push_due (now - backoff) r" if "(tx, r) \<in> set ?rs" for tx r
    using that in_jget [OF j] by (auto simp: selectPendingPushes_def dest!: in_set_takeD)
  have "distinct (map fst (filter (\<lambda>(_, r). push_due (now - backoff) r) m))"
    using j by (simp add: jmap_ok_def distinct_map_filter)
  then have "distinct (map fst (sort_key (\<lambda>(_, r). po_createdAt r) (filter (\<lambda>(_, r). push_due (now - backoff) r) m)))"
    by (simp only: distinct_map distinct_sort set_sort)
  then have d: "distinct (map fst ?rs)"
    unfolding selectPendingPushes_def by (metis distinct_take take_map)
  have "rows_ok m' A \<and> grows A m m' \<and> distinct (map fst q) \<and> fst ` set q \<subseteq> fst ` set ?rs"
    using claim_ok [OF assms(1) d _ assms(2) [unfolded getPendingSettlementPushes_def]] i by (simp add: push_due_def)
  moreover have "\<exists>r. jget m tx = Some r \<and> push_due (now - backoff) r" if tx: "tx \<in> fst ` set ?rs" for tx
  proof -
    obtain y where "y \<in> set ?rs" "tx = fst y" using tx by blast
    then have "(tx, snd y) \<in> set ?rs" by simp
    from i [OF this] show ?thesis by blast
  qed
  ultimately show ?thesis by blast
qed

section \<open>Steps\<close>

lemma push_ok_new: "push_ok (new_push_worker a b c d [])"
  by (simp add: push_ok_def new_push_worker_def rows_ok_def sent_ok_def attempts_of_def MAX_PUSH_ATTEMPTS_def)

lemma outbox_step:
  assumes "push_ok w" "rows_ok m (set (pw_acked w))" "grows (set (pw_acked w)) (pw_outbox w) m"
  shows "push_ok (w\<lparr>pw_outbox := m\<rparr>)"
proof -
  have f: "in_flight (w\<lparr>pw_outbox := m\<rparr>) = in_flight w" by (simp add: in_flight_def)
  have "sent_ok (w\<lparr>pw_outbox := m\<rparr>) tx" if "tx \<notin> set (pw_acked w)" for tx
  proof -
    have "attempts_of (pw_outbox w) tx \<le> attempts_of m tx" using assms(3) that by (simp add: grows_def)
    then show ?thesis using assms(1) that by (auto simp: push_ok_def sent_ok_def f)
  qed
  moreover have "queue_ok (w\<lparr>pw_outbox := m\<rparr>) q" if "queue_ok w q" for q
    using that grows_row [OF assms(3)] by (auto simp: queue_ok_def)
  ultimately show ?thesis using assms(1,2) by (auto simp: push_ok_def waiting_ok_def split: option.splits)
qed

lemma ack_step:
  assumes "push_ok w" "rows_ok m (insert k (set (pw_acked w)))" "grows (insert k (set (pw_acked w))) (pw_outbox w) m"
  shows "push_ok (w\<lparr>pw_outbox := m, pw_acked := k # pw_acked w\<rparr>)"
proof -
  let ?w = "w\<lparr>pw_outbox := m, pw_acked := k # pw_acked w\<rparr>"
  have f: "in_flight ?w = in_flight w" by (simp add: in_flight_def)
  have "sent_ok ?w tx" if "tx \<notin> set (pw_acked ?w)" for tx
  proof -
    have "attempts_of (pw_outbox w) tx \<le> attempts_of m tx" using assms(3) that by (simp add: grows_def)
    then show ?thesis using assms(1) that by (auto simp: push_ok_def sent_ok_def f)
  qed
  moreover have "queue_ok ?w q" if "queue_ok w q" for q
    using that grows_row [OF assms(3)] by (auto simp: queue_ok_def)
  ultimately show ?thesis using assms(1,2) by (auto simp: push_ok_def waiting_ok_def split: option.splits)
qed

text \<open>The answer to the push on its way: afterwards every push is counted in its row.\<close>

definition settled_counts :: "push_worker \<Rightarrow> bool" where
  "settled_counts w \<longleftrightarrow> (\<forall>tx. tx \<notin> set (pw_acked w) \<longrightarrow>
     int (count_list (pw_sent w) tx) \<le> attempts_of (pw_outbox w) tx)"

lemma outcome_fields [simp]:
  "pw_rows (push_outcome e tx a now w) = pw_rows w" "pw_sent (push_outcome e tx a now w) = pw_sent w"
  "pw_stopped (push_outcome e tx a now w) = pw_stopped w"
  by (auto simp: push_outcome_def split: sum.split bool.split)

lemma outcome_ok: "push_ok w \<Longrightarrow> push_ok (push_outcome e tx a now w)"
proof -
  assume ok: "push_ok w"
  then have r: "rows_ok (pw_outbox w) (set (pw_acked w))" by (simp add: push_ok_def)
  show ?thesis
    using outbox_step [OF ok failed_ok [OF r]] ack_step [OF ok succeeded_ok [OF r]]
    by (auto simp: push_outcome_def split: sum.split bool.split)
qed

lemma outcome_settles:
  assumes "push_ok w" "pw_rows w = Some ((tx, p) # rows)"
  shows "settled_counts (push_outcome e tx a now w)"
proof -
  have tx: "toLowerCase tx = tx" "tx \<notin> set (pw_acked w) \<Longrightarrow> jget (pw_outbox w) tx \<noteq> None"
    using assms by (auto simp: push_ok_def queue_ok_def)
  have f: "in_flight w = Some tx" using assms(2) by (simp add: in_flight_def)
  have s: "int (count_list (pw_sent w) t) \<le> attempts_of (pw_outbox w) t + (if t = tx then 1 else 0)"
    if "t \<notin> set (pw_acked w)" for t
    using assms(1) that f by (auto simp: push_ok_def sent_ok_def split: if_splits)
  have fail: "int (count_list (pw_sent w) t) \<le> attempts_of (markSettlementPushFailed tx x now (pw_outbox w)) t"
    if t: "t \<notin> set (pw_acked w)" for t x
  proof (cases "t = tx")
    case True
    then show ?thesis using s [OF t] failed_counts [OF _ tx(1)] tx(2) t by simp
  next
    case False
    have "attempts_of (pw_outbox w) t \<le> attempts_of (markSettlementPushFailed tx x now (pw_outbox w)) t"
      using failed_ok(2) assms(1) t by (auto simp: push_ok_def grows_def)
    then show ?thesis using s [OF t] False by simp
  qed
  have "int (count_list (pw_sent w) t) \<le> attempts_of (markSettlementPushSucceeded tx now (pw_outbox w)) t"
    if t: "t \<notin> insert tx (set (pw_acked w))" for t
  proof -
    have "grows (insert (toLowerCase tx) (set (pw_acked w))) (pw_outbox w) (markSettlementPushSucceeded tx now (pw_outbox w))"
      using succeeded_ok(2) assms(1) by (auto simp: push_ok_def)
    then show ?thesis using s [of t] t tx(1) by (auto simp: grows_def)
  qed
  then show ?thesis using fail tx(1) by (auto simp: settled_counts_def push_outcome_def split: sum.split bool.split)
qed

lemma tick_end_ok:
  assumes "push_ok w" "settled_counts w"
  shows "push_ok (tick_end now w)"
proof -
  have r: "rows_ok (pw_outbox w) (set (pw_acked w))" using assms(1) by (simp add: push_ok_def)
  have "push_ok (w\<lparr>pw_rows := None, pw_tickCount := n\<rparr>)" for n
    using assms by (auto simp: push_ok_def settled_counts_def sent_ok_def in_flight_def)
  then show ?thesis
    using outbox_step [of "w\<lparr>pw_rows := None, pw_tickCount := Suc (pw_tickCount w)\<rparr>"] prune_ok [OF r] by (simp add: tick_end_def Let_def)
qed

lemma count_list_snoc: "count_list (xs @ [x]) y = count_list xs y + (if y = x then 1 else 0)"
  by (induction xs) auto

lemma next_push_ok:
  assumes "push_ok w" "settled_counts w" "queue_ok w q" "waiting_ok w q"
  shows "push_ok (next_push now q w)"
proof (cases "q = [] \<or> pw_stopped w")
  case True
  then show ?thesis using tick_end_ok [OF assms(1,2)] by (cases q) (auto simp: next_push_def)
next
  case False
  then obtain tx p rows where q: "q = (tx, p) # rows" by (cases q) auto
  let ?w = "w\<lparr>pw_rows := Some q, pw_sent := pw_sent w @ [tx]\<rparr>"
  have n: "next_push now q w = ?w" using False q by (simp add: next_push_def)
  have b: "int (count_list (pw_sent w) tx) < MAX_PUSH_ATTEMPTS" if "tx \<notin> set (pw_acked w)"
    using assms(4) that q by (auto simp: waiting_ok_def)
  have "sent_ok ?w t" if "t \<notin> set (pw_acked w)" for t
    using assms(1,2) b that q by (auto simp: push_ok_def sent_ok_def settled_counts_def in_flight_def count_list_snoc)
  moreover have "queue_ok ?w q" using assms(3) by (simp add: queue_ok_def)
  moreover have "waiting_ok ?w (tl q)"
    using assms(3,4) q by (force simp: waiting_ok_def queue_ok_def count_list_snoc)
  ultimately show ?thesis using assms(1) q n by (simp add: push_ok_def)
qed

lemma push_ok_step: "push_ok w \<Longrightarrow> push_ok (push_step e w)"
proof (cases e)
  case (PEnqueue tx p now)
  assume ok: "push_ok w"
  then have "rows_ok (pw_outbox w) (set (pw_acked w))" by (simp add: push_ok_def)
  then show ?thesis using outbox_step [OF ok] enqueue_ok PEnqueue by simp
next
  case (PLive tx a now)
  assume "push_ok w"
  then show ?thesis using outcome_ok PLive by simp
next
  case (PTick now)
  assume ok: "push_ok w"
  show ?thesis
  proof (cases "pw_rows w \<noteq> None \<or> pw_stopped w")
    case True
    then show ?thesis using ok PTick by (simp add: push_tick_def)
  next
    case False
    obtain q m where q: "getPendingSettlementPushes (pw_batchSize w) (pw_retryBackoffMs w) now (pw_outbox w) = (q, m)"
      by (cases "getPendingSettlementPushes (pw_batchSize w) (pw_retryBackoffMs w) now (pw_outbox w)")
    have r: "rows_ok (pw_outbox w) (set (pw_acked w))" using ok by (simp add: push_ok_def)
    note p = pending_ok [OF r q]
    let ?w = "w\<lparr>pw_outbox := m\<rparr>"
    have k: "push_ok ?w" using outbox_step [OF ok] p by blast
    have f: "in_flight ?w = None" using False by (simp add: in_flight_def)
    have s: "settled_counts ?w" using k f by (auto simp: push_ok_def sent_ok_def settled_counts_def)
    have qq: "queue_ok ?w q" using p r grows_row [of "set (pw_acked w)" "pw_outbox w" m] by (force simp: queue_ok_def rows_ok_def)
    have "int (count_list (pw_sent w) tx) < MAX_PUSH_ATTEMPTS" if tx: "tx \<in> fst ` set q" "tx \<notin> set (pw_acked w)" for tx
    proof -
      obtain r' where "jget (pw_outbox w) tx = Some r'" "po_attempts r' < MAX_PUSH_ATTEMPTS"
        using p tx(1) by (auto simp: push_due_def)
      moreover have "int (count_list (pw_sent w) tx) \<le> attempts_of (pw_outbox w) tx"
        using ok tx(2) False by (auto simp: push_ok_def sent_ok_def in_flight_def)
      ultimately show ?thesis by (simp add: attempts_of_def)
    qed
    then have "waiting_ok ?w q" by (simp add: waiting_ok_def)
    then have "push_ok (next_push now q ?w)" using next_push_ok k s qq by blast
    moreover have "pw_rows w = None" "\<not> pw_stopped w" using False by simp_all
    ultimately show ?thesis using PTick q by (simp add: push_tick_def)
  qed
next
  case (PAnswer a now)
  assume ok: "push_ok w"
  show ?thesis
  proof (cases "\<exists>tx p rows. pw_rows w = Some ((tx, p) # rows)")
    case True
    then obtain tx p rows where r: "pw_rows w = Some ((tx, p) # rows)" by blast
    let ?w = "push_outcome ''pushSettlement returned false'' tx a now w"
    have k: "push_ok ?w" using ok by (rule outcome_ok)
    then have "queue_ok ?w ((tx, p) # rows)" "waiting_ok ?w rows" using r by (simp_all add: push_ok_def)
    then have "queue_ok ?w rows" "waiting_ok ?w rows" by (auto simp: queue_ok_def)
    then have "push_ok (next_push now rows ?w)" using next_push_ok k outcome_settles [OF ok r] by blast
    then show ?thesis using PAnswer r by (simp add: push_answer_def)
  next
    case False
    then show ?thesis using ok PAnswer by (auto simp: push_answer_def split: option.split list.split)
  qed
next
  case PStop
  assume "push_ok w"
  then show ?thesis using PStop
    by (simp add: push_stop_def push_ok_def sent_ok_def in_flight_def queue_ok_def waiting_ok_def split: option.splits)
qed

lemma push_ok_run: "push_ok w \<Longrightarrow> push_ok (push_run es w)"
  by (induction es arbitrary: w) (simp_all add: push_ok_step)


section \<open>What stays in the table\<close>

definition payload_of :: "outbox \<Rightarrow> string \<Rightarrow> string option option" where
  "payload_of m tx = map_option po_payload (jget m tx)"

lemma payload_marks [simp]:
  "payload_of (markSettlementPushSucceeded t now m) = payload_of m"
  "payload_of (markSettlementPushFailed t e now m) = payload_of m"
  "payload_of (markSettlementPushDead t e now m) = payload_of m"
  by (auto simp: payload_of_def fun_eq_iff markSettlementPushSucceeded_def markSettlementPushFailed_def
      markSettlementPushDead_def option.map_comp comp_def)

lemma payload_claim: "claim_pushes now rs m = (q, m') \<Longrightarrow> payload_of m' = payload_of m"
  by (induction rs arbitrary: m q) (auto split: option.splits prod.splits)

lemma payload_prune:
  "rows_ok m A \<Longrightarrow> tx \<notin> A \<Longrightarrow> payload_of (prunePushedSettlementPushes d now m) tx = payload_of m tx"
  by (auto simp: rows_ok_def payload_of_def prunePushedSettlementPushes_def jget_filter split: option.splits)

lemma payload_outcome [simp]: "payload_of (pw_outbox (push_outcome e t a now w)) = payload_of (pw_outbox w)"
  by (simp add: push_outcome_def split: sum.split bool.split)

lemma acked_outcome: "set (pw_acked w) \<subseteq> set (pw_acked (push_outcome e t a now w))"
  by (auto simp: push_outcome_def split: sum.split bool.split)

lemma payload_next:
  "rows_ok (pw_outbox w) (set (pw_acked w)) \<Longrightarrow> pw_acked (next_push now q w) = pw_acked w \<and>
   (tx \<notin> set (pw_acked w) \<longrightarrow> payload_of (pw_outbox (next_push now q w)) tx = payload_of (pw_outbox w) tx)"
  by (auto simp: next_push_def tick_end_def Let_def payload_prune split: list.split)

lemma payload_step:
  assumes "push_ok w" "\<forall>t p now. e \<noteq> PEnqueue t p now"
  shows "set (pw_acked w) \<subseteq> set (pw_acked (push_step e w)) \<and>
    (tx \<notin> set (pw_acked (push_step e w)) \<longrightarrow> payload_of (pw_outbox (push_step e w)) tx = payload_of (pw_outbox w) tx)"
proof (cases e)
  case (PLive t a now)
  then show ?thesis using acked_outcome by simp
next
  case (PTick now)
  obtain q m where q: "getPendingSettlementPushes (pw_batchSize w) (pw_retryBackoffMs w) now (pw_outbox w) = (q, m)"
    by (cases "getPendingSettlementPushes (pw_batchSize w) (pw_retryBackoffMs w) now (pw_outbox w)")
  have "rows_ok (pw_outbox w) (set (pw_acked w))" using assms(1) by (simp add: push_ok_def)
  then have "rows_ok m (set (pw_acked w))" using pending_ok q by blast
  then show ?thesis using PTick q payload_next [of "w\<lparr>pw_outbox := m\<rparr>" now q] payload_claim [of now _ "pw_outbox w" q m]
    by (simp add: push_tick_def getPendingSettlementPushes_def)
next
  case (PAnswer a now)
  have "rows_ok (pw_outbox (push_outcome x t a now w)) (set (pw_acked (push_outcome x t a now w)))" for x t
    using outcome_ok [OF assms(1)] by (simp add: push_ok_def)
  then have n: "pw_acked (next_push now q (push_outcome x t a now w)) = pw_acked (push_outcome x t a now w) \<and>
      (tx \<notin> set (pw_acked (push_outcome x t a now w)) \<longrightarrow>
        payload_of (pw_outbox (next_push now q (push_outcome x t a now w))) tx = payload_of (pw_outbox w) tx)" for x t q
    using payload_next by fastforce
  show ?thesis
  proof (cases "\<exists>t p rows. pw_rows w = Some ((t, p) # rows)")
    case True
    then obtain t p rows where r: "pw_rows w = Some ((t, p) # rows)" by blast
    then show ?thesis using PAnswer n acked_outcome [of w] by (simp add: push_answer_def)
  next
    case False
    then show ?thesis using PAnswer by (auto simp: push_answer_def split: option.split list.split)
  qed
qed (use assms in \<open>simp_all add: push_stop_def\<close>)

text \<open>The hashes that are not acknowledged have a row exactly if they were enqueued, with an enqueued payload.\<close>

definition stored_ok :: "push_event set \<Rightarrow> push_worker \<Rightarrow> bool" where
  "stored_ok E w \<longleftrightarrow> (\<forall>tx. tx \<notin> set (pw_acked w) \<longrightarrow>
     (case payload_of (pw_outbox w) tx of
        None \<Rightarrow> \<forall>t p now. PEnqueue t p now \<in> E \<longrightarrow> toLowerCase t \<noteq> tx
      | Some pl \<Rightarrow> \<exists>t p now. PEnqueue t p now \<in> E \<and> toLowerCase t = tx \<and> pl = Some p))"

lemma stored_none:
  "stored_ok E w \<Longrightarrow> tx \<notin> set (pw_acked w) \<Longrightarrow> payload_of (pw_outbox w) tx = None \<Longrightarrow>
   PEnqueue t p now \<in> E \<Longrightarrow> toLowerCase t \<noteq> tx"
  unfolding stored_ok_def by (drule spec [of _ tx]) auto

lemma stored_some:
  "stored_ok E w \<Longrightarrow> tx \<notin> set (pw_acked w) \<Longrightarrow> payload_of (pw_outbox w) tx = Some pl \<Longrightarrow>
   \<exists>t p now. PEnqueue t p now \<in> E \<and> toLowerCase t = tx \<and> pl = Some p"
  unfolding stored_ok_def by (drule spec [of _ tx]) auto

lemma stored_step:
  assumes "push_ok w" "stored_ok E w"
  shows "stored_ok (insert e E) (push_step e w)"
proof (cases "\<exists>t p now. e = PEnqueue t p now")
  case True
  then obtain t p now where e: "e = PEnqueue t p now" by blast
  let ?m = "enqueueSettlementPush t p now (pw_outbox w)"
  have p: "payload_of ?m tx = (if tx = toLowerCase t \<and> payload_of (pw_outbox w) tx = None then Some (Some p)
      else payload_of (pw_outbox w) tx)" for tx
    by (auto simp: enqueueSettlementPush_def payload_of_def jhas_jget)
  show ?thesis unfolding stored_ok_def e push_step.simps
  proof (intro allI impI)
    fix tx
    assume "tx \<notin> set (pw_acked (w\<lparr>pw_outbox := ?m\<rparr>))"
    then have a: "tx \<notin> set (pw_acked w)" by simp
    show "case payload_of (pw_outbox (w\<lparr>pw_outbox := ?m\<rparr>)) tx of
        None \<Rightarrow> \<forall>t' p' now'. PEnqueue t' p' now' \<in> insert (PEnqueue t p now) E \<longrightarrow> toLowerCase t' \<noteq> tx
      | Some pl \<Rightarrow> \<exists>t' p' now'. PEnqueue t' p' now' \<in> insert (PEnqueue t p now) E \<and> toLowerCase t' = tx \<and> pl = Some p'"
    proof (cases "payload_of (pw_outbox w) tx")
      case None
      then have "\<forall>t p now. PEnqueue t p now \<in> E \<longrightarrow> toLowerCase t \<noteq> tx"
        using stored_none [OF assms(2) a] by blast
      then show ?thesis using None by (cases "tx = toLowerCase t") (simp_all add: p, blast)
    next
      case (Some pl)
      then have "\<exists>t p now. PEnqueue t p now \<in> E \<and> toLowerCase t = tx \<and> pl = Some p"
        using stored_some [OF assms(2) a] by blast
      then show ?thesis using Some by (simp add: p) blast
    qed
  qed
next
  case False
  then have s: "set (pw_acked w) \<subseteq> set (pw_acked (push_step e w))"
    "tx \<notin> set (pw_acked (push_step e w)) \<Longrightarrow> payload_of (pw_outbox (push_step e w)) tx = payload_of (pw_outbox w) tx" for tx
    using payload_step [OF assms(1), of e] by blast+
  have i: "PEnqueue t p now \<in> insert e E \<longleftrightarrow> PEnqueue t p now \<in> E" for t p now using False by auto
  show ?thesis unfolding stored_ok_def
  proof (intro allI impI)
    fix tx
    assume a: "tx \<notin> set (pw_acked (push_step e w))"
    then have "tx \<notin> set (pw_acked w)" using s(1) by blast
    then show "case payload_of (pw_outbox (push_step e w)) tx of
        None \<Rightarrow> \<forall>t p now. PEnqueue t p now \<in> insert e E \<longrightarrow> toLowerCase t \<noteq> tx
      | Some pl \<Rightarrow> \<exists>t p now. PEnqueue t p now \<in> insert e E \<and> toLowerCase t = tx \<and> pl = Some p"
      using assms(2) unfolding stored_ok_def s(2) [OF a] i by blast
  qed
qed

lemma stored_run: "push_ok w \<Longrightarrow> stored_ok E w \<Longrightarrow> stored_ok (E \<union> set es) (push_run es w)"
proof (induction es arbitrary: w E)
  case (Cons e es)
  then show ?case using Cons.IH [OF push_ok_step stored_step, of w E e] by simp
qed simp

section \<open>Properties\<close>

text \<open>
  C34.  No settlement push is lost: after any interleaving of enqueues, immediate pushes, ticks, answers and a stop, a settlement that
  was enqueued has been acknowledged by the shared orderbook or still has its unpushed row, with a payload
  that was enqueued for it.
\<close>

theorem settlement_push_never_lost:
  assumes "w = push_run es (new_push_worker batchSize backoffMs pruneAfterMs pruneEvery [])" "PEnqueue tx p now \<in> set es"
  shows "toLowerCase tx \<in> set (pw_acked w) \<or>
    (\<exists>r tx' p' now'. jget (pw_outbox w) (toLowerCase tx) = Some r \<and> po_pushedAt r = None \<and>
       PEnqueue tx' p' now' \<in> set es \<and> toLowerCase tx' = toLowerCase tx \<and> po_payload r = Some p')"
proof (cases "toLowerCase tx \<in> set (pw_acked w)")
  case False
  have "stored_ok {} (new_push_worker batchSize backoffMs pruneAfterMs pruneEvery [])"
    by (simp add: stored_ok_def new_push_worker_def payload_of_def)
  then have "stored_ok (set es) w" using stored_run [OF push_ok_new] assms(1) by fastforce
  note st = this
  obtain pl where pl: "payload_of (pw_outbox w) (toLowerCase tx) = Some pl"
    using stored_none [OF st False _ assms(2)] by (cases "payload_of (pw_outbox w) (toLowerCase tx)") auto
  then obtain t p' now' where s: "PEnqueue t p' now' \<in> set es" "toLowerCase t = toLowerCase tx" "pl = Some p'"
    using stored_some [OF st False] by blast
  then obtain r where r: "jget (pw_outbox w) (toLowerCase tx) = Some r" "po_payload r = Some p'"
    using pl by (auto simp: payload_of_def)
  have "push_ok w" using push_ok_run [OF push_ok_new] assms(1) by blast
  then have "rows_ok (pw_outbox w) (set (pw_acked w))" by (simp add: push_ok_def)
  from rows_okD [OF this r(1)] have "po_pushedAt r = None" using False by (cases "po_pushedAt r") simp_all
  then show ?thesis using r s by blast
qed simp

text \<open>
  The worker gives up after fifty pushes: as long as a settlement is not acknowledged, it has been
  sent by the worker at most fifty times, whatever happened in between.
\<close>

lemma worker_pushes_bounded:
  assumes "w = push_run es (new_push_worker batchSize backoffMs pruneAfterMs pruneEvery [])" "tx \<notin> set (pw_acked w)"
  shows "count_list (pw_sent w) tx \<le> 50"
  using push_ok_run [OF push_ok_new, of es batchSize backoffMs pruneAfterMs pruneEvery] assms
  by (simp add: push_ok_def sent_ok_def MAX_PUSH_ATTEMPTS_def)

section \<open>Witnesses\<close>

definition sample_pushes :: "push_event list" where
  "sample_pushes = [PEnqueue ''0xA'' ''p'' 1, PLive ''0xA'' (Inl ''down'') 2, PTick 40000, PAnswer (Inr False) 40001]"

theorem settlement_push_never_lost_witness:
  "\<exists>r. jget (pw_outbox (push_run sample_pushes (new_push_worker None None None None []))) ''0xa'' = Some r \<and>
     po_pushedAt r = None \<and> po_payload r = Some ''p''"
proof -
  have a: "pw_acked (push_run sample_pushes (new_push_worker None None None None [])) = []" by code_simp
  have l: "toLowerCase ''0xA'' = ''0xa''" by code_simp
  show ?thesis
    using settlement_push_never_lost [OF refl, of "''0xA''" "''p''" 1 sample_pushes None None None None]
    by (auto simp: a l) (auto simp: sample_pushes_def)
qed

lemma worker_pushes_bounded_witness:
  "count_list (pw_sent (push_run sample_pushes (new_push_worker None None None None []))) ''0xa'' = 1 \<and> (1::nat) \<le> 50"
proof -
  have a: "pw_acked (push_run sample_pushes (new_push_worker None None None None [])) = []" by code_simp
  have c: "count_list (pw_sent (push_run sample_pushes (new_push_worker None None None None []))) ''0xa'' = 1" by code_simp
  show ?thesis using worker_pushes_bounded [OF refl, of "''0xa''" sample_pushes None None None None] a c by simp
qed

end
