(* ===== verification/TxRetry.thy ===== *)
theory TxRetry
  imports WorkerFacts
begin

text \<open>
  The transaction sender (\<open>zk-relayer/src/core/tx-retry.ts\<close>): sending with retries, waiting with a
  timeout, polling for the receipt, and the revert check.  What the node answers is an input; the result
  is the list of effects in order and the outcome.
\<close>

section \<open>Sending\<close>

text \<open>The local copies of the pattern lists.\<close>

definition permanentPatterns :: "string list" where
  "permanentPatterns = [''revert'', ''execution reverted'', ''insufficient funds'', ''nonce too low'',
     ''replacement fee too low'', ''invalid argument'', ''invalid address'', ''unpredictable_gas_limit'']"

definition transientPatterns :: "string list" where
  "transientPatterns = [''timeout'', ''econnrefused'', ''econnreset'', ''enotfound'', ''socket hang up'',
     ''network error'', ''bad response'', ''missing response'', ''server error'', ''502'', ''503'', ''429'']"

fun isTransientSendError :: "thrown \<Rightarrow> bool" where
  "isTransientSendError (NonError s) = False"
| "isTransientSendError (ErrorObj m) = (let msg = toLowerCase m in
     if list_ex (str_includes msg) permanentPatterns then False
     else list_ex (str_includes msg) transientPatterns)"

datatype tx_effect = SendTry nat | Pause int | HashKnown string | WaitReceipt | PollTry nat

text \<open>
  The send loop from the given attempt: the effects, and an error, a hash, or nothing when no attempt
  was allowed.  \<open>sends k\<close> is what the k-th call of \<open>sendFn\<close> comes to.
\<close>

function send_loop ::
  "nat \<Rightarrow> int \<Rightarrow> (nat \<Rightarrow> thrown + string) \<Rightarrow> nat \<Rightarrow> tx_effect list \<times> (thrown + string option)" where
  "send_loop sendRetries sendRetryBaseMs sends attempt =
     (if sendRetries < attempt then ([], Inr None)
      else case sends attempt of
        Inr h \<Rightarrow> ([SendTry attempt], Inr (Some h))
      | Inl err \<Rightarrow>
          if attempt < sendRetries \<and> isTransientSendError err
          then (case send_loop sendRetries sendRetryBaseMs sends (Suc attempt) of (es, r) \<Rightarrow>
            (SendTry attempt # Pause (sendRetryBaseMs * 2 ^ (attempt - 1)) # es, r))
          else ([SendTry attempt], Inl err))"
  by pat_completeness auto
termination by (relation "measure (\<lambda>(n, b, s, k). Suc n - k)") auto

declare send_loop.simps [simp del]

section \<open>Waiting\<close>

record tx_receipt =
  rc_hash :: string
  rc_status :: "int option"

text \<open>\<open>waitWithTimeout\<close>: the race of the receipt and the timer.\<close>

datatype wait_outcome = WaitGot "tx_receipt option" | WaitTimedOut | WaitThrew thrown

definition waitWithTimeout :: "wait_outcome \<Rightarrow> thrown + tx_receipt option" where
  "waitWithTimeout o' = (case o' of WaitGot r \<Rightarrow> Inr r | WaitTimedOut \<Rightarrow> Inr None | WaitThrew e \<Rightarrow> Inl e)"

text \<open>\<open>polls i\<close> is what the i-th lookup comes to; an error counts as no receipt.\<close>

function poll_loop ::
  "nat \<Rightarrow> int \<Rightarrow> (nat \<Rightarrow> thrown + tx_receipt option) \<Rightarrow> nat \<Rightarrow> tx_effect list \<times> tx_receipt option" where
  "poll_loop retries intervalMs polls i =
     (if retries \<le> i then ([], None)
      else let pause = (if 0 < i then [Pause intervalMs] else []) in
        case polls i of
          Inr (Some r) \<Rightarrow> (pause @ [PollTry i], Some r)
        | _ \<Rightarrow> (case poll_loop retries intervalMs polls (Suc i) of (es, r) \<Rightarrow> (pause @ PollTry i # es, r)))"
  by pat_completeness auto
termination by (relation "measure (\<lambda>(n, m, p, i). n - i)") auto

declare poll_loop.simps [simp del]

definition pollReceipt :: "nat \<Rightarrow> int \<Rightarrow> (nat \<Rightarrow> thrown + tx_receipt option) \<Rightarrow> tx_effect list \<times> tx_receipt option" where
  "pollReceipt retries intervalMs polls = poll_loop retries intervalMs polls 0"

section \<open>The whole call\<close>

record tx_options =
  to_sendRetries :: nat
  to_sendRetryBaseMs :: int
  to_receiptPollRetries :: nat
  to_receiptPollIntervalMs :: int
  to_label :: string
  to_onTxHash :: "(string \<Rightarrow> thrown option) option"

definition tx_defaults :: tx_options where
  "tx_defaults = \<lparr>to_sendRetries = 3, to_sendRetryBaseMs = 1000, to_receiptPollRetries = 3,
     to_receiptPollIntervalMs = 10000, to_label = ''tx'', to_onTxHash = None\<rparr>"

definition no_tx_error :: "tx_options \<Rightarrow> thrown" where
  "no_tx_error opts = ErrorObj (''[tx-retry] '' @ to_label opts @ '': send failed after '' @ dec (int (to_sendRetries opts)) @ '' attempts'')"

text \<open>The dash before ``check manually'' is no ASCII character and is written as a hyphen.\<close>

definition no_receipt_error :: "tx_options \<Rightarrow> string \<Rightarrow> thrown" where
  "no_receipt_error opts txHash = ErrorObj (''[tx-retry] '' @ to_label opts @ '': no receipt after timeout + '' @
     dec (int (to_receiptPollRetries opts)) @ '' polls (txHash='' @ txHash @
     ''). TX may still be pending - check manually.'')"

definition reverted_error :: "tx_options \<Rightarrow> string \<Rightarrow> thrown" where
  "reverted_error opts txHash = ErrorObj (''[tx-retry] '' @ to_label opts @ '' reverted on-chain (txHash='' @ txHash @ ''). Not retrying.'')"

text \<open>Phases 2 and 3, for a transaction that has a hash.\<close>

definition await_receipt ::
  "tx_options \<Rightarrow> string \<Rightarrow> wait_outcome \<Rightarrow> (nat \<Rightarrow> thrown + tx_receipt option) \<Rightarrow> tx_effect list \<times> (thrown + string \<times> tx_receipt)" where
  "await_receipt opts txHash w polls =
     (case waitWithTimeout w of
        Inl err \<Rightarrow> ([WaitReceipt], Inl err)
      | Inr first \<Rightarrow>
          let (ps, receipt) = (case first of Some r \<Rightarrow> ([], Some r)
            | None \<Rightarrow> pollReceipt (to_receiptPollRetries opts) (to_receiptPollIntervalMs opts) polls) in
          (WaitReceipt # ps, case receipt of
             None \<Rightarrow> Inl (no_receipt_error opts txHash)
           | Some r \<Rightarrow> if rc_status r = Some 0 then Inl (reverted_error opts txHash) else Inr (rc_hash r, r)))"

definition sendAndWait ::
  "tx_options \<Rightarrow> (nat \<Rightarrow> thrown + string) \<Rightarrow> (string \<Rightarrow> wait_outcome) \<Rightarrow> (nat \<Rightarrow> thrown + tx_receipt option) \<Rightarrow>
   tx_effect list \<times> (thrown + string \<times> tx_receipt)" where
  "sendAndWait opts sends wait polls =
     (case send_loop (to_sendRetries opts) (to_sendRetryBaseMs opts) sends 1 of
        (es, Inl err) \<Rightarrow> (es, Inl err)
      | (es, Inr None) \<Rightarrow> (es, Inl (no_tx_error opts))
      | (es, Inr (Some txHash)) \<Rightarrow>
          (case (case to_onTxHash opts of None \<Rightarrow> None | Some f \<Rightarrow> f txHash) of
             Some err \<Rightarrow> (es @ [HashKnown txHash], Inl err)
           | None \<Rightarrow> (case await_receipt opts txHash (wait txHash) polls of
               (fs, r) \<Rightarrow> (es @ HashKnown txHash # fs, r))))"

section \<open>Lemmas\<close>

definition send_numbers :: "tx_effect list \<Rightarrow> nat list" where
  "send_numbers es = List.map_filter (\<lambda>e. case e of SendTry k \<Rightarrow> Some k | _ \<Rightarrow> None) es"

lemma send_numbers_simps [simp]:
  "send_numbers [] = []" "send_numbers (SendTry k # es) = k # send_numbers es"
  "send_numbers (Pause m # es) = send_numbers es" "send_numbers (HashKnown h # es) = send_numbers es"
  "send_numbers (WaitReceipt # es) = send_numbers es" "send_numbers (PollTry i # es) = send_numbers es"
  "send_numbers (es @ fs) = send_numbers es @ send_numbers fs"
  by (simp_all add: send_numbers_def List.map_filter_def)

fun receipt_effect :: "tx_effect \<Rightarrow> bool" where
  "receipt_effect WaitReceipt = True"
| "receipt_effect (PollTry i) = True"
| "receipt_effect (Pause m) = True"
| "receipt_effect e = False"

text \<open>What a run of the send loop tried: consecutive attempts, all but the last failing transiently.\<close>

lemma send_loop_tries:
  "send_loop n b sends k = (es, r) \<Longrightarrow> k \<le> n \<Longrightarrow>
   \<exists>m. k \<le> m \<and> m \<le> n \<and> send_numbers es = [k..<Suc m] \<and>
     (\<forall>j. k \<le> j \<and> j < m \<longrightarrow> (\<exists>e. sends j = Inl e \<and> isTransientSendError e)) \<and>
     (case r of Inl e \<Rightarrow> sends m = Inl e \<and> (m = n \<or> \<not> isTransientSendError e) | Inr x \<Rightarrow> \<exists>h. x = Some h \<and> sends m = Inr h)"
proof (induction n b sends k arbitrary: es r rule: send_loop.induct)
  case (1 n b sends k)
  show ?case
  proof (cases "sends k")
    case (Inr h)
    then show ?thesis using "1.prems" by (intro exI [of _ k]) (auto simp: send_loop.simps [of n b sends k])
  next
    case (Inl e)
    show ?thesis
    proof (cases "k < n \<and> isTransientSendError e")
      case True
      obtain es' r' where s: "send_loop n b sends (Suc k) = (es', r')" by fastforce
      then have e: "es = SendTry k # Pause (b * 2 ^ (k - 1)) # es'" "r = r'"
        using "1.prems" True Inl by (simp_all add: send_loop.simps [of n b sends k])
      obtain m where m: "Suc k \<le> m" "m \<le> n" "send_numbers es' = [Suc k..<Suc m]"
          "\<forall>j. Suc k \<le> j \<and> j < m \<longrightarrow> (\<exists>e. sends j = Inl e \<and> isTransientSendError e)"
          "case r' of Inl e \<Rightarrow> sends m = Inl e \<and> (m = n \<or> \<not> isTransientSendError e) | Inr x \<Rightarrow> \<exists>h. x = Some h \<and> sends m = Inr h"
        using "1.IH" [OF _ Inl True s] True by auto
      have "send_numbers es = [k..<Suc m]" using e m(1,3) by (simp add: upt_conv_Cons)
      moreover have "\<exists>e. sends j = Inl e \<and> isTransientSendError e" if "k \<le> j" "j < m" for j
        using that m(4) Inl True by (cases "j = k") auto
      ultimately show ?thesis using m e(2) by (intro exI [of _ m]) auto
    next
      case False
      then show ?thesis using "1.prems" Inl by (intro exI [of _ k]) (auto simp: send_loop.simps [of n b sends k])
    qed
  qed
qed

lemma poll_loop_spec:
  "poll_loop n m polls i = (es, r) \<Longrightarrow> list_all receipt_effect es \<and>
   (case r of None \<Rightarrow> \<forall>j. i \<le> j \<and> j < n \<longrightarrow> (\<forall>x. polls j \<noteq> Inr (Some x))
    | Some x \<Rightarrow> \<exists>j. i \<le> j \<and> j < n \<and> polls j = Inr (Some x))"
proof (induction n m polls i arbitrary: es r rule: poll_loop.induct)
  case (1 n m polls i)
  show ?case
  proof (cases "n \<le> i")
    case True
    then show ?thesis using "1.prems" by (auto simp: poll_loop.simps [of n m polls i])
  next
    case False
    show ?thesis
    proof (cases "\<exists>x. polls i = Inr (Some x)")
      case True
      then obtain x where x: "polls i = Inr (Some x)" by blast
      then have "r = Some x" "list_all receipt_effect es"
        using "1.prems" False by (auto simp: poll_loop.simps [of n m polls i])
      then show ?thesis using x False by (auto intro!: exI [of _ i])
    next
      case no: False
      obtain es' r' where s: "poll_loop n m polls (Suc i) = (es', r')" by fastforce
      then have e: "es = (if 0 < i then [Pause m] else []) @ PollTry i # es'" "r = r'"
        using "1.prems" False no
        by (cases "polls i"; auto simp: poll_loop.simps [of n m polls i] Let_def split: option.splits if_splits)+
      have ih: "list_all receipt_effect es' \<and> (case r' of None \<Rightarrow> \<forall>j. Suc i \<le> j \<and> j < n \<longrightarrow> (\<forall>x. polls j \<noteq> Inr (Some x))
          | Some x \<Rightarrow> \<exists>j. Suc i \<le> j \<and> j < n \<and> polls j = Inr (Some x))"
      proof (cases "polls i")
        case (Inl e)
        then show ?thesis using "1.IH"(1) [OF False refl Inl s] by simp
      next
        case (Inr x)
        then have "polls i = Inr None" using no by (cases x) auto
        then show ?thesis using "1.IH"(2) [OF False refl _ _ s] by simp
      qed
      have "\<forall>x. polls j \<noteq> Inr (Some x)" if "i \<le> j" "j < n" "r' = None" for j
        using ih that no by (cases "j = i") auto
      note none = this
      have l: "list_all receipt_effect es" using ih e(1) by simp
      show ?thesis
      proof (cases r')
        case None
        then show ?thesis using l none e(2) by simp
      next
        case (Some x)
        then obtain j where "Suc i \<le> j" "j < n" "polls j = Inr (Some x)" using ih by auto
        then show ?thesis using l e(2) Some by (auto intro!: exI [of _ j])
      qed
    qed
  qed
qed


lemma receipt_effects_no_send: "list_all receipt_effect es \<Longrightarrow> send_numbers es = []"
  proof (induction es)
  case (Cons e es)
  then show ?case by (cases e) simp_all
qed simp

lemma send_loop_effects: "send_loop n b sends k = (es, r) \<Longrightarrow> e \<in> set es \<Longrightarrow> (\<exists>j. e = SendTry j) \<or> (\<exists>m. e = Pause m)"
proof (induction n b sends k arbitrary: es r rule: send_loop.induct)
  case (1 n b sends k)
  show ?case
  proof (cases "\<exists>e. sends k = Inl e \<and> k < n \<and> isTransientSendError e")
    case True
    then obtain x where x: "sends k = Inl x" "k < n" "isTransientSendError x" by blast
    obtain es' r' where s: "send_loop n b sends (Suc k) = (es', r')" by fastforce
    then have "es = SendTry k # Pause (b * 2 ^ (k - 1)) # es'"
      using "1.prems"(1) x by (simp add: send_loop.simps [of n b sends k])
    then show ?thesis using "1.prems"(2) "1.IH" [OF _ x(1) _ s] x by auto
  next
    case False
    then have "set es \<subseteq> {SendTry k}"
      using "1.prems"(1) by (auto simp: send_loop.simps [of n b sends k] split: if_splits sum.splits)
    then show ?thesis using "1.prems"(2) by auto
  qed
qed

lemma await_effects: "await_receipt opts h w polls = (fs, r) \<Longrightarrow> \<exists>ps. fs = WaitReceipt # ps \<and> list_all receipt_effect ps"
proof -
  assume a: "await_receipt opts h w polls = (fs, r)"
  obtain ps x where p: "pollReceipt (to_receiptPollRetries opts) (to_receiptPollIntervalMs opts) polls = (ps, x)" by fastforce
  then have "list_all receipt_effect ps" using poll_loop_spec by (auto simp: pollReceipt_def)
  then show ?thesis using a p
    by (auto simp: await_receipt_def waitWithTimeout_def split: wait_outcome.splits option.splits)
qed

section \<open>Properties\<close>

text \<open>
  C35.  A transaction is sent at most once.  The sends of a call are consecutive attempts within the limit,
  every one before the last failed with an error that is transient, so no attempt follows one that
  returned a hash; and nothing is sent after the hash is known, which is reported before the first wait
  for the receipt.
\<close>

theorem transaction_sent_once:
  assumes "sendAndWait opts sends wait polls = (es, r)"
  shows "\<exists>m \<le> to_sendRetries opts. send_numbers es = [1..<Suc m] \<and>
    (\<forall>j. 1 \<le> j \<and> j < m \<longrightarrow> (\<exists>e. sends j = Inl e \<and> isTransientSendError e)) \<and>
    (WaitReceipt \<in> set es \<longrightarrow> (\<exists>h ss ps. sends m = Inr h \<and> es = ss @ HashKnown h # WaitReceipt # ps \<and>
       (\<forall>e \<in> set ss. (\<exists>j. e = SendTry j) \<or> (\<exists>p. e = Pause p)) \<and> list_all receipt_effect ps))"
proof (cases "to_sendRetries opts < 1")
  case True
  then have "es = []" using assms by (simp add: sendAndWait_def send_loop.simps)
  then show ?thesis using True by (intro exI [of _ 0]) simp
next
  case False
  obtain ss t where s: "send_loop (to_sendRetries opts) (to_sendRetryBaseMs opts) sends 1 = (ss, t)" by fastforce
  obtain m where m: "1 \<le> m" "m \<le> to_sendRetries opts" "send_numbers ss = [1..<Suc m]"
    "\<forall>j. 1 \<le> j \<and> j < m \<longrightarrow> (\<exists>e. sends j = Inl e \<and> isTransientSendError e)"
    "case t of Inl e \<Rightarrow> sends m = Inl e \<and> (m = to_sendRetries opts \<or> \<not> isTransientSendError e)
      | Inr x \<Rightarrow> \<exists>h. x = Some h \<and> sends m = Inr h"
    using send_loop_tries [OF s] False by auto
  have ss: "\<forall>e \<in> set ss. (\<exists>j. e = SendTry j) \<or> (\<exists>p. e = Pause p)" using send_loop_effects [OF s] by blast
  then have w: "WaitReceipt \<notin> set ss" by blast
  show ?thesis
  proof (cases "\<exists>h fs. t = Inr (Some h) \<and> es = ss @ HashKnown h # fs \<and> await_receipt opts h (wait h) polls = (fs, r)")
    case True
    then obtain h fs where h: "t = Inr (Some h)" "es = ss @ HashKnown h # fs" "await_receipt opts h (wait h) polls = (fs, r)"
      by blast
    then obtain ps where ps: "fs = WaitReceipt # ps" "list_all receipt_effect ps" using await_effects by blast
    then have "send_numbers es = [1..<Suc m]" using h(2) m(3) receipt_effects_no_send by simp
    moreover have "sends m = Inr h" using m(5) h(1) by simp
    ultimately show ?thesis using m(2,4) ss ps h(2) by blast
  next
    case False
    then have "send_numbers es = send_numbers ss \<and> WaitReceipt \<notin> set es"
      using assms s w by (auto simp: sendAndWait_def split: sum.splits option.splits prod.splits)
    then show ?thesis using m by auto
  qed
qed

text \<open>
  A call that returns has a mined transaction: the receipt came from the wait or from one of the
  allowed polls for the hash that a send returned, it does not report a revert, and its own hash is the
  one returned.
\<close>

lemma returned_receipt_is_mined:
  assumes "sendAndWait opts sends wait polls = (es, Inr (txHash, receipt))"
  shows "txHash = rc_hash receipt \<and> rc_status receipt \<noteq> Some 0 \<and>
    (\<exists>k h. k \<le> to_sendRetries opts \<and> sends k = Inr h \<and>
       (wait h = WaitGot (Some receipt) \<or> (\<exists>i < to_receiptPollRetries opts. polls i = Inr (Some receipt))))"
proof -
  obtain ss t where s: "send_loop (to_sendRetries opts) (to_sendRetryBaseMs opts) sends 1 = (ss, t)" by fastforce
  obtain h fs where h: "t = Inr (Some h)" "await_receipt opts h (wait h) polls = (fs, Inr (txHash, receipt))"
    using assms s by (auto simp: sendAndWait_def split: sum.splits option.splits prod.splits)
  have "\<not> to_sendRetries opts < 1"
  proof
    assume "to_sendRetries opts < 1"
    then show False using s h(1) by (simp add: send_loop.simps)
  qed
  then obtain m where m: "m \<le> to_sendRetries opts" "sends m = Inr h" using send_loop_tries [OF s] h(1) by auto
  obtain ps x where p: "pollReceipt (to_receiptPollRetries opts) (to_receiptPollIntervalMs opts) polls = (ps, x)" by fastforce
  then have x: "x = Some y \<Longrightarrow> \<exists>i < to_receiptPollRetries opts. polls i = Inr (Some y)" for y
    using poll_loop_spec [of _ _ polls 0 ps x] by (auto simp: pollReceipt_def)
  have "txHash = rc_hash receipt \<and> rc_status receipt \<noteq> Some 0 \<and>
      (wait h = WaitGot (Some receipt) \<or> x = Some receipt)"
    using h(2) p by (auto simp: await_receipt_def waitWithTimeout_def split: wait_outcome.splits option.splits if_splits)
  then show ?thesis using m x by blast
qed

text \<open>The two classifications of an error agree.\<close>

lemma transient_agrees: "isTransientSendError e \<longleftrightarrow> classifySettleError e = TransientError"
  by (cases e) (auto simp: Let_def list_ex_iff permanentPatterns_def transientPatterns_def
      PERMANENT_PATTERNS_def TRANSIENT_PATTERNS_def)

lemma first_retry:
  "classifySettleError err = TransientError \<Longrightarrow> handleSettleError cfg n (row\<lparr>r_attempt := 0\<rparr>) err None now w =
     (None, w_finish (JRetry 1 (now + 2000) (err_text err)) n now w)"
  by (simp add: handleSettleError_def MAX_SETTLEMENT_ATTEMPTS_def SETTLEMENT_RETRY_SCHEDULE_MS_def Let_def)

text \<open>A node that accepts the transaction and then stays silent.\<close>

definition silent_call :: "tx_effect list \<times> (thrown + string \<times> tx_receipt)" where
  "silent_call = sendAndWait (tx_defaults\<lparr>to_label := ''settleAuth''\<rparr>) (\<lambda>_. Inr ''0xab'') (\<lambda>_. WaitTimedOut) (\<lambda>_. Inr None)"


section \<open>Witnesses\<close>

theorem transaction_sent_once_witness:
  "\<exists>m \<le> 3. send_numbers (fst silent_call) = [1..<Suc m] \<and> (\<forall>j. 1 \<le> j \<and> j < m \<longrightarrow> False)"
proof -
  obtain es r where c: "sendAndWait (tx_defaults\<lparr>to_label := ''settleAuth''\<rparr>) (\<lambda>_. Inr ''0xab'') (\<lambda>_. WaitTimedOut) (\<lambda>_. Inr None) = (es, r)"
    by fastforce
  then have "fst silent_call = es" by (simp add: silent_call_def)
  then show ?thesis using transaction_sent_once [OF c] by (auto simp: tx_defaults_def)
qed

lemma returned_receipt_is_mined_witness:
  "\<exists>es. sendAndWait tx_defaults (\<lambda>k. if k = 1 then Inl (ErrorObj ''ECONNRESET'') else Inr ''0xab'')
      (\<lambda>_. WaitGot (Some \<lparr>rc_hash = ''0xab'', rc_status = Some 1\<rparr>)) (\<lambda>_. Inr None) =
    (es, Inr (''0xab'', \<lparr>rc_hash = ''0xab'', rc_status = Some 1\<rparr>)) \<and> (Some (1::int)) \<noteq> Some 0"
proof -
  have t: "isTransientSendError (ErrorObj ''ECONNRESET'')" by code_simp
  let ?call = "sendAndWait tx_defaults (\<lambda>k. if k = 1 then Inl (ErrorObj ''ECONNRESET'') else Inr ''0xab'')
      (\<lambda>_. WaitGot (Some \<lparr>rc_hash = ''0xab'', rc_status = Some 1\<rparr>)) (\<lambda>_. Inr None)"
  have "?call = ([SendTry 1, Pause 1000, SendTry 2, HashKnown ''0xab'', WaitReceipt],
      Inr (''0xab'', \<lparr>rc_hash = ''0xab'', rc_status = Some 1\<rparr>))"
    using t by (simp add: sendAndWait_def send_loop.simps tx_defaults_def await_receipt_def waitWithTimeout_def)
  then show ?thesis using returned_receipt_is_mined [of tx_defaults] by fastforce
qed

end
