(* ===== verification/Settlements.thy ===== *)
theory Settlements
  imports SharedRoutes "HOL-Library.List_Lexorder" "HOL-Library.Char_ord"
begin

text \<open>
  The settlement records of the shared orderbook: the parser of a pushed record
  (\<open>shared-orderbook/src/types/settlement.ts\<close>), the table with its anti-squat insert, attestations,
  verification, quarantine and pruning (\<open>core/db.ts\<close>), the push route (\<open>routes/settlements.ts\<close>) and the
  verifier (\<open>core/verifier.ts\<close>, \<open>core/verify-runtime.ts\<close>).  A verify pass is cut at its single await;
  the events the node returns are an input.
\<close>

section \<open>Parsing a pushed record\<close>

record settlement_insert =
  si_txHash :: string
  si_chainId :: int
  si_blockNumber :: int
  si_blockTime :: "int option"
  si_makerRelayer :: string
  si_takerRelayer :: "string option"
  si_makerOrderId :: "string option"
  si_takerOrderId :: "string option"
  si_makerNullifier :: string
  si_takerNullifier :: string
  si_feeMaker :: string
  si_feeTaker :: string
  si_userMaxFeeMaker :: int
  si_userMaxFeeTaker :: int
  si_sellToken :: "string option"
  si_buyToken :: "string option"
  si_sellAmount :: "string option"
  si_buyAmount :: "string option"
  si_type :: "string option"

record raw_settlement =
  rs_txHash :: raw_value
  rs_chainId :: raw_value
  rs_blockNumber :: raw_value
  rs_blockTime :: raw_value
  rs_makerRelayer :: raw_value
  rs_takerRelayer :: raw_value
  rs_makerOrderId :: raw_value
  rs_takerOrderId :: raw_value
  rs_makerNullifier :: raw_value
  rs_takerNullifier :: raw_value
  rs_feeMaker :: raw_value
  rs_feeTaker :: raw_value
  rs_userMaxFeeMaker :: raw_value
  rs_userMaxFeeTaker :: raw_value
  rs_sellToken :: raw_value
  rs_buyToken :: raw_value
  rs_sellAmount :: raw_value
  rs_buyAmount :: raw_value
  rs_type :: raw_value

definition SETTLEMENT_TYPES :: "string list" where
  "SETTLEMENT_TYPES = [''settleAuth'', ''scatterDirectAuth'']"

fun string_field :: "raw_value \<Rightarrow> string option" where
  "string_field (VString s) = (if s = [] then None else Some s)"
| "string_field _ = None"

definition is_hex_field :: "nat \<Rightarrow> raw_value \<Rightarrow> bool" where
  "is_hex_field n v = (case string_field v of None \<Rightarrow> False | Some s \<Rightarrow> hex_string n s)"

definition HEX_BYTES32 :: "raw_value \<Rightarrow> bool" where "HEX_BYTES32 = is_hex_field 64"
definition HEX_ADDR :: "raw_value \<Rightarrow> bool" where "HEX_ADDR = is_hex_field 40"

definition isNonNegativeBigInt :: "raw_value \<Rightarrow> bool" where
  "isNonNegativeBigInt v = (case string_field v of None \<Rightarrow> False | Some s \<Rightarrow> list_all is_digit s)"

definition safe_natural :: "raw_value \<Rightarrow> bool" where
  "safe_natural v = (case raw_integer v of Some i \<Rightarrow> 0 \<le> i \<and> i \<le> MAX_SAFE_INTEGER | None \<Rightarrow> False)"

definition is_bps :: "raw_value \<Rightarrow> bool" where
  "is_bps v = (case raw_integer v of Some i \<Rightarrow> 0 \<le> i \<and> i \<le> 10000 | None \<Rightarrow> False)"

definition raw_int :: "raw_value \<Rightarrow> int" where
  "raw_int v = (case raw_integer v of Some i \<Rightarrow> i | None \<Rightarrow> 0)"

definition raw_text :: "raw_value \<Rightarrow> string" where
  "raw_text v = (case v of VString s \<Rightarrow> s | _ \<Rightarrow> [])"

text \<open>The checks in the order of the code: the first that fails gives the error.\<close>

definition settlement_error :: "raw_settlement \<Rightarrow> string option" where
  "settlement_error r =
     (if \<not> HEX_BYTES32 (rs_txHash r) then Some ''txHash: must be a 0x-prefixed 32-byte hex string''
      else if \<not> safe_natural (rs_blockNumber r) then Some ''blockNumber: must be a non-negative integer''
      else if \<not> HEX_ADDR (rs_makerRelayer r) then Some ''makerRelayer: must be a 0x-prefixed 20-byte address''
      else if rs_takerRelayer r \<noteq> VUndefined \<and> \<not> HEX_ADDR (rs_takerRelayer r)
      then Some ''takerRelayer: must be a 0x-prefixed address when provided''
      else if \<not> HEX_BYTES32 (rs_makerNullifier r) then Some ''makerNullifier: must be a 0x-prefixed 32-byte hex string''
      else if \<not> HEX_BYTES32 (rs_takerNullifier r) then Some ''takerNullifier: must be a 0x-prefixed 32-byte hex string''
      else if \<not> isNonNegativeBigInt (rs_feeMaker r) then Some ''feeMaker: must be a non-negative decimal string''
      else if \<not> isNonNegativeBigInt (rs_feeTaker r) then Some ''feeTaker: must be a non-negative decimal string''
      else if \<not> is_bps (rs_userMaxFeeMaker r) then Some ''userMaxFeeMaker: must be an integer in [0, 10000] (basis points)''
      else if \<not> is_bps (rs_userMaxFeeTaker r) then Some ''userMaxFeeTaker: must be an integer in [0, 10000] (basis points)''
      else if rs_blockTime r \<noteq> VUndefined \<and> \<not> safe_natural (rs_blockTime r)
      then Some ''blockTime: must be a non-negative integer (unix seconds)''
      else if rs_sellToken r \<noteq> VUndefined \<and> \<not> HEX_ADDR (rs_sellToken r)
      then Some ''sellToken: must be a 0x-prefixed 20-byte address when provided''
      else if rs_buyToken r \<noteq> VUndefined \<and> \<not> HEX_ADDR (rs_buyToken r)
      then Some ''buyToken: must be a 0x-prefixed 20-byte address when provided''
      else if rs_sellAmount r \<noteq> VUndefined \<and> \<not> isNonNegativeBigInt (rs_sellAmount r)
      then Some ''sellAmount: must be a non-negative decimal string when provided''
      else if rs_buyAmount r \<noteq> VUndefined \<and> \<not> isNonNegativeBigInt (rs_buyAmount r)
      then Some ''buyAmount: must be a non-negative decimal string when provided''
      else if rs_type r \<noteq> VUndefined \<and> (case rs_type r of VString t \<Rightarrow> t \<notin> set SETTLEMENT_TYPES | _ \<Rightarrow> True)
      then Some ''type: must be one of settleAuth|scatterDirectAuth when provided''
      else case chainIdOrDefault (rs_chainId r) of
        Inl e \<Rightarrow> Some ''chainId: must be a positive integer when provided''
      | Inr c \<Rightarrow> None)"

definition parseSettlementInsert :: "raw_settlement option \<Rightarrow> string + settlement_insert" where
  "parseSettlementInsert input =
     (case input of None \<Rightarrow> Inl ''body must be a JSON object''
      | Some r \<Rightarrow> (case settlement_error r of Some e \<Rightarrow> Inl e
        | None \<Rightarrow> Inr
          \<lparr>si_txHash = toLowerCase (raw_text (rs_txHash r)),
           si_chainId = (case chainIdOrDefault (rs_chainId r) of Inr c \<Rightarrow> c | Inl e \<Rightarrow> 0),
           si_blockNumber = raw_int (rs_blockNumber r),
           si_blockTime = raw_integer (rs_blockTime r),
           si_makerRelayer = toLowerCase (raw_text (rs_makerRelayer r)),
           si_takerRelayer = map_option toLowerCase (string_field (rs_takerRelayer r)),
           si_makerOrderId = string_field (rs_makerOrderId r),
           si_takerOrderId = string_field (rs_takerOrderId r),
           si_makerNullifier = toLowerCase (raw_text (rs_makerNullifier r)),
           si_takerNullifier = toLowerCase (raw_text (rs_takerNullifier r)),
           si_feeMaker = raw_text (rs_feeMaker r),
           si_feeTaker = raw_text (rs_feeTaker r),
           si_userMaxFeeMaker = raw_int (rs_userMaxFeeMaker r),
           si_userMaxFeeTaker = raw_int (rs_userMaxFeeTaker r),
           si_sellToken = map_option toLowerCase (string_field (rs_sellToken r)),
           si_buyToken = map_option toLowerCase (string_field (rs_buyToken r)),
           si_sellAmount = string_field (rs_sellAmount r),
           si_buyAmount = string_field (rs_buyAmount r),
           si_type = string_field (rs_type r)\<rparr>))"

section \<open>The table\<close>

record settlement_row =
  st_chainId :: int
  st_blockNumber :: int
  st_blockTime :: "int option"
  st_submitter :: string
  st_makerRelayer :: string
  st_takerRelayer :: "string option"
  st_makerOrderId :: "string option"
  st_takerOrderId :: "string option"
  st_makerNullifier :: string
  st_takerNullifier :: string
  st_sellToken :: "string option"
  st_buyToken :: "string option"
  st_sellAmount :: "string option"
  st_buyAmount :: "string option"
  st_feeMaker :: string
  st_feeTaker :: string
  st_userMaxFeeMaker :: int
  st_userMaxFeeTaker :: int
  st_verified :: bool
  st_verifyAttempts :: nat
  st_eventMakerRelayer :: "string option"
  st_eventTakerRelayer :: "string option"
  st_type :: "string option"
  st_createdAt :: seconds

type_synonym settlements = "(string, settlement_row) jmap"

text \<open>The condition of the eviction, for the incoming submitter, maker and taker.\<close>

definition evictable :: "string \<Rightarrow> string \<Rightarrow> string option \<Rightarrow> settlement_row \<Rightarrow> bool" where
  "evictable submitter maker taker r \<longleftrightarrow> \<not> st_verified r \<and>
     (st_submitter r \<noteq> submitter \<or> st_makerRelayer r \<noteq> maker \<or> st_takerRelayer r \<noteq> taker) \<and>
     (case st_eventMakerRelayer r of None \<Rightarrow> True
      | Some m \<Rightarrow> maker = m \<and> (taker = None \<or> taker = st_eventTakerRelayer r))"

definition evict_squatted ::
  "string \<Rightarrow> string \<Rightarrow> string \<Rightarrow> string option \<Rightarrow> settlements \<Rightarrow> (string option \<times> string option) option \<times> settlements" where
  "evict_squatted tx submitter maker taker t = (case jget t tx of
     Some r \<Rightarrow> if evictable submitter maker taker r
       then (Some (st_eventMakerRelayer r, st_eventTakerRelayer r), jdelete tx t) else (None, t)
   | None \<Rightarrow> (None, t))"

text \<open>The update that records an attestation; only unverified rows change.\<close>

definition attest_row :: "string \<Rightarrow> string option \<Rightarrow> string \<Rightarrow> settlements \<Rightarrow> settlements" where
  "attest_row maker taker tx = jmodify tx (\<lambda>r. if st_verified r then r
     else r\<lparr>st_eventMakerRelayer := Some maker, st_eventTakerRelayer := taker\<rparr>)"

text \<open>The fields a maker order still in the table fills in.\<close>

definition snapshot_order :: "ob_table \<Rightarrow> settlement_insert \<Rightarrow> order_summary option" where
  "snapshot_order tbl p =
     (if truthy (si_makerOrderId p) \<and> (\<not> truthy (si_sellToken p) \<or> \<not> truthy (si_buyToken p) \<or>
         \<not> truthy (si_sellAmount p) \<or> \<not> truthy (si_buyAmount p))
      then map_option ob_order (jget tbl (the (si_makerOrderId p))) else None)"

definition fill :: "string option \<Rightarrow> (order_summary \<Rightarrow> string) \<Rightarrow> order_summary option \<Rightarrow> string option" where
  "fill v f o' = (case v of Some x \<Rightarrow> Some x | None \<Rightarrow> map_option f o')"

definition lower_truthy :: "string option \<Rightarrow> string option" where
  "lower_truthy v = (if truthy v then map_option toLowerCase v else None)"

definition new_settlement :: "ob_table \<Rightarrow> string \<Rightarrow> settlement_insert \<Rightarrow> seconds \<Rightarrow> settlement_row" where
  "new_settlement tbl submitter p now = (let o' = snapshot_order tbl p in
     \<lparr>st_chainId = si_chainId p, st_blockNumber = si_blockNumber p, st_blockTime = si_blockTime p,
      st_submitter = toLowerCase submitter, st_makerRelayer = toLowerCase (si_makerRelayer p),
      st_takerRelayer = lower_truthy (si_takerRelayer p),
      st_makerOrderId = si_makerOrderId p, st_takerOrderId = si_takerOrderId p,
      st_makerNullifier = si_makerNullifier p, st_takerNullifier = si_takerNullifier p,
      st_sellToken = lower_truthy (fill (si_sellToken p) sm_sellToken o'),
      st_buyToken = lower_truthy (fill (si_buyToken p) sm_buyToken o'),
      st_sellAmount = fill (si_sellAmount p) sm_sellAmount o', st_buyAmount = fill (si_buyAmount p) sm_buyAmount o',
      st_feeMaker = si_feeMaker p, st_feeTaker = si_feeTaker p,
      st_userMaxFeeMaker = si_userMaxFeeMaker p, st_userMaxFeeTaker = si_userMaxFeeTaker p,
      st_verified = False, st_verifyAttempts = 0, st_eventMakerRelayer = None, st_eventTakerRelayer = None,
      st_type = si_type p, st_createdAt = now\<rparr>)"

definition insertSettlement ::
  "ob_table \<Rightarrow> string \<Rightarrow> settlement_insert \<Rightarrow> seconds \<Rightarrow> settlements \<Rightarrow> bool \<times> settlements" where
  "insertSettlement tbl submitter p now t =
     (let tx = si_txHash p;
          (evicted, t1) = evict_squatted tx (toLowerCase submitter) (toLowerCase (si_makerRelayer p))
            (lower_truthy (si_takerRelayer p)) t in
      if jhas t1 tx then (False, t1)
      else let t2 = jset tx (new_settlement tbl submitter p now) t1 in
        (True, case evicted of Some (Some m, tk) \<Rightarrow> if m = [] then t2 else attest_row m tk tx t2 | _ \<Rightarrow> t2))"

definition recordEventAttribution :: "(string \<times> string \<times> string) list \<Rightarrow> settlements \<Rightarrow> settlements" where
  "recordEventAttribution rows t =
     fold (\<lambda>(tx, m, tk). attest_row (toLowerCase m) (Some (toLowerCase tk)) (toLowerCase tx)) rows t"

definition pruneSettlements :: "int \<Rightarrow> settlements \<Rightarrow> settlements" where
  "pruneSettlements maxRows t =
     (if maxRows < 1 \<or> int (length t) \<le> maxRows then t
      else let gone = map fst (take (length t - nat maxRows) (sort_key (\<lambda>(_, r). st_createdAt r) t)) in
        filter (\<lambda>(tx, _). tx \<notin> set gone) t)"

definition countUnverifiedSettlements :: "nat \<Rightarrow> settlements \<Rightarrow> nat" where
  "countUnverifiedSettlements maxAttempts = jcount (\<lambda>r. \<not> st_verified r \<and> st_verifyAttempts r < maxAttempts)"

definition countQuarantinedSettlements :: "nat \<Rightarrow> settlements \<Rightarrow> nat" where
  "countQuarantinedSettlements maxAttempts = jcount (\<lambda>r. \<not> st_verified r \<and> maxAttempts \<le> st_verifyAttempts r)"

definition listUnverifiedSettlements ::
  "nat \<Rightarrow> int option \<Rightarrow> int option \<Rightarrow> nat option \<Rightarrow> settlements \<Rightarrow> (string \<times> settlement_row) list" where
  "listUnverifiedSettlements maxAttempts chainId maxBlock limit t =
     take (min (case limit of Some n \<Rightarrow> n | None \<Rightarrow> 500) 5000)
       (sort_key (\<lambda>(_, r). st_blockNumber r) (sort_key fst
         (filter (\<lambda>(_, r). \<not> st_verified r \<and> st_verifyAttempts r < maxAttempts \<and>
            (case chainId of None \<Rightarrow> True | Some c \<Rightarrow> st_chainId r = c) \<and>
            (case maxBlock of None \<Rightarrow> True | Some b \<Rightarrow> st_blockNumber r \<le> b)) t)))"

record verify_decision =
  vd_txHash :: string
  vd_blockTime :: "int option"
  vd_feeMaker :: "string option"
  vd_feeTaker :: "string option"

definition keep_or :: "'a option \<Rightarrow> 'a \<Rightarrow> 'a" where
  "keep_or v d = (case v of Some x \<Rightarrow> x | None \<Rightarrow> d)"

definition verify_row :: "verify_decision \<Rightarrow> settlement_row \<Rightarrow> settlement_row" where
  "verify_row e r = (if st_verified r then r else r\<lparr>st_verified := True,
     st_blockTime := (case vd_blockTime e of Some b \<Rightarrow> Some b | None \<Rightarrow> st_blockTime r),
     st_feeMaker := keep_or (vd_feeMaker e) (st_feeMaker r), st_feeTaker := keep_or (vd_feeTaker e) (st_feeTaker r)\<rparr>)"

fun markSettlementsVerified :: "verify_decision list \<Rightarrow> settlements \<Rightarrow> nat \<times> settlements" where
  "markSettlementsVerified [] t = (0, t)"
| "markSettlementsVerified (e # es) t =
     (let tx = toLowerCase (vd_txHash e);
          hits = (case jget t tx of Some r \<Rightarrow> if st_verified r then 0 else 1 | None \<Rightarrow> 0);
          (n, t') = markSettlementsVerified es (jmodify tx (verify_row e) t) in
      (hits + n, t'))"

definition recordVerifyFailures :: "string list \<Rightarrow> settlements \<Rightarrow> settlements" where
  "recordVerifyFailures txs t = fold (\<lambda>h. jmodify (toLowerCase h)
     (\<lambda>r. if st_verified r then r else r\<lparr>st_verifyAttempts := st_verifyAttempts r + 1\<rparr>)) txs t"

definition quarantineFutureSettlements :: "nat \<Rightarrow> int option \<Rightarrow> int \<Rightarrow> settlements \<Rightarrow> settlements" where
  "quarantineFutureSettlements maxAttempts chainId aboveBlock =
     map (\<lambda>(tx, r). (tx, if \<not> st_verified r \<and> st_verifyAttempts r < maxAttempts \<and> aboveBlock < st_blockNumber r \<and>
         (case chainId of None \<Rightarrow> True | Some c \<Rightarrow> st_chainId r = c)
       then r\<lparr>st_verifyAttempts := maxAttempts\<rparr> else r))"

section \<open>The push route\<close>

text \<open>
  The handler behind \<open>relayerAuth\<close>; the verdict of the registry is an input, None if no gate is
  configured.
\<close>

definition postSettlement ::
  "(int \<Rightarrow> string \<Rightarrow> bool) option \<Rightarrow> ob_table \<Rightarrow> string \<Rightarrow> raw_settlement option \<Rightarrow> seconds \<Rightarrow> settlements \<Rightarrow>
   (nat \<times> string) \<times> settlements" where
  "postSettlement membership tbl relayerAddress body now t =
     (case parseSettlementInsert body of Inl e \<Rightarrow> ((400, e), t)
      | Inr p \<Rightarrow>
          let submitter = toLowerCase relayerAddress;
              sides = toLowerCase (si_makerRelayer p) #
                (if truthy (si_takerRelayer p) then [toLowerCase (the (si_takerRelayer p))] else []) in
          if submitter \<notin> set sides then ((403, ''submitter must be either makerRelayer or takerRelayer''), t)
          else if (case membership of None \<Rightarrow> False | Some active \<Rightarrow> \<not> active (si_chainId p) submitter)
          then ((403, ''submitter is not an active relayer in the on-chain registry''), t)
          else (case insertSettlement tbl submitter p now t of
            (inserted, t') \<Rightarrow> ((if inserted then 201 else 200, si_txHash p), t')))"

section \<open>The verifier\<close>

record settled_event =
  ev_txHash :: string
  ev_blockNumber :: int
  ev_blockTime :: "int option"
  ev_makerNullifier :: string
  ev_takerNullifier :: string
  ev_makerRelayer :: string
  ev_takerRelayer :: string
  ev_feeTokenMaker :: "string option"
  ev_feeTokenTaker :: "string option"

datatype mismatch = NoEvent | TxMismatch | RelayerMismatch string string

definition normNullifier :: "string \<Rightarrow> string" where
  "normNullifier v = (if v = [] then [] else case js_BigInt v of
     Some i \<Rightarrow> bigint_toString 16 i | None \<Rightarrow> toLowerCase v)"

definition pair_key :: "string \<Rightarrow> string \<Rightarrow> string" where
  "pair_key mk tk = normNullifier mk @ ''|'' @ normNullifier tk"

definition byPair :: "settled_event list \<Rightarrow> (string, settled_event) jmap" where
  "byPair events = fold (\<lambda>ev. jset (pair_key (ev_makerNullifier ev) (ev_takerNullifier ev)) ev) events []"

definition match_row :: "(string, settled_event) jmap \<Rightarrow> string \<Rightarrow> settlement_row \<Rightarrow> mismatch + verify_decision" where
  "match_row idx tx r = (case jget idx (pair_key (st_makerNullifier r) (st_takerNullifier r)) of
     None \<Rightarrow> Inl NoEvent
   | Some ev \<Rightarrow>
       if toLowerCase (ev_txHash ev) \<noteq> toLowerCase tx then Inl TxMismatch
       else if \<not> eqAddr (Some (ev_makerRelayer ev)) (Some (st_makerRelayer r)) \<or>
         (truthy (st_takerRelayer r) \<and> \<not> eqAddr (Some (ev_takerRelayer ev)) (st_takerRelayer r))
       then Inl (RelayerMismatch (ev_makerRelayer ev) (ev_takerRelayer ev))
       else Inr \<lparr>vd_txHash = tx, vd_blockTime = ev_blockTime ev, vd_feeMaker = ev_feeTokenMaker ev,
         vd_feeTaker = ev_feeTokenTaker ev\<rparr>)"

fun match_loop_settlements ::
  "(string, settled_event) jmap \<Rightarrow> (string \<times> settlement_row) list \<Rightarrow> verify_decision list \<times> (string \<times> mismatch) list" where
  "match_loop_settlements idx [] = ([], [])"
| "match_loop_settlements idx ((tx, r) # rows) = (case match_loop_settlements idx rows of (ms, us) \<Rightarrow>
     (case match_row idx tx r of Inr d \<Rightarrow> (d # ms, us) | Inl u \<Rightarrow> (ms, (tx, u) # us)))"

definition matchSettlements ::
  "(string \<times> settlement_row) list \<Rightarrow> settled_event list \<Rightarrow> verify_decision list \<times> (string \<times> mismatch) list" where
  "matchSettlements unverified events = match_loop_settlements (byPair events) unverified"

record verify_opts =
  vo_chainId :: int
  vo_maxBlock :: "int option"
  vo_limit :: "nat option"
  vo_maxBlockRange :: "int option"
  vo_futureBlockThreshold :: "int option"

text \<open>Before the await: the rows of the pass, the first and the last block to fetch.\<close>

definition verify_begin ::
  "nat \<Rightarrow> verify_opts \<Rightarrow> settlements \<Rightarrow> ((string \<times> settlement_row) list \<times> int \<times> int) option \<times> settlements" where
  "verify_begin maxAttempts opts t =
     (let t1 = (case vo_futureBlockThreshold opts of None \<Rightarrow> t
            | Some b \<Rightarrow> quarantineFutureSettlements maxAttempts (Some (vo_chainId opts)) b t);
          rows = listUnverifiedSettlements maxAttempts (Some (vo_chainId opts)) (vo_maxBlock opts) (vo_limit opts) t1 in
      case rows of [] \<Rightarrow> (None, t1)
      | (_, r0) # _ \<Rightarrow>
          let fromBlock = st_blockNumber r0;
              active = (case vo_maxBlockRange opts of
                  Some width \<Rightarrow> if 0 \<le> width then filter (\<lambda>(_, r). st_blockNumber r \<le> fromBlock + width) rows else rows
                | None \<Rightarrow> rows) in
          (Some (active, fromBlock, st_blockNumber (snd (last active))), t1))"

definition attributions :: "(string \<times> mismatch) list \<Rightarrow> (string \<times> string \<times> string) list" where
  "attributions us = concat (map (\<lambda>(tx, u). case u of
     RelayerMismatch m tk \<Rightarrow> if m \<noteq> [] \<and> tk \<noteq> [] then [(tx, m, tk)] else [] | _ \<Rightarrow> []) us)"

text \<open>After the await, on the table as it is then: the number of flipped rows and the report.\<close>

definition verify_end ::
  "(string \<times> settlement_row) list \<Rightarrow> settled_event list \<Rightarrow> settlements \<Rightarrow>
   nat \<times> (verify_decision list \<times> (string \<times> mismatch) list) \<times> settlements" where
  "verify_end active events t =
     (let (matched, unmatched) = matchSettlements active events;
          (flipped, t1) = markSettlementsVerified matched t;
          t2 = recordVerifyFailures (map fst unmatched) t1 in
      (flipped, (matched, unmatched), recordEventAttribution (attributions unmatched) t2))"

text \<open>
  A pass: the fetch may throw; \<open>meanwhile\<close> is what other processes do to the table while it is awaited.
\<close>

definition runVerifyPass ::
  "nat \<Rightarrow> verify_opts \<Rightarrow> (int \<Rightarrow> int \<Rightarrow> string + settled_event list) \<Rightarrow> (settlements \<Rightarrow> settlements) \<Rightarrow> settlements \<Rightarrow>
   (string + nat \<times> nat \<times> verify_decision list \<times> (string \<times> mismatch) list) \<times> settlements" where
  "runVerifyPass maxAttempts opts fetcher meanwhile t = (case verify_begin maxAttempts opts t of
     (None, t1) \<Rightarrow> (Inr (0, 0, [], []), t1)
   | (Some (active, fromBlock, toBlock), t1) \<Rightarrow> (case fetcher fromBlock toBlock of
       Inl e \<Rightarrow> (Inl e, meanwhile t1)
     | Inr events \<Rightarrow> (case verify_end active events (meanwhile t1) of
         (flipped, (ms, us), t2) \<Rightarrow> (Inr (length active, flipped, ms, us), t2))))"

section \<open>The loop\<close>

record verify_loop_opts =
  vl_chainId :: int
  vl_blockSafetyMargin :: int
  vl_limitPerPass :: nat
  vl_maxBlockRange :: "int option"
  vl_futureBlockBuffer :: "int option"

record verify_stats =
  vs_scanned :: nat
  vs_flipped :: nat
  vs_noEvent :: nat
  vs_txMismatch :: nat
  vs_relayerMismatch :: nat
  vs_maxBlock :: int
  vs_error :: "string option"

definition failed_verify :: "string \<Rightarrow> verify_stats" where
  "failed_verify e = \<lparr>vs_scanned = 0, vs_flipped = 0, vs_noEvent = 0, vs_txMismatch = 0, vs_relayerMismatch = 0,
     vs_maxBlock = - 1, vs_error = Some e\<rparr>"

definition count_mismatch :: "(mismatch \<Rightarrow> bool) \<Rightarrow> (string \<times> mismatch) list \<Rightarrow> nat" where
  "count_mismatch P us = length (filter (\<lambda>(_, u). P u) us)"

text \<open>One turn; the head of the chain may be unavailable.\<close>

definition verify_turn ::
  "nat \<Rightarrow> verify_loop_opts \<Rightarrow> string + int \<Rightarrow> (int \<Rightarrow> int \<Rightarrow> string + settled_event list) \<Rightarrow> (settlements \<Rightarrow> settlements) \<Rightarrow>
   settlements \<Rightarrow> verify_stats \<times> settlements" where
  "verify_turn maxAttempts opts head fetcher meanwhile t = (case head of Inl e \<Rightarrow> (failed_verify e, t)
   | Inr latest \<Rightarrow>
       let maxBlock = max 0 (latest - vl_blockSafetyMargin opts);
           buffer = (case vl_futureBlockBuffer opts of Some b \<Rightarrow> max 0 b | None \<Rightarrow> 1000) in
       (case runVerifyPass maxAttempts \<lparr>vo_chainId = vl_chainId opts, vo_maxBlock = Some maxBlock,
           vo_limit = Some (vl_limitPerPass opts), vo_maxBlockRange = vl_maxBlockRange opts,
           vo_futureBlockThreshold = Some (latest + buffer)\<rparr> fetcher meanwhile t of
          (Inl e, t') \<Rightarrow> (failed_verify e, t')
        | (Inr (scanned, flipped, ms, us), t') \<Rightarrow>
            (\<lparr>vs_scanned = scanned, vs_flipped = flipped, vs_noEvent = count_mismatch (\<lambda>u. u = NoEvent) us,
              vs_txMismatch = count_mismatch (\<lambda>u. u = TxMismatch) us,
              vs_relayerMismatch = count_mismatch (\<lambda>u. case u of RelayerMismatch _ _ \<Rightarrow> True | _ \<Rightarrow> False) us,
              vs_maxBlock = maxBlock, vs_error = None\<rparr>, t')))"

end
