(* ===== verification/SettlementsFacts.thy ===== *)
theory SettlementsFacts
  imports Settlements "HOL-Library.Multiset"
begin

text \<open>
  The facts about the settlement records: which rows can become verified and by whom, how attestations
  protect a transaction hash, why the backlog of unverified rows drains, what a repeated push does and
  which rows the cap removes.
\<close>

section \<open>Runs\<close>

text \<open>
  A push is a request behind the signature check, with the state of the order table and the verdict of
  the registry at that moment.  A turn of the verifier carries the head of the chain, the answer of the
  node to its only query and the pushes that arrive while that query is awaited.
\<close>

record push =
  pu_membership :: "(int \<Rightarrow> string \<Rightarrow> bool) option"
  pu_orders :: ob_table
  pu_relayer :: string
  pu_body :: "raw_settlement option"
  pu_now :: seconds

definition do_push :: "push \<Rightarrow> settlements \<Rightarrow> settlements" where
  "do_push p t = snd (postSettlement (pu_membership p) (pu_orders p) (pu_relayer p) (pu_body p) (pu_now p) t)"

datatype settle_event =
    Push push
  | Turn verify_loop_opts "string + int" "string + settled_event list" "push list"
  | Prune int

definition settle_step :: "nat \<Rightarrow> settle_event \<Rightarrow> settlements \<Rightarrow> settlements" where
  "settle_step mx e t = (case e of
     Push p \<Rightarrow> do_push p t
   | Turn opts latest answer pushes \<Rightarrow> snd (verify_turn mx opts latest (\<lambda>_ _. answer) (fold do_push pushes) t)
   | Prune n \<Rightarrow> pruneSettlements n t)"

definition answered_events :: "settle_event list \<Rightarrow> settled_event list" where
  "answered_events es = concat (map (\<lambda>e. case e of Turn _ _ (Inr evs) _ \<Rightarrow> evs | _ \<Rightarrow> []) es)"

definition quiet :: "settle_event \<Rightarrow> bool" where
  "quiet e = (case e of Turn _ _ _ pushes \<Rightarrow> pushes = [] | _ \<Rightarrow> True)"

section \<open>Row invariants\<close>

definition rows_all :: "(string \<Rightarrow> settlement_row \<Rightarrow> bool) \<Rightarrow> settlements \<Rightarrow> bool" where
  "rows_all P t \<longleftrightarrow> (\<forall>k r. jget t k = Some r \<longrightarrow> P k r)"

lemma rows_allD: "rows_all P t \<Longrightarrow> jget t k = Some r \<Longrightarrow> P k r"
  by (simp add: rows_all_def)

lemma rows_all_jmodify: "rows_all P t \<Longrightarrow> (\<And>r. P k r \<Longrightarrow> P k (f r)) \<Longrightarrow> rows_all P (jmodify k f t)"
  by (auto simp: rows_all_def)

lemma rows_all_attest:
  "rows_all P t \<Longrightarrow>
   (\<And>r. P tx r \<Longrightarrow> \<not> st_verified r \<Longrightarrow> P tx (r\<lparr>st_eventMakerRelayer := Some m, st_eventTakerRelayer := tk\<rparr>)) \<Longrightarrow>
   rows_all P (attest_row m tk tx t)"
  unfolding attest_row_def by (rule rows_all_jmodify) auto

lemma rows_all_attributions:
  assumes "rows_all P t"
    and keep: "\<And>k r m tk. P k r \<Longrightarrow> \<not> st_verified r \<Longrightarrow>
      P k (r\<lparr>st_eventMakerRelayer := Some m, st_eventTakerRelayer := tk\<rparr>)"
  shows "rows_all P (recordEventAttribution us t)"
  using assms(1) unfolding recordEventAttribution_def
proof (induction us arbitrary: t)
  case (Cons u us)
  obtain tx m tk where u: "u = (tx, m, tk)" by (cases u) auto
  have "rows_all P (attest_row (toLowerCase m) (Some (toLowerCase tk)) (toLowerCase tx) t)"
    using Cons.prems by (rule rows_all_attest) (rule keep)
  then show ?case using Cons.IH u by simp
qed simp

lemma rows_all_failures:
  assumes "rows_all P t"
    and keep: "\<And>k r. P k r \<Longrightarrow> \<not> st_verified r \<Longrightarrow> P k (r\<lparr>st_verifyAttempts := st_verifyAttempts r + 1\<rparr>)"
  shows "rows_all P (recordVerifyFailures txs t)"
  using assms(1) unfolding recordVerifyFailures_def
proof (induction txs arbitrary: t)
  case (Cons h txs)
  have "rows_all P (jmodify (toLowerCase h)
     (\<lambda>r. if st_verified r then r else r\<lparr>st_verifyAttempts := st_verifyAttempts r + 1\<rparr>) t)"
    using Cons.prems by (rule rows_all_jmodify) (auto dest: keep)
  then show ?case using Cons.IH by simp
qed simp

lemma rows_all_mark:
  assumes "rows_all P t"
    and keep: "\<And>e r. e \<in> set es \<Longrightarrow> P (toLowerCase (vd_txHash e)) r \<Longrightarrow> P (toLowerCase (vd_txHash e)) (verify_row e r)"
  shows "rows_all P (snd (markSettlementsVerified es t))"
  using assms
proof (induction es arbitrary: t)
  case (Cons e es)
  have "rows_all P (jmodify (toLowerCase (vd_txHash e)) (verify_row e) t)"
    using Cons.prems(1) by (rule rows_all_jmodify) (use Cons.prems(2) in auto)
  then have "rows_all P (snd (markSettlementsVerified es (jmodify (toLowerCase (vd_txHash e)) (verify_row e) t)))"
    by (rule Cons.IH) (use Cons.prems(2) in auto)
  then show ?case by (simp add: Let_def split_beta)
qed simp

lemma jget_map_values: "jget (map (\<lambda>(k, r). (k, f r)) t) k = map_option f (jget t k)"
  by (induction t) (auto simp: jget_def)

definition quarantine_row :: "nat \<Rightarrow> int option \<Rightarrow> int \<Rightarrow> settlement_row \<Rightarrow> settlement_row" where
  "quarantine_row mx chain b r = (if \<not> st_verified r \<and> st_verifyAttempts r < mx \<and> b < st_blockNumber r \<and>
     (case chain of None \<Rightarrow> True | Some c \<Rightarrow> st_chainId r = c)
   then r\<lparr>st_verifyAttempts := mx\<rparr> else r)"

lemma quarantine_map: "quarantineFutureSettlements mx chain b t = map (\<lambda>(k, r). (k, quarantine_row mx chain b r)) t"
  by (simp add: quarantineFutureSettlements_def quarantine_row_def)

lemma rows_all_quarantine:
  assumes "rows_all P t" and keep: "\<And>k r n. P k r \<Longrightarrow> \<not> st_verified r \<Longrightarrow> P k (r\<lparr>st_verifyAttempts := n\<rparr>)"
  shows "rows_all P (quarantineFutureSettlements mx chain b t)"
  unfolding rows_all_def
proof (intro allI impI)
  fix k r' assume "jget (quarantineFutureSettlements mx chain b t) k = Some r'"
  then obtain r where r: "jget t k = Some r" "r' = quarantine_row mx chain b r"
    by (auto simp: quarantine_map jget_map_values)
  have "P k r" using assms(1) r(1) by (rule rows_allD)
  then show "P k r'" using keep [of k r mx] r(2) by (simp add: quarantine_row_def)
qed

lemma rows_all_sub: "rows_all P t \<Longrightarrow> (\<And>k r. jget t' k = Some r \<Longrightarrow> jget t k = Some r) \<Longrightarrow> rows_all P t'"
  by (simp add: rows_all_def)

lemma jget_filter_keys: "jget (filter (\<lambda>(k, _). Q k) t) k = (if Q k then jget t k else None)"
  by (induction t) (auto simp: jget_def)

lemma rows_all_prune: "rows_all P t \<Longrightarrow> rows_all P (pruneSettlements n t)"
  by (erule rows_all_sub) (auto simp: pruneSettlements_def Let_def jget_filter_keys split: if_splits)

section \<open>Pushes\<close>

text \<open>What an insert leaves under each transaction hash.\<close>

definition refilled :: "ob_table \<Rightarrow> string \<Rightarrow> settlement_insert \<Rightarrow> seconds \<Rightarrow> settlement_row option \<Rightarrow> settlement_row" where
  "refilled tbl s p now old = (let r = new_settlement tbl s p now in
     (case old of None \<Rightarrow> r
      | Some o' \<Rightarrow> (case st_eventMakerRelayer o' of None \<Rightarrow> r
          | Some m \<Rightarrow> if m = [] then r else r\<lparr>st_eventMakerRelayer := Some m, st_eventTakerRelayer := st_eventTakerRelayer o'\<rparr>)))"

definition slot_free :: "string \<Rightarrow> settlement_insert \<Rightarrow> settlement_row option \<Rightarrow> bool" where
  "slot_free s p old = (case old of None \<Rightarrow> True
     | Some r \<Rightarrow> evictable (toLowerCase s) (toLowerCase (si_makerRelayer p)) (lower_truthy (si_takerRelayer p)) r)"

lemma new_settlement_unverified [simp]: "\<not> st_verified (new_settlement tbl s p now)"
  by (simp add: new_settlement_def Let_def)

lemma refilled_unverified [simp]: "\<not> st_verified (refilled tbl s p now old)"
  by (simp add: refilled_def Let_def split: option.splits)

lemma insert_slot:
  "fst (insertSettlement tbl s p now t) = slot_free s p (jget t (si_txHash p))"
  "jget (snd (insertSettlement tbl s p now t)) k =
     (if k = si_txHash p \<and> slot_free s p (jget t k) then Some (refilled tbl s p now (jget t k)) else jget t k)"
  by (auto simp: insertSettlement_def evict_squatted_def slot_free_def refilled_def jhas_jget attest_row_def
      Let_def split: option.splits)

lemma insert_retained:
  "\<not> slot_free s p (jget t (si_txHash p)) \<Longrightarrow> snd (insertSettlement tbl s p now t) = t"
  by (auto simp: insertSettlement_def evict_squatted_def slot_free_def jhas_jget Let_def split: option.splits)

lemma jmap_ok_insert [simp]: "jmap_ok t \<Longrightarrow> jmap_ok (snd (insertSettlement tbl s p now t))"
  by (auto simp: insertSettlement_def evict_squatted_def attest_row_def Let_def split: option.splits)

definition push_refusal :: "(int \<Rightarrow> string \<Rightarrow> bool) option \<Rightarrow> string \<Rightarrow> settlement_insert \<Rightarrow> string option" where
  "push_refusal membership s p =
     (if s \<noteq> toLowerCase (si_makerRelayer p) \<and>
         (truthy (si_takerRelayer p) \<longrightarrow> s \<noteq> toLowerCase (the (si_takerRelayer p)))
      then Some ''submitter must be either makerRelayer or takerRelayer''
      else if (case membership of None \<Rightarrow> False | Some active \<Rightarrow> \<not> active (si_chainId p) s)
      then Some ''submitter is not an active relayer in the on-chain registry'' else None)"

lemma post_parsed:
  assumes "parseSettlementInsert body = Inr p"
  shows "postSettlement membership tbl s body now t =
    (case push_refusal membership (toLowerCase s) p of Some e \<Rightarrow> ((403, e), t)
     | None \<Rightarrow> ((if slot_free (toLowerCase s) p (jget t (si_txHash p)) then 201 else 200, si_txHash p),
         snd (insertSettlement tbl (toLowerCase s) p now t)))"
proof -
  define s' where "s' = toLowerCase s"
  define sides where "sides = toLowerCase (si_makerRelayer p) #
    (if truthy (si_takerRelayer p) then [toLowerCase (the (si_takerRelayer p))] else [])"
  have sides: "s' \<noteq> toLowerCase (si_makerRelayer p) \<and>
      (truthy (si_takerRelayer p) \<longrightarrow> s' \<noteq> toLowerCase (the (si_takerRelayer p))) \<longleftrightarrow> s' \<notin> set sides"
    by (auto simp: sides_def)
  obtain b t' where i: "insertSettlement tbl s' p now t = (b, t')" by fastforce
  have b: "slot_free s' p (jget t (si_txHash p)) = b"
    using insert_slot(1) [of tbl s' p now t] i by simp
  have run: "postSettlement membership tbl s body now t =
     (if s' \<notin> set sides then ((403, ''submitter must be either makerRelayer or takerRelayer''), t)
      else if (case membership of None \<Rightarrow> False | Some active \<Rightarrow> \<not> active (si_chainId p) s')
      then ((403, ''submitter is not an active relayer in the on-chain registry''), t)
      else ((if b then 201 else 200, si_txHash p), t'))"
    by (simp only: postSettlement_def assms sum.case Let_def s'_def [symmetric] sides_def [symmetric] i prod.case)
  show ?thesis
    unfolding run push_refusal_def s'_def [symmetric] sides i b
    by (cases "s' \<in> set sides"; cases "case membership of None \<Rightarrow> False | Some active \<Rightarrow> \<not> active (si_chainId p) s'")
       simp_all
qed

lemma push_cases:
  obtains (refused) "do_push p t = t"
  | (inserted) q where "parseSettlementInsert (pu_body p) = Inr q"
      "do_push p t = snd (insertSettlement (pu_orders p) (toLowerCase (pu_relayer p)) q (pu_now p) t)"
proof (cases "parseSettlementInsert (pu_body p)")
  case (Inl e)
  then have "do_push p t = t" by (simp add: do_push_def postSettlement_def)
  then show ?thesis by (rule refused)
next
  case (Inr q)
  note run = post_parsed [OF Inr, of "pu_membership p" "pu_orders p" "pu_relayer p" "pu_now p" t]
  show ?thesis
  proof (cases "push_refusal (pu_membership p) (toLowerCase (pu_relayer p)) q")
    case None
    with run Inr show ?thesis by (intro inserted) (simp_all add: do_push_def)
  next
    case (Some e)
    with run show ?thesis by (intro refused) (simp add: do_push_def)
  qed
qed

lemma push_verified:
  "jget (do_push p t) k = Some r \<Longrightarrow> st_verified r \<Longrightarrow> jget t k = Some r"
proof (cases p t rule: push_cases)
  case (inserted q)
  assume r: "jget (do_push p t) k = Some r" "st_verified r"
  show "jget t k = Some r"
  proof (cases "k = si_txHash q \<and> slot_free (toLowerCase (pu_relayer p)) q (jget t k)")
    case True
    then have "\<not> st_verified r" using r(1) unfolding inserted(2) insert_slot(2) if_P [OF True] by auto
    with r(2) show ?thesis by simp
  next
    case False
    show ?thesis using r(1) unfolding inserted(2) insert_slot(2) if_not_P [OF False] .
  qed
qed simp

lemma pushes_verified:
  "jget (fold do_push ps t) k = Some r \<Longrightarrow> st_verified r \<Longrightarrow> jget t k = Some r"
proof (induction ps arbitrary: t)
  case (Cons p ps)
  then have "jget (do_push p t) k = Some r" by simp
  then show ?case using Cons.prems(2) by (rule push_verified)
qed simp

section \<open>Well-formed tables\<close>

text \<open>Keys are distinct and in lower case.\<close>

definition settlements_ok :: "settlements \<Rightarrow> bool" where
  "settlements_ok t \<longleftrightarrow> jmap_ok t \<and> rows_all (\<lambda>k _. toLowerCase k = k) t"

lemma parsed_hash_lower: "parseSettlementInsert body = Inr p \<Longrightarrow> toLowerCase (si_txHash p) = si_txHash p"
proof (cases body)
  case (Some r)
  assume "parseSettlementInsert body = Inr p"
  with Some show ?thesis by (cases "settlement_error r") (auto simp: parseSettlementInsert_def)
qed (simp add: parseSettlementInsert_def)

lemma ok_insert:
  assumes "settlements_ok t" "toLowerCase (si_txHash p) = si_txHash p"
  shows "settlements_ok (snd (insertSettlement tbl s p now t))"
proof -
  have "toLowerCase k = k" if "jget (snd (insertSettlement tbl s p now t)) k = Some r" for k r
    using that assms unfolding insert_slot(2) settlements_ok_def rows_all_def by (simp split: if_splits)
  then show ?thesis using assms(1) by (simp add: settlements_ok_def rows_all_def)
qed

lemma ok_push:
  assumes ok: "settlements_ok t"
  shows "settlements_ok (do_push p t)"
proof (cases p t rule: push_cases)
  case (inserted q)
  from inserted(1) have "toLowerCase (si_txHash q) = si_txHash q" by (rule parsed_hash_lower)
  with ok show ?thesis unfolding inserted(2) by (rule ok_insert)
qed (use ok in simp)

lemma ok_pushes: "settlements_ok t \<Longrightarrow> settlements_ok (fold do_push ps t)"
  by (induction ps arbitrary: t) (simp_all add: ok_push)

lemma jmap_ok_mark [simp]: "jmap_ok t \<Longrightarrow> jmap_ok (snd (markSettlementsVerified es t))"
  by (induction es arbitrary: t) (simp_all add: Let_def split_beta)

lemma jmap_ok_failures [simp]: "jmap_ok t \<Longrightarrow> jmap_ok (recordVerifyFailures txs t)"
  unfolding recordVerifyFailures_def by (induction txs arbitrary: t) simp_all

lemma jmap_ok_attributions [simp]: "jmap_ok t \<Longrightarrow> jmap_ok (recordEventAttribution us t)"
  unfolding recordEventAttribution_def
  by (induction us arbitrary: t) (simp_all add: attest_row_def split_beta)

lemma keys_map_values: "map fst (map (\<lambda>(k, r). (k, f r)) t) = map fst t"
  by (induction t) auto

lemma jmap_ok_quarantine [simp]: "jmap_ok t \<Longrightarrow> jmap_ok (quarantineFutureSettlements mx chain b t)"
  unfolding jmap_ok_def quarantine_map keys_map_values .

lemma jmap_ok_prune [simp]: "jmap_ok t \<Longrightarrow> jmap_ok (pruneSettlements n t)"
  by (auto simp: pruneSettlements_def jmap_ok_def Let_def distinct_map_filter)


section \<open>What an event says about a row\<close>

text \<open>The event has the transaction hash and, as far as it reports them, the fees of the row.\<close>

definition tx_backed :: "settled_event \<Rightarrow> string \<Rightarrow> settlement_row \<Rightarrow> bool" where
  "tx_backed ev tx r \<longleftrightarrow> toLowerCase (ev_txHash ev) = tx \<and>
     keep_or (ev_feeTokenMaker ev) (st_feeMaker r) = st_feeMaker r \<and>
     keep_or (ev_feeTokenTaker ev) (st_feeTaker r) = st_feeTaker r"

text \<open>It also has the nullifiers of the row and names the relayers that the row credits.\<close>

definition credit_backed :: "settled_event \<Rightarrow> settlement_row \<Rightarrow> bool" where
  "credit_backed ev r \<longleftrightarrow>
     pair_key (ev_makerNullifier ev) (ev_takerNullifier ev) = pair_key (st_makerNullifier r) (st_takerNullifier r) \<and>
     eqAddr (Some (ev_makerRelayer ev)) (Some (st_makerRelayer r)) \<and>
     (truthy (st_takerRelayer r) \<longrightarrow> eqAddr (Some (ev_takerRelayer ev)) (st_takerRelayer r))"

definition same_credit :: "settlement_row \<Rightarrow> settlement_row \<Rightarrow> bool" where
  "same_credit r r' \<longleftrightarrow> st_makerNullifier r' = st_makerNullifier r \<and> st_takerNullifier r' = st_takerNullifier r \<and>
     st_makerRelayer r' = st_makerRelayer r \<and> st_takerRelayer r' = st_takerRelayer r"

lemma credit_backed_cong: "same_credit r r' \<Longrightarrow> credit_backed ev r' = credit_backed ev r"
  by (simp add: same_credit_def credit_backed_def)

lemma byPair_in:
  assumes "jget (byPair events) k = Some ev"
  shows "ev \<in> set events \<and> k = pair_key (ev_makerNullifier ev) (ev_takerNullifier ev)"
proof -
  have "jget m k = Some ev \<or> ev \<in> set es \<and> k = pair_key (ev_makerNullifier ev) (ev_takerNullifier ev)"
    if "jget (fold (\<lambda>ev. jset (pair_key (ev_makerNullifier ev) (ev_takerNullifier ev)) ev) es m) k = Some ev" for es m
    using that
  proof (induction es arbitrary: m)
    case (Cons e es)
    from Cons.prems have "jget (fold (\<lambda>ev. jset (pair_key (ev_makerNullifier ev) (ev_takerNullifier ev)) ev) es
        (jset (pair_key (ev_makerNullifier e) (ev_takerNullifier e)) e m)) k = Some ev" by simp
    from Cons.IH [OF this] show ?case by (auto split: if_splits)
  qed simp
  from this [of events "[]"] assms show ?thesis by (simp add: byPair_def)
qed

lemma match_row_decision:
  assumes "match_row (byPair events) tx r = Inr d"
  obtains ev where "ev \<in> set events" "toLowerCase (ev_txHash ev) = toLowerCase tx" "credit_backed ev r"
    "d = \<lparr>vd_txHash = tx, vd_blockTime = ev_blockTime ev, vd_feeMaker = ev_feeTokenMaker ev, vd_feeTaker = ev_feeTokenTaker ev\<rparr>"
proof -
  obtain ev where ev: "jget (byPair events) (pair_key (st_makerNullifier r) (st_takerNullifier r)) = Some ev"
    using assms by (auto simp: match_row_def split: option.splits)
  from byPair_in [OF ev] assms ev show ?thesis
    by (intro that [of ev]) (auto simp: match_row_def credit_backed_def split: if_splits)
qed

lemma match_loop_in:
  "d \<in> set (fst (match_loop_settlements idx rows)) \<longleftrightarrow> (\<exists>(tx, r) \<in> set rows. match_row idx tx r = Inr d)"
  "(tx, u) \<in> set (snd (match_loop_settlements idx rows)) \<longleftrightarrow> (\<exists>r. (tx, r) \<in> set rows \<and> match_row idx tx r = Inl u)"
  by (induction idx rows rule: match_loop_settlements.induct) (auto split: prod.splits sum.splits)

lemma match_in:
  "d \<in> set (fst (matchSettlements rows events)) \<longleftrightarrow> (\<exists>(tx, r) \<in> set rows. match_row (byPair events) tx r = Inr d)"
  "(tx, u) \<in> set (snd (matchSettlements rows events)) \<longleftrightarrow>
     (\<exists>r. (tx, r) \<in> set rows \<and> match_row (byPair events) tx r = Inl u)"
  by (simp_all add: matchSettlements_def match_loop_in)

lemma verify_row_backed:
  "d = \<lparr>vd_txHash = tx, vd_blockTime = ev_blockTime ev, vd_feeMaker = ev_feeTokenMaker ev, vd_feeTaker = ev_feeTokenTaker ev\<rparr> \<Longrightarrow>
   toLowerCase (ev_txHash ev) = k \<Longrightarrow> \<not> st_verified r \<Longrightarrow> tx_backed ev k (verify_row d r)"
  by (simp add: tx_backed_def verify_row_def keep_or_def split: option.splits)

lemma verify_row_credit: "same_credit r (verify_row d r)"
  by (simp add: same_credit_def verify_row_def)

section \<open>One pass\<close>

lemma list_unverified_in:
  "set (listUnverifiedSettlements mx chain mb lims t) \<subseteq>
   {(tx, r). (tx, r) \<in> set t \<and> \<not> st_verified r \<and> st_verifyAttempts r < mx \<and>
      (case chain of None \<Rightarrow> True | Some c \<Rightarrow> st_chainId r = c) \<and>
      (case mb of None \<Rightarrow> True | Some b \<Rightarrow> st_blockNumber r \<le> b)}"
  by (auto simp: listUnverifiedSettlements_def dest!: in_set_takeD)

lemma verify_begin_active:
  assumes "verify_begin mx opts t = (Some (active, a, b), t1)"
  shows "set active \<subseteq> set (listUnverifiedSettlements mx (Some (vo_chainId opts)) (vo_maxBlock opts) (vo_limit opts) t1)"
    and "t1 = (case vo_futureBlockThreshold opts of None \<Rightarrow> t
            | Some b \<Rightarrow> quarantineFutureSettlements mx (Some (vo_chainId opts)) b t)"
  using assms by (auto simp: verify_begin_def Let_def split: list.splits option.splits prod.splits if_splits)

lemma rows_all_end:
  assumes t: "rows_all P t"
    and mark: "\<And>d r. d \<in> set (fst (matchSettlements active events)) \<Longrightarrow> P (toLowerCase (vd_txHash d)) r \<Longrightarrow>
      P (toLowerCase (vd_txHash d)) (verify_row d r)"
    and att: "\<And>k r m tk. P k r \<Longrightarrow> \<not> st_verified r \<Longrightarrow>
      P k (r\<lparr>st_eventMakerRelayer := Some m, st_eventTakerRelayer := tk\<rparr>)"
    and fail: "\<And>k r n. P k r \<Longrightarrow> \<not> st_verified r \<Longrightarrow> P k (r\<lparr>st_verifyAttempts := n\<rparr>)"
  shows "rows_all P (snd (snd (verify_end active events t)))"
proof -
  obtain ms us where mu: "matchSettlements active events = (ms, us)" by fastforce
  have 1: "rows_all P (snd (markSettlementsVerified ms t))"
    using t by (rule rows_all_mark) (use mark mu in auto)
  have 2: "rows_all P (recordVerifyFailures (map fst us) (snd (markSettlementsVerified ms t)))"
    using 1 by (rule rows_all_failures) (rule fail)
  have "rows_all P (recordEventAttribution (attributions us) (recordVerifyFailures (map fst us) (snd (markSettlementsVerified ms t))))"
    using 2 by (rule rows_all_attributions) (rule att)
  then show ?thesis using mu by (simp add: verify_end_def split_beta)
qed

section \<open>One turn\<close>

definition pass_opts :: "verify_loop_opts \<Rightarrow> int \<Rightarrow> verify_opts" where
  "pass_opts opts latest = \<lparr>vo_chainId = vl_chainId opts, vo_maxBlock = Some (max 0 (latest - vl_blockSafetyMargin opts)),
     vo_limit = Some (vl_limitPerPass opts), vo_maxBlockRange = vl_maxBlockRange opts,
     vo_futureBlockThreshold = Some (latest + (case vl_futureBlockBuffer opts of Some b \<Rightarrow> max 0 b | None \<Rightarrow> 1000))\<rparr>"

definition swept :: "nat \<Rightarrow> verify_loop_opts \<Rightarrow> int \<Rightarrow> settlements \<Rightarrow> settlements" where
  "swept mx opts latest t = quarantineFutureSettlements mx (Some (vl_chainId opts))
     (latest + (case vl_futureBlockBuffer opts of Some b \<Rightarrow> max 0 b | None \<Rightarrow> 1000)) t"

lemma begin_swept: "snd (verify_begin mx (pass_opts opts latest) t) = swept mx opts latest t"
  by (simp add: verify_begin_def pass_opts_def swept_def Let_def split: list.split prod.split)

lemma turn_answered:
  "snd (verify_turn mx opts (Inr latest) (\<lambda>_ _. answer) meanwhile t) =
     (case verify_begin mx (pass_opts opts latest) t of
        (None, t1) \<Rightarrow> t1
      | (Some (active, _, _), t1) \<Rightarrow> (case answer of Inl _ \<Rightarrow> meanwhile t1
          | Inr events \<Rightarrow> snd (snd (verify_end active events (meanwhile t1)))))"
  unfolding verify_turn_def pass_opts_def runVerifyPass_def sum.case Let_def
  by (simp split: prod.split option.split sum.split)

lemma turn_cases:
  obtains (no_head) e where "latest = Inl e" "snd (verify_turn mx opts latest (\<lambda>_ _. answer) meanwhile t) = t"
  | (idle) l where "latest = Inr l" "snd (verify_turn mx opts latest (\<lambda>_ _. answer) meanwhile t) = swept mx opts l t"
  | (fetch_failed) l e where "latest = Inr l" "answer = Inl e"
      "snd (verify_turn mx opts latest (\<lambda>_ _. answer) meanwhile t) = meanwhile (swept mx opts l t)"
  | (ended) l events active a b where "latest = Inr l" "answer = Inr events"
      "verify_begin mx (pass_opts opts l) t = (Some (active, a, b), swept mx opts l t)"
      "snd (verify_turn mx opts latest (\<lambda>_ _. answer) meanwhile t) =
         snd (snd (verify_end active events (meanwhile (swept mx opts l t))))"
proof (cases latest)
  case (Inl e)
  then show ?thesis using no_head by (simp add: verify_turn_def)
next
  case (Inr l)
  obtain res t1 where b: "verify_begin mx (pass_opts opts l) t = (res, t1)" by fastforce
  then have t1: "t1 = swept mx opts l t" using begin_swept [of mx opts l t] by simp
  show ?thesis
  proof (cases res)
    case None
    then show ?thesis using idle Inr b t1 by (simp add: turn_answered)
  next
    case (Some w)
    then obtain active x y where w: "res = Some (active, x, y)" by (cases w) auto
    show ?thesis
      by (cases answer) (use fetch_failed ended Inr b t1 w in \<open>simp_all add: turn_answered\<close>)
  qed
qed

lemma ok_swept: "settlements_ok t \<Longrightarrow> settlements_ok (swept mx opts l t)"
  unfolding settlements_ok_def swept_def by (auto intro: rows_all_quarantine)

lemma ok_end: "settlements_ok t \<Longrightarrow> settlements_ok (snd (snd (verify_end active events t)))"
proof -
  assume ok: "settlements_ok t"
  then have "rows_all (\<lambda>k _. toLowerCase k = k) (snd (snd (verify_end active events t)))"
    unfolding settlements_ok_def by (intro rows_all_end) auto
  moreover have "jmap_ok (snd (snd (verify_end active events t)))"
    using ok by (simp add: verify_end_def settlements_ok_def split_beta Let_def)
  ultimately show ?thesis by (simp add: settlements_ok_def)
qed

lemma ok_step: "settlements_ok t \<Longrightarrow> settlements_ok (settle_step mx e t)"
proof (cases e)
  case (Turn opts latest answer pushes)
  assume ok: "settlements_ok t"
  have "settlements_ok (snd (verify_turn mx opts latest (\<lambda>_ _. answer) (fold do_push pushes) t))"
    by (rule turn_cases [of latest mx opts answer "fold do_push pushes" t])
       (use ok in \<open>simp_all add: ok_swept ok_pushes ok_end\<close>)
  then show ?thesis by (simp add: settle_step_def Turn)
next
  case (Prune n)
  assume "settlements_ok t"
  then show ?thesis by (simp add: settle_step_def Prune settlements_ok_def rows_all_prune)
qed (simp add: settle_step_def ok_push)

lemma ok_run: "settlements_ok t \<Longrightarrow> settlements_ok (fold (settle_step mx) es t)"
  by (induction es arbitrary: t) (simp_all add: ok_step)

section \<open>Verified rows\<close>

definition confirmed :: "settled_event set \<Rightarrow> bool \<Rightarrow> string \<Rightarrow> settlement_row \<Rightarrow> bool" where
  "confirmed seen q k r \<longleftrightarrow> (st_verified r \<longrightarrow> (\<exists>ev \<in> seen. tx_backed ev k r \<and> (q \<longrightarrow> credit_backed ev r)))"

lemma confirmed_mono: "confirmed S q k r \<Longrightarrow> S \<subseteq> S' \<Longrightarrow> confirmed S' q k r"
  by (auto simp: confirmed_def)

lemma confirmed_attempts [simp]: "confirmed S q k (r\<lparr>st_verifyAttempts := n\<rparr>) = confirmed S q k r"
  by (simp add: confirmed_def tx_backed_def credit_backed_def)

lemma confirmed_attest [simp]:
  "confirmed S q k (r\<lparr>st_eventMakerRelayer := m, st_eventTakerRelayer := tk\<rparr>) = confirmed S q k r"
  by (simp add: confirmed_def tx_backed_def credit_backed_def)

lemma confirmed_pushes: "rows_all (confirmed S q) t \<Longrightarrow> rows_all (confirmed S q) (fold do_push ps t)"
  unfolding rows_all_def by (metis confirmed_def pushes_verified)

lemma confirmed_end:
  assumes rows: "rows_all (confirmed S q) t" and ok: "settlements_ok t"
    and active: "q \<longrightarrow> set active \<subseteq> set t"
  shows "rows_all (confirmed (S \<union> set events) q) (snd (snd (verify_end active events t)))"
proof -
  let ?Q = "\<lambda>k r. confirmed (S \<union> set events) q k r \<and> (\<exists>r0. jget t k = Some r0 \<and> same_credit r0 r)"
  have "rows_all ?Q (snd (snd (verify_end active events t)))"
  proof (rule rows_all_end)
    show "rows_all ?Q t"
      using rows confirmed_mono [of S q _ _ "S \<union> set events"] by (auto simp: rows_all_def same_credit_def)
  next
    fix d r
    assume d: "d \<in> set (fst (matchSettlements active events))"
    let ?k = "toLowerCase (vd_txHash d)"
    assume Q: "?Q ?k r"
    then obtain r0 where r0: "jget t ?k = Some r0" "same_credit r0 r" by blast
    from d obtain tx0 ra where row: "(tx0, ra) \<in> set active" "match_row (byPair events) tx0 ra = Inr d"
      by (auto simp: match_in)
    from match_row_decision [OF row(2)] obtain ev where ev: "ev \<in> set events"
      "toLowerCase (ev_txHash ev) = toLowerCase tx0" "credit_backed ev ra"
      "d = \<lparr>vd_txHash = tx0, vd_blockTime = ev_blockTime ev, vd_feeMaker = ev_feeTokenMaker ev, vd_feeTaker = ev_feeTokenTaker ev\<rparr>" .
    have cred: "credit_backed ev (verify_row d r)" if q
    proof -
      from that row(1) active have "(tx0, ra) \<in> set t" by blast
      with ok have g: "jget t tx0 = Some ra" by (simp add: settlements_ok_def in_jget)
      then have "toLowerCase tx0 = tx0" using ok by (auto simp: settlements_ok_def dest: rows_allD)
      with g r0 ev(4) have "same_credit ra r" by simp
      with ev(3) have "credit_backed ev r" by (simp add: credit_backed_cong)
      then show ?thesis using credit_backed_cong [OF verify_row_credit] by simp
    qed
    have "confirmed (S \<union> set events) q ?k (verify_row d r)"
    proof (cases "st_verified r")
      case True
      with Q show ?thesis by (simp add: verify_row_def)
    next
      case False
      have "toLowerCase (ev_txHash ev) = ?k" using ev(2,4) by simp
      then have "tx_backed ev ?k (verify_row d r)" by (rule verify_row_backed [OF ev(4) _ False])
      with cred ev(1) show ?thesis by (auto simp: confirmed_def)
    qed
    moreover have "same_credit r0 (verify_row d r)" using r0(2) by (simp add: same_credit_def verify_row_def)
    ultimately show "?Q ?k (verify_row d r)" using r0(1) by blast
  qed (auto simp: same_credit_def)
  then show ?thesis by (simp add: rows_all_def)
qed

lemma confirmed_step:
  assumes rows: "rows_all (confirmed S q) t" and ok: "settlements_ok t" and qe: "q \<longrightarrow> quiet e"
  shows "rows_all (confirmed (S \<union> set (answered_events [e])) q) (settle_step mx e t)"
proof (cases e)
  case (Push p)
  with rows confirmed_pushes [of S q t "[p]"] show ?thesis
    by (simp add: settle_step_def answered_events_def)
next
  case (Prune n)
  with rows show ?thesis by (simp add: settle_step_def answered_events_def rows_all_prune)
next
  case (Turn opts latest answer ps)
  have sw: "rows_all (confirmed S q) (swept mx opts l t)" for l
    unfolding swept_def using rows by (rule rows_all_quarantine) simp
  have grow: "rows_all (confirmed (S \<union> A) q) u" if "rows_all (confirmed S q) u" for A u
    using that confirmed_mono [of S q _ _ "S \<union> A"] by (simp add: rows_all_def)
  show ?thesis
  proof (rule turn_cases [of latest mx opts answer "fold do_push ps" t])
    fix l events active a b
    assume c: "answer = Inr events" "verify_begin mx (pass_opts opts l) t = (Some (active, a, b), swept mx opts l t)"
      "snd (verify_turn mx opts latest (\<lambda>_ _. answer) (fold do_push ps) t) =
         snd (snd (verify_end active events (fold do_push ps (swept mx opts l t))))"
    have sub: "set active \<subseteq> set (swept mx opts l t)"
      using verify_begin_active(1) [OF c(2)] list_unverified_in by fastforce
    have "q \<longrightarrow> set active \<subseteq> set (fold do_push ps (swept mx opts l t))"
      using qe Turn sub by (simp add: quiet_def)
    from confirmed_end [OF confirmed_pushes [OF sw] ok_pushes [OF ok_swept [OF ok]] this, of events]
    show ?thesis using c(1,3) by (simp add: Turn settle_step_def answered_events_def)
  qed (use rows sw grow confirmed_pushes in \<open>simp_all add: Turn settle_step_def\<close>)
qed

lemma answered_append: "answered_events (es @ es') = answered_events es @ answered_events es'"
  by (simp add: answered_events_def)

lemma confirmed_run: "rows_all (confirmed (set (answered_events es)) (list_all quiet es)) (fold (settle_step mx) es [])"
proof (induction es rule: rev_induct)
  case (snoc e es)
  let ?q = "list_all quiet (es @ [e])"
  have "rows_all (confirmed (set (answered_events es)) ?q) (fold (settle_step mx) es [])"
    using snoc by (auto simp: rows_all_def confirmed_def)
  from confirmed_step [OF this ok_run, of e] show ?case
    by (simp add: answered_append settlements_ok_def rows_all_def)
qed (simp add: rows_all_def)

text \<open> C38.
  A verified row happened: in every run of pushes, verifier turns (whatever the node answers, whatever
  is pushed while it answers) and prunings, a row that is marked verified has the transaction hash of
  an event the node reported, and carries the fees of that event.  If no push arrives while a query is
  awaited, that event also has the nullifiers of the row and names the relayers the row credits.
\<close>
theorem verified_rows_backed:
  "jget (fold (settle_step mx) es []) tx = Some r \<Longrightarrow> st_verified r \<Longrightarrow>
   \<exists>ev \<in> set (answered_events es). tx_backed ev tx r \<and> (list_all quiet es \<longrightarrow> credit_backed ev r)"
  using rows_allD [OF confirmed_run] unfolding confirmed_def by blast

section \<open>A push during the query\<close>

lemma begin_one_row:
  assumes "\<not> st_verified r" "st_verifyAttempts r < mx" "st_chainId r = c" "st_blockNumber r \<le> b"
  shows "verify_begin mx \<lparr>vo_chainId = c, vo_maxBlock = Some b, vo_limit = Some (Suc n), vo_maxBlockRange = Some (int w),
    vo_futureBlockThreshold = None\<rparr> [(tx, r)] = (Some ([(tx, r)], st_blockNumber r, st_blockNumber r), [(tx, r)])"
  using assms by (simp add: verify_begin_def listUnverifiedSettlements_def Let_def)

lemma match_one_row:
  assumes "toLowerCase (ev_txHash ev) = toLowerCase tx" "credit_backed ev r"
  shows "matchSettlements [(tx, r)] [ev] = ([\<lparr>vd_txHash = tx, vd_blockTime = ev_blockTime ev,
    vd_feeMaker = ev_feeTokenMaker ev, vd_feeTaker = ev_feeTokenTaker ev\<rparr>], [])"
  using assms by (simp add: matchSettlements_def byPair_def match_row_def credit_backed_def eqAddr_sym)

text \<open> A push during the query steals a settlement.  Take an honest unverified row without attestation and
  the event that confirms it.  If, while the verifier waits for that event, another relayer pushes a
  record with the same transaction hash that credits itself, the push evicts the honest row and the
  verifier, which marks rows by transaction hash only, verifies the row of the other relayer.
\<close>
lemma push_during_query_is_verified:
  assumes row: "\<not> st_verified r" "st_verifyAttempts r < mx" "st_chainId r = c" "st_blockNumber r \<le> b"
      "st_eventMakerRelayer r = None" "toLowerCase tx = tx"
    and event: "toLowerCase (ev_txHash ev) = tx" "credit_backed ev r"
    and other: "parseSettlementInsert (pu_body p) = Inr q" "si_txHash q = tx"
      "push_refusal (pu_membership p) (toLowerCase (pu_relayer p)) q = None"
      "toLowerCase (si_makerRelayer q) \<noteq> st_makerRelayer r"
  shows "\<exists>r'. jget (snd (runVerifyPass mx \<lparr>vo_chainId = c, vo_maxBlock = Some b, vo_limit = Some (Suc n),
      vo_maxBlockRange = Some (int w), vo_futureBlockThreshold = None\<rparr> (\<lambda>_ _. Inr [ev]) (do_push p) [(tx, r)])) tx = Some r' \<and>
    st_verified r' \<and> st_makerRelayer r' = toLowerCase (si_makerRelayer q) \<and>
    st_submitter r' = toLowerCase (pu_relayer p)"
proof -
  let ?d = "\<lparr>vd_txHash = tx, vd_blockTime = ev_blockTime ev, vd_feeMaker = ev_feeTokenMaker ev, vd_feeTaker = ev_feeTokenTaker ev\<rparr>"
  let ?n = "refilled (pu_orders p) (toLowerCase (pu_relayer p)) q (pu_now p) (Some r)"
  have free: "slot_free (toLowerCase (pu_relayer p)) q (Some r)"
    using row(1,5) other(4) by (auto simp: slot_free_def evictable_def)
  have "do_push p [(tx, r)] = snd (insertSettlement (pu_orders p) (toLowerCase (pu_relayer p)) q (pu_now p) [(tx, r)])"
    using post_parsed [OF other(1)] other(3) by (simp add: do_push_def)
  then have g: "jget (do_push p [(tx, r)]) tx = Some ?n"
    using free other(2) by (simp add: insert_slot) (simp add: jget_def)
  have "jget (snd (runVerifyPass mx \<lparr>vo_chainId = c, vo_maxBlock = Some b, vo_limit = Some (Suc n),
      vo_maxBlockRange = Some (int w), vo_futureBlockThreshold = None\<rparr> (\<lambda>_ _. Inr [ev]) (do_push p) [(tx, r)])) tx =
     Some (verify_row ?d ?n)"
    using row(6) event g
    by (simp add: runVerifyPass_def begin_one_row [OF row(1-4)] verify_end_def match_one_row
        recordVerifyFailures_def recordEventAttribution_def attributions_def)
  moreover have "st_makerRelayer ?n = toLowerCase (si_makerRelayer q)" "st_submitter ?n = toLowerCase (pu_relayer p)"
    using row(5) by (simp_all add: refilled_def new_settlement_def Let_def)
  ultimately show ?thesis by (simp add: verify_row_def)
qed

section \<open>Attested rows\<close>

text \<open>The slot of an attested row: still the old row, or one of the attested relayers with the attestation.\<close>

definition attested_slot :: "string \<Rightarrow> string option \<Rightarrow> settlement_row \<Rightarrow> settlement_row \<Rightarrow> bool" where
  "attested_slot m tk r0 r \<longleftrightarrow> \<not> st_verified r \<and> st_eventMakerRelayer r = Some m \<and> st_eventTakerRelayer r = tk \<and>
     (r = r0 \<or> st_makerRelayer r = m \<and> (st_takerRelayer r = None \<or> st_takerRelayer r = tk))"

lemma attested_push:
  assumes g: "jget t tx = Some r" and a: "attested_slot m tk r0 r" and m: "m \<noteq> []"
  shows "\<exists>r'. jget (do_push p t) tx = Some r' \<and> attested_slot m tk r0 r'"
proof (cases p t rule: push_cases)
  case refused
  with g a show ?thesis by simp
next
  case (inserted q)
  let ?s = "toLowerCase (pu_relayer p)"
  show ?thesis
  proof (cases "tx = si_txHash q \<and> slot_free ?s q (Some r)")
    case False
    then have "jget (do_push p t) tx = Some r" using g unfolding inserted(2) insert_slot(2) by auto
    with a show ?thesis by blast
  next
    case True
    let ?r = "refilled (pu_orders p) ?s q (pu_now p) (Some r)"
    have "jget (do_push p t) tx = Some ?r" using g True unfolding inserted(2) insert_slot(2) by auto
    moreover have "toLowerCase (si_makerRelayer q) = m \<and>
        (lower_truthy (si_takerRelayer q) = None \<or> lower_truthy (si_takerRelayer q) = tk)"
      using True a by (auto simp: slot_free_def evictable_def attested_slot_def)
    then have "attested_slot m tk r0 ?r"
      using a m by (auto simp: attested_slot_def refilled_def new_settlement_def Let_def)
    ultimately show ?thesis by blast
  qed
qed

text \<open> An attestation sticks.  Once the verifier has recorded on an unverified row which relayers the event
  names, no sequence of pushes by anyone removes the row or changes the attestation, and the record
  under that transaction hash is either still the old one or one whose maker is the attested maker
  and whose taker is absent or the attested taker.
\<close>
lemma attestation_sticks:
  "jget t tx = Some r0 \<Longrightarrow> \<not> st_verified r0 \<Longrightarrow> st_eventMakerRelayer r0 = Some m \<Longrightarrow> m \<noteq> [] \<Longrightarrow>
   \<exists>r. jget (fold do_push ps t) tx = Some r \<and> attested_slot m (st_eventTakerRelayer r0) r0 r"
proof -
  assume g: "jget t tx = Some r0" and r0: "\<not> st_verified r0" "st_eventMakerRelayer r0 = Some m" and m: "m \<noteq> []"
  let ?tk = "st_eventTakerRelayer r0"
  have "\<exists>r'. jget (fold do_push ps t) tx = Some r' \<and> attested_slot m ?tk r0 r'"
    if "jget t tx = Some r" "attested_slot m ?tk r0 r" for t r
    using that
  proof (induction ps arbitrary: t r)
    case (Cons p ps)
    from attested_push [OF Cons.prems m, of p] Cons.IH show ?case by fastforce
  next
    case Nil
    show ?case by (rule exI [of _ r]) (use Nil in simp)
  qed
  moreover have "attested_slot m ?tk r0 r0" using r0 by (simp add: attested_slot_def)
  ultimately show ?thesis using g by blast
qed

section \<open>Repeated pushes\<close>

lemma refilled_same_credit:
  "\<not> slot_free s p (Some (refilled tbl s p now old))"
proof -
  let ?n = "refilled tbl s p now old"
  have "st_submitter ?n = toLowerCase s" "st_makerRelayer ?n = toLowerCase (si_makerRelayer p)"
    "st_takerRelayer ?n = lower_truthy (si_takerRelayer p)"
    by (simp_all add: refilled_def new_settlement_def Let_def split: option.split)
  then show ?thesis by (simp add: slot_free_def evictable_def)
qed

lemma retained_after_insert:
  "\<not> slot_free s p (jget (snd (insertSettlement tbl s p now t)) (si_txHash p))"
  by (simp add: insert_slot refilled_same_credit)

text \<open> A push can be repeated.  When a push was answered 201 or 200, the same push again, at any later
  time and whatever orders the table holds by then, is answered 200 with the same hash and changes
  nothing: in particular it does not restart the count of verification attempts.
\<close>
lemma repeated_push_is_noop:
  "postSettlement membership tbl s body now t = ((res, h), t') \<Longrightarrow> res \<in> {200, 201} \<Longrightarrow>
   postSettlement membership tbl' s body now' t' = ((200, h), t')"
proof (cases "parseSettlementInsert body")
  case (Inr p)
  assume run: "postSettlement membership tbl s body now t = ((res, h), t')" and c: "res \<in> {200, 201}"
  let ?s = "toLowerCase s"
  have none: "push_refusal membership ?s p = None"
    using run c unfolding post_parsed [OF Inr] by (auto split: option.splits)
  with run have t': "t' = snd (insertSettlement tbl ?s p now t)" and h: "h = si_txHash p"
    unfolding post_parsed [OF Inr] by (simp_all split: if_splits)
  have "\<not> slot_free ?s p (jget t' (si_txHash p))" unfolding t' by (rule retained_after_insert)
  then show ?thesis unfolding post_parsed [OF Inr] none using h insert_retained by simp
qed (simp add: postSettlement_def)

section \<open>The backlog\<close>

text \<open>The failed attempts a table still allows for the unverified rows of a chain up to a block.\<close>

definition row_budget :: "nat \<Rightarrow> int \<Rightarrow> int \<Rightarrow> settlement_row \<Rightarrow> nat" where
  "row_budget mx c b r = (if \<not> st_verified r \<and> st_chainId r = c \<and> st_blockNumber r \<le> b then mx - st_verifyAttempts r else 0)"

definition attempts_left :: "nat \<Rightarrow> int \<Rightarrow> int \<Rightarrow> settlements \<Rightarrow> nat" where
  "attempts_left mx c b t = sum_list (map (\<lambda>(_, r). row_budget mx c b r) t)"

text \<open>Updates that keep the keys and never raise the weight of a row.\<close>

definition lighter :: "(settlement_row \<Rightarrow> nat) \<Rightarrow> settlements \<Rightarrow> settlements \<Rightarrow> bool" where
  "lighter w t t' \<longleftrightarrow> map fst t' = map fst t \<and>
     (\<forall>k r. jget t k = Some r \<longrightarrow> (\<exists>r'. jget t' k = Some r' \<and> w r' \<le> w r))"

lemma lighter_refl: "lighter w t t"
  by (simp add: lighter_def)

lemma lighter_trans: "lighter w t t' \<Longrightarrow> lighter w t' t'' \<Longrightarrow> lighter w t t''"
  unfolding lighter_def by (metis order_trans)

lemma lighterD: "lighter w t t' \<Longrightarrow> jget t k = Some r \<Longrightarrow> \<exists>r'. jget t' k = Some r' \<and> w r' \<le> w r"
  by (simp add: lighter_def)

lemma lighter_jmodify: "(\<And>r. w (f r) \<le> w r) \<Longrightarrow> lighter w t (jmodify k f t)"
  by (simp add: lighter_def)

lemma lighter_map: "(\<And>r. w (f r) \<le> w r) \<Longrightarrow> lighter w t (map (\<lambda>(k, r). (k, f r)) t)"
  unfolding lighter_def keys_map_values by (simp add: jget_map_values)

lemma weight_sum:
  "jmap_ok t \<Longrightarrow> sum_list (map (\<lambda>(_, r). w r) t) = (\<Sum>k \<in> fst ` set t. w (the (jget t k)))"
proof (induction t)
  case (Cons p t)
  obtain k r where p: "p = (k, r)" by (cases p)
  from Cons.prems p have n: "k \<notin> fst ` set t" and ok: "jmap_ok t" by (auto simp: jmap_ok_def)
  have "(\<Sum>k' \<in> fst ` set t. w (the (jget (p # t) k'))) = (\<Sum>k' \<in> fst ` set t. w (the (jget t k')))"
    using n p by (intro sum.cong) (auto simp: jget_def)
  then show ?case using n p Cons.IH [OF ok] by (simp add: jget_def)
qed simp

lemma lighter_sum_le:
  assumes ok: "jmap_ok t" and l: "lighter w t t'"
  shows "sum_list (map (\<lambda>(_, r). w r) t') \<le> sum_list (map (\<lambda>(_, r). w r) t)"
proof -
  have keys: "map fst t' = map fst t" using l by (simp add: lighter_def)
  then have ok': "jmap_ok t'" using ok by (simp add: jmap_ok_def)
  have dom: "fst ` set t' = fst ` set t" using arg_cong [OF keys, of set] by simp
  show ?thesis unfolding weight_sum [OF ok] weight_sum [OF ok'] dom
  proof (rule sum_mono)
    fix k assume "k \<in> fst ` set t"
    then obtain r where "jget t k = Some r" using ok by (auto simp: in_jget)
    from lighterD [OF l this] this show "w (the (jget t' k)) \<le> w (the (jget t k))" by auto
  qed
qed

lemma lighter_sum_less:
  assumes ok: "jmap_ok t" and l: "lighter w t t'" and strict: "jget t k = Some r" "jget t' k = Some r'" "w r' < w r"
  shows "sum_list (map (\<lambda>(_, r). w r) t') < sum_list (map (\<lambda>(_, r). w r) t)"
proof -
  have keys: "map fst t' = map fst t" using l by (simp add: lighter_def)
  then have ok': "jmap_ok t'" using ok by (simp add: jmap_ok_def)
  have dom: "fst ` set t' = fst ` set t" using arg_cong [OF keys, of set] by simp
  show ?thesis unfolding weight_sum [OF ok] weight_sum [OF ok'] dom
  proof (rule sum_strict_mono_ex1)
    show "\<forall>k \<in> fst ` set t. w (the (jget t' k)) \<le> w (the (jget t k))"
    proof
      fix k assume "k \<in> fst ` set t"
      then obtain r where "jget t k = Some r" using ok by (auto simp: in_jget)
      from lighterD [OF l this] this show "w (the (jget t' k)) \<le> w (the (jget t k))" by auto
    qed
    have "k \<in> fst ` set t" using jget_in [OF strict(1)] by force
    then show "\<exists>k \<in> fst ` set t. w (the (jget t' k)) < w (the (jget t k))"
      by (rule bexI [rotated]) (use strict in simp)
  qed simp
qed

lemma lighter_mark: "lighter (row_budget mx c b) t (snd (markSettlementsVerified es t))"
proof (induction es arbitrary: t)
  case (Cons e es)
  have "lighter (row_budget mx c b) t (jmodify (toLowerCase (vd_txHash e)) (verify_row e) t)"
    by (rule lighter_jmodify) (simp add: row_budget_def verify_row_def)
  from lighter_trans [OF this Cons.IH] show ?case by (simp add: Let_def split_beta)
qed (simp add: lighter_refl)

abbreviation bump :: "string \<Rightarrow> settlements \<Rightarrow> settlements" where
  "bump h \<equiv> jmodify (toLowerCase h) (\<lambda>r. if st_verified r then r else r\<lparr>st_verifyAttempts := st_verifyAttempts r + 1\<rparr>)"

lemma lighter_bump: "lighter (row_budget mx c b) t (bump h t)"
  by (rule lighter_jmodify) (auto simp: row_budget_def)

lemma lighter_failures: "lighter (row_budget mx c b) t (recordVerifyFailures txs t)"
  unfolding recordVerifyFailures_def
proof (induction txs arbitrary: t)
  case (Cons h txs)
  from lighter_trans [OF lighter_bump Cons.IH] show ?case by simp
qed (simp add: lighter_refl)

lemma lighter_attributions: "lighter (row_budget mx c b) t (recordEventAttribution us t)"
  unfolding recordEventAttribution_def
proof (induction us arbitrary: t)
  case (Cons u us)
  obtain tx m tk where u: "u = (tx, m, tk)" by (cases u) auto
  have "lighter (row_budget mx c b) t (attest_row (toLowerCase m) (Some (toLowerCase tk)) (toLowerCase tx) t)"
    unfolding attest_row_def by (rule lighter_jmodify) (simp add: row_budget_def)
  from lighter_trans [OF this Cons.IH] show ?case by (simp add: u)
qed (simp add: lighter_refl)

lemma lighter_swept: "lighter (row_budget mx c b) t (swept mx opts l t)"
  unfolding swept_def quarantine_map by (rule lighter_map) (auto simp: row_budget_def quarantine_row_def)

lemma lighter_end: "lighter (row_budget mx c b) t (snd (snd (verify_end active events t)))"
proof -
  obtain ms us where mu: "matchSettlements active events = (ms, us)" by fastforce
  have "snd (snd (verify_end active events t)) = recordEventAttribution (attributions us)
      (recordVerifyFailures (map fst us) (snd (markSettlementsVerified ms t)))"
    using mu by (simp add: verify_end_def split_beta Let_def)
  then show ?thesis
    using lighter_trans [OF lighter_trans [OF lighter_mark lighter_failures] lighter_attributions] by metis
qed

text \<open>A row that is marked or whose failure is recorded loses budget.\<close>

lemma mark_strict:
  assumes "\<exists>e \<in> set es. toLowerCase (vd_txHash e) = k" "jget t k = Some r" "0 < row_budget mx c b r"
  shows "\<exists>r'. jget (snd (markSettlementsVerified es t)) k = Some r' \<and> row_budget mx c b r' < row_budget mx c b r"
  using assms
proof (induction es arbitrary: t)
  case (Cons e es)
  let ?t = "jmodify (toLowerCase (vd_txHash e)) (verify_row e) t"
  show ?case
  proof (cases "toLowerCase (vd_txHash e) = k")
    case True
    with Cons.prems(2) have "jget ?t k = Some (verify_row e r)" by simp
    from lighterD [OF lighter_mark this]
    obtain r' where r': "jget (snd (markSettlementsVerified es ?t)) k = Some r'"
      "row_budget mx c b r' \<le> row_budget mx c b (verify_row e r)" by blast
    have "row_budget mx c b (verify_row e r) = 0" by (simp add: row_budget_def verify_row_def)
    with r' Cons.prems(3) show ?thesis by (simp add: Let_def split_beta)
  next
    case False
    then have "jget ?t k = Some r" using Cons.prems(2) by simp
    from Cons.IH [OF _ this Cons.prems(3)] Cons.prems(1) False show ?thesis
      by (simp add: Let_def split_beta)
  qed
qed simp

lemma failures_strict:
  assumes "k \<in> toLowerCase ` set hs" "jget t k = Some r" "0 < row_budget mx c b r"
  shows "\<exists>r'. jget (recordVerifyFailures hs t) k = Some r' \<and> row_budget mx c b r' < row_budget mx c b r"
  using assms
proof (induction hs arbitrary: t)
  case (Cons h hs)
  have fold: "recordVerifyFailures (h # hs) t = recordVerifyFailures hs (bump h t)"
    by (simp add: recordVerifyFailures_def)
  show ?case
  proof (cases "toLowerCase h = k")
    case True
    let ?r = "if st_verified r then r else r\<lparr>st_verifyAttempts := st_verifyAttempts r + 1\<rparr>"
    from True Cons.prems(2) have "jget (bump h t) k = Some ?r" by simp
    from lighterD [OF lighter_failures [of mx c b] this]
    obtain r' where r': "jget (recordVerifyFailures hs (bump h t)) k = Some r'"
      "row_budget mx c b r' \<le> row_budget mx c b ?r" by blast
    have "row_budget mx c b ?r < row_budget mx c b r"
      using Cons.prems(3) by (auto simp: row_budget_def split: if_splits)
    with r' show ?thesis unfolding fold by (intro exI [of _ r']) simp
  next
    case False
    then have "jget (bump h t) k = Some r" using Cons.prems(2) by simp
    from Cons.IH [OF _ this Cons.prems(3)] Cons.prems(1) False show ?thesis unfolding fold by simp
  qed
qed simp

lemma end_strict:
  assumes row: "(k, r0) \<in> set active" "toLowerCase k = k" and g: "jget t k = Some r" and w: "0 < row_budget mx c b r"
  shows "\<exists>r'. jget (snd (snd (verify_end active events t))) k = Some r' \<and> row_budget mx c b r' < row_budget mx c b r"
proof -
  obtain ms us where mu: "matchSettlements active events = (ms, us)" by fastforce
  let ?t1 = "snd (markSettlementsVerified ms t)"
  let ?t2 = "recordVerifyFailures (map fst us) ?t1"
  have fin: "snd (snd (verify_end active events t)) = recordEventAttribution (attributions us) ?t2"
    using mu by (simp add: verify_end_def split_beta Let_def)
  have "\<exists>r'. jget ?t2 k = Some r' \<and> row_budget mx c b r' < row_budget mx c b r"
  proof (cases "match_row (byPair events) k r0")
    case (Inr d)
    then have "\<exists>(tx, r) \<in> set active. match_row (byPair events) tx r = Inr d" using row(1) by blast
    then have "d \<in> set ms" unfolding match_in(1) [symmetric] mu by simp
    moreover have "vd_txHash d = k" by (rule match_row_decision [OF Inr]) simp
    ultimately have "\<exists>e \<in> set ms. toLowerCase (vd_txHash e) = k" using row(2) by auto
    from mark_strict [OF this g w] obtain r1 where r1: "jget ?t1 k = Some r1"
      "row_budget mx c b r1 < row_budget mx c b r" by blast
    from lighterD [OF lighter_failures [of mx c b] r1(1)]
    obtain r2 where "jget ?t2 k = Some r2" "row_budget mx c b r2 \<le> row_budget mx c b r1" by blast
    with r1(2) show ?thesis by (intro exI [of _ r2]) simp
  next
    case (Inl u)
    then have "\<exists>r. (k, r) \<in> set active \<and> match_row (byPair events) k r = Inl u" using row(1) by blast
    then have "(k, u) \<in> set us" unfolding match_in(2) [symmetric] mu by simp
    then have us: "k \<in> toLowerCase ` set (map fst us)" using row(2) by force
    from lighterD [OF lighter_mark g] obtain r1 where r1: "jget ?t1 k = Some r1"
      "row_budget mx c b r1 \<le> row_budget mx c b r" by blast
    show ?thesis
    proof (cases "0 < row_budget mx c b r1")
      case True
      from failures_strict [OF us r1(1) True]
      obtain r2 where "jget ?t2 k = Some r2" "row_budget mx c b r2 < row_budget mx c b r1" by blast
      with r1(2) show ?thesis by (intro exI [of _ r2]) simp
    next
      case False
      from lighterD [OF lighter_failures [of mx c b] r1(1)]
      obtain r2 where "jget ?t2 k = Some r2" "row_budget mx c b r2 \<le> row_budget mx c b r1" by blast
      with w False show ?thesis by (intro exI [of _ r2]) simp
    qed
  qed
  then obtain r2 where r2: "jget ?t2 k = Some r2" "row_budget mx c b r2 < row_budget mx c b r" by blast
  from lighterD [OF lighter_attributions [of mx c b] r2(1)]
  obtain r3 where "jget (recordEventAttribution (attributions us) ?t2) k = Some r3"
    "row_budget mx c b r3 \<le> row_budget mx c b r2" by blast
  with r2(2) show ?thesis unfolding fin by (intro exI [of _ r3]) simp
qed

lemma sort_key_first: "sort_key f xs = y # ys \<Longrightarrow> x \<in> set xs \<Longrightarrow> f y \<le> f x"
proof -
  assume s: "sort_key f xs = y # ys" and x: "x \<in> set xs"
  have "sorted (map f (y # ys))" using sorted_sort_key [of f xs] s by simp
  moreover have "x \<in> set (y # ys)" using x set_sort [of f xs] s by simp
  ultimately show ?thesis by auto
qed

text \<open>The first row of a pass is among the oldest; it stays in the window of the pass.\<close>

lemma begin_first:
  assumes row: "(k, r) \<in> set t1" "\<not> st_verified r" "st_verifyAttempts r < mx" "st_chainId r = vo_chainId opts"
      "st_blockNumber r \<le> b"
    and opts: "vo_maxBlock opts = Some mb" "b \<le> mb" "vo_limit opts = Some n" "0 < n"
    and begin_t1: "snd (verify_begin mx opts t) = t1"
  shows "\<exists>active x y k0 r0. verify_begin mx opts t = (Some (active, x, y), t1) \<and> (k0, r0) \<in> set active \<and>
     (k0, r0) \<in> set t1 \<and> \<not> st_verified r0 \<and> st_verifyAttempts r0 < mx \<and> st_chainId r0 = vo_chainId opts \<and>
     st_blockNumber r0 \<le> b"
proof -
  let ?P = "\<lambda>(_ :: string, r). \<not> st_verified r \<and> st_verifyAttempts r < mx \<and> st_chainId r = vo_chainId opts \<and> st_blockNumber r \<le> mb"
  let ?sorted = "sort_key (\<lambda>(_, r). st_blockNumber r) (sort_key fst (filter ?P t1))"
  have mem: "(k, r) \<in> set (sort_key fst (filter ?P t1))" using row opts(2) by simp
  then have "?sorted \<noteq> []" using set_sort [of "\<lambda>(_, r). st_blockNumber r" "sort_key fst (filter ?P t1)"]
    by (metis empty_iff empty_set)
  then obtain p ps where cons: "?sorted = p # ps" by (meson neq_Nil_conv)
  obtain k0 r0 where p: "p = (k0, r0)" by (cases p)
  have le: "st_blockNumber r0 \<le> st_blockNumber r" using sort_key_first [OF cons mem] p by simp
  have p_in: "p \<in> set (filter ?P t1)" using arg_cong [OF cons, of set] by simp
  let ?rows = "listUnverifiedSettlements mx (Some (vo_chainId opts)) (vo_maxBlock opts) (vo_limit opts) t1"
  obtain rest where rows: "?rows = p # rest"
    using cons opts(1,3,4) by (cases n) (auto simp: listUnverifiedSettlements_def)
  let ?t1 = "case vo_futureBlockThreshold opts of None \<Rightarrow> t
     | Some b \<Rightarrow> quarantineFutureSettlements mx (Some (vo_chainId opts)) b t"
  have t1: "?t1 = t1"
    using begin_t1 by (simp add: verify_begin_def Let_def split: list.splits prod.splits)
  have "\<exists>active x y. verify_begin mx opts t = (Some (active, x, y), t1) \<and> p \<in> set active"
    unfolding verify_begin_def Let_def t1 rows p
    by (simp split: option.split)
  then show ?thesis using p p_in le row(5) by fastforce
qed

lemma turn_budget:
  assumes ok: "settlements_ok t" and opts: "0 < vl_limitPerPass opts" "b \<le> max 0 (l - vl_blockSafetyMargin opts)"
  shows "attempts_left mx (vl_chainId opts) b (settle_step mx (Turn opts (Inr l) (Inr events) []) t)
           \<le> attempts_left mx (vl_chainId opts) b t - 1"
proof -
  let ?c = "vl_chainId opts" and ?o = "pass_opts opts l"
  let ?w = "row_budget mx ?c b"
  let ?t1 = "swept mx opts l t"
  let ?t' = "settle_step mx (Turn opts (Inr l) (Inr events) []) t"
  have ok1: "settlements_ok ?t1" using ok by (rule ok_swept)
  then have j1: "jmap_ok ?t1" and j: "jmap_ok t" using ok by (simp_all add: settlements_ok_def)
  have le1: "attempts_left mx ?c b ?t1 \<le> attempts_left mx ?c b t"
    unfolding attempts_left_def using j lighter_swept by (rule lighter_sum_le)
  show ?thesis
  proof (cases "\<exists>k r. (k, r) \<in> set ?t1 \<and> 0 < ?w r")
    case True
    then obtain k r where kr: "(k, r) \<in> set ?t1" "0 < ?w r" by blast
    then have r: "\<not> st_verified r" "st_verifyAttempts r < mx" "st_chainId r = vo_chainId ?o" "st_blockNumber r \<le> b"
      by (auto simp: row_budget_def pass_opts_def split: if_splits)
    from begin_first [OF kr(1) r _ opts(2) _ opts(1) begin_swept] obtain active x y k0 r0 where
      bg: "verify_begin mx ?o t = (Some (active, x, y), ?t1)" and r0: "(k0, r0) \<in> set active" "(k0, r0) \<in> set ?t1"
        "\<not> st_verified r0" "st_verifyAttempts r0 < mx" "st_chainId r0 = vo_chainId ?o" "st_blockNumber r0 \<le> b"
      by (auto simp: pass_opts_def)
    have t': "?t' = snd (snd (verify_end active events ?t1))"
      using bg by (simp add: settle_step_def turn_answered)
    have g: "jget ?t1 k0 = Some r0" using r0(2) j1 by (simp add: in_jget)
    have low: "toLowerCase k0 = k0" using ok1 g by (auto simp: settlements_ok_def dest: rows_allD)
    have w0: "0 < ?w r0" using r0(3-6) by (simp add: row_budget_def pass_opts_def)
    from end_strict [OF r0(1) low g w0] obtain r' where
      "jget ?t' k0 = Some r'" "?w r' < ?w r0" unfolding t' by blast
    then have "attempts_left mx ?c b ?t' < attempts_left mx ?c b ?t1"
      unfolding attempts_left_def using lighter_sum_less [OF j1 lighter_end g] t' by simp
    with le1 show ?thesis by simp
  next
    case False
    then have "\<forall>p \<in> set ?t1. (case p of (_, r) \<Rightarrow> ?w r) = 0" by auto
    then have z: "attempts_left mx ?c b ?t1 = 0" unfolding attempts_left_def by simp
    have "lighter ?w ?t1 ?t'"
      by (rule turn_cases [of "Inr l" mx opts "Inr events" "fold do_push []" t])
         (simp_all add: settle_step_def lighter_refl lighter_end)
    then have "attempts_left mx ?c b ?t' \<le> attempts_left mx ?c b ?t1"
      unfolding attempts_left_def by (rule lighter_sum_le [OF j1])
    with z show ?thesis by simp
  qed
qed

text \<open> C39.
  The backlog drains.  Take any reachable table, a block B at or below the safe head of every one of
  a sequence of answered verifier turns, and let the turns be at least as many as the failed attempts
  that the unverified rows up to B still have.  Then, whatever the answers were and however narrow the
  window and the limit of a pass, every row of the chain up to B is verified or quarantined: no row at
  an old block blocks the ones behind it.
\<close>
theorem backlog_drains:
  "t = fold (settle_step mx) es [] \<Longrightarrow> 0 < vl_limitPerPass opts \<Longrightarrow>
   \<forall>(l, evs) \<in> set turns. b \<le> max 0 (l - vl_blockSafetyMargin opts) \<Longrightarrow>
   attempts_left mx (vl_chainId opts) b t \<le> length turns \<Longrightarrow>
   jget (fold (\<lambda>(l, evs). settle_step mx (Turn opts (Inr l) (Inr evs) [])) turns t) tx = Some r \<Longrightarrow>
   st_chainId r = vl_chainId opts \<Longrightarrow> st_blockNumber r \<le> b \<Longrightarrow> st_verified r \<or> mx \<le> st_verifyAttempts r"
proof -
  assume t: "t = fold (settle_step mx) es []" and lims: "0 < vl_limitPerPass opts"
    and heads: "\<forall>(l, evs) \<in> set turns. b \<le> max 0 (l - vl_blockSafetyMargin opts)"
    and many: "attempts_left mx (vl_chainId opts) b t \<le> length turns"
    and r: "jget (fold (\<lambda>(l, evs). settle_step mx (Turn opts (Inr l) (Inr evs) [])) turns t) tx = Some r"
      "st_chainId r = vl_chainId opts" "st_blockNumber r \<le> b"
  let ?f = "\<lambda>(l, evs). settle_step mx (Turn opts (Inr l) (Inr evs) [])"
  have "settlements_ok t" unfolding t by (rule ok_run) (simp add: settlements_ok_def rows_all_def)
  then have "attempts_left mx (vl_chainId opts) b (fold ?f turns t) = 0" using heads many
  proof (induction turns arbitrary: t)
    case (Cons turn turns)
    obtain l evs where turn: "turn = (l, evs)" by (cases turn)
    have "attempts_left mx (vl_chainId opts) b (?f turn t) \<le> attempts_left mx (vl_chainId opts) b t - 1"
      using turn_budget [OF Cons.prems(1) lims] Cons.prems(2) turn by simp
    then show ?case using Cons.IH [of "?f turn t"] Cons.prems ok_step turn by simp
  qed simp
  then have "row_budget mx (vl_chainId opts) b r = 0"
    using jget_in [OF r(1)] by (auto simp: attempts_left_def)
  then show ?thesis using r(2,3) by (auto simp: row_budget_def split: if_splits)
qed

section \<open>The cap\<close>

lemma filter_suffix:
  assumes d: "distinct (map fst xs)" and p: "mset ys = mset xs"
  shows "mset (filter (\<lambda>(k, _). k \<notin> set (map fst (take n xs))) ys) = mset (drop n xs)"
proof -
  let ?P = "\<lambda>(k, _). k \<notin> set (map fst (take n xs))"
  have split: "distinct (map fst (take n xs) @ map fst (drop n xs))"
    using d by (simp flip: map_append)
  have "filter ?P xs = filter ?P (take n xs @ drop n xs)" by simp
  also have "\<dots> = drop n xs"
  proof -
    have "filter ?P (take n xs) = []" by (force simp: filter_empty_conv)
    moreover have "filter ?P (drop n xs) = drop n xs"
      using split by (intro filter_True) force
    ultimately show ?thesis by (simp only: filter_append append_Nil)
  qed
  finally have "filter ?P xs = drop n xs" .
  moreover have "mset (filter ?P ys) = mset (filter ?P xs)" using p by (simp only: mset_filter)
  ultimately show ?thesis by simp
qed

lemma prune_spec:
  assumes "jmap_ok t" "1 \<le> n" "n < int (length t)"
  shows "mset (pruneSettlements n t) = mset (drop (length t - nat n) (sort_key (\<lambda>(_, r). st_createdAt r) t))"
proof -
  let ?s = "sort_key (\<lambda>(_, r). st_createdAt r) t"
  have m: "mset t = mset ?s" by simp
  then have "mset (map fst ?s) = mset (map fst t)" by simp
  then have "distinct (map fst ?s)" using assms(1) unfolding jmap_ok_def by (metis mset_eq_imp_distinct_iff)
  from filter_suffix [OF this m, of "length t - nat n"] show ?thesis
    using assms(2,3) by (simp add: pruneSettlements_def Let_def)
qed

text \<open> The cap keeps the newest records.  Pruning to a positive cap leaves exactly as many rows as the cap
  allows (all of them if there are fewer), leaves those rows as they are, and every row it removes was
  inserted no later than every row it keeps, whatever block number the row claims.
\<close>
lemma prune_keeps_newest:
  "jmap_ok t \<Longrightarrow> 1 \<le> n \<Longrightarrow>
   length (pruneSettlements n t) = min (nat n) (length t) \<and> set (pruneSettlements n t) \<subseteq> set t \<and>
   (\<forall>(k, r) \<in> set t - set (pruneSettlements n t). \<forall>(k', r') \<in> set (pruneSettlements n t). st_createdAt r \<le> st_createdAt r')"
proof (cases "n < int (length t)")
  case True
  assume ok: "jmap_ok t" and n: "1 \<le> n"
  let ?f = "\<lambda>(_ :: string, r). st_createdAt r"
  let ?s = "sort_key ?f t" and ?d = "length t - nat n"
  note m = prune_spec [OF ok n True]
  have set: "set (pruneSettlements n t) = set (drop ?d ?s)" using arg_cong [OF m, of set_mset] by simp
  have len: "length (pruneSettlements n t) = nat n" using arg_cong [OF m, of size] True n by simp
  have "sorted (map ?f (take ?d ?s) @ map ?f (drop ?d ?s))"
    by (simp only: append_take_drop_id sorted_sort_key flip: map_append)
  then have le: "\<forall>p \<in> set (take ?d ?s). \<forall>p' \<in> set (drop ?d ?s). ?f p \<le> ?f p'" by (simp add: sorted_append)
  have all: "set t = set (take ?d ?s) \<union> set (drop ?d ?s)"
    by (simp only: append_take_drop_id set_sort flip: set_append)
  show ?thesis
  proof (intro conjI)
    show "length (pruneSettlements n t) = min (nat n) (length t)" using len True n by simp
    show "set (pruneSettlements n t) \<subseteq> set t" using set all by blast
    show "\<forall>(k, r) \<in> set t - set (pruneSettlements n t). \<forall>(k', r') \<in> set (pruneSettlements n t). st_createdAt r \<le> st_createdAt r'"
      unfolding set all using le by fastforce
  qed
next
  case False
  then have "pruneSettlements n t = t" by (simp add: pruneSettlements_def)
  with False show ?thesis by auto
qed

end
