(* ===== verification/SettlementSamples.thy ===== *)
theory SettlementSamples
  imports SettlementsFacts
begin

text \<open>
  Concrete records, events and runs on which the hypotheses of the settlement properties hold.
\<close>

definition hex_text :: "nat \<Rightarrow> char \<Rightarrow> string" where "hex_text n c = ''0x'' @ replicate n c"

definition sample_body :: "char \<Rightarrow> raw_settlement" where
  "sample_body c = \<lparr>rs_txHash = VString (hex_text 64 (CHR ''a'')), rs_chainId = VInt 1, rs_blockNumber = VInt 7,
     rs_blockTime = VUndefined, rs_makerRelayer = VString (hex_text 40 c), rs_takerRelayer = VUndefined,
     rs_makerOrderId = VUndefined, rs_takerOrderId = VUndefined,
     rs_makerNullifier = VString (hex_text 64 (CHR ''1'')), rs_takerNullifier = VString (hex_text 64 (CHR ''2'')),
     rs_feeMaker = VString ''5'', rs_feeTaker = VString ''6'', rs_userMaxFeeMaker = VInt 30, rs_userMaxFeeTaker = VInt 30,
     rs_sellToken = VUndefined, rs_buyToken = VUndefined, rs_sellAmount = VUndefined, rs_buyAmount = VUndefined,
     rs_type = VUndefined\<rparr>"

definition sample_push :: "char \<Rightarrow> push" where
  "sample_push c = \<lparr>pu_membership = None, pu_orders = [], pu_relayer = hex_text 40 c, pu_body = Some (sample_body c), pu_now = 9\<rparr>"

definition sample_event :: "char \<Rightarrow> settled_event" where
  "sample_event c = \<lparr>ev_txHash = hex_text 64 (CHR ''a''), ev_blockNumber = 7, ev_blockTime = Some 8,
     ev_makerNullifier = hex_text 64 (CHR ''1''), ev_takerNullifier = hex_text 64 (CHR ''2''),
     ev_makerRelayer = hex_text 40 c, ev_takerRelayer = hex_text 40 (CHR ''0''),
     ev_feeTokenMaker = Some ''3'', ev_feeTokenTaker = Some ''4''\<rparr>"

definition sample_opts :: verify_loop_opts where
  "sample_opts = \<lparr>vl_chainId = 1, vl_blockSafetyMargin = 2, vl_limitPerPass = 1, vl_maxBlockRange = Some 0,
     vl_futureBlockBuffer = None\<rparr>"

definition sample_row :: "char \<Rightarrow> settlement_row" where
  "sample_row c = \<lparr>st_chainId = 1, st_blockNumber = 7, st_blockTime = None, st_submitter = hex_text 40 c,
     st_makerRelayer = hex_text 40 c, st_takerRelayer = None, st_makerOrderId = None, st_takerOrderId = None,
     st_makerNullifier = hex_text 64 (CHR ''1''), st_takerNullifier = hex_text 64 (CHR ''2''),
     st_sellToken = None, st_buyToken = None, st_sellAmount = None, st_buyAmount = None,
     st_feeMaker = ''5'', st_feeTaker = ''6'', st_userMaxFeeMaker = 30, st_userMaxFeeTaker = 30,
     st_verified = False, st_verifyAttempts = 0, st_eventMakerRelayer = None, st_eventTakerRelayer = None,
     st_type = None, st_createdAt = 9\<rparr>"

definition sample_run :: "settle_event list" where
  "sample_run = [Push (sample_push (CHR ''b'')), Turn sample_opts (Inr 20) (Inr [sample_event (CHR ''b'')]) []]"

lemma sample_pushed: "do_push (sample_push (CHR ''b'')) [] = [(hex_text 64 (CHR ''a''), sample_row (CHR ''b''))]"
  by code_simp

lemma sample_lower:
  "toLowerCase (hex_text 64 (CHR ''a'')) = hex_text 64 (CHR ''a'')"
  "toLowerCase (hex_text 40 (CHR ''b'')) = hex_text 40 (CHR ''b'')"
  "toLowerCase (hex_text 40 (CHR ''c'')) = hex_text 40 (CHR ''c'')"
  by code_simp+

lemma sample_differ: "hex_text 40 (CHR ''c'') \<noteq> hex_text 40 (CHR ''b'')" "hex_text n c \<noteq> []"
  by (simp_all add: hex_text_def)

lemma sample_credit: "credit_backed (sample_event c) (sample_row c)"
  by (simp add: credit_backed_def sample_event_def sample_row_def eqAddr_iff sample_differ truthy_def)

lemma sample_turn:
  assumes mx: "0 < mx"
  shows "settle_step mx (Turn sample_opts (Inr 20) (Inr [sample_event (CHR ''b'')]) []) [(hex_text 64 (CHR ''a''), sample_row (CHR ''b''))] =
     [(hex_text 64 (CHR ''a''), (sample_row (CHR ''b''))
        \<lparr>st_verified := True, st_blockTime := Some 8, st_feeMaker := ''3'', st_feeTaker := ''4''\<rparr>)]"
proof -
  let ?t = "[(hex_text 64 (CHR ''a''), sample_row (CHR ''b''))]"
  have sw: "swept mx sample_opts 20 ?t = ?t"
    by (simp add: swept_def quarantine_map quarantine_row_def sample_row_def sample_opts_def)
  have b: "verify_begin mx (pass_opts sample_opts 20) ?t = (Some (?t, 7, 7), ?t)"
    using sw mx by (simp add: verify_begin_def pass_opts_def swept_def sample_opts_def sample_row_def
        listUnverifiedSettlements_def Let_def)
  have "toLowerCase (ev_txHash (sample_event (CHR ''b''))) = toLowerCase (hex_text 64 (CHR ''a''))"
    by (simp add: sample_event_def)
  note m = match_one_row [OF this sample_credit]
  show ?thesis
    by (simp add: settle_step_def turn_answered b verify_end_def m sample_lower recordVerifyFailures_def
        recordEventAttribution_def attributions_def jmodify_def verify_row_def keep_or_def)
       (simp add: sample_row_def sample_event_def keep_or_def Let_def)
qed

lemma sample_verified:
  "fold (settle_step 3) sample_run [] =
     [(hex_text 64 (CHR ''a''), (sample_row (CHR ''b''))
        \<lparr>st_verified := True, st_blockTime := Some 8, st_feeMaker := ''3'', st_feeTaker := ''4''\<rparr>)]"
proof -
  have "settle_step 3 (Push (sample_push (CHR ''b''))) [] = [(hex_text 64 (CHR ''a''), sample_row (CHR ''b''))]"
    using sample_pushed by (simp add: settle_step_def)
  then show ?thesis by (simp add: sample_run_def sample_turn [of 3])
qed

theorem verified_rows_backed_witness:
  "\<exists>ev \<in> set (answered_events sample_run). tx_backed ev (hex_text 64 (CHR ''a''))
     ((sample_row (CHR ''b''))\<lparr>st_verified := True, st_blockTime := Some 8, st_feeMaker := ''3'', st_feeTaker := ''4''\<rparr>)"
  using verified_rows_backed [of 3 sample_run "hex_text 64 (CHR ''a'')"] by (auto simp: sample_verified jget_def)

lemma push_during_query_is_verified_witness:
  "\<exists>r'. jget (snd (runVerifyPass 3 \<lparr>vo_chainId = 1, vo_maxBlock = Some 9, vo_limit = Some 1,
      vo_maxBlockRange = Some 5, vo_futureBlockThreshold = None\<rparr> (\<lambda>_ _. Inr [sample_event (CHR ''b'')])
      (do_push (sample_push (CHR ''c''))) [(hex_text 64 (CHR ''a''), sample_row (CHR ''b''))])) (hex_text 64 (CHR ''a'')) = Some r' \<and>
     st_verified r' \<and> st_makerRelayer r' = hex_text 40 (CHR ''c'')"
proof -
  obtain q where q: "parseSettlementInsert (pu_body (sample_push (CHR ''c''))) = Inr q"
    "si_txHash q = hex_text 64 (CHR ''a'')" "si_makerRelayer q = hex_text 40 (CHR ''c'')"
  proof -
    let ?q = "projr (parseSettlementInsert (pu_body (sample_push (CHR ''c''))))"
    have "parseSettlementInsert (pu_body (sample_push (CHR ''c''))) = Inr ?q \<and> si_txHash ?q = hex_text 64 (CHR ''a'') \<and>
       si_makerRelayer ?q = hex_text 40 (CHR ''c'')"
      by code_simp
    then show ?thesis using that by blast
  qed
  have "push_refusal (pu_membership (sample_push (CHR ''c''))) (toLowerCase (pu_relayer (sample_push (CHR ''c'')))) q = None"
    using q(3) by (simp add: push_refusal_def sample_push_def)
  note other = q(1,2) this
  have row: "\<not> st_verified (sample_row (CHR ''b''))" "st_verifyAttempts (sample_row (CHR ''b'')) < 3"
    "st_chainId (sample_row (CHR ''b'')) = 1" "st_blockNumber (sample_row (CHR ''b'')) \<le> 9"
    "st_eventMakerRelayer (sample_row (CHR ''b'')) = None"
    by (simp_all add: sample_row_def)
  have "toLowerCase (ev_txHash (sample_event (CHR ''b''))) = hex_text 64 (CHR ''a'')"
    by (simp add: sample_event_def sample_lower)
  from push_during_query_is_verified [OF row sample_lower(1) this sample_credit other, of 0 5]
  show ?thesis using q(3) by (auto simp: sample_row_def sample_lower sample_differ)
qed

lemma attestation_sticks_witness:
  "\<exists>r. jget (fold do_push [sample_push (CHR ''c''), sample_push (CHR ''b'')]
      [(hex_text 64 (CHR ''a''), (sample_row (CHR ''c''))\<lparr>st_eventMakerRelayer := Some (hex_text 40 (CHR ''b''))\<rparr>)])
      (hex_text 64 (CHR ''a'')) = Some r \<and> st_eventMakerRelayer r = Some (hex_text 40 (CHR ''b''))"
proof -
  let ?r = "(sample_row (CHR ''c''))\<lparr>st_eventMakerRelayer := Some (hex_text 40 (CHR ''b''))\<rparr>"
  let ?t = "[(hex_text 64 (CHR ''a''), ?r)]"
  have g: "jget ?t (hex_text 64 (CHR ''a'')) = Some ?r" by (simp add: jget_def)
  have r: "\<not> st_verified ?r" "st_eventMakerRelayer ?r = Some (hex_text 40 (CHR ''b''))" by (simp_all add: sample_row_def)
  from attestation_sticks [OF g r sample_differ(2), of "[sample_push (CHR ''c''), sample_push (CHR ''b'')]"]
  show ?thesis unfolding attested_slot_def by blast
qed

lemma repeated_push_is_noop_witness:
  "postSettlement None [] (hex_text 40 (CHR ''b'')) (Some (sample_body (CHR ''b''))) 50
     [(hex_text 64 (CHR ''a''), sample_row (CHR ''b''))] =
   ((200, hex_text 64 (CHR ''a'')), [(hex_text 64 (CHR ''a''), sample_row (CHR ''b''))])"
proof -
  have "postSettlement None [] (hex_text 40 (CHR ''b'')) (Some (sample_body (CHR ''b''))) 9 [] =
     ((201, hex_text 64 (CHR ''a'')), [(hex_text 64 (CHR ''a''), sample_row (CHR ''b''))])"
    by code_simp
  from repeated_push_is_noop [OF this] show ?thesis by simp
qed

theorem backlog_drains_witness:
  "\<exists>r. jget (fold (\<lambda>(l, evs). settle_step 1 (Turn sample_opts (Inr l) (Inr evs) [])) [(20, [sample_event (CHR ''b'')])]
      (fold (settle_step 1) [Push (sample_push (CHR ''b''))] [])) (hex_text 64 (CHR ''a'')) = Some r \<and>
    (st_verified r \<or> 1 \<le> st_verifyAttempts r)"
proof -
  have t: "fold (settle_step 1) [Push (sample_push (CHR ''b''))] [] = [(hex_text 64 (CHR ''a''), sample_row (CHR ''b''))]"
    using sample_pushed by (simp add: settle_step_def)
  have w: "attempts_left 1 1 7 [(hex_text 64 (CHR ''a''), sample_row (CHR ''b''))] \<le> 1"
    by (simp add: attempts_left_def row_budget_def)
  show ?thesis
    using backlog_drains [OF refl, of sample_opts "[(20, [sample_event (CHR ''b'')])]" 7 1
        "[Push (sample_push (CHR ''b''))]" "hex_text 64 (CHR ''a'')"] w sample_turn [of 1]
    unfolding t by (simp add: sample_opts_def jget_def sample_row_def)
qed

lemma prune_keeps_newest_witness:
  "length (pruneSettlements 1 [(''x'', sample_row (CHR ''b'')), (''y'', sample_row (CHR ''c''))]) = 1"
  using prune_keeps_newest [of "[(''x'', sample_row (CHR ''b'')), (''y'', sample_row (CHR ''c''))]" 1]
  by (simp add: jmap_ok_def)

end
