(* ===== verification/Notes.thy ===== *)
theory Notes
  imports AuthorizeOrder MerkleTree
begin

text \<open>
  The client SDK: notes, the Poseidon hashes of the protocol and the circuit tiers
  (\<open>packages/sdk/src/zk/commitment.ts\<close>, \<open>tags.ts\<close>, \<open>constants.ts\<close>).  Poseidon is the parameter \<open>P\<close>;
  what the code relies on is that an output is a field element.  Randomness is an input.
\<close>

section \<open>Notes and hashes\<close>

definition TAG_ESCROW_NULL :: int where "TAG_ESCROW_NULL = 0"
definition TAG_NONCE_NULL :: int where "TAG_NONCE_NULL = 1"
definition TAG_CLAIM_NULL :: int where "TAG_CLAIM_NULL = 2"
definition TAG_COMMITMENT_V2 :: int where "TAG_COMMITMENT_V2 = 3"

lemmas tag_defs = TAG_ESCROW_NULL_def TAG_NONCE_NULL_def TAG_CLAIM_NULL_def TAG_COMMITMENT_V2_def

record commitment_note =
  cn_ownerSecret :: int
  cn_token :: int
  cn_amount :: int
  cn_salt :: int
  cn_pubKeyAx :: int
  cn_pubKeyAy :: int

record merkle_proof =
  mp_root :: int
  mp_pathElements :: "int list"
  mp_pathIndices :: "nat list"

type_synonym poseidon = "int list \<Rightarrow> int"

abbreviation field :: int where "field \<equiv> BN254_FIELD_MODULUS"

abbreviation hash2 :: "poseidon \<Rightarrow> int \<Rightarrow> int \<Rightarrow> int" where "hash2 P \<equiv> (\<lambda>a b. P [a, b])"

definition computeCommitment :: "poseidon \<Rightarrow> commitment_note \<Rightarrow> int" where
  "computeCommitment P n =
     P [TAG_COMMITMENT_V2, cn_ownerSecret n, cn_token n, cn_amount n, cn_salt n, cn_pubKeyAx n, cn_pubKeyAy n]"

definition computeNullifier :: "poseidon \<Rightarrow> commitment_note \<Rightarrow> int" where
  "computeNullifier P n = P [TAG_ESCROW_NULL, cn_ownerSecret n, cn_salt n]"

definition computeNonceNullifier :: "poseidon \<Rightarrow> int \<Rightarrow> int \<Rightarrow> int" where
  "computeNonceNullifier P ownerSecret nonce = P [TAG_NONCE_NULL, ownerSecret, nonce]"

definition computeClaimNullifier :: "poseidon \<Rightarrow> int \<Rightarrow> int \<Rightarrow> int \<Rightarrow> int" where
  "computeClaimNullifier P secret leafIndex root = P [TAG_CLAIM_NULL, secret, leafIndex, root]"

text \<open>None is the exception of \<open>BigInt(token)\<close>.\<close>

definition computeTokenHash :: "poseidon \<Rightarrow> string \<Rightarrow> int option" where
  "computeTokenHash P token = map_option (\<lambda>t. P [t]) (js_BigInt token)"

definition toBytes32Hex :: "int \<Rightarrow> string" where
  "toBytes32Hex v = hexPad 64 v"

definition claimSecretPreimage :: "int \<Rightarrow> string \<Rightarrow> string \<Rightarrow> int \<Rightarrow> int \<Rightarrow> nat \<Rightarrow> int list option" where
  "claimSecretPreimage seed recipient token amount releaseTime index =
     Option.bind (js_BigInt recipient) (\<lambda>r. map_option (\<lambda>t. [seed, r, t, amount, releaseTime, int index]) (js_BigInt token))"

definition deriveClaimSecret :: "poseidon \<Rightarrow> int \<Rightarrow> string \<Rightarrow> string \<Rightarrow> int \<Rightarrow> int \<Rightarrow> nat \<Rightarrow> int option" where
  "deriveClaimSecret P seed recipient token amount releaseTime index =
     map_option P (claimSecretPreimage seed recipient token amount releaseTime index)"

text \<open>
  \<open>randomFieldElement\<close>: the successive draws of 32 bytes are the argument; the first one below the
  modulus is taken.  None: every draw that was made is rejected and the loop goes on.
\<close>

definition draw_value :: "int list \<Rightarrow> int" where
  "draw_value bytes = (case bytes of [] \<Rightarrow> 0
     | b # bs \<Rightarrow> fold (\<lambda>b v. v * 256 + b) (b mod 64 # bs) 0)"

fun randomFieldElement :: "int list list \<Rightarrow> int option" where
  "randomFieldElement [] = None"
| "randomFieldElement (d # ds) = (let v = draw_value d in if v < field then Some v else randomFieldElement ds)"

text \<open>The two random elements of a new note are arguments.\<close>

definition generateNote :: "int \<Rightarrow> int \<Rightarrow> string \<Rightarrow> int \<Rightarrow> int \<times> int \<Rightarrow> commitment_note option" where
  "generateNote rnd1 rnd2 token amount pubKey = map_option (\<lambda>t.
     \<lparr>cn_ownerSecret = rnd1, cn_token = t, cn_amount = amount, cn_salt = rnd2, cn_pubKeyAx = fst pubKey,
      cn_pubKeyAy = snd pubKey\<rparr>) (js_BigInt token)"

section \<open>Tiers\<close>

definition COMMIT_TREE_DEPTH :: nat where "COMMIT_TREE_DEPTH = 20"

record circuit_tier =
  ct_cap :: nat
  ct_depth :: nat

definition TIER_16 :: circuit_tier where "TIER_16 = \<lparr>ct_cap = 16, ct_depth = 4\<rparr>"
definition TIER_64 :: circuit_tier where "TIER_64 = \<lparr>ct_cap = 64, ct_depth = 6\<rparr>"
definition TIER_128 :: circuit_tier where "TIER_128 = \<lparr>ct_cap = 128, ct_depth = 7\<rparr>"

definition TIERS :: "circuit_tier list" where "TIERS = [TIER_16, TIER_64, TIER_128]"
definition ACTIVE_TIERS :: "circuit_tier list" where "ACTIVE_TIERS = [TIER_16, TIER_64, TIER_128]"

lemmas tier_defs = TIERS_def ACTIVE_TIERS_def TIER_16_def TIER_64_def TIER_128_def

text \<open>None is the exception; an integer count is given, so the only invalid counts are not positive.\<close>

definition pickTier :: "int \<Rightarrow> circuit_tier option" where
  "pickTier n = (if n \<le> 0 then None else find (\<lambda>t. n \<le> int (ct_cap t)) TIERS)"

definition pickActiveTier :: "int \<Rightarrow> circuit_tier option" where
  "pickActiveTier n = (if n \<le> 0 then None else if ACTIVE_TIERS = [] then None
     else case find (\<lambda>t. n \<le> int (ct_cap t)) ACTIVE_TIERS of Some t \<Rightarrow> Some t | None \<Rightarrow> Some (last ACTIVE_TIERS))"

definition padClaims :: "'a list \<Rightarrow> circuit_tier \<Rightarrow> 'a \<Rightarrow> 'a list option" where
  "padClaims claims tr dummy = (if ct_cap tr < length claims then None
     else Some (claims @ replicate (ct_cap tr - length claims) dummy))"

definition tier_ok :: "circuit_tier \<Rightarrow> bool" where
  "tier_ok t \<longleftrightarrow> ct_cap t = 2 ^ ct_depth t \<and> 1 \<le> ct_depth t \<and> ct_depth t \<le> 7"

lemma tiers_ok: "t \<in> set TIERS \<Longrightarrow> tier_ok t"
  by (auto simp: tier_defs tier_ok_def)

lemma pickActiveTier_cases:
  "0 < n \<Longrightarrow> pickActiveTier n = Some (if n \<le> 16 then TIER_16 else if n \<le> 64 then TIER_64 else TIER_128)"
  by (simp add: pickActiveTier_def tier_defs)

lemma draw_value_bounds:
  assumes "\<forall>b \<in> set bytes. 0 \<le> b" shows "0 \<le> draw_value bytes"
proof -
  have "0 \<le> fold (\<lambda>b v. v * 256 + b) bs v" if "\<forall>b \<in> set bs. 0 \<le> b" "0 \<le> v" for bs and v :: int
    using that by (induction bs arbitrary: v) auto
  then show ?thesis using assms by (auto simp: draw_value_def split: list.splits)
qed

lemma random_in_field:
  "randomFieldElement ds = Some v \<Longrightarrow> \<forall>d \<in> set ds. \<forall>b \<in> set d. 0 \<le> b \<Longrightarrow> 0 \<le> v \<and> v < field"
  by (induction ds) (auto simp: Let_def draw_value_bounds split: if_splits)

end
