(* ===== verification/ClientProofs.thy ===== *)
theory ClientProofs
  imports Notes
begin

text \<open>
  What the SDK computes before it calls the prover (\<open>packages/sdk/src/zk/circuits/claim.ts\<close>,
  \<open>authorize.ts\<close>, \<open>withdraw.ts\<close>, \<open>cancel.ts\<close>, \<open>deposit.ts\<close>): the checks, the claims tree and the signals.
  Signals are integers where the code passes decimal strings.  The signature scheme and the prover are
  arguments: \<open>sign key msg\<close> is \<open>signEdDSA\<close>, and \<open>prove\<close> is \<open>snarkjs.groth16.fullProve\<close>, which throws or
  returns a proof and the public signals.
\<close>

section \<open>Claims\<close>

record claim_entry =
  ce_secret :: int
  ce_recipient :: string
  ce_token :: string
  ce_amount :: int
  ce_releaseTime :: int

text \<open>None is the exception of \<open>BigInt\<close> on a recipient or token that is no numeral.\<close>

definition claim_leaf :: "poseidon \<Rightarrow> claim_entry \<Rightarrow> int option" where
  "claim_leaf P c = Option.bind (js_BigInt (ce_recipient c)) (\<lambda>r. map_option (\<lambda>t.
     P [ce_secret c, r, t, ce_amount c, ce_releaseTime c]) (js_BigInt (ce_token c)))"

fun all_some :: "'a option list \<Rightarrow> 'a list option" where
  "all_some [] = Some []"
| "all_some (x # xs) = (case x of None \<Rightarrow> None | Some v \<Rightarrow> map_option (Cons v) (all_some xs))"

text \<open>The leaves of a tier: one per claim, then zeros.\<close>

definition tier_leaves :: "poseidon \<Rightarrow> claim_entry list \<Rightarrow> circuit_tier \<Rightarrow> int list option" where
  "tier_leaves P claims tr = map_option (\<lambda>ls. ls @ replicate (ct_cap tr - length claims) 0)
     (all_some (map (claim_leaf P) claims))"

definition buildClaimsTree ::
  "poseidon \<Rightarrow> claim_entry list \<Rightarrow> circuit_tier \<Rightarrow> (int \<times> int list list \<times> int list) option" where
  "buildClaimsTree P claims tr = (if ct_cap tr < length claims then None
     else Option.bind (tier_leaves P claims tr) (\<lambda>leaves.
       map_option (\<lambda>b. (bt_root b, bt_layers b, leaves)) (buildMerkleTree (hash2 P) leaves (int (ct_depth tr)))))"

definition singleClaimTree :: "poseidon \<Rightarrow> int list \<Rightarrow> int \<Rightarrow> circuit_tier \<Rightarrow> (int \<times> int list) option" where
  "singleClaimTree P entry leafIndex tr = (if leafIndex < 0 \<or> int (ct_cap tr) \<le> leafIndex then None
     else Some (P entry, (replicate (ct_cap tr) 0)[nat leafIndex := P entry]))"

record claim_input =
  cl_secret :: int
  cl_recipient :: int
  cl_token :: int
  cl_amount :: int
  cl_releaseTime :: int
  cl_leafIndex :: int
  cl_allClaimLeaves :: "int list"
  cl_merkleProof :: "merkle_proof option"

datatype claim_error = LeafIndexRange | PathLength | IndexBits | LeavesLength | WrongClaim | BadTree

definition claim_fromMerkleProof :: "merkle_proof \<Rightarrow> int \<Rightarrow> circuit_tier \<Rightarrow> claim_error + (int \<times> int list \<times> nat list)" where
  "claim_fromMerkleProof p leafIndex tr =
     (if leafIndex < 0 \<or> int (ct_cap tr) \<le> leafIndex then Inl LeafIndexRange
      else if length (mp_pathElements p) \<noteq> ct_depth tr then Inl PathLength
      else if length (mp_pathIndices p) \<noteq> ct_depth tr then Inl PathLength
      else if \<not> list_all (\<lambda>v. v = 0 \<or> v = 1) (mp_pathIndices p) then Inl IndexBits
      else Inr (mp_root p, mp_pathElements p, mp_pathIndices p))"

definition claim_fromLeaves ::
  "poseidon \<Rightarrow> int list \<Rightarrow> int \<Rightarrow> int \<Rightarrow> circuit_tier \<Rightarrow> claim_error + (int \<times> int list \<times> nat list)" where
  "claim_fromLeaves P leaves leafIndex expectedLeaf tr =
     (if length leaves \<noteq> ct_cap tr then Inl LeavesLength
      else if leafIndex < 0 \<or> int (length leaves) \<le> leafIndex then Inl LeafIndexRange
      else if leaves ! nat leafIndex \<noteq> expectedLeaf then Inl WrongClaim
      else case buildMerkleTree (hash2 P) leaves (int (ct_depth tr)) of None \<Rightarrow> Inl BadTree
        | Some b \<Rightarrow> (case getMerkleProof (bt_layers b) leafIndex of None \<Rightarrow> Inl BadTree
            | Some (es, bs) \<Rightarrow> Inr (bt_root b, es, bs)))"

record claim_signals =
  cs_claimsRoot :: int
  cs_nullifier :: int
  cs_amount :: int
  cs_token :: int
  cs_recipient :: int
  cs_releaseTime :: int
  cs_secret :: int
  cs_leafIndex :: int
  cs_pathElements :: "int list"
  cs_pathIndices :: "nat list"

definition claim_circuit_input :: "poseidon \<Rightarrow> claim_input \<Rightarrow> circuit_tier \<Rightarrow> claim_error + claim_signals" where
  "claim_circuit_input P inp tr =
     (case (case cl_merkleProof inp of
        Some p \<Rightarrow> claim_fromMerkleProof p (cl_leafIndex inp) tr
      | None \<Rightarrow> claim_fromLeaves P (cl_allClaimLeaves inp) (cl_leafIndex inp)
          (P [cl_secret inp, cl_recipient inp, cl_token inp, cl_amount inp, cl_releaseTime inp]) tr) of
      Inl e \<Rightarrow> Inl e
    | Inr (root, es, bs) \<Rightarrow> Inr
        \<lparr>cs_claimsRoot = root, cs_nullifier = computeClaimNullifier P (cl_secret inp) (cl_leafIndex inp) root,
         cs_amount = cl_amount inp, cs_token = cl_token inp, cs_recipient = cl_recipient inp,
         cs_releaseTime = cl_releaseTime inp, cs_secret = cl_secret inp, cs_leafIndex = cl_leafIndex inp,
         cs_pathElements = es, cs_pathIndices = bs\<rparr>)"

record 'f claim_result =
  clr_proof :: 'f
  clr_publicSignals :: "int list"
  clr_claimsRoot :: int
  clr_nullifier :: int

datatype claim_failure = ClaimInput claim_error | ClaimProver string | ClaimNoSignals

definition generateClaimProof ::
  "poseidon \<Rightarrow> (claim_signals \<Rightarrow> string + 'f \<times> int list) \<Rightarrow> claim_input \<Rightarrow> circuit_tier \<Rightarrow> claim_failure + 'f claim_result" where
  "generateClaimProof P prove inp tr = (case claim_circuit_input P inp tr of Inl e \<Rightarrow> Inl (ClaimInput e)
     | Inr s \<Rightarrow> (case prove s of Inl m \<Rightarrow> Inl (ClaimProver m)
       | Inr (pf, pub) \<Rightarrow> if pub = [] then Inl ClaimNoSignals
           else Inr \<lparr>clr_proof = pf, clr_publicSignals = pub, clr_claimsRoot = cs_claimsRoot s, clr_nullifier = cs_nullifier s\<rparr>))"

section \<open>Membership of a note\<close>

datatype membership_error = LeafOutOfRange | LeafMismatch | NoTree | TreeFailed

text \<open>Either a proof made by an incremental tree, or all leaves; used by authorize and cancel.\<close>

definition note_membership ::
  "poseidon \<Rightarrow> int \<Rightarrow> int \<Rightarrow> int list option \<Rightarrow> merkle_proof option \<Rightarrow> membership_error + (int \<times> int list \<times> nat list)" where
  "note_membership P commitment leafIndex allLeaves merkleProof =
     (case merkleProof of Some p \<Rightarrow> Inr (mp_root p, mp_pathElements p, mp_pathIndices p)
      | None \<Rightarrow> (case allLeaves of None \<Rightarrow> Inl NoTree
        | Some ls \<Rightarrow>
            if leafIndex < 0 \<or> int (length ls) \<le> leafIndex then Inl LeafOutOfRange
            else if ls ! nat leafIndex \<noteq> commitment then Inl LeafMismatch
            else (case buildMerkleTree (hash2 P) ls (int COMMIT_TREE_DEPTH) of None \<Rightarrow> Inl TreeFailed
              | Some b \<Rightarrow> (case getMerkleProof (bt_layers b) leafIndex of None \<Rightarrow> Inl TreeFailed
                | Some (es, bs) \<Rightarrow> Inr (bt_root b, es, bs)))))"

section \<open>Authorize\<close>

record 'k authorize_input =
  ai_note :: commitment_note
  ai_leafIndex :: int
  ai_allLeaves :: "int list option"
  ai_merkleProof :: "merkle_proof option"
  ai_sellAmount :: int
  ai_buyToken :: string
  ai_buyAmount :: int
  ai_maxFee :: int
  ai_expiry :: int
  ai_nonce :: int
  ai_relayer :: string
  ai_eddsaPrivateKey :: 'k
  ai_claims :: "claim_entry list"
  ai_newSalt :: "int option"

datatype authorize_error = NoClaims | TooManyClaims | SellExceedsNote | ClaimToken nat | FeeTooHigh
  | ClaimsFallShort | Membership membership_error | NotANumber | ProverFailed string | NoPublicSignals

fun first_foreign_token :: "string \<Rightarrow> nat \<Rightarrow> claim_entry list \<Rightarrow> nat option" where
  "first_foreign_token tok i [] = None"
| "first_foreign_token tok i (c # cs) =
     (if toLowerCase (ce_token c) \<noteq> tok then Some i else first_foreign_token tok (Suc i) cs)"

definition authorize_precheck :: "'k authorize_input \<Rightarrow> circuit_tier \<Rightarrow> authorize_error option" where
  "authorize_precheck inp tr =
     (if ai_claims inp = [] then Some NoClaims
      else if ct_cap tr < length (ai_claims inp) then Some TooManyClaims
      else if cn_amount (ai_note inp) < ai_sellAmount inp then Some SellExceedsNote
      else case first_foreign_token (toLowerCase (ai_buyToken inp)) 0 (ai_claims inp) of Some i \<Rightarrow> Some (ClaimToken i)
      | None \<Rightarrow>
        if 10000 < ai_maxFee inp then Some FeeTooHigh
        else if sum_list (map ce_amount (ai_claims inp)) * 10000 < ai_buyAmount inp * (10000 - ai_maxFee inp)
        then Some ClaimsFallShort else None)"

text \<open>The residual note; the salt falls back on a random one when the caller gives none.\<close>

definition change_note :: "commitment_note \<Rightarrow> int \<Rightarrow> int \<Rightarrow> commitment_note" where
  "change_note n spent salt = n\<lparr>cn_amount := cn_amount n - spent, cn_salt := salt\<rparr>"

definition residual :: "poseidon \<Rightarrow> 'k authorize_input \<Rightarrow> int \<Rightarrow> int \<times> int" where
  "residual P inp rnd = (if 0 < cn_amount (ai_note inp) - ai_sellAmount inp
     then let salt = (case ai_newSalt inp of Some s \<Rightarrow> s | None \<Rightarrow> rnd) in
       (salt, computeCommitment P (change_note (ai_note inp) (ai_sellAmount inp) salt))
     else (0, 0))"

definition hashAuthorizeOrder :: "poseidon \<Rightarrow> int \<Rightarrow> int \<Rightarrow> int \<Rightarrow> int \<Rightarrow> int \<Rightarrow> int \<Rightarrow> int \<Rightarrow> int \<Rightarrow> int \<Rightarrow> int" where
  "hashAuthorizeOrder P sell buy sellAmt buyAmt fee deadline nonce root rel =
     P [sell, buy, sellAmt, buyAmt, fee, deadline, nonce, root, rel]"

record 's authorize_signals =
  as_commitmentRoot :: int
  as_nullifier :: int
  as_nonceNullifier :: int
  as_newCommitment :: int
  as_sellToken :: int
  as_buyToken :: int
  as_sellAmount :: int
  as_buyAmount :: int
  as_maxFee :: int
  as_expiry :: int
  as_claimsRoot :: int
  as_totalLocked :: int
  as_relayer :: int
  as_orderHash :: int
  as_secret :: int
  as_balance :: int
  as_salt :: int
  as_path :: "int list"
  as_pathIdx :: "nat list"
  as_nonce :: int
  as_newSalt :: int
  as_pubKeyAx :: int
  as_pubKeyAy :: int
  as_sig :: 's
  as_claimSecrets :: "int list"
  as_claimRecipients :: "int list"
  as_claimTokens :: "int list"
  as_claimAmounts :: "int list"
  as_claimReleaseTimes :: "int list"
  as_claimCount :: int

definition padded :: "circuit_tier \<Rightarrow> int list \<Rightarrow> int list" where
  "padded tr xs = xs @ replicate (ct_cap tr - length xs) 0"

text \<open>
  Sections 5 and 6 of \<open>generateAuthorizeProof\<close>: the order hash, its signature and the signals, from the membership
  \<open>(root, es, bs)\<close>, the residual \<open>(newSalt, newCommitment)\<close>, the claims root and the numerals read from the texts.
\<close>

definition assemble_signals ::
  "poseidon \<Rightarrow> ('k \<Rightarrow> int \<Rightarrow> 's) \<Rightarrow> 'k authorize_input \<Rightarrow> circuit_tier \<Rightarrow> int \<times> int list \<times> nat list \<Rightarrow> int \<times> int \<Rightarrow> int \<Rightarrow>
   int \<Rightarrow> int \<Rightarrow> int list \<Rightarrow> int list \<Rightarrow> 's authorize_signals" where
  "assemble_signals P sign inp tr mem res croot buy rel recipients tokens =
     (let note = ai_note inp; cs = ai_claims inp;
          oh = hashAuthorizeOrder P (cn_token note) buy (ai_sellAmount inp) (ai_buyAmount inp) (ai_maxFee inp)
            (ai_expiry inp) (ai_nonce inp) croot rel in
      \<lparr>as_commitmentRoot = fst mem, as_nullifier = computeNullifier P note,
       as_nonceNullifier = computeNonceNullifier P (cn_ownerSecret note) (ai_nonce inp),
       as_newCommitment = snd res, as_sellToken = cn_token note, as_buyToken = buy,
       as_sellAmount = ai_sellAmount inp, as_buyAmount = ai_buyAmount inp, as_maxFee = ai_maxFee inp,
       as_expiry = ai_expiry inp, as_claimsRoot = croot, as_totalLocked = sum_list (map ce_amount cs),
       as_relayer = rel, as_orderHash = oh, as_secret = cn_ownerSecret note, as_balance = cn_amount note,
       as_salt = cn_salt note, as_path = fst (snd mem), as_pathIdx = snd (snd mem), as_nonce = ai_nonce inp,
       as_newSalt = fst res, as_pubKeyAx = cn_pubKeyAx note, as_pubKeyAy = cn_pubKeyAy note,
       as_sig = sign (ai_eddsaPrivateKey inp) oh,
       as_claimSecrets = padded tr (map ce_secret cs), as_claimRecipients = padded tr recipients,
       as_claimTokens = padded tr tokens, as_claimAmounts = padded tr (map ce_amount cs),
       as_claimReleaseTimes = padded tr (map ce_releaseTime cs), as_claimCount = int (length cs)\<rparr>)"

definition authorize_circuit_input ::
  "poseidon \<Rightarrow> ('k \<Rightarrow> int \<Rightarrow> 's) \<Rightarrow> int \<Rightarrow> 'k authorize_input \<Rightarrow> circuit_tier \<Rightarrow> authorize_error + 's authorize_signals" where
  "authorize_circuit_input P sign rnd inp tr =
     (case authorize_precheck inp tr of Some e \<Rightarrow> Inl e | None \<Rightarrow>
      case note_membership P (computeCommitment P (ai_note inp)) (ai_leafIndex inp) (ai_allLeaves inp) (ai_merkleProof inp) of
        Inl e \<Rightarrow> Inl (Membership e)
      | Inr mem \<Rightarrow>
        (case (buildClaimsTree P (ai_claims inp) tr, js_BigInt (ai_buyToken inp), js_BigInt (ai_relayer inp),
              all_some (map (js_BigInt \<circ> ce_recipient) (ai_claims inp)), all_some (map (js_BigInt \<circ> ce_token) (ai_claims inp))) of
          (Some (croot, _), Some buy, Some rel, Some recipients, Some tokens) \<Rightarrow>
            Inr (assemble_signals P sign inp tr mem (residual P inp rnd) croot buy rel recipients tokens)
        | _ \<Rightarrow> Inl NotANumber))"

record 'f authorize_result =
  ar_proof :: 'f
  ar_publicSignals :: "int list"
  ar_pubKeyBind :: int
  ar_commitmentRoot :: int
  ar_nullifier :: int
  ar_nonceNullifier :: int
  ar_newCommitment :: int
  ar_claimsRoot :: int
  ar_totalLocked :: int
  ar_orderHash :: int

definition generateAuthorizeProof ::
  "poseidon \<Rightarrow> ('k \<Rightarrow> int \<Rightarrow> 's) \<Rightarrow> ('s authorize_signals \<Rightarrow> string + 'f \<times> int list) \<Rightarrow> int \<Rightarrow>
   'k authorize_input \<Rightarrow> circuit_tier \<Rightarrow> authorize_error + 'f authorize_result" where
  "generateAuthorizeProof P sign prove rnd inp tr = (case authorize_circuit_input P sign rnd inp tr of Inl e \<Rightarrow> Inl e
     | Inr s \<Rightarrow> (case prove s of Inl m \<Rightarrow> Inl (ProverFailed m)
       | Inr (pf, pub) \<Rightarrow> if pub = [] then Inl NoPublicSignals
           else Inr \<lparr>ar_proof = pf, ar_publicSignals = pub, ar_pubKeyBind = hd pub,
             ar_commitmentRoot = as_commitmentRoot s, ar_nullifier = as_nullifier s,
             ar_nonceNullifier = as_nonceNullifier s, ar_newCommitment = as_newCommitment s,
             ar_claimsRoot = as_claimsRoot s, ar_totalLocked = as_totalLocked s, ar_orderHash = as_orderHash s\<rparr>))"

end
