(* ===== verification/Circuits.thy ===== *)
theory Circuits
  imports ClientProofs
begin

text \<open>
  The statements of the circuits (\<open>circuits/authorize_template.circom\<close>, \<open>claim_template.circom\<close>,
  \<open>withdraw.circom\<close>, \<open>cancel.circom\<close>) as predicates on the signals, and the proofs that what the SDK hands
  to the prover meets them.  A signal is read modulo the field; range checks and comparators of circomlib
  have their documented meaning; \<open>V\<close> is the EdDSA verifier of the circuit on a public key, a signature and
  a message.
\<close>

definition fe :: "int \<Rightarrow> int" where "fe x = x mod field"

definition field_el :: "int \<Rightarrow> bool" where "field_el x \<longleftrightarrow> 0 \<le> x \<and> x < field"

definition hash_fe :: "poseidon \<Rightarrow> poseidon" where "hash_fe P xs = P (map fe xs)"

text \<open>A Merkle proof inside a circuit.\<close>

definition merkle_circuit :: "poseidon \<Rightarrow> nat \<Rightarrow> int \<Rightarrow> int list \<Rightarrow> nat list \<Rightarrow> int \<Rightarrow> bool" where
  "merkle_circuit P depth leaf path idx root \<longleftrightarrow> length path = depth \<and> length idx = depth \<and>
     list_all (\<lambda>b. b = 0 \<or> b = 1) idx \<and> fe root = path_root (hash2 P) leaf (map fe path) idx"

text \<open>\<open>AuthClaimsRoot\<close>: level by level.\<close>

definition level_up :: "(int \<Rightarrow> int \<Rightarrow> int) \<Rightarrow> int list \<Rightarrow> int list" where
  "level_up H xs = map (\<lambda>i. H (xs ! (2 * i)) (xs ! (2 * i + 1))) [0..<length xs div 2]"

definition claims_root_circuit :: "poseidon \<Rightarrow> nat \<Rightarrow> int list \<Rightarrow> int" where
  "claims_root_circuit P d leaves = hd ((level_up (hash2 P) ^^ d) leaves)"

definition slot_used :: "'s authorize_signals \<Rightarrow> nat \<Rightarrow> bool" where
  "slot_used s i \<longleftrightarrow> int i < fe (as_claimCount s)"

definition slot_leaf :: "poseidon \<Rightarrow> 's authorize_signals \<Rightarrow> nat \<Rightarrow> int" where
  "slot_leaf P s i = (if slot_used s i then hash_fe P [as_claimSecrets s ! i, as_claimRecipients s ! i,
     as_claimTokens s ! i, as_claimAmounts s ! i, as_claimReleaseTimes s ! i] else 0)"

text \<open>The conjuncts in the order of the sections 1 to 8 of the template.\<close>

definition authorize_ranges :: "circuit_tier \<Rightarrow> 's authorize_signals \<Rightarrow> bool" where
  "authorize_ranges tr s \<longleftrightarrow> fe (as_sellAmount s) < 2 ^ 126 \<and> fe (as_buyAmount s) < 2 ^ 126 \<and>
     fe (as_balance s) < 2 ^ 128 \<and> fe (as_totalLocked s) < 2 ^ 128 \<and> fe (as_maxFee s) < 2 ^ 16 \<and>
     fe (as_maxFee s) \<le> 10000 \<and> fe (as_claimCount s) < 2 ^ 8 \<and> fe (as_claimCount s) \<le> int (ct_cap tr) \<and>
     (\<forall>i < ct_cap tr. fe (as_claimAmounts s ! i) < 2 ^ 128)"

definition authorize_membership :: "poseidon \<Rightarrow> 's authorize_signals \<Rightarrow> bool" where
  "authorize_membership P s \<longleftrightarrow> merkle_circuit P COMMIT_TREE_DEPTH
     (hash_fe P [TAG_COMMITMENT_V2, as_secret s, as_sellToken s, as_balance s, as_salt s, as_pubKeyAx s, as_pubKeyAy s])
     (as_path s) (as_pathIdx s) (as_commitmentRoot s)"

definition authorize_nullifiers :: "poseidon \<Rightarrow> 's authorize_signals \<Rightarrow> bool" where
  "authorize_nullifiers P s \<longleftrightarrow> fe (as_nullifier s) = hash_fe P [TAG_ESCROW_NULL, as_secret s, as_salt s] \<and>
     fe (as_nonceNullifier s) = hash_fe P [TAG_NONCE_NULL, as_secret s, as_nonce s]"

definition authorize_residual :: "poseidon \<Rightarrow> 's authorize_signals \<Rightarrow> bool" where
  "authorize_residual P s \<longleftrightarrow> fe (as_sellAmount s) \<le> fe (as_balance s) \<and>
     (let rest = fe (as_balance s - as_sellAmount s) in
      fe (as_newCommitment s) = (if rest = 0 then 0 else
        hash_fe P [TAG_COMMITMENT_V2, as_secret s, as_sellToken s, rest, as_newSalt s, as_pubKeyAx s, as_pubKeyAy s]))"

definition authorize_claims :: "poseidon \<Rightarrow> circuit_tier \<Rightarrow> 's authorize_signals \<Rightarrow> bool" where
  "authorize_claims P tr s \<longleftrightarrow>
     (\<forall>i < ct_cap tr. (slot_used s i \<longrightarrow> fe (as_claimTokens s ! i) = fe (as_buyToken s)) \<and>
        (\<not> slot_used s i \<longrightarrow> fe (as_claimAmounts s ! i) = 0)) \<and>
     fe (as_totalLocked s) = fe (\<Sum>i < ct_cap tr. as_claimAmounts s ! i) \<and>
     fe (as_claimsRoot s) = claims_root_circuit P (ct_depth tr) (map (slot_leaf P s) [0..<ct_cap tr])"

definition authorize_receive :: "'s authorize_signals \<Rightarrow> bool" where
  "authorize_receive s \<longleftrightarrow> fe (as_buyAmount s * (10000 - as_maxFee s)) \<le> fe (as_totalLocked s * 10000)"

definition authorize_order_hash :: "poseidon \<Rightarrow> 's authorize_signals \<Rightarrow> int" where
  "authorize_order_hash P s = hash_fe P [as_sellToken s, as_buyToken s, as_sellAmount s, as_buyAmount s, as_maxFee s,
     as_expiry s, as_nonce s, as_claimsRoot s, as_relayer s]"

definition authorize_signed :: "poseidon \<Rightarrow> (int \<times> int \<Rightarrow> 's \<Rightarrow> int \<Rightarrow> bool) \<Rightarrow> 's authorize_signals \<Rightarrow> bool" where
  "authorize_signed P V s \<longleftrightarrow> fe (as_orderHash s) = authorize_order_hash P s \<and>
     V (fe (as_pubKeyAx s), fe (as_pubKeyAy s)) (as_sig s) (authorize_order_hash P s)"

definition authorize_circuit ::
  "poseidon \<Rightarrow> (int \<times> int \<Rightarrow> 's \<Rightarrow> int \<Rightarrow> bool) \<Rightarrow> circuit_tier \<Rightarrow> 's authorize_signals \<Rightarrow> bool" where
  "authorize_circuit P V tr s \<longleftrightarrow> authorize_ranges tr s \<and> authorize_membership P s \<and> authorize_nullifiers P s \<and>
     authorize_residual P s \<and> authorize_claims P tr s \<and> authorize_receive s \<and> authorize_signed P V s"

text \<open>The public signals: the output, then the public inputs in their declared order.\<close>

definition authorize_public :: "poseidon \<Rightarrow> 's authorize_signals \<Rightarrow> int list" where
  "authorize_public P s = hash_fe P [as_pubKeyAx s, as_pubKeyAy s, as_nullifier s] # map fe
     [as_commitmentRoot s, as_nullifier s, as_nonceNullifier s, as_newCommitment s, as_sellToken s, as_buyToken s,
      as_sellAmount s, as_buyAmount s, as_maxFee s, as_expiry s, as_claimsRoot s, as_totalLocked s, as_relayer s,
      as_orderHash s]"

definition claim_circuit :: "poseidon \<Rightarrow> circuit_tier \<Rightarrow> claim_signals \<Rightarrow> bool" where
  "claim_circuit P tr s \<longleftrightarrow>
     merkle_circuit P (ct_depth tr)
       (hash_fe P [cs_secret s, cs_recipient s, cs_token s, cs_amount s, cs_releaseTime s])
       (cs_pathElements s) (cs_pathIndices s) (cs_claimsRoot s) \<and>
     fe (cs_leafIndex s) = fe (\<Sum>i < ct_depth tr. int (cs_pathIndices s ! i) * 2 ^ i) \<and>
     fe (cs_nullifier s) = hash_fe P [TAG_CLAIM_NULL, cs_secret s, cs_leafIndex s, cs_claimsRoot s]"

section \<open>Field elements\<close>

lemma fe_id [simp]: "field_el x \<Longrightarrow> fe x = x"
  by (simp add: fe_def field_el_def)

lemma fe_range [simp]: "field_el (fe x)"
  by (simp add: fe_def field_el_def BN254_FIELD_MODULUS_def)

lemma field_el_small: "0 \<le> x \<Longrightarrow> x < 2 ^ 252 \<Longrightarrow> field_el x"
  by (simp add: field_el_def BN254_FIELD_MODULUS_def)

lemma field_el_0 [simp]: "field_el 0"
  by (simp add: field_el_small)

lemma field_el_tags [simp]:
  "field_el TAG_ESCROW_NULL" "field_el TAG_NONCE_NULL" "field_el TAG_CLAIM_NULL" "field_el TAG_COMMITMENT_V2"
  by (simp_all add: tag_defs field_el_small)

lemma hash_fe_id: "list_all field_el xs \<Longrightarrow> hash_fe P xs = P xs"
  by (simp add: hash_fe_def list_all_iff map_idI)

definition hash_ok :: "poseidon \<Rightarrow> bool" where
  "hash_ok P \<longleftrightarrow> (\<forall>xs. field_el (P xs))"

lemma hash_okD [simp]: "hash_ok P \<Longrightarrow> field_el (P xs)"
  by (simp add: hash_ok_def)

section \<open>Trees\<close>

lemma level_up_layer:
  assumes "layer_at H leaves l (Suc k) xs"
  shows "layer_at H leaves (Suc l) k (level_up H xs)"
  using assms by (simp add: layer_at_def level_up_def)

lemma level_up_root:
  "layer_at H leaves l k xs \<Longrightarrow> hd ((level_up H ^^ k) xs) = node H leaves (l + k) 0"
proof (induction k arbitrary: l xs)
  case 0
  then show ?case by (cases xs) (auto simp: layer_at_def)
next
  case (Suc k)
  have "hd ((level_up H ^^ k) (level_up H xs)) = node H leaves (Suc l + k) 0"
    by (rule Suc.IH) (rule level_up_layer [OF Suc.prems])
  then show ?case by (simp add: funpow_Suc_right del: funpow.simps)
qed

lemma claims_root_node:
  "length leaves = 2 ^ d \<Longrightarrow> claims_root_circuit P d leaves = node (hash2 P) leaves d 0"
  using level_up_root [of "hash2 P" leaves 0 d leaves] by (simp add: claims_root_circuit_def layer_at_def)

lemma node_field: "hash_ok P \<Longrightarrow> list_all field_el xs \<Longrightarrow> field_el (node (hash2 P) xs l j)"
  by (induction l arbitrary: j) (auto simp: list_all_length)

lemma node_path_field:
  "hash_ok P \<Longrightarrow> list_all field_el xs \<Longrightarrow> node_path (hash2 P) xs l k idx = (es, bs) \<Longrightarrow> list_all field_el es"
proof (induction k arbitrary: l idx es bs)
  case (Suc k)
  obtain es' bs' where p: "node_path (hash2 P) xs (Suc l) k (idx div 2) = (es', bs')" by fastforce
  have "list_all field_el es'" by (rule Suc.IH [OF Suc.prems(1,2) p])
  then show ?case using Suc.prems p node_field [OF Suc.prems(1,2)] by auto
qed simp

lemma node_path_bits:
  "node_path H xs l k idx = (es, bs) \<Longrightarrow> idx < 2 ^ k \<Longrightarrow>
   list_all (\<lambda>b. b = 0 \<or> b = 1) bs \<and> (\<Sum>i < k. bs ! i * 2 ^ i) = idx"
proof (induction k arbitrary: l idx es bs)
  case (Suc k)
  obtain es' bs' where p: "node_path H xs (Suc l) k (idx div 2) = (es', bs')" by fastforce
  have ih: "list_all (\<lambda>b. b = 0 \<or> b = 1) bs'" "(\<Sum>i < k. bs' ! i * 2 ^ i) = idx div 2"
    using Suc.IH [OF p] Suc.prems(2) by auto
  have bs: "bs = idx mod 2 # bs'" using Suc.prems(1) p by simp
  have "(\<Sum>i < Suc k. bs ! i * 2 ^ i) = bs ! 0 + (\<Sum>i < k. bs ! Suc i * 2 ^ Suc i)"
    by (subst sum.lessThan_Suc_shift) simp
  also have "\<dots> = idx mod 2 + 2 * (\<Sum>i < k. bs' ! i * 2 ^ i)"
    by (simp add: bs sum_distrib_left algebra_simps)
  also have "\<dots> = idx" using ih(2) by simp
  finally show ?case using ih(1) bs by auto
qed simp

text \<open>A proof taken from a tree over all leaves is one the circuit accepts.\<close>

lemma built_proof_circuit:
  assumes P: "hash_ok P" and leaves: "list_all field_el leaves" "length leaves \<le> 2 ^ d" "i < length leaves"
    and d: "1 \<le> d" "d \<le> 30"
    and b: "buildMerkleTree (hash2 P) leaves (int d) = Some b"
    and p: "getMerkleProof (bt_layers b) (int i) = Some (es, bs)"
  shows "merkle_circuit P d (leaves ! i) es bs (bt_root b) \<and> (\<Sum>j < d. bs ! j * 2 ^ j) = i"
proof -
  obtain b' where b': "buildMerkleTree (hash2 P) leaves (int d) = Some b'" "bt_root b' = node (hash2 P) leaves d 0"
    "\<forall>i. getMerkleProof (bt_layers b') i = (if 0 \<le> i \<and> i < 2 ^ d then Some (node_path (hash2 P) leaves 0 d (nat i)) else None)"
    using build_some [OF d leaves(2)] by blast
  have bb: "b' = b" using b b'(1) by simp
  have i: "i < 2 ^ d" using leaves by simp
  have np: "node_path (hash2 P) leaves 0 d i = (es, bs)" using b'(3) [rule_format, of "int i"] p i unfolding bb by simp
  have "path_root (hash2 P) (node (hash2 P) leaves 0 i) es bs = node (hash2 P) leaves d (i div 2 ^ d)"
    using node_path_root [OF np] by simp
  then have "path_root (hash2 P) (leaves ! i) es bs = bt_root b" using b'(2) bb leaves(3) i by simp
  moreover have "map fe es = es" using node_path_field [OF P leaves(1) np] by (simp add: list_all_iff map_idI)
  moreover have "field_el (bt_root b)" using b'(2) bb node_field [OF P leaves(1)] by simp
  ultimately show ?thesis using node_path_length [OF np] node_path_bits [OF np i] by (simp add: merkle_circuit_def)
qed

end
