(* ===== verification/CircuitFacts.thy ===== *)
theory CircuitFacts
  imports Circuits
begin

text \<open>
  What the SDK hands to the prover meets the statement of the circuit, and what an authorize proof locks can
  be claimed.
\<close>

section \<open>Case of numerals\<close>

lemma lower_eq: "code d < 65 \<or> 122 < code d \<or> 91 \<le> code d \<and> code d \<le> 96 \<Longrightarrow> lower_char c = d \<longleftrightarrow> c = d"
  by (cases "65 \<le> code c \<and> code c \<le> 90") (auto simp: lower_char_def Let_def code_char_of)

lemma is_ws_lower [simp]: "is_ws (lower_char c) = is_ws c"
  by (cases "65 \<le> code c \<and> code c \<le> 90") (auto simp: lower_char_def Let_def code_char_of is_ws_def)

lemma digit_val_lower [simp]: "digit_val (lower_char c) = digit_val c"
  by (cases "65 \<le> code c \<and> code c \<le> 90") (auto simp: lower_char_def Let_def code_char_of digit_val_def)

lemma trim_lower: "trim (map lower_char s) = map lower_char (trim s)"
  by (simp add: trim_def dropWhile_map rev_map comp_def)

lemma parse_digits_lower: "parse_digits r (map lower_char s) = parse_digits r s"
proof -
  have "digits_val r acc (map lower_char s) = digits_val r acc s" for acc
    by (induction s arbitrary: acc) auto
  then show ?thesis by (simp add: parse_digits_def)
qed

lemma lower_letter:
  "97 \<le> code a \<Longrightarrow> code a \<le> 122 \<Longrightarrow> code b + 32 = code a \<Longrightarrow> lower_char c = a \<or> lower_char c = b \<longleftrightarrow> c = a \<or> c = b"
proof (cases "65 \<le> code c \<and> code c \<le> 90")
  case True
  assume a: "97 \<le> code a" "code a \<le> 122" "code b + 32 = code a"
  have "code (lower_char c) = code c + 32" using True by (simp add: lower_char_def Let_def code_char_of)
  then have "code (lower_char c) = code a \<longleftrightarrow> code c = code b" "code (lower_char c) \<noteq> code b" "code c \<noteq> code a"
    using a True by linarith+
  then show ?thesis by simp
next
  case False
  assume a: "97 \<le> code a" "code a \<le> 122" "code b + 32 = code a"
  have "lower_char c = c" using False by (auto simp: lower_char_def)
  then show ?thesis by simp
qed

lemma strip_prefix2_lower:
  assumes "97 \<le> code a" "code a \<le> 122" "code b + 32 = code a"
  shows "strip_prefix2 a b (map lower_char s) = map_option (map lower_char) (strip_prefix2 a b s)"
proof -
  have z: "lower_char c = CHR ''0'' \<longleftrightarrow> c = CHR ''0''" for c by (rule lower_eq) (simp add: code_def)
  show ?thesis using lower_letter [OF assms] z by (auto simp: strip_prefix2_def split: list.splits)
qed

lemma js_BigInt_lower: "js_BigInt (toLowerCase s) = js_BigInt s"
proof -
  have sign: "lower_char c = CHR ''-'' \<longleftrightarrow> c = CHR ''-''" "lower_char c = CHR ''+'' \<longleftrightarrow> c = CHR ''+''" for c
    by (rule lower_eq, simp add: code_def)+
  have pre: "strip_prefix2 (CHR ''x'') (CHR ''X'') (map lower_char t) = map_option (map lower_char) (strip_prefix2 (CHR ''x'') (CHR ''X'') t)"
    "strip_prefix2 (CHR ''o'') (CHR ''O'') (map lower_char t) = map_option (map lower_char) (strip_prefix2 (CHR ''o'') (CHR ''O'') t)"
    "strip_prefix2 (CHR ''b'') (CHR ''B'') (map lower_char t) = map_option (map lower_char) (strip_prefix2 (CHR ''b'') (CHR ''B'') t)" for t
    by (rule strip_prefix2_lower; simp add: code_def)+
  have dl: "parse_digits 10 (lower_char c # map lower_char cs) = parse_digits 10 (c # cs)" for c cs
    using parse_digits_lower [of 10 "c # cs"] by simp
  show ?thesis
    by (simp add: js_BigInt_def toLowerCase_def trim_lower Let_def pre sign parse_digits_lower dl
        split: option.split list.split)
qed

lemma js_BigInt_same_token: "toLowerCase s = toLowerCase t \<Longrightarrow> js_BigInt s = js_BigInt t"
  by (metis js_BigInt_lower)

section \<open>Inputs\<close>

lemma first_foreign_none:
  "first_foreign_token tok i cs = None \<longleftrightarrow> (\<forall>c \<in> set cs. toLowerCase (ce_token c) = tok)"
  by (induction cs arbitrary: i) auto

lemma all_some_eq: "all_some xs = Some ys \<longleftrightarrow> xs = map Some ys"
  by (induction xs arbitrary: ys) (auto split: option.splits)

lemma precheck_None:
  "authorize_precheck inp tr = None \<longleftrightarrow> ai_claims inp \<noteq> [] \<and> length (ai_claims inp) \<le> ct_cap tr \<and>
     ai_sellAmount inp \<le> cn_amount (ai_note inp) \<and>
     (\<forall>c \<in> set (ai_claims inp). toLowerCase (ce_token c) = toLowerCase (ai_buyToken inp)) \<and>
     ai_maxFee inp \<le> 10000 \<and>
     ai_buyAmount inp * (10000 - ai_maxFee inp) \<le> sum_list (map ce_amount (ai_claims inp)) * 10000"
  using first_foreign_none [of "toLowerCase (ai_buyToken inp)" 0 "ai_claims inp"]
  by (auto simp: authorize_precheck_def not_less split: option.splits)

lemma authorize_input_Inr:
  assumes "authorize_circuit_input P sign rnd inp tr = Inr s"
  obtains mem croot layers leaves buy rel rs ts where
    "authorize_precheck inp tr = None"
    "note_membership P (computeCommitment P (ai_note inp)) (ai_leafIndex inp) (ai_allLeaves inp) (ai_merkleProof inp) = Inr mem"
    "buildClaimsTree P (ai_claims inp) tr = Some (croot, layers, leaves)"
    "js_BigInt (ai_buyToken inp) = Some buy" "js_BigInt (ai_relayer inp) = Some rel"
    "map (js_BigInt \<circ> ce_recipient) (ai_claims inp) = map Some rs" "map (js_BigInt \<circ> ce_token) (ai_claims inp) = map Some ts"
    "s = assemble_signals P sign inp tr mem (residual P inp rnd) croot buy rel rs ts"
  using assms unfolding authorize_circuit_input_def
  by (auto simp: all_some_eq split: option.splits sum.splits prod.splits)

text \<open>What the caller must supply: field elements, and amounts within the widths of the circuit.\<close>

definition numeral_in_field :: "string \<Rightarrow> bool" where
  "numeral_in_field s \<longleftrightarrow> (\<forall>v. js_BigInt s = Some v \<longrightarrow> field_el v)"

lemma numeral_in_field_code [code]: "numeral_in_field s = (case js_BigInt s of None \<Rightarrow> True | Some v \<Rightarrow> field_el v)"
  by (auto simp: numeral_in_field_def split: option.split)

definition note_in_range :: "commitment_note \<Rightarrow> bool" where
  "note_in_range n \<longleftrightarrow> field_el (cn_ownerSecret n) \<and> field_el (cn_token n) \<and> field_el (cn_salt n) \<and>
     field_el (cn_pubKeyAx n) \<and> field_el (cn_pubKeyAy n) \<and> 0 \<le> cn_amount n \<and> cn_amount n < 2 ^ 128"

definition claim_in_range :: "claim_entry \<Rightarrow> bool" where
  "claim_in_range c \<longleftrightarrow> field_el (ce_secret c) \<and> numeral_in_field (ce_recipient c) \<and>
     0 \<le> ce_amount c \<and> ce_amount c < 2 ^ 128 \<and> field_el (ce_releaseTime c)"

text \<open>
  The leaves a Merkle path is built from are field elements and fit in the tree.  A path that the caller supplies
  instead is handed to the circuit as it is: whether it leads from the note's commitment to its root is not checked.
\<close>

definition leaves_in_range :: "int list option \<Rightarrow> merkle_proof option \<Rightarrow> bool" where
  "leaves_in_range leaves p = (case p of
     Some _ \<Rightarrow> True
   | None \<Rightarrow> (case leaves of None \<Rightarrow> True | Some ls \<Rightarrow> list_all field_el ls \<and> length ls \<le> 2 ^ COMMIT_TREE_DEPTH))"

definition supplied_path_ok :: "poseidon \<Rightarrow> commitment_note \<Rightarrow> merkle_proof option \<Rightarrow> bool" where
  "supplied_path_ok P n p = (case p of
     Some p \<Rightarrow> merkle_circuit P COMMIT_TREE_DEPTH (computeCommitment P n) (mp_pathElements p) (mp_pathIndices p) (mp_root p)
   | None \<Rightarrow> True)"

lemma leaves_in_range_Some [simp]: "leaves_in_range leaves (Some p)"
  by (simp add: leaves_in_range_def)

lemma supplied_path_ok_None [simp]: "supplied_path_ok P n None"
  by (simp add: supplied_path_ok_def)

definition authorize_in_range :: "poseidon \<Rightarrow> int \<Rightarrow> 'k authorize_input \<Rightarrow> bool" where
  "authorize_in_range P rnd inp \<longleftrightarrow> note_in_range (ai_note inp) \<and>
     leaves_in_range (ai_allLeaves inp) (ai_merkleProof inp) \<and>
     0 \<le> ai_sellAmount inp \<and> ai_sellAmount inp < 2 ^ 126 \<and> 0 \<le> ai_buyAmount inp \<and> ai_buyAmount inp < 2 ^ 126 \<and>
     0 \<le> ai_maxFee inp \<and> field_el (ai_expiry inp) \<and> field_el (ai_nonce inp) \<and>
     field_el (case ai_newSalt inp of Some s \<Rightarrow> s | None \<Rightarrow> rnd) \<and>
     numeral_in_field (ai_buyToken inp) \<and> numeral_in_field (ai_relayer inp) \<and>
     list_all claim_in_range (ai_claims inp) \<and> sum_list (map ce_amount (ai_claims inp)) < 2 ^ 128"

lemma note_hashes:
  assumes "note_in_range n"
  shows "hash_fe P [TAG_COMMITMENT_V2, cn_ownerSecret n, cn_token n, cn_amount n, cn_salt n, cn_pubKeyAx n, cn_pubKeyAy n] = computeCommitment P n"
    and "hash_fe P [TAG_ESCROW_NULL, cn_ownerSecret n, cn_salt n] = computeNullifier P n"
  using assms by (auto simp: hash_fe_id computeCommitment_def computeNullifier_def note_in_range_def field_el_small)

lemma membership_circuit:
  assumes P: "hash_ok P" and ok: "leaves_in_range leaves p"
    and m: "note_membership P (computeCommitment P n) li leaves p = Inr (root, es, bs)"
  shows "merkle_circuit P COMMIT_TREE_DEPTH (computeCommitment P n) es bs root \<longleftrightarrow> supplied_path_ok P n p"
proof (cases p)
  case None
  then obtain ls b where ls: "leaves = Some ls" "0 \<le> li" "li < int (length ls)" "ls ! nat li = computeCommitment P n"
    "buildMerkleTree (hash2 P) ls (int COMMIT_TREE_DEPTH) = Some b" "getMerkleProof (bt_layers b) li = Some (es, bs)" "bt_root b = root"
    using m by (auto simp: note_membership_def split: option.splits if_splits prod.splits)
  have "list_all field_el ls" "length ls \<le> 2 ^ COMMIT_TREE_DEPTH" using ok None ls(1) by (auto simp: leaves_in_range_def)
  then show ?thesis
    using built_proof_circuit [OF P, of ls COMMIT_TREE_DEPTH "nat li" b es bs] ls None by (auto simp: COMMIT_TREE_DEPTH_def)
next
  case (Some q)
  then show ?thesis using m by (auto simp: note_membership_def supplied_path_ok_def)
qed

text \<open>The claims tree.\<close>

definition leaf_or_zero :: "poseidon \<Rightarrow> claim_entry list \<Rightarrow> nat \<Rightarrow> int" where
  "leaf_or_zero P cs i = (if i < length cs then the (claim_leaf P (cs ! i)) else 0)"

lemma claims_tree:
  assumes tr: "tier_ok tr" and b: "buildClaimsTree P cs tr = Some (root, layers, leaves)"
  shows "length cs \<le> ct_cap tr" "leaves = map (leaf_or_zero P cs) [0..<ct_cap tr]"
    "root = node (hash2 P) leaves (ct_depth tr) 0"
    "\<forall>c \<in> set cs. claim_leaf P c \<noteq> None"
    "\<exists>b. buildMerkleTree (hash2 P) leaves (int (ct_depth tr)) = Some b \<and> bt_root b = root"
proof -
  obtain bt where l: "length cs \<le> ct_cap tr" "tier_leaves P cs tr = Some leaves"
    "buildMerkleTree (hash2 P) leaves (int (ct_depth tr)) = Some bt" "bt_root bt = root"
    using b by (auto simp: buildClaimsTree_def bind_eq_Some_conv split: if_splits)
  obtain ls where ls: "map (claim_leaf P) cs = map Some ls" "leaves = ls @ replicate (ct_cap tr - length cs) 0"
    using l(2) by (auto simp: tier_leaves_def all_some_eq)
  have len: "length ls = length cs" using arg_cong [OF ls(1), of length] by simp
  have nth: "claim_leaf P (cs ! i) = Some (ls ! i)" if "i < length cs" for i
    using arg_cong [OF ls(1), of "\<lambda>xs. xs ! i"] that len by simp
  show "length cs \<le> ct_cap tr" by (rule l(1))
  show leaves: "leaves = map (leaf_or_zero P cs) [0..<ct_cap tr]"
    by (rule nth_equalityI) (use l(1) ls(2) len nth in \<open>auto simp: leaf_or_zero_def nth_append\<close>)
  have "length leaves \<le> 2 ^ ct_depth tr" "1 \<le> ct_depth tr" "ct_depth tr \<le> 30"
    using tr leaves by (auto simp: tier_ok_def)
  from build_some [OF this(2,3,1), of "hash2 P"]
  show "root = node (hash2 P) leaves (ct_depth tr) 0" using l(3,4) by auto
  show "\<forall>c \<in> set cs. claim_leaf P c \<noteq> None" using nth by (auto simp: in_set_conv_nth)
  show "\<exists>b. buildMerkleTree (hash2 P) leaves (int (ct_depth tr)) = Some b \<and> bt_root b = root" using l by auto
qed

lemma padded_nth: "i < ct_cap tr \<Longrightarrow> length xs \<le> ct_cap tr \<Longrightarrow> padded tr xs ! i = (if i < length xs then xs ! i else 0)"
  by (auto simp: padded_def nth_append)

lemma map_Some_nth: "map f cs = map Some xs \<Longrightarrow> i < length cs \<Longrightarrow> f (cs ! i) = Some (xs ! i)"
  by (metis length_map nth_map)

lemma map_Some_length: "map f cs = map Some xs \<Longrightarrow> length xs = length cs"
  by (metis length_map)

lemma tier_cap: "tier_ok tr \<Longrightarrow> ct_cap tr \<le> 128"
proof -
  assume t: "tier_ok tr"
  then have "(2::nat) ^ ct_depth tr \<le> 2 ^ 7" by (intro power_increasing) (auto simp: tier_ok_def)
  then show ?thesis using t by (simp add: tier_ok_def)
qed

text \<open>The signals of one claim slot.\<close>

lemma assembled_slot:
  assumes s: "s = assemble_signals P sign inp tr mem res croot buy rel rs ts"
    and rs: "map (js_BigInt \<circ> ce_recipient) (ai_claims inp) = map Some rs"
    and ts: "map (js_BigInt \<circ> ce_token) (ai_claims inp) = map Some ts"
    and tr: "tier_ok tr" and len: "length (ai_claims inp) \<le> ct_cap tr" and i: "i < ct_cap tr"
  shows "slot_used s i \<longleftrightarrow> i < length (ai_claims inp)"
    "as_claimAmounts s ! i = (if i < length (ai_claims inp) then ce_amount (ai_claims inp ! i) else 0)"
    "i < length (ai_claims inp) \<Longrightarrow> js_BigInt (ce_token (ai_claims inp ! i)) = Some (as_claimTokens s ! i)"
    "i < length (ai_claims inp) \<Longrightarrow> js_BigInt (ce_recipient (ai_claims inp ! i)) = Some (as_claimRecipients s ! i)"
    "i < length (ai_claims inp) \<Longrightarrow> as_claimSecrets s ! i = ce_secret (ai_claims inp ! i)"
    "i < length (ai_claims inp) \<Longrightarrow> as_claimReleaseTimes s ! i = ce_releaseTime (ai_claims inp ! i)"
proof -
  have "field_el (int (length (ai_claims inp)))" using len tier_cap [OF tr] by (intro field_el_small) auto
  then show "slot_used s i \<longleftrightarrow> i < length (ai_claims inp)" by (simp add: slot_used_def s assemble_signals_def Let_def)
qed (use i len map_Some_length [OF rs] map_Some_length [OF ts] map_Some_nth [OF rs, of i] map_Some_nth [OF ts, of i] in
  \<open>simp_all add: s assemble_signals_def Let_def padded_nth\<close>)

lemma claim_leaf_Some:
  "js_BigInt (ce_recipient c) = Some r \<Longrightarrow> js_BigInt (ce_token c) = Some t \<Longrightarrow>
   claim_leaf P c = Some (P [ce_secret c, r, t, ce_amount c, ce_releaseTime c])"
  by (simp add: claim_leaf_def)

lemma claim_leaf_field: "hash_ok P \<Longrightarrow> claim_leaf P c = Some l \<Longrightarrow> field_el l"
  by (auto simp: claim_leaf_def bind_eq_Some_conv)

lemma leaves_field:
  assumes "hash_ok P" "tier_ok tr" "buildClaimsTree P cs tr = Some (root, layers, leaves)"
  shows "list_all field_el leaves"
  using claims_tree(2,4) [OF assms(2,3)] claim_leaf_field [OF assms(1)]
  by (fastforce simp: leaf_or_zero_def list_all_iff)

lemma assembled_leaf:
  assumes s: "s = assemble_signals P sign inp tr mem res croot buy rel rs ts"
    and rs: "map (js_BigInt \<circ> ce_recipient) (ai_claims inp) = map Some rs"
    and ts: "map (js_BigInt \<circ> ce_token) (ai_claims inp) = map Some ts"
    and tr: "tier_ok tr" and len: "length (ai_claims inp) \<le> ct_cap tr" and i: "i < ct_cap tr"
    and rng: "list_all claim_in_range (ai_claims inp)" and buy: "field_el buy"
    and tok: "\<forall>c \<in> set (ai_claims inp). js_BigInt (ce_token c) = Some buy"
  shows "slot_leaf P s i = leaf_or_zero P (ai_claims inp) i"
proof (cases "i < length (ai_claims inp)")
  case True
  let ?c = "ai_claims inp ! i"
  note slot = assembled_slot [OF s rs ts tr len i]
  have "claim_in_range ?c" using rng True by (simp add: list_all_length)
  moreover have "as_claimTokens s ! i = buy" using slot(3) [OF True] tok True by auto
  ultimately have "list_all field_el [as_claimSecrets s ! i, as_claimRecipients s ! i, as_claimTokens s ! i, as_claimAmounts s ! i,
      as_claimReleaseTimes s ! i]"
    using slot True buy by (simp add: claim_in_range_def numeral_in_field_def field_el_small)
  then show ?thesis using slot True
    by (simp add: slot_leaf_def leaf_or_zero_def hash_fe_id claim_leaf_Some)
next
  case False
  then show ?thesis using assembled_slot(1) [OF s rs ts tr len i] by (simp add: slot_leaf_def leaf_or_zero_def)
qed

text \<open>The tree exists as soon as the claims fit the tier and their addresses are numerals.\<close>

lemma all_some_None: "all_some (map f xs) \<noteq> None \<longleftrightarrow> (\<forall>x \<in> set xs. f x \<noteq> None)"
  by (induction xs) (auto split: option.splits)

lemma claims_tree_exists:
  assumes tr: "tier_ok tr" and len: "length cs \<le> ct_cap tr" and leaf: "\<forall>c \<in> set cs. claim_leaf P c \<noteq> None"
  shows "\<exists>root layers leaves. buildClaimsTree P cs tr = Some (root, layers, leaves)"
proof -
  have "all_some (map (claim_leaf P) cs) \<noteq> None" unfolding all_some_None by (rule leaf)
  then obtain leaves where leaves: "tier_leaves P cs tr = Some leaves" by (auto simp: tier_leaves_def)
  then have "length leaves = ct_cap tr" using len by (auto simp: tier_leaves_def all_some_eq dest!: arg_cong [of _ _ length])
  then have "length leaves \<le> 2 ^ ct_depth tr" "1 \<le> ct_depth tr" "ct_depth tr \<le> 30" using tr by (auto simp: tier_ok_def)
  from build_some [OF this(2,3,1), of "hash2 P"] show ?thesis using leaves len by (auto simp: buildClaimsTree_def)
qed

section \<open>Authorize\<close>

lemma sum_padded: "length xs \<le> n \<Longrightarrow> (\<Sum>i < n. if i < length xs then xs ! i else 0) = sum_list (xs :: int list)"
proof -
  assume l: "length xs \<le> n"
  have "(\<Sum>i < n. if i < length xs then xs ! i else 0) = (\<Sum>i < length xs. if i < length xs then xs ! i else 0)"
    by (rule sum.mono_neutral_right) (use l in auto)
  also have "\<dots> = sum_list xs" by (simp add: sum_list_sum_nth atLeast0LessThan)
  finally show ?thesis .
qed

lemma amounts_nonneg: "list_all claim_in_range cs \<Longrightarrow> 0 \<le> sum_list (map ce_amount cs)"
  by (auto simp: list_all_iff claim_in_range_def intro!: sum_list_nonneg)

lemma authorize_claims_ok:
  assumes s: "s = assemble_signals P sign inp tr mem res croot buy rel rs ts"
    and rs: "map (js_BigInt \<circ> ce_recipient) (ai_claims inp) = map Some rs"
    and ts: "map (js_BigInt \<circ> ce_token) (ai_claims inp) = map Some ts"
    and tree: "buildClaimsTree P (ai_claims inp) tr = Some (croot, layers, leaves)"
    and P: "hash_ok P" and tr: "tier_ok tr" and rng: "list_all claim_in_range (ai_claims inp)" and buy: "field_el buy"
    and tok: "\<forall>c \<in> set (ai_claims inp). js_BigInt (ce_token c) = Some buy"
  shows "authorize_claims P tr s"
proof -
  let ?cs = "ai_claims inp"
  note len = claims_tree(1) [OF tr tree]
  note slot = assembled_slot [OF s rs ts tr len]
  have toks: "fe (as_claimTokens s ! i) = fe (as_buyToken s)" if "i < ct_cap tr" "slot_used s i" for i
    using slot(1,3) [OF that(1)] that tok by (auto simp: s assemble_signals_def Let_def)
  have "(\<Sum>i < ct_cap tr. as_claimAmounts s ! i) = (\<Sum>i < ct_cap tr. if i < length (map ce_amount ?cs) then map ce_amount ?cs ! i else 0)"
    by (rule sum.cong) (use slot(2) in auto)
  then have total: "as_totalLocked s = (\<Sum>i < ct_cap tr. as_claimAmounts s ! i)"
    using sum_padded [of "map ce_amount ?cs" "ct_cap tr"] len by (simp add: s assemble_signals_def Let_def)
  have ls: "map (slot_leaf P s) [0..<ct_cap tr] = leaves"
    unfolding claims_tree(2) [OF tr tree] using assembled_leaf [OF s rs ts tr len _ rng buy tok] by auto
  have len2: "length leaves = 2 ^ ct_depth tr" using claims_tree(2) [OF tr tree] tr by (simp add: tier_ok_def)
  have "field_el croot" using node_field [OF P leaves_field [OF P tr tree]] claims_tree(3) [OF tr tree] by simp
  then have root: "fe (as_claimsRoot s) = claims_root_circuit P (ct_depth tr) (map (slot_leaf P s) [0..<ct_cap tr])"
    unfolding ls claims_root_node [OF len2] using claims_tree(3) [OF tr tree] by (simp add: s assemble_signals_def Let_def)
  show ?thesis using toks slot(1,2) root by (auto simp: authorize_claims_def total)
qed

lemma residual_ok:
  assumes P: "hash_ok P" and wf: "authorize_in_range P rnd inp" and sell: "ai_sellAmount inp \<le> cn_amount (ai_note inp)"
    and s: "s = assemble_signals P sign inp tr mem (residual P inp rnd) croot buy rel rs ts"
  shows "authorize_residual P s"
proof -
  let ?n = "ai_note inp"
  have n: "note_in_range ?n" and rest: "0 \<le> cn_amount ?n - ai_sellAmount inp" "cn_amount ?n - ai_sellAmount inp < 2 ^ 128"
    "field_el (case ai_newSalt inp of Some s \<Rightarrow> s | None \<Rightarrow> rnd)" "field_el (ai_sellAmount inp)" "field_el (cn_amount ?n)"
    using wf sell by (auto simp: authorize_in_range_def note_in_range_def field_el_small)
  have f: "field_el (cn_amount ?n - ai_sellAmount inp)" using rest by (intro field_el_small) auto
  have c: "note_in_range (change_note ?n (ai_sellAmount inp) (case ai_newSalt inp of Some s \<Rightarrow> s | None \<Rightarrow> rnd))"
    using n rest by (auto simp: note_in_range_def change_note_def)
  show ?thesis
    using note_hashes(1) [OF c] sell rest f P
    by (auto simp: authorize_residual_def s assemble_signals_def Let_def residual_def change_note_def computeCommitment_def)
qed

lemma authorize_ranges_ok:
  assumes wf: "authorize_in_range P rnd inp" and pre: "authorize_precheck inp tr = None" and tr: "tier_ok tr"
    and s: "s = assemble_signals P sign inp tr mem res croot buy rel rs ts"
    and rs: "map (js_BigInt \<circ> ce_recipient) (ai_claims inp) = map Some rs"
    and ts: "map (js_BigInt \<circ> ce_token) (ai_claims inp) = map Some ts"
  shows "authorize_ranges tr s"
proof -
  have len: "length (ai_claims inp) \<le> ct_cap tr" and fee: "ai_maxFee inp \<le> 10000" using pre by (auto simp: precheck_None)
  have cs: "list_all claim_in_range (ai_claims inp)" using wf by (simp add: authorize_in_range_def)
  have "fe (as_claimAmounts s ! i) < 2 ^ 128" if "i < ct_cap tr" for i
    using assembled_slot(2) [OF s rs ts tr len that] cs
    by (auto simp: list_all_length claim_in_range_def field_el_small)
  moreover have "int (length (ai_claims inp)) \<le> 128" using len tier_cap [OF tr] by simp
  ultimately show ?thesis
    using wf len fee amounts_nonneg [OF cs]
    by (auto simp: authorize_ranges_def s assemble_signals_def Let_def authorize_in_range_def note_in_range_def field_el_small)
qed

lemma authorize_input_circuit:
  assumes "hash_ok P" "tier_ok tr" "authorize_in_range P rnd inp" "authorize_circuit_input P sign rnd inp tr = Inr s"
  shows "authorize_circuit P V tr s \<longleftrightarrow> supplied_path_ok P (ai_note inp) (ai_merkleProof inp) \<and>
    V (cn_pubKeyAx (ai_note inp), cn_pubKeyAy (ai_note inp)) (sign (ai_eddsaPrivateKey inp) (as_orderHash s)) (as_orderHash s)"
proof -
  note P = assms(1) and tr = assms(2) and wf = assms(3)
  obtain root es bs croot layers leaves buy rel rs ts where pre: "authorize_precheck inp tr = None"
    and mem: "note_membership P (computeCommitment P (ai_note inp)) (ai_leafIndex inp) (ai_allLeaves inp) (ai_merkleProof inp) = Inr (root, es, bs)"
    and tree: "buildClaimsTree P (ai_claims inp) tr = Some (croot, layers, leaves)"
    and nums: "js_BigInt (ai_buyToken inp) = Some buy" "js_BigInt (ai_relayer inp) = Some rel"
    and rs: "map (js_BigInt \<circ> ce_recipient) (ai_claims inp) = map Some rs"
    and ts: "map (js_BigInt \<circ> ce_token) (ai_claims inp) = map Some ts"
    and s: "s = assemble_signals P sign inp tr (root, es, bs) (residual P inp rnd) croot buy rel rs ts"
    using authorize_input_Inr [OF assms(4)] by (metis prod_cases3)
  have tok: "\<forall>c \<in> set (ai_claims inp). js_BigInt (ce_token c) = Some buy"
  proof
    fix c assume c: "c \<in> set (ai_claims inp)"
    have "toLowerCase (ce_token c) = toLowerCase (ai_buyToken inp)" using pre c unfolding precheck_None by blast
    then show "js_BigInt (ce_token c) = Some buy" using js_BigInt_same_token nums(1) by metis
  qed
  have f: "field_el buy" "field_el rel" "note_in_range (ai_note inp)" "list_all claim_in_range (ai_claims inp)"
    "leaves_in_range (ai_allLeaves inp) (ai_merkleProof inp)" "field_el (ai_nonce inp)"
    using wf nums by (auto simp: authorize_in_range_def numeral_in_field_def)
  note claims = authorize_claims_ok [OF s rs ts tree P tr f(4,1) tok]
  have croot: "field_el croot" using node_field [OF P leaves_field [OF P tr tree]] claims_tree(3) [OF tr tree] by simp
  have oh: "authorize_order_hash P s = as_orderHash s"
  proof -
    have "field_el (ai_sellAmount inp)" "field_el (ai_buyAmount inp)" "field_el (ai_maxFee inp)" "field_el (ai_expiry inp)"
      "field_el (cn_token (ai_note inp))"
      using wf pre by (auto simp: authorize_in_range_def note_in_range_def field_el_small precheck_None)
    then show ?thesis using f croot
      by (simp add: authorize_order_hash_def s assemble_signals_def Let_def hash_fe_id hashAuthorizeOrder_def)
  qed
  have "authorize_membership P s \<longleftrightarrow> supplied_path_ok P (ai_note inp) (ai_merkleProof inp)"
    using membership_circuit [OF P f(5) mem] note_hashes(1) [OF f(3)] by (simp add: authorize_membership_def s assemble_signals_def Let_def)
  moreover have "authorize_nullifiers P s"
    using note_hashes(2) [OF f(3)] f P by (simp add: authorize_nullifiers_def s assemble_signals_def Let_def computeNullifier_def
      computeNonceNullifier_def hash_fe_id note_in_range_def)
  moreover have "authorize_receive s"
  proof -
    let ?t = "sum_list (map ce_amount (ai_claims inp))"
    have b: "0 \<le> ?t" "?t < 2 ^ 128" "0 \<le> ai_buyAmount inp" "ai_buyAmount inp < 2 ^ 126" "0 \<le> ai_maxFee inp" "ai_maxFee inp \<le> 10000"
      "ai_buyAmount inp * (10000 - ai_maxFee inp) \<le> ?t * 10000"
      using wf pre amounts_nonneg [OF f(4)] by (auto simp: authorize_in_range_def precheck_None)
    have "0 \<le> ai_buyAmount inp * (10000 - ai_maxFee inp)" using b by simp
    moreover have "field_el (?t * 10000)" using b by (intro field_el_small) auto
    ultimately show ?thesis using b(7) by (simp add: authorize_receive_def s assemble_signals_def Let_def field_el_def fe_def)
  qed
  moreover have "authorize_signed P V s \<longleftrightarrow>
      V (cn_pubKeyAx (ai_note inp), cn_pubKeyAy (ai_note inp)) (sign (ai_eddsaPrivateKey inp) (as_orderHash s)) (as_orderHash s)"
    using oh f(3) P by (simp add: authorize_signed_def) (simp add: s assemble_signals_def Let_def note_in_range_def hashAuthorizeOrder_def)
  ultimately show ?thesis
    using claims residual_ok [OF P wf _ s] authorize_ranges_ok [OF wf pre tr s rs ts] pre
    by (simp add: authorize_circuit_def precheck_None)
qed


section \<open>After the settlement\<close>

lemma claim_tree_proof:
  assumes P: "hash_ok P" and tr: "tier_ok tr" and tree: "buildClaimsTree P cs tr = Some (root, layers, leaves)"
    and i: "i < length cs" and c: "claim_leaf P (cs ! i) = Some leaf"
  obtains b es bs where "buildMerkleTree (hash2 P) leaves (int (ct_depth tr)) = Some b" "bt_root b = root" "bt_layers b = layers"
    "getMerkleProof layers (int i) = Some (es, bs)" "leaves ! i = leaf" "length leaves = ct_cap tr" "i < ct_cap tr"
    "merkle_circuit P (ct_depth tr) leaf es bs root" "(\<Sum>j < ct_depth tr. bs ! j * 2 ^ j) = i" "list_all field_el es"
proof -
  note ct = claims_tree [OF tr tree]
  have len: "length leaves = ct_cap tr" "ct_cap tr = 2 ^ ct_depth tr" "i < ct_cap tr" "1 \<le> ct_depth tr" "ct_depth tr \<le> 30"
    using ct(1,2) tr i by (auto simp: tier_ok_def)
  have leaf: "leaves ! i = leaf" using ct(2) len i c by (simp add: leaf_or_zero_def)
  obtain b where b: "buildMerkleTree (hash2 P) leaves (int (ct_depth tr)) = Some b" "bt_root b = root" "bt_layers b = layers"
    using tree by (auto simp: buildClaimsTree_def bind_eq_Some_conv split: if_splits)
  obtain b' where b': "buildMerkleTree (hash2 P) leaves (int (ct_depth tr)) = Some b'"
    "\<forall>i. getMerkleProof (bt_layers b') i = (if 0 \<le> i \<and> i < 2 ^ ct_depth tr then Some (node_path (hash2 P) leaves 0 (ct_depth tr) (nat i)) else None)"
    using build_some [OF len(4,5), of leaves "hash2 P"] len by auto
  obtain es bs where np: "node_path (hash2 P) leaves 0 (ct_depth tr) i = (es, bs)" by fastforce
  have g: "getMerkleProof (bt_layers b) (int i) = Some (es, bs)" using b(1) b' len np by simp
  have "merkle_circuit P (ct_depth tr) leaf es bs root \<and> (\<Sum>j < ct_depth tr. bs ! j * 2 ^ j) = i"
    using built_proof_circuit [OF P leaves_field [OF P tr tree] _ _ len(4,5) b(1) g] len leaf b(2) by simp
  moreover have "list_all field_el es" by (rule node_path_field [OF P leaves_field [OF P tr tree] np])
  ultimately show ?thesis using that [OF b _ leaf len(1,3)] g b(3) by simp
qed

lemma claim_from_tree:
  assumes P: "hash_ok P" and tr: "tier_ok tr" and tree: "buildClaimsTree P cs tr = Some (root, layers, leaves)"
    and i: "i < length cs" and c: "claim_leaf P (cs ! i) = Some leaf"
  obtains es bs where "claim_fromLeaves P leaves (int i) leaf tr = Inr (root, es, bs)"
    "merkle_circuit P (ct_depth tr) leaf es bs root" "(\<Sum>j < ct_depth tr. bs ! j * 2 ^ j) = i"
proof (rule claim_tree_proof [OF P tr tree i c])
  fix b es bs
  assume b: "buildMerkleTree (hash2 P) leaves (int (ct_depth tr)) = Some b" "bt_root b = root" "bt_layers b = layers"
    "getMerkleProof layers (int i) = Some (es, bs)" "leaves ! i = leaf" "length leaves = ct_cap tr" "i < ct_cap tr"
    and m: "merkle_circuit P (ct_depth tr) leaf es bs root" "(\<Sum>j < ct_depth tr. bs ! j * 2 ^ j) = i"
  have "claim_fromLeaves P leaves (int i) leaf tr = Inr (root, es, bs)" using b by (simp add: claim_fromLeaves_def)
  then show ?thesis using m by (rule that)
qed

text \<open>The signals of claim i under a path of its tree.\<close>

definition claim_signals_of :: "poseidon \<Rightarrow> claim_entry \<Rightarrow> nat \<Rightarrow> int \<Rightarrow> int \<Rightarrow> int \<Rightarrow> int list \<times> nat list \<Rightarrow> claim_signals" where
  "claim_signals_of P c i r t root path =
     \<lparr>cs_claimsRoot = root, cs_nullifier = computeClaimNullifier P (ce_secret c) (int i) root, cs_amount = ce_amount c,
      cs_token = t, cs_recipient = r, cs_releaseTime = ce_releaseTime c, cs_secret = ce_secret c, cs_leafIndex = int i,
      cs_pathElements = fst path, cs_pathIndices = snd path\<rparr>"

lemma claim_signals_circuit:
  assumes P: "hash_ok P" and tr: "tier_ok tr" and tree: "buildClaimsTree P cs tr = Some (root, layers, leaves)"
    and i: "i < length cs" and c: "claim_in_range (cs ! i)" and r: "js_BigInt (ce_recipient (cs ! i)) = Some r" and t: "field_el t"
    and m: "merkle_circuit P (ct_depth tr) (P [ce_secret (cs ! i), r, t, ce_amount (cs ! i), ce_releaseTime (cs ! i)]) es bs root"
      "(\<Sum>j < ct_depth tr. bs ! j * 2 ^ j) = i"
  shows "claim_circuit P tr (claim_signals_of P (cs ! i) i r t root (es, bs))" "field_el root"
proof -
  show root: "field_el root" using node_field [OF P leaves_field [OF P tr tree]] claims_tree(3) [OF tr tree] by simp
  have f: "field_el (ce_secret (cs ! i))" "field_el r" "field_el (ce_amount (cs ! i))" "field_el (ce_releaseTime (cs ! i))" "field_el (int i)"
    using c r claims_tree(1) [OF tr tree] tier_cap [OF tr] i by (auto simp: claim_in_range_def numeral_in_field_def field_el_small)
  have "(\<Sum>j < ct_depth tr. int (bs ! j) * 2 ^ j) = int i" using arg_cong [OF m(2), of int] by simp
  then show "claim_circuit P tr (claim_signals_of P (cs ! i) i r t root (es, bs))"
    using m(1) f root t P by (simp add: claim_circuit_def claim_signals_of_def hash_fe_id computeClaimNullifier_def)
qed

text \<open>
  C15.  Every claim an authorize proof locks can be claimed: the package of claim i, with all leaves of the claims
  tree, gives claim signals under the very claims root of the authorize proof, for the amount of the claim, and they
  satisfy the claim circuit of the tier.
\<close>

theorem locked_claims_are_claimable:
  assumes "hash_ok P" "tier_ok tr" "authorize_in_range P rnd inp" "authorize_circuit_input P sign rnd inp tr = Inr s"
    "i < length (ai_claims inp)"
  shows "\<exists>leaves r t c. tier_leaves P (ai_claims inp) tr = Some leaves \<and>
    js_BigInt (ce_recipient (ai_claims inp ! i)) = Some r \<and> js_BigInt (ce_token (ai_claims inp ! i)) = Some t \<and>
    claim_circuit_input P \<lparr>cl_secret = ce_secret (ai_claims inp ! i), cl_recipient = r, cl_token = t,
      cl_amount = ce_amount (ai_claims inp ! i), cl_releaseTime = ce_releaseTime (ai_claims inp ! i), cl_leafIndex = int i,
      cl_allClaimLeaves = leaves, cl_merkleProof = None\<rparr> tr = Inr c \<and>
    cs_claimsRoot c = as_claimsRoot s \<and> cs_amount c = ce_amount (ai_claims inp ! i) \<and> cs_recipient c = r \<and> claim_circuit P tr c"
proof -
  note P = assms(1) and tr = assms(2)
  let ?c = "ai_claims inp ! i"
  obtain mem croot layers leaves buy rel rs ts where pre: "authorize_precheck inp tr = None"
    and tree: "buildClaimsTree P (ai_claims inp) tr = Some (croot, layers, leaves)"
    and nums: "js_BigInt (ai_buyToken inp) = Some buy"
    and rs: "map (js_BigInt \<circ> ce_recipient) (ai_claims inp) = map Some rs"
    and s: "s = assemble_signals P sign inp tr mem (residual P inp rnd) croot buy rel rs ts"
    using authorize_input_Inr [OF assms(4)] by metis
  have r: "js_BigInt (ce_recipient ?c) = Some (rs ! i)" using map_Some_nth [OF rs assms(5)] by simp
  have "toLowerCase (ce_token ?c) = toLowerCase (ai_buyToken inp)" using pre assms(5) unfolding precheck_None by simp
  then have t: "js_BigInt (ce_token ?c) = Some buy" using js_BigInt_same_token nums by metis
  let ?l = "P [ce_secret ?c, rs ! i, buy, ce_amount ?c, ce_releaseTime ?c]"
  have leaf: "claim_leaf P ?c = Some ?l" by (rule claim_leaf_Some [OF r t])
  obtain es bs where m: "claim_fromLeaves P leaves (int i) ?l tr = Inr (croot, es, bs)" "merkle_circuit P (ct_depth tr) ?l es bs croot"
    "(\<Sum>j < ct_depth tr. bs ! j * 2 ^ j) = i"
    by (rule claim_from_tree [OF P tr tree assms(5) leaf])
  let ?s = "claim_signals_of P ?c i (rs ! i) buy croot (es, bs)"
  have "claim_in_range ?c" "field_el buy"
    using assms(3,5) nums by (auto simp: authorize_in_range_def list_all_length numeral_in_field_def)
  then have "claim_circuit P tr ?s" using claim_signals_circuit(1) [OF P tr tree assms(5) _ r _ m(2,3)] by blast
  moreover have "tier_leaves P (ai_claims inp) tr = Some leaves" using tree by (auto simp: buildClaimsTree_def bind_eq_Some_conv split: if_splits)
  ultimately show ?thesis using r t m(1)
    by (intro exI [of _ leaves] exI [of _ "rs ! i"] exI [of _ buy] exI [of _ ?s]) (simp add: claim_circuit_input_def claim_signals_of_def s assemble_signals_def Let_def)
qed

text \<open>
  The change of a partial order is not lost: the commitment an authorize proof publishes for it is that of a note
  in range with the rest of the amount, and once it is a leaf of the tree that note passes the membership check of
  the next authorize or cancel proof.
\<close>

lemma change_note_spendable:
  assumes "authorize_in_range P rnd inp" "authorize_circuit_input P sign rnd inp tr = Inr s"
    "ai_sellAmount inp < cn_amount (ai_note inp)"
  shows "let change = change_note (ai_note inp) (ai_sellAmount inp) (as_newSalt s) in
    as_newCommitment s = computeCommitment P change \<and> note_in_range change \<and> cn_amount change + as_sellAmount s = cn_amount (ai_note inp) \<and>
    (\<forall>leaves k. k < length leaves \<longrightarrow> length leaves \<le> 2 ^ COMMIT_TREE_DEPTH \<longrightarrow> leaves ! k = as_newCommitment s \<longrightarrow>
      (\<exists>mem. note_membership P (computeCommitment P change) (int k) (Some leaves) None = Inr mem))"
proof -
  obtain mem croot buy rel rs ts where s: "s = assemble_signals P sign inp tr mem (residual P inp rnd) croot buy rel rs ts"
    using authorize_input_Inr [OF assms(2)] by metis
  let ?salt = "case ai_newSalt inp of Some s \<Rightarrow> s | None \<Rightarrow> rnd"
  let ?ch = "change_note (ai_note inp) (ai_sellAmount inp) ?salt"
  have f: "as_newSalt s = ?salt" "as_newCommitment s = computeCommitment P ?ch" "as_sellAmount s = ai_sellAmount inp"
    using assms(3) by (simp_all add: s assemble_signals_def Let_def residual_def)
  have rng: "note_in_range ?ch" using assms(1,3) by (auto simp: authorize_in_range_def note_in_range_def change_note_def)
  have "\<exists>mem. note_membership P (computeCommitment P ?ch) (int k) (Some leaves) None = Inr mem"
    if k: "k < length leaves" "length leaves \<le> 2 ^ COMMIT_TREE_DEPTH" "leaves ! k = as_newCommitment s" for leaves k
  proof -
    have "1 \<le> COMMIT_TREE_DEPTH" "COMMIT_TREE_DEPTH \<le> 30" by (simp_all add: COMMIT_TREE_DEPTH_def)
    from build_some [OF this k(2), of "hash2 P"] obtain b where b: "buildMerkleTree (hash2 P) leaves (int COMMIT_TREE_DEPTH) = Some b"
      "\<forall>i. getMerkleProof (bt_layers b) i = (if 0 \<le> i \<and> i < 2 ^ COMMIT_TREE_DEPTH then Some (node_path (hash2 P) leaves 0 COMMIT_TREE_DEPTH (nat i)) else None)"
      by blast
    have "int k < 2 ^ COMMIT_TREE_DEPTH" 
    proof -
      have "k < 2 ^ COMMIT_TREE_DEPTH" using k(1,2) by simp
      then show ?thesis by (metis of_nat_less_iff of_nat_numeral of_nat_power)
    qed
    then show ?thesis using b k f(2) by (simp add: note_membership_def split: prod.split)
  qed
  then show ?thesis using f rng by (simp add: change_note_def)
qed

end
