(* ===== verification/Payout.thy ===== *)
theory Payout
  imports CircuitFacts
begin

text \<open>
  Payouts: splitting a list of recipients into settlements (\<open>packages/sdk/src/zk/circuits/splitPayout.ts\<close>),
  finding the release time of a payout whose links were lost (\<open>deepRecover.ts\<close>) and the fee of a settlement
  (\<open>apps/pay/app/_lib/payoutFees.ts\<close>).  The values of the successive calls of the secret generator are the
  argument \<open>gen\<close>.
\<close>

section \<open>Splitting\<close>

record payout_recipient =
  pr_recipient :: string
  pr_amount :: int
  pr_releaseTime :: int
  pr_secret :: "int option"

record payout_batch =
  pb_totalAmount :: int
  pb_claims :: "claim_entry list"
  pb_tier :: circuit_tier

text \<open>None is the exception of \<open>BigInt\<close> on an address.\<close>

definition with_secret :: "poseidon \<Rightarrow> int \<Rightarrow> string \<Rightarrow> nat \<times> payout_recipient \<Rightarrow> payout_recipient option" where
  "with_secret P seed token = (\<lambda>(i, r). case pr_secret r of Some _ \<Rightarrow> Some r
     | None \<Rightarrow> map_option (\<lambda>s. r\<lparr>pr_secret := Some s\<rparr>)
         (deriveClaimSecret P seed (pr_recipient r) token (pr_amount r) (pr_releaseTime r) i))"

definition withDeterministicSecrets :: "poseidon \<Rightarrow> payout_recipient list \<Rightarrow> int \<Rightarrow> string \<Rightarrow> payout_recipient list option" where
  "withDeterministicSecrets P recipients seed token = all_some (map (with_secret P seed token) (enumerate 0 recipients))"

definition payout_claim :: "string \<Rightarrow> payout_recipient \<Rightarrow> int \<Rightarrow> claim_entry" where
  "payout_claim token r secret = \<lparr>ce_secret = secret, ce_recipient = pr_recipient r, ce_token = token,
     ce_amount = pr_amount r, ce_releaseTime = pr_releaseTime r\<rparr>"

text \<open>The inner loop; \<open>k\<close> counts the calls of the generator.\<close>

fun batch_claims :: "(nat \<Rightarrow> int) \<Rightarrow> string \<Rightarrow> nat \<Rightarrow> payout_recipient list \<Rightarrow> nat \<times> claim_entry list" where
  "batch_claims gen token k [] = (k, [])"
| "batch_claims gen token k (r # rs) = (case pr_secret r of
     Some s \<Rightarrow> let (k', cs) = batch_claims gen token k rs in (k', payout_claim token r s # cs)
   | None \<Rightarrow> let (k', cs) = batch_claims gen token (Suc k) rs in (k', payout_claim token r (gen k) # cs))"

text \<open>The outer loop; None: with a tier of capacity 0 it never ends.\<close>

function split_loop ::
  "(nat \<Rightarrow> int) \<Rightarrow> string \<Rightarrow> circuit_tier \<Rightarrow> nat \<Rightarrow> payout_recipient list \<Rightarrow> payout_batch list option" where
  "split_loop gen token tr k rs = (if rs = [] then Some [] else if ct_cap tr = 0 then None
     else let chunk = take (ct_cap tr) rs; (k', cs) = batch_claims gen token k chunk in
       map_option (Cons \<lparr>pb_totalAmount = sum_list (map pr_amount chunk), pb_claims = cs, pb_tier = tr\<rparr>)
         (split_loop gen token tr k' (drop (ct_cap tr) rs)))"
  by pat_completeness auto
termination by (relation "measure (\<lambda>(gen, token, tr, k, rs). length rs)") auto

declare split_loop.simps [simp del]

datatype payout_error = NoRecipients | NoTier

definition splitPayout ::
  "(nat \<Rightarrow> int) \<Rightarrow> string \<Rightarrow> circuit_tier option \<Rightarrow> payout_recipient list \<Rightarrow> (payout_error + payout_batch list) option" where
  "splitPayout gen token tier_opt recipients = (if recipients = [] then Some (Inl NoRecipients)
     else case (case tier_opt of Some t \<Rightarrow> Some t | None \<Rightarrow> pickActiveTier (int (length recipients))) of
       None \<Rightarrow> Some (Inl NoTier)
     | Some tr \<Rightarrow> map_option Inr (split_loop gen token tr 0 recipients))"

section \<open>Deep recovery\<close>

record recover_recipient =
  rr_recipient :: string
  rr_amount :: int

record recover_args =
  ra_seed :: int
  ra_recipients :: "recover_recipient list"
  ra_token :: string
  ra_tierCap :: int
  ra_targetClaimsRoot :: string
  ra_startSec :: int
  ra_endSec :: int
  ra_stepSec :: "int option"
  ra_maxCandidates :: "int option"

datatype recover_error = RecoverNoRecipients | UnsafeInteger | BadStep | EmptyWindow | BadTierCap
  | OverCap | TooManyCandidates int | Aborted | RecoverNotANumber

definition is_safe_integer :: "int \<Rightarrow> bool" where "is_safe_integer n \<longleftrightarrow> \<bar>n\<bar> < 2 ^ 53"

definition candidate_claim :: "poseidon \<Rightarrow> recover_args \<Rightarrow> int \<Rightarrow> nat \<times> recover_recipient \<Rightarrow> claim_entry option" where
  "candidate_claim P a releaseTime = (\<lambda>(i, r). map_option (\<lambda>s.
     \<lparr>ce_secret = s, ce_recipient = rr_recipient r, ce_token = ra_token a, ce_amount = rr_amount r, ce_releaseTime = releaseTime\<rparr>)
     (deriveClaimSecret P (ra_seed a) (rr_recipient r) (ra_token a) (rr_amount r) releaseTime i))"

definition candidate_claims :: "poseidon \<Rightarrow> recover_args \<Rightarrow> int \<Rightarrow> claim_entry list option" where
  "candidate_claims P a releaseTime = all_some (map (candidate_claim P a releaseTime) (enumerate 0 (ra_recipients a)))"

definition candidate_root :: "poseidon \<Rightarrow> recover_args \<Rightarrow> circuit_tier \<Rightarrow> int \<Rightarrow> (claim_entry list \<times> int) option" where
  "candidate_root P a tr t = Option.bind (candidate_claims P a t) (\<lambda>cs. map_option (\<lambda>(root, _). (cs, root)) (buildClaimsTree P cs tr))"

text \<open>The scan; \<open>aborted t\<close> is the state of the abort signal when candidate \<open>t\<close> is about to be tried.\<close>

function recover_loop ::
  "poseidon \<Rightarrow> (int \<Rightarrow> bool) \<Rightarrow> recover_args \<Rightarrow> circuit_tier \<Rightarrow> string \<Rightarrow> int \<Rightarrow> int \<Rightarrow>
   recover_error + (int \<times> claim_entry list) option" where
  "recover_loop P aborted a tr target stepSec t =
     (if stepSec \<le> 0 \<or> ra_endSec a < t then Inr None
      else if aborted t then Inl Aborted
      else case candidate_root P a tr t of None \<Rightarrow> Inl RecoverNotANumber
        | Some (cs, root) \<Rightarrow> if toLowerCase (toBytes32Hex root) = target then Inr (Some (t, cs))
            else recover_loop P aborted a tr target stepSec (t + stepSec))"
  by pat_completeness auto
termination by (relation "measure (\<lambda>(P, aborted, a, tr, target, stepSec, t). nat (ra_endSec a - t + 1))") auto

declare recover_loop.simps [simp del]

definition deepRecoverReleaseTime ::
  "poseidon \<Rightarrow> (int \<Rightarrow> bool) \<Rightarrow> recover_args \<Rightarrow> recover_error + (int \<times> claim_entry list) option" where
  "deepRecoverReleaseTime P aborted a =
     (let stepSec = (case ra_stepSec a of Some s \<Rightarrow> s | None \<Rightarrow> 1);
          maxCandidates = (case ra_maxCandidates a of Some m \<Rightarrow> m | None \<Rightarrow> 200000) in
      if ra_recipients a = [] then Inl RecoverNoRecipients
      else if \<not> list_all is_safe_integer [ra_startSec a, ra_endSec a, stepSec] then Inl UnsafeInteger
      else if stepSec \<le> 0 then Inl BadStep
      else if ra_endSec a < ra_startSec a then Inl EmptyWindow
      else case find (\<lambda>t. int (ct_cap t) = ra_tierCap a) TIERS of None \<Rightarrow> Inl BadTierCap
      | Some tr \<Rightarrow>
        if ct_cap tr < length (ra_recipients a) then Inl OverCap
        else let total = (ra_endSec a - ra_startSec a) div stepSec + 1 in
          if maxCandidates < total then Inl (TooManyCandidates total)
          else recover_loop P aborted a tr (toLowerCase (ra_targetClaimsRoot a)) stepSec (ra_startSec a))"

section \<open>Fees\<close>

definition BPS_DENOMINATOR :: int where "BPS_DENOMINATOR = 10000"

record batch_fee =
  bf_serviceFeeRaw :: int
  bf_claimReserveRaw :: int
  bf_feeRaw :: int
  bf_sellAmount :: int
  bf_effectiveMaxFeeBps :: int

text \<open>Counts and basis points are integers here, so the tests for integers of the code hold.\<close>

definition computeBatchFee :: "int \<Rightarrow> int \<Rightarrow> int \<Rightarrow> int \<Rightarrow> string + batch_fee" where
  "computeBatchFee lockedAmount recipientCount maxFeeBps claimFeePerRecipientRaw =
     (if recipientCount < 0 then Inl ''recipientCount''
      else if maxFeeBps < 0 \<or> 10000 < maxFeeBps then Inl ''maxFeeBps''
      else if lockedAmount < 0 \<or> claimFeePerRecipientRaw < 0 then Inl ''lockedAmount''
      else let serviceFeeRaw = lockedAmount * maxFeeBps div BPS_DENOMINATOR;
               claimReserveRaw = recipientCount * claimFeePerRecipientRaw;
               feeRaw = serviceFeeRaw + claimReserveRaw;
               sell = lockedAmount + feeRaw in
        Inr \<lparr>bf_serviceFeeRaw = serviceFeeRaw, bf_claimReserveRaw = claimReserveRaw, bf_feeRaw = feeRaw, bf_sellAmount = sell,
          bf_effectiveMaxFeeBps = (if 0 < sell then (feeRaw * BPS_DENOMINATOR + sell - 1) div sell else maxFeeBps)\<rparr>)"

end
