(* ===== verification/PayFunds.thy ===== *)
theory PayFunds
  imports Payout
begin

text \<open>
  The notes a payout is funded from: \<open>packages/sdk/src/notes/types.ts\<close>, \<open>balance.ts\<close>, \<open>depositGuard.ts\<close>
  and \<open>apps/pay/app/_lib/sourceNotes.ts\<close>.  Stored notes are records; the display fields are left out except
  the symbol.
\<close>

section \<open>Stored notes\<close>

record stored_note =
  sn_id :: string
  sn_symbol :: string
  sn_note :: commitment_note
  sn_commitment :: int
  sn_leafIndex :: int
  sn_failed :: bool
  sn_txHash :: "string option"
  sn_chainId :: "int option"
  sn_createdAt :: int

abbreviation sn_amount :: "stored_note \<Rightarrow> int" where "sn_amount n \<equiv> cn_amount (sn_note n)"

definition tokenBigIntToAddress :: "int \<Rightarrow> string" where
  "tokenBigIntToAddress token = hexPad 40 token"

definition isLiveNote :: "stored_note \<Rightarrow> bool" where "isLiveNote n \<longleftrightarrow> \<not> sn_failed n"

definition isPendingDeposit :: "stored_note \<Rightarrow> bool" where "isPendingDeposit n \<longleftrightarrow> isLiveNote n \<and> sn_leafIndex n < 0"

definition DEPOSIT_CONFIRMING_WINDOW_MS :: int where "DEPOSIT_CONFIRMING_WINDOW_MS = 10 * 60000"

definition hasConfirmingDeposit :: "stored_note list \<Rightarrow> int \<Rightarrow> int \<Rightarrow> bool" where
  "hasConfirmingDeposit tokenNotes nowMs windowMs = list_ex (\<lambda>n. isPendingDeposit n \<and> nowMs - sn_createdAt n < windowMs) tokenNotes"

section \<open>Balances\<close>

fun sum_balance :: "string \<Rightarrow> stored_note list \<Rightarrow> int \<times> int \<Rightarrow> int \<times> int" where
  "sum_balance tok [] acc = acc"
| "sum_balance tok (n # ns) (available, pending) =
     (if tokenBigIntToAddress (cn_token (sn_note n)) \<noteq> tok \<or> \<not> isLiveNote n then sum_balance tok ns (available, pending)
      else if 0 \<le> sn_leafIndex n then sum_balance tok ns (available + sn_amount n, pending)
      else sum_balance tok ns (available, pending + sn_amount n))"

definition summarizeBalance :: "stored_note list \<Rightarrow> string \<Rightarrow> int \<times> int" where
  "summarizeBalance notes tokenAddress = sum_balance (toLowerCase tokenAddress) notes (0, 0)"

record token_balance =
  tb_token :: string
  tb_symbol :: string
  tb_raw :: int

definition isCountable :: "int option \<Rightarrow> string list \<Rightarrow> stored_note \<Rightarrow> bool" where
  "isCountable chain spentIds n \<longleftrightarrow>
     \<not> (chain \<noteq> None \<and> sn_chainId n \<noteq> None \<and> sn_chainId n \<noteq> chain) \<and> sn_id n \<notin> set spentIds"

definition add_balance :: "stored_note \<Rightarrow> (string \<times> token_balance) list \<Rightarrow> (string \<times> token_balance) list" where
  "add_balance n m = (let token = tokenBigIntToAddress (cn_token (sn_note n)) in
     case jget m token of Some b \<Rightarrow> jset token (b\<lparr>tb_raw := tb_raw b + sn_amount n\<rparr>) m
     | None \<Rightarrow> jset token \<lparr>tb_token = token, tb_symbol = sn_symbol n, tb_raw = sn_amount n\<rparr> m)"

definition getAvailableBalance :: "int option \<Rightarrow> string list \<Rightarrow> stored_note list \<Rightarrow> token_balance list" where
  "getAvailableBalance chain spentIds all_notes =
     sort_key (\<lambda>b. - tb_raw b) (map snd (fold add_balance (filter (isCountable chain spentIds) all_notes) []))"

section \<open>Picking source notes\<close>

record source_pick =
  sp_notes :: "(stored_note \<times> int) list"
  sp_coveredRaw :: int
  sp_pickedRaw :: int
  sp_changeRaw :: int
  sp_covered :: bool

definition empty_pick :: source_pick where
  "empty_pick = \<lparr>sp_notes = [], sp_coveredRaw = 0, sp_pickedRaw = 0, sp_changeRaw = 0, sp_covered = False\<rparr>"

definition sort_desc :: "stored_note list \<Rightarrow> stored_note list" where
  "sort_desc = sort_key (\<lambda>n. - sn_amount n)"

fun pick_loop :: "int \<Rightarrow> int \<Rightarrow> stored_note list \<Rightarrow> (stored_note \<times> int) list \<times> int" where
  "pick_loop totalRaw pickedRaw [] = ([], pickedRaw)"
| "pick_loop totalRaw pickedRaw (n # ns) =
     (if totalRaw \<le> pickedRaw then ([], pickedRaw)
      else let remaining = totalRaw - pickedRaw;
               spend = (if sn_amount n \<le> remaining then sn_amount n else remaining);
               (ps, p) = pick_loop totalRaw (pickedRaw + sn_amount n) ns in ((n, spend) # ps, p))"

definition finish_pick :: "int \<Rightarrow> stored_note list \<Rightarrow> source_pick" where
  "finish_pick totalRaw eligible = (let (ps, picked) = pick_loop totalRaw 0 eligible in
     if picked < totalRaw then empty_pick
     else \<lparr>sp_notes = ps, sp_coveredRaw = totalRaw, sp_pickedRaw = picked, sp_changeRaw = picked - totalRaw, sp_covered = True\<rparr>)"

definition of_token :: "string \<Rightarrow> stored_note \<Rightarrow> bool" where
  "of_token tokenAddress n \<longleftrightarrow> tokenBigIntToAddress (cn_token (sn_note n)) = toLowerCase tokenAddress"

definition pickFromSelectedNotes :: "stored_note list \<Rightarrow> string list \<Rightarrow> string \<Rightarrow> int \<Rightarrow> source_pick" where
  "pickFromSelectedNotes notes selectedIds tokenAddress totalRaw =
     (if totalRaw \<le> 0 \<or> selectedIds = [] then empty_pick
      else finish_pick totalRaw (sort_desc (filter (\<lambda>n. sn_id n \<in> set selectedIds \<and> 0 \<le> sn_leafIndex n \<and> of_token tokenAddress n) notes)))"

definition autoPickSourceNotes :: "stored_note list \<Rightarrow> string \<Rightarrow> int \<Rightarrow> source_pick" where
  "autoPickSourceNotes notes tokenAddress totalRaw = (if totalRaw \<le> 0 then empty_pick
     else finish_pick totalRaw (sort_desc (filter (of_token tokenAddress) notes)))"

section \<open>One note per batch\<close>

datatype fit_error = NoEligibleNotes | InsufficientNoteCount | SmallestBatchUncovered

text \<open>\<open>bp_byBatch\<close>: the array of the result; None is a slot that was never written.\<close>

record batch_pick =
  bp_byBatch :: "(stored_note \<times> int) option list"
  bp_changeRaw :: int
  bp_covered :: bool
  bp_reason :: "fit_error option"

definition failed_fit :: "fit_error \<Rightarrow> batch_pick" where
  "failed_fit e = \<lparr>bp_byBatch = [], bp_changeRaw = 0, bp_covered = False, bp_reason = Some e\<rparr>"

text \<open>The loop over the sorted batches \<open>(totalAmount, originalIndex)\<close>; None when a pair does not fit.\<close>

fun pair_loop ::
  "(int \<times> nat) list \<Rightarrow> stored_note list \<Rightarrow> (stored_note \<times> int) option list \<Rightarrow> int \<Rightarrow> ((stored_note \<times> int) option list \<times> int) option" where
  "pair_loop [] eligible byBatch changeRaw = Some (byBatch, changeRaw)"
| "pair_loop (b # bs) [] byBatch changeRaw = None"
| "pair_loop ((tot, i) # bs) (n # ns) byBatch changeRaw =
     (if sn_amount n < tot then None
      else pair_loop bs ns (byBatch[i := Some (n, tot)]) (changeRaw + (sn_amount n - tot)))"

definition eligible_notes :: "stored_note list \<Rightarrow> string \<Rightarrow> string list option \<Rightarrow> stored_note list" where
  "eligible_notes notes tokenAddress selectedIds =
     sort_desc (filter (\<lambda>n. case selectedIds of Some ids \<Rightarrow> ids \<noteq> [] \<longrightarrow> sn_id n \<in> set ids | None \<Rightarrow> True)
       (filter (\<lambda>n. 0 \<le> sn_leafIndex n) (filter (of_token tokenAddress) notes)))"

definition sorted_batches :: "int list \<Rightarrow> (int \<times> nat) list" where
  "sorted_batches totals = sort_key (\<lambda>(t, i). - t) (map (\<lambda>(i, t). (t, i)) (enumerate 0 totals))"

definition pickPerBatchNotes :: "stored_note list \<Rightarrow> int list \<Rightarrow> string \<Rightarrow> string list option \<Rightarrow> batch_pick" where
  "pickPerBatchNotes notes totals tokenAddress selectedIds =
     (if totals = [] then \<lparr>bp_byBatch = [], bp_changeRaw = 0, bp_covered = True, bp_reason = None\<rparr>
      else let eligible = eligible_notes notes tokenAddress selectedIds in
        if eligible = [] then failed_fit NoEligibleNotes
        else if length eligible < length totals then failed_fit InsufficientNoteCount
        else case pair_loop (sorted_batches totals) eligible (replicate (length totals) None) 0 of
          None \<Rightarrow> failed_fit SmallestBatchUncovered
        | Some (byBatch, changeRaw) \<Rightarrow>
            \<lparr>bp_byBatch = byBatch, bp_changeRaw = changeRaw, bp_covered = True, bp_reason = None\<rparr>)"

section \<open>Retrying a deposit\<close>

datatype receipt_answer = ReceiptError | NoReceipt | ReceiptStatus "int option"
datatype tx_answer = TxError | TxUnknown | TxKnown

record retry_deps =
  rd_hasGetReceipt :: bool
  rd_getReceipt :: "string \<Rightarrow> receipt_answer"
  rd_hasGetTransaction :: bool
  rd_getTransaction :: "string \<Rightarrow> tx_answer"

datatype retry_verdict = RetryAllow | RetryBlockLanded | RetryBlockPending | RetryConfirm

text \<open>
  The polls of the tree: for each of the 25 ticks whether the caller has aborted when it begins, and the
  leaf index the tree gives a commitment after the tick's sleep.  Some verdict ends the function.
\<close>

definition POLL_TRIES :: nat where "POLL_TRIES = 24"

fun poll_tree :: "(nat \<Rightarrow> bool) \<Rightarrow> (nat \<Rightarrow> int \<Rightarrow> int) \<Rightarrow> stored_note list \<Rightarrow> nat list \<Rightarrow> retry_verdict option" where
  "poll_tree aborted findIndex live [] = None"
| "poll_tree aborted findIndex live (i # is) =
     (if aborted i then Some RetryAllow
      else if list_ex (\<lambda>n. 0 \<le> findIndex i (sn_commitment n)) live then Some RetryBlockLanded
      else poll_tree aborted findIndex live is)"

text \<open>\<open>aborted'\<close>: the signal when the k-th live note is looked at.\<close>

fun classify_notes :: "(nat \<Rightarrow> bool) \<Rightarrow> retry_deps \<Rightarrow> nat \<Rightarrow> bool \<Rightarrow> stored_note list \<Rightarrow> retry_verdict" where
  "classify_notes aborted' d k ambiguous [] = (if ambiguous then RetryConfirm else RetryAllow)"
| "classify_notes aborted' d k ambiguous (n # ns) =
     (if aborted' k then RetryAllow
      else case (if rd_hasGetReceipt d then sn_txHash n else None) of
        None \<Rightarrow> classify_notes aborted' d (Suc k) True ns
      | Some h \<Rightarrow> if h = [] then classify_notes aborted' d (Suc k) True ns else
        (case rd_getReceipt d h of ReceiptError \<Rightarrow> classify_notes aborted' d (Suc k) True ns
         | NoReceipt \<Rightarrow>
             if rd_hasGetTransaction d then
               (case rd_getTransaction d h of TxError \<Rightarrow> classify_notes aborted' d (Suc k) True ns
                | TxUnknown \<Rightarrow> classify_notes aborted' d (Suc k) ambiguous ns
                | TxKnown \<Rightarrow> RetryBlockPending)
             else classify_notes aborted' d (Suc k) True ns
         | ReceiptStatus st \<Rightarrow> if st = Some 1 then RetryBlockLanded
             else if st = Some 0 then classify_notes aborted' d (Suc k) ambiguous ns
             else classify_notes aborted' d (Suc k) True ns))"

definition assessDepositRetry ::
  "(nat \<Rightarrow> bool) \<Rightarrow> (nat \<Rightarrow> int \<Rightarrow> int) \<Rightarrow> (nat \<Rightarrow> bool) \<Rightarrow> retry_deps \<Rightarrow> stored_note list \<Rightarrow> retry_verdict" where
  "assessDepositRetry aborted findIndex aborted' d pending =
     (let live = filter isPendingDeposit pending in
      if live = [] then RetryAllow
      else case poll_tree aborted findIndex live [0..<Suc POLL_TRIES] of Some v \<Rightarrow> v
        | None \<Rightarrow> classify_notes aborted' d 0 False live)"

end
