(* ===== verification/SpendProofs.thy ===== *)
theory SpendProofs
  imports Circuits
begin

text \<open>
  The other proofs a note is spent or moved with: withdraw, cancel and deposit
  (\<open>packages/sdk/src/zk/circuits/withdraw.ts\<close>, \<open>cancel.ts\<close>, \<open>deposit.ts\<close>), the envelope a proof worker
  sends back (\<open>assembleAuthorizeProofResult\<close>, \<open>assembleCancelProofResult\<close>), and the statements of the
  withdraw and cancel circuits.  A private key is its list of bytes.
\<close>

type_synonym 's signer = "int list \<Rightarrow> int \<Rightarrow> 's"

type_synonym ('i, 'f) prover = "'i \<Rightarrow> string + 'f \<times> int list"

section \<open>Withdraw\<close>

record withdraw_input =
  wi_note :: commitment_note
  wi_merkleProof :: merkle_proof
  wi_withdrawAmount :: int
  wi_recipient :: string
  wi_relayer :: "string option"
  wi_eddsaPrivateKey :: "int list"

record 's withdraw_signals =
  ws_root :: int
  ws_nullifierHash :: int
  ws_newCommitment :: int
  ws_tokenHash :: int
  ws_withdrawAmount :: int
  ws_recipient :: int
  ws_relayer :: int
  ws_ownerSecret :: int
  ws_token :: int
  ws_amount :: int
  ws_salt :: int
  ws_newSalt :: int
  ws_pathElements :: "int list"
  ws_pathIndices :: "nat list"
  ws_pubKeyAx :: int
  ws_pubKeyAy :: int
  ws_sig :: 's

datatype spend_error = AmountRange | KeyLength nat | SpendNotANumber | SelfCheck
  | SpendMembership membership_error | SpendProver string | MalformedSignals | CommitmentMismatch

definition ZERO_ADDRESS :: string where
  "ZERO_ADDRESS = ''0x'' @ replicate 40 (CHR ''0'')"

text \<open>The change note: none for the full amount; its salt is the random element \<open>rnd\<close>.\<close>

definition withdraw_change :: "withdraw_input \<Rightarrow> int \<Rightarrow> commitment_note option" where
  "withdraw_change inp rnd = (let n = wi_note inp; rest = cn_amount n - wi_withdrawAmount inp in
     if 0 < rest then Some \<lparr>cn_ownerSecret = cn_ownerSecret n, cn_token = cn_token n, cn_amount = rest, cn_salt = rnd,
       cn_pubKeyAx = cn_pubKeyAx n, cn_pubKeyAy = cn_pubKeyAy n\<rparr> else None)"

definition change_commitment :: "poseidon \<Rightarrow> commitment_note option \<Rightarrow> int" where
  "change_commitment P c = (case c of None \<Rightarrow> 0
     | Some n \<Rightarrow> P [TAG_COMMITMENT_V2, cn_ownerSecret n, cn_token n, cn_amount n, cn_salt n, cn_pubKeyAx n, cn_pubKeyAy n])"

definition withdraw_circuit_input ::
  "poseidon \<Rightarrow> 's signer \<Rightarrow> int \<Rightarrow> withdraw_input \<Rightarrow> spend_error + commitment_note option \<times> 's withdraw_signals" where
  "withdraw_circuit_input P sign rnd inp =
     (let n = wi_note inp; p = wi_merkleProof inp in
      if wi_withdrawAmount inp \<le> 0 \<or> cn_amount n < wi_withdrawAmount inp then Inl AmountRange
      else case computeTokenHash P (hexPad 40 (cn_token n)) of None \<Rightarrow> Inl SpendNotANumber
      | Some tokenHash \<Rightarrow>
        if length (wi_eddsaPrivateKey inp) \<noteq> 32 then Inl (KeyLength (length (wi_eddsaPrivateKey inp)))
        else (case js_BigInt (wi_recipient inp) of None \<Rightarrow> Inl SpendNotANumber
        | Some recipient \<Rightarrow>
          let nullifierHash = computeNullifier P n; msg = P [nullifierHash, recipient];
              change = withdraw_change inp rnd; commitment' = change_commitment P change in
          if (case change of None \<Rightarrow> False | Some c \<Rightarrow> computeCommitment P c \<noteq> commitment') then Inl SelfCheck
          else (case js_BigInt (case wi_relayer inp of None \<Rightarrow> ZERO_ADDRESS | Some r \<Rightarrow> r) of None \<Rightarrow> Inl SpendNotANumber
          | Some rel \<Rightarrow> Inr (change,
              \<lparr>ws_root = mp_root p, ws_nullifierHash = nullifierHash, ws_newCommitment = commitment',
               ws_tokenHash = tokenHash, ws_withdrawAmount = wi_withdrawAmount inp, ws_recipient = recipient,
               ws_relayer = rel, ws_ownerSecret = cn_ownerSecret n, ws_token = cn_token n, ws_amount = cn_amount n,
               ws_salt = cn_salt n, ws_newSalt = (if change = None then 0 else rnd), ws_pathElements = mp_pathElements p,
               ws_pathIndices = mp_pathIndices p, ws_pubKeyAx = cn_pubKeyAx n, ws_pubKeyAy = cn_pubKeyAy n,
               ws_sig = sign (wi_eddsaPrivateKey inp) msg\<rparr>))))"

record 'f withdraw_result =
  wr_proof :: 'f
  wr_publicSignals :: "int list"
  wr_newCommitment :: int
  wr_changeNote :: "commitment_note option"
  wr_root :: int
  wr_nullifierHash :: int
  wr_tokenHash :: int

definition generateWithdrawProof ::
  "poseidon \<Rightarrow> 's signer \<Rightarrow> ('s withdraw_signals, 'f) prover \<Rightarrow> int \<Rightarrow> withdraw_input \<Rightarrow> spend_error + 'f withdraw_result" where
  "generateWithdrawProof P sign prove rnd inp = (case withdraw_circuit_input P sign rnd inp of Inl e \<Rightarrow> Inl e
     | Inr (change, s) \<Rightarrow> (case prove s of Inl m \<Rightarrow> Inl (SpendProver m)
       | Inr (pf, pub) \<Rightarrow> if length pub < 7 then Inl MalformedSignals
           else Inr \<lparr>wr_proof = pf, wr_publicSignals = pub, wr_newCommitment = ws_newCommitment s, wr_changeNote = change,
             wr_root = ws_root s, wr_nullifierHash = ws_nullifierHash s, wr_tokenHash = ws_tokenHash s\<rparr>))"

definition withdraw_circuit :: "poseidon \<Rightarrow> (int \<times> int \<Rightarrow> 's \<Rightarrow> int \<Rightarrow> bool) \<Rightarrow> 's withdraw_signals \<Rightarrow> bool" where
  "withdraw_circuit P V s \<longleftrightarrow>
     merkle_circuit P COMMIT_TREE_DEPTH
       (hash_fe P [TAG_COMMITMENT_V2, ws_ownerSecret s, ws_token s, ws_amount s, ws_salt s, ws_pubKeyAx s, ws_pubKeyAy s])
       (ws_pathElements s) (ws_pathIndices s) (ws_root s) \<and>
     fe (ws_nullifierHash s) = hash_fe P [TAG_ESCROW_NULL, ws_ownerSecret s, ws_salt s] \<and>
     fe (ws_tokenHash s) = hash_fe P [ws_token s] \<and>
     fe (ws_amount s) < 2 ^ 128 \<and> fe (ws_amount s - ws_withdrawAmount s) < 2 ^ 128 \<and>
     fe (ws_newCommitment s) = (if fe (ws_amount s - ws_withdrawAmount s) = 0 then 0 else
       hash_fe P [TAG_COMMITMENT_V2, ws_ownerSecret s, ws_token s, ws_amount s - ws_withdrawAmount s, ws_newSalt s,
         ws_pubKeyAx s, ws_pubKeyAy s]) \<and>
     V (fe (ws_pubKeyAx s), fe (ws_pubKeyAy s)) (ws_sig s) (hash_fe P [ws_nullifierHash s, ws_recipient s])"

definition withdraw_public :: "'s withdraw_signals \<Rightarrow> int list" where
  "withdraw_public s = map fe [ws_root s, ws_nullifierHash s, ws_newCommitment s, ws_tokenHash s, ws_withdrawAmount s,
     ws_recipient s, ws_relayer s]"

section \<open>Cancel\<close>

record cancel_input =
  ci_note :: commitment_note
  ci_leafIndex :: int
  ci_allLeaves :: "int list option"
  ci_merkleProof :: "merkle_proof option"
  ci_nonce :: int
  ci_eddsaPrivateKey :: "int list"
  ci_submitter :: string

record 's cancel_signals =
  xs_commitmentRoot :: int
  xs_oldNullifier :: int
  xs_oldNonceNullifier :: int
  xs_newCommitment :: int
  xs_submitter :: int
  xs_secret :: int
  xs_salt :: int
  xs_nonce :: int
  xs_token :: int
  xs_balance :: int
  xs_freshSalt :: int
  xs_path :: "int list"
  xs_pathIdx :: "nat list"
  xs_pubKeyAx :: int
  xs_pubKeyAy :: int
  xs_sig :: 's

text \<open>
  The rotation loop over the successive random elements; a draw equal to the old salt, or whose commitment
  is 0, is followed by another.  None: all the draws made so far are rejected.
\<close>

fun rotate_salt :: "poseidon \<Rightarrow> commitment_note \<Rightarrow> int list \<Rightarrow> (int \<times> int) option" where
  "rotate_salt P n [] = None"
| "rotate_salt P n (s # ss) =
     (if s = cn_salt n then rotate_salt P n ss
      else let c = computeCommitment P (n\<lparr>cn_salt := s\<rparr>) in if c = 0 then rotate_salt P n ss else Some (s, c))"

text \<open>None as a whole: the rotation loop has not ended yet.\<close>

definition cancel_circuit_input ::
  "poseidon \<Rightarrow> 's signer \<Rightarrow> int list \<Rightarrow> cancel_input \<Rightarrow> (spend_error + 's cancel_signals) option" where
  "cancel_circuit_input P sign draws inp =
     (let n = ci_note inp in
      case note_membership P (computeCommitment P n) (ci_leafIndex inp) (ci_allLeaves inp) (ci_merkleProof inp) of
        Inl e \<Rightarrow> Some (Inl (SpendMembership e))
      | Inr (root, es, bs) \<Rightarrow> (case rotate_salt P n draws of None \<Rightarrow> None
        | Some (freshSalt, commitment') \<Rightarrow> (case js_BigInt (ci_submitter inp) of None \<Rightarrow> Some (Inl SpendNotANumber)
          | Some submitter \<Rightarrow>
            let oldNonce = computeNonceNullifier P (cn_ownerSecret n) (ci_nonce inp) in
            Some (Inr \<lparr>xs_commitmentRoot = root, xs_oldNullifier = computeNullifier P n, xs_oldNonceNullifier = oldNonce,
              xs_newCommitment = commitment', xs_submitter = submitter, xs_secret = cn_ownerSecret n,
              xs_salt = cn_salt n, xs_nonce = ci_nonce inp, xs_token = cn_token n, xs_balance = cn_amount n,
              xs_freshSalt = freshSalt, xs_path = es, xs_pathIdx = bs, xs_pubKeyAx = cn_pubKeyAx n,
              xs_pubKeyAy = cn_pubKeyAy n, xs_sig = sign (ci_eddsaPrivateKey inp) (P [oldNonce, submitter])\<rparr>))))"

record 'f cancel_result =
  cr_proof :: 'f
  cr_publicSignals :: "int list"
  cr_commitmentRoot :: int
  cr_oldNullifier :: int
  cr_oldNonceNullifier :: int
  cr_newCommitment :: int
  cr_freshSalt :: int

definition generateCancelProof ::
  "poseidon \<Rightarrow> 's signer \<Rightarrow> ('s cancel_signals, 'f) prover \<Rightarrow> int list \<Rightarrow> cancel_input \<Rightarrow> (spend_error + 'f cancel_result) option" where
  "generateCancelProof P sign prove draws inp = (case cancel_circuit_input P sign draws inp of None \<Rightarrow> None
     | Some (Inl e) \<Rightarrow> Some (Inl e)
     | Some (Inr s) \<Rightarrow> (case prove s of Inl m \<Rightarrow> Some (Inl (SpendProver m))
       | Inr (pf, pub) \<Rightarrow> if pub = [] then Some (Inl MalformedSignals)
           else Some (Inr \<lparr>cr_proof = pf, cr_publicSignals = pub, cr_commitmentRoot = xs_commitmentRoot s,
             cr_oldNullifier = xs_oldNullifier s, cr_oldNonceNullifier = xs_oldNonceNullifier s,
             cr_newCommitment = xs_newCommitment s, cr_freshSalt = xs_freshSalt s\<rparr>)))"

definition cancel_circuit :: "poseidon \<Rightarrow> (int \<times> int \<Rightarrow> 's \<Rightarrow> int \<Rightarrow> bool) \<Rightarrow> 's cancel_signals \<Rightarrow> bool" where
  "cancel_circuit P V s \<longleftrightarrow>
     merkle_circuit P COMMIT_TREE_DEPTH
       (hash_fe P [TAG_COMMITMENT_V2, xs_secret s, xs_token s, xs_balance s, xs_salt s, xs_pubKeyAx s, xs_pubKeyAy s])
       (xs_path s) (xs_pathIdx s) (xs_commitmentRoot s) \<and>
     fe (xs_oldNullifier s) = hash_fe P [TAG_ESCROW_NULL, xs_secret s, xs_salt s] \<and>
     fe (xs_oldNonceNullifier s) = hash_fe P [TAG_NONCE_NULL, xs_secret s, xs_nonce s] \<and>
     fe (xs_newCommitment s) =
       hash_fe P [TAG_COMMITMENT_V2, xs_secret s, xs_token s, xs_balance s, xs_freshSalt s, xs_pubKeyAx s, xs_pubKeyAy s] \<and>
     fe (xs_balance s) < 2 ^ 128 \<and>
     V (fe (xs_pubKeyAx s), fe (xs_pubKeyAy s)) (xs_sig s) (hash_fe P [xs_oldNonceNullifier s, xs_submitter s])"

definition cancel_public :: "'s cancel_signals \<Rightarrow> int list" where
  "cancel_public s = map fe [xs_commitmentRoot s, xs_oldNullifier s, xs_oldNonceNullifier s, xs_newCommitment s, xs_submitter s]"

section \<open>Deposit\<close>

record deposit_signals =
  ds_commitment :: int
  ds_token :: int
  ds_amount :: int
  ds_secret :: int
  ds_salt :: int
  ds_pubKeyAx :: int
  ds_pubKeyAy :: int

record 'f deposit_result =
  dr_commitment :: int
  dr_proof :: 'f
  dr_publicSignals :: "int list"

definition generateDepositProof ::
  "poseidon \<Rightarrow> (deposit_signals, 'f) prover \<Rightarrow> commitment_note \<Rightarrow> spend_error + 'f deposit_result" where
  "generateDepositProof P prove n = (let c = computeCommitment P n in
     case prove \<lparr>ds_commitment = c, ds_token = cn_token n, ds_amount = cn_amount n, ds_secret = cn_ownerSecret n,
       ds_salt = cn_salt n, ds_pubKeyAx = cn_pubKeyAx n, ds_pubKeyAy = cn_pubKeyAy n\<rparr> of
       Inl m \<Rightarrow> Inl (SpendProver m)
     | Inr (pf, pub) \<Rightarrow> if pub = [] then Inl MalformedSignals
         else if hd pub \<noteq> c then Inl CommitmentMismatch
         else Inr \<lparr>dr_commitment = c, dr_proof = pf, dr_publicSignals = pub\<rparr>)"

section \<open>Envelopes of the workers\<close>

record 'f envelope =
  ev_proof :: 'f
  ev_publicSignals :: "int list"
  ev_meta :: "(string \<times> int) list option"

definition CANCEL_PUBLIC_SIGNALS :: "string list" where
  "CANCEL_PUBLIC_SIGNALS = [''commitmentRoot'', ''oldNullifier'', ''oldNonceNullifier'', ''newCommitment'', ''submitter'']"

definition CANCEL_META_FRESH_SALT :: string where "CANCEL_META_FRESH_SALT = ''freshSalt''"

definition assembleCancelProofResult :: "'f envelope \<Rightarrow> nat + 'f cancel_result" where
  "assembleCancelProofResult e = (let ps = ev_publicSignals e in
     if length ps < length CANCEL_PUBLIC_SIGNALS then Inl (length ps)
     else Inr \<lparr>cr_proof = ev_proof e, cr_publicSignals = ps, cr_commitmentRoot = ps ! 0, cr_oldNullifier = ps ! 1,
       cr_oldNonceNullifier = ps ! 2, cr_newCommitment = ps ! 3,
       cr_freshSalt = (case Option.bind (ev_meta e) (\<lambda>m. map_of m CANCEL_META_FRESH_SALT) of Some v \<Rightarrow> v | None \<Rightarrow> 0)\<rparr>)"

text \<open>The message the cancel worker posts.\<close>

definition cancel_envelope :: "'f cancel_result \<Rightarrow> 'f envelope" where
  "cancel_envelope r = \<lparr>ev_proof = cr_proof r, ev_publicSignals = cr_publicSignals r,
     ev_meta = Some [(CANCEL_META_FRESH_SALT, cr_freshSalt r)]\<rparr>"

definition AUTHORIZE_PROOF_META_KEYS :: "string list" where
  "AUTHORIZE_PROOF_META_KEYS = [''pubKeyBind'', ''commitmentRoot'', ''nullifier'', ''nonceNullifier'', ''newCommitment'',
     ''claimsRoot'', ''totalLocked'', ''orderHash'']"

text \<open>What the authorize worker adds to its message, and how the page reads it back.\<close>

definition authorizeMetaFrom :: "'f authorize_result \<Rightarrow> (string \<times> int) list" where
  "authorizeMetaFrom r = [(''pubKeyBind'', ar_pubKeyBind r), (''commitmentRoot'', ar_commitmentRoot r),
     (''nullifier'', ar_nullifier r), (''nonceNullifier'', ar_nonceNullifier r), (''newCommitment'', ar_newCommitment r),
     (''claimsRoot'', ar_claimsRoot r), (''totalLocked'', ar_totalLocked r), (''orderHash'', ar_orderHash r)]"

definition authorize_envelope :: "'f authorize_result \<Rightarrow> 'f envelope" where
  "authorize_envelope r = \<lparr>ev_proof = ar_proof r, ev_publicSignals = ar_publicSignals r, ev_meta = Some (authorizeMetaFrom r)\<rparr>"

datatype meta_error = NoMeta | MissingMeta string

definition assembleAuthorizeProofResult :: "'f envelope \<Rightarrow> meta_error + 'f authorize_result" where
  "assembleAuthorizeProofResult e = (case ev_meta e of None \<Rightarrow> Inl NoMeta
     | Some m \<Rightarrow> (case find (\<lambda>k. map_of m k = None) AUTHORIZE_PROOF_META_KEYS of Some k \<Rightarrow> Inl (MissingMeta k)
       | None \<Rightarrow> let v = (\<lambda>k. the (map_of m k)) in
           Inr \<lparr>ar_proof = ev_proof e, ar_publicSignals = ev_publicSignals e, ar_pubKeyBind = v ''pubKeyBind'',
             ar_commitmentRoot = v ''commitmentRoot'', ar_nullifier = v ''nullifier'',
             ar_nonceNullifier = v ''nonceNullifier'', ar_newCommitment = v ''newCommitment'',
             ar_claimsRoot = v ''claimsRoot'', ar_totalLocked = v ''totalLocked'', ar_orderHash = v ''orderHash''\<rparr>))"

end
