(* ===== verification/RealSettle.thy ===== *)
theory RealSettle
  imports PayFunds SpendProofs
begin

text \<open>
  A settlement of the Pay application: preparing the proof, the order body for the relayer, polling, the checks on the
  receipt and the claim packages (\<open>apps/pay/app/_lib/realSettle.ts\<close>, \<open>workers/authorize.worker.ts\<close>,
  \<open>workers/claim.worker.ts\<close>, and the proof input of \<open>claimSubmit.ts\<close>).  The commitment tree, the random elements,
  the checksum function of ethers, the answers of the relayer and the receipt are inputs.
\<close>

section \<open>Proof workers\<close>

record groth_proof =
  gp_a :: "int \<times> int"
  gp_b :: "(int \<times> int) \<times> (int \<times> int)"
  gp_c :: "int \<times> int"

type_synonym 's auth_prover = "'s authorize_signals \<Rightarrow> string + groth_proof \<times> int list"

definition resolveTier :: "circuit_tier option \<Rightarrow> circuit_tier option" where
  "resolveTier hint = (case hint of None \<Rightarrow> Some TIER_16 | Some h \<Rightarrow> find (\<lambda>t. ct_cap t = ct_cap h) TIERS)"

datatype settle_error = NotConfirmed | NotInTree | BadMaxFeeBps | NegativeFeeRaw | FeeOverCap | NoteSmaller | NoClaimsInBatch
  | UnknownTier | ProofFailed authorize_error | BadMeta meta_error

definition authorize_worker ::
  "poseidon \<Rightarrow> 's signer \<Rightarrow> 's auth_prover \<Rightarrow> int \<Rightarrow> int list authorize_input \<Rightarrow> circuit_tier option \<Rightarrow>
   settle_error + groth_proof envelope" where
  "authorize_worker P sign prove rnd inp hint = (case resolveTier hint of None \<Rightarrow> Inl UnknownTier
     | Some tr \<Rightarrow> (case generateAuthorizeProof P sign prove rnd inp tr of Inl e \<Rightarrow> Inl (ProofFailed e)
       | Inr r \<Rightarrow> Inr (authorize_envelope r)))"

section \<open>Preparing\<close>

record settle_args =
  se_batch :: payout_batch
  se_tokenAddress :: string
  se_tokenSymbol :: string
  se_tokenDecimals :: int
  se_source :: stored_note
  se_relayerAddress :: string
  se_relayerUrl :: string
  se_settlementAddress :: string
  se_chainId :: int
  se_maxFeeBps :: int
  se_feeRaw :: int
  se_eddsaPrivateKey :: "int list"
  se_eddsaPublicKey :: "int \<times> int"
  se_senderLabel :: "string option"
  se_runLabel :: "string option"

record settle_side =
  sd_proof :: "groth_proof authorize_result"
  sd_sellToken :: string
  sd_buyToken :: string
  sd_sellAmount :: int
  sd_buyAmount :: int
  sd_maxFee :: int
  sd_expiry :: int
  sd_relayer :: string
  sd_tier :: nat

record settle_ctx =
  cx_authResult :: "groth_proof authorize_result"
  cx_source :: stored_note
  cx_sellAmount :: int
  cx_newSalt :: int
  cx_tokenAddress :: string
  cx_tokenSymbol :: string
  cx_tokenDecimals :: int
  cx_chainId :: int
  cx_settlementAddress :: string
  cx_batch :: payout_batch
  cx_senderLabel :: "string option"
  cx_runLabel :: "string option"
  cx_relayerUrl :: string
  cx_pubKey :: "int \<times> int"

definition min_release :: "claim_entry list \<Rightarrow> int" where
  "min_release cs = fold (\<lambda>c m. if ce_releaseTime c < m then ce_releaseTime c else m) cs (ce_releaseTime (hd cs))"

text \<open>The input of the authorize proof; \<open>buyAmount = sellAmount\<close>, and the order expires when the first claim opens.\<close>

definition settle_input :: "settle_args \<Rightarrow> merkle_proof \<Rightarrow> int \<Rightarrow> int \<Rightarrow> int list authorize_input" where
  "settle_input a mp nonce salt =
     (let sell = pb_totalAmount (se_batch a) + se_feeRaw a in
      \<lparr>ai_note = sn_note (se_source a), ai_leafIndex = sn_leafIndex (se_source a), ai_allLeaves = None,
       ai_merkleProof = Some mp, ai_sellAmount = sell, ai_buyToken = se_tokenAddress a, ai_buyAmount = sell,
       ai_maxFee = se_maxFeeBps a, ai_expiry = min_release (pb_claims (se_batch a)), ai_nonce = nonce,
       ai_relayer = se_relayerAddress a, ai_eddsaPrivateKey = se_eddsaPrivateKey a, ai_claims = pb_claims (se_batch a),
       ai_newSalt = Some salt\<rparr>)"

definition settle_guard :: "settle_args \<Rightarrow> merkle_proof option \<Rightarrow> settle_error option" where
  "settle_guard a mp =
     (let sell = pb_totalAmount (se_batch a) + se_feeRaw a in
      if sn_leafIndex (se_source a) < 0 then Some NotConfirmed
      else if mp = None then Some NotInTree
      else if se_maxFeeBps a < 0 \<or> 10000 < se_maxFeeBps a then Some BadMaxFeeBps
      else if se_feeRaw a < 0 then Some NegativeFeeRaw
      else if sell * se_maxFeeBps a < se_feeRaw a * BPS_DENOMINATOR then Some FeeOverCap
      else if sn_amount (se_source a) < sell then Some NoteSmaller
      else if pb_claims (se_batch a) = [] then Some NoClaimsInBatch
      else None)"

definition prepareRealSettle ::
  "poseidon \<Rightarrow> 's signer \<Rightarrow> 's auth_prover \<Rightarrow> (int \<Rightarrow> merkle_proof option) \<Rightarrow> int \<Rightarrow> int \<Rightarrow> int \<Rightarrow> settle_args \<Rightarrow>
   settle_error + settle_side \<times> settle_ctx" where
  "prepareRealSettle P sign prove tryProofFor rnd nonce salt a =
     (let mp = tryProofFor (sn_commitment (se_source a)) in
      case settle_guard a mp of Some e \<Rightarrow> Inl e | None \<Rightarrow>
      let inp = settle_input a (the mp) nonce salt in
      case authorize_worker P sign prove rnd inp (Some (pb_tier (se_batch a))) of Inl e \<Rightarrow> Inl e
      | Inr env \<Rightarrow> (case assembleAuthorizeProofResult env of Inl e \<Rightarrow> Inl (BadMeta e)
        | Inr res \<Rightarrow> Inr
           (\<lparr>sd_proof = res, sd_sellToken = se_tokenAddress a, sd_buyToken = se_tokenAddress a,
             sd_sellAmount = ai_sellAmount inp, sd_buyAmount = ai_buyAmount inp, sd_maxFee = se_maxFeeBps a,
             sd_expiry = ai_expiry inp, sd_relayer = se_relayerAddress a, sd_tier = ct_cap (pb_tier (se_batch a))\<rparr>,
            \<lparr>cx_authResult = res, cx_source = se_source a, cx_sellAmount = ai_sellAmount inp, cx_newSalt = salt,
             cx_tokenAddress = se_tokenAddress a, cx_tokenSymbol = se_tokenSymbol a, cx_tokenDecimals = se_tokenDecimals a,
             cx_chainId = se_chainId a, cx_settlementAddress = se_settlementAddress a, cx_batch = se_batch a,
             cx_senderLabel = se_senderLabel a, cx_runLabel = se_runLabel a, cx_relayerUrl = se_relayerUrl a,
             cx_pubKey = se_eddsaPublicKey a\<rparr>)))"

section \<open>The order body\<close>

definition dec2 :: "int \<times> int \<Rightarrow> string \<times> string" where "dec2 p = (dec (fst p), dec (snd p))"

text \<open>The order as the relayer parses it, with the two public key texts; None is reading past the end of the array.\<close>

definition buildAuthorizeOrderBody :: "settle_side \<times> settle_ctx \<Rightarrow> (authorize_order_file \<times> string \<times> string) option" where
  "buildAuthorizeOrderBody prep =
     (let r = cx_authResult (snd prep); ar = ar_publicSignals r; f = (\<lambda>k. Some (dec (ar ! k))) in
      if length ar < 15 then None
      else Some (\<lparr>ao_proof = Some \<lparr>pf_a = Some (dec2 (gp_a (ar_proof r))),
            pf_b = Some (dec2 (fst (gp_b (ar_proof r))), dec2 (snd (gp_b (ar_proof r)))), pf_c = Some (dec2 (gp_c (ar_proof r)))\<rparr>,
          publicSignals = \<lparr>pubKeyBind = f 0, commitmentRoot = f 1, nullifier = f 2, nonceNullifier = f 3, newCommitment = f 4,
            sellToken = f 5, buyToken = f 6, sellAmount = f 7, buyAmount = f 8, maxFee = f 9, expiry = f 10, claimsRoot = f 11,
            totalLocked = f 12, relayer = f 13, orderHash = f 14\<rparr>,
          publicSignalsArray = Some (map dec ar), tier = Some (int (sd_tier (fst prep)))\<rparr>,
        dec (fst (cx_pubKey (snd prep))), dec (snd (cx_pubKey (snd prep)))))"

section \<open>Submitting\<close>

record order_answer =
  oa_status :: string
  oa_settleTxHash :: "string option"
  oa_error :: "string option"

datatype submit_error = RequestFailed | Rejected string | SubmitAborted | NotDispatched

text \<open>One turn of the poll loop: the clock and the signal when it begins, and the answer (None: the request throws).\<close>

record poll_turn =
  pv_now :: ms
  pv_aborted :: bool
  pv_answer :: "order_answer option"

definition truthy_hash :: "string option \<Rightarrow> bool" where
  "truthy_hash h = (case h of None \<Rightarrow> False | Some s \<Rightarrow> s \<noteq> [])"

text \<open>None as a whole: the turns given do not end the loop.\<close>

fun poll_settle :: "ms \<Rightarrow> poll_turn list \<Rightarrow> (submit_error + string) option" where
  "poll_settle deadline [] = None"
| "poll_settle deadline (t # ts) =
     (if deadline \<le> pv_now t then Some (Inl NotDispatched)
      else if pv_aborted t then Some (Inl SubmitAborted)
      else case pv_answer t of None \<Rightarrow> Some (Inl RequestFailed)
        | Some a \<Rightarrow> if truthy_hash (oa_settleTxHash a) then Some (Inr (the (oa_settleTxHash a)))
            else if oa_status a = ''failed'' then Some (Inl (Rejected (case oa_error a of Some e \<Rightarrow> e | None \<Rightarrow> ''Relayer dispatch failed'')))
            else poll_settle deadline ts)"

definition submitRealSettle :: "order_answer option \<Rightarrow> ms \<Rightarrow> poll_turn list \<Rightarrow> (submit_error + string) option" where
  "submitRealSettle initial deadline turns = (case initial of None \<Rightarrow> Some (Inl RequestFailed)
     | Some a \<Rightarrow> if oa_status a = ''failed''
         then Some (Inl (Rejected (case oa_error a of Some e \<Rightarrow> e | None \<Rightarrow> ''Relayer rejected the authorize order'')))
         else if truthy_hash (oa_settleTxHash a) then Some (Inr (the (oa_settleTxHash a)))
         else poll_settle deadline turns)"

section \<open>Finalising\<close>

text \<open>A log with what the contract interface parses it to: the event's name and its \<open>claimsRoot\<close> argument.\<close>

record settle_log =
  lg_address :: string
  lg_parsed :: "(string \<times> int option) option"

fun extractSettledClaimsRoot :: "settle_log list \<Rightarrow> string \<Rightarrow> int option" where
  "extractSettledClaimsRoot [] addr = None"
| "extractSettledClaimsRoot (l # ls) addr =
     (if \<not> eqAddr (Some (lg_address l)) (Some addr) then extractSettledClaimsRoot ls addr
      else case lg_parsed l of Some (name, Some root) \<Rightarrow>
             if name = ''ScatterDirectAuthSettled'' then Some root else extractSettledClaimsRoot ls addr
        | _ \<Rightarrow> extractSettledClaimsRoot ls addr)"

record settle_receipt =
  sr_status :: int
  sr_logs :: "settle_log list"

record claim_package =
  cp_chainId :: int
  cp_settlementAddress :: string
  cp_claimsRoot :: string
  cp_recipient :: string
  cp_token :: string
  cp_tokenSymbol :: string
  cp_tokenDecimals :: int
  cp_amount :: string
  cp_releaseTime :: string
  cp_secret :: string
  cp_leafIndex :: int
  cp_pathElements :: "string list"
  cp_pathIndices :: "nat list"
  cp_senderLabel :: "string option"
  cp_runLabel :: "string option"
  cp_relayerUrl :: "string option"

record settle_result =
  st_nullifierOf :: int
  st_claimsRootOf :: int
  st_change :: "(commitment_note \<times> int \<times> int) option"
  st_claimPackages :: "claim_package list"
  st_relayerFee :: int

datatype finalize_error = TxFailed | NoSettleEvent | OtherSettle int | ChangeMismatch | TreeFailedAgain | RootMismatch | BadAddress

definition nonempty :: "string option \<Rightarrow> string option" where
  "nonempty s = (case s of Some x \<Rightarrow> if x = [] then None else Some x | None \<Rightarrow> None)"

definition claim_package_for ::
  "(string \<Rightarrow> string option) \<Rightarrow> settle_ctx \<Rightarrow> int list list \<Rightarrow> nat \<times> claim_entry \<Rightarrow> claim_package option" where
  "claim_package_for getAddress ctx layers = (\<lambda>(i, c).
     case (getMerkleProof layers (int i), getAddress (ce_recipient c), getAddress (cx_tokenAddress ctx)) of
       (Some (es, bs), Some recipient, Some token) \<Rightarrow> Some
         \<lparr>cp_chainId = cx_chainId ctx, cp_settlementAddress = cx_settlementAddress ctx,
          cp_claimsRoot = toBytes32Hex (ar_claimsRoot (cx_authResult ctx)), cp_recipient = recipient, cp_token = token,
          cp_tokenSymbol = cx_tokenSymbol ctx, cp_tokenDecimals = cx_tokenDecimals ctx, cp_amount = dec (ce_amount c),
          cp_releaseTime = dec (ce_releaseTime c), cp_secret = dec (ce_secret c), cp_leafIndex = int i,
          cp_pathElements = map dec es, cp_pathIndices = bs, cp_senderLabel = nonempty (cx_senderLabel ctx),
          cp_runLabel = nonempty (cx_runLabel ctx), cp_relayerUrl = nonempty (Some (cx_relayerUrl ctx))\<rparr>
     | _ \<Rightarrow> None)"

definition settle_change :: "poseidon \<Rightarrow> settle_ctx \<Rightarrow> finalize_error + (commitment_note \<times> int \<times> int) option" where
  "settle_change P ctx = (let n = sn_note (cx_source ctx); rest = cn_amount n - cx_sellAmount ctx in
     if 0 < rest then
       (let c = \<lparr>cn_ownerSecret = cn_ownerSecret n, cn_token = cn_token n, cn_amount = rest, cn_salt = cx_newSalt ctx,
                 cn_pubKeyAx = cn_pubKeyAx n, cn_pubKeyAy = cn_pubKeyAy n\<rparr> in
        if computeCommitment P c \<noteq> ar_newCommitment (cx_authResult ctx) then Inl ChangeMismatch
        else Inr (Some (c, computeCommitment P c, rest)))
     else Inr None)"

definition finalizeRealSettle ::
  "poseidon \<Rightarrow> (string \<Rightarrow> string option) \<Rightarrow> settle_receipt option \<Rightarrow> settle_ctx \<Rightarrow> finalize_error + settle_result" where
  "finalizeRealSettle P getAddress rcpt ctx = (case rcpt of None \<Rightarrow> Inl TxFailed
     | Some rc \<Rightarrow> if sr_status rc \<noteq> 1 then Inl TxFailed
       else (case extractSettledClaimsRoot (sr_logs rc) (cx_settlementAddress ctx) of None \<Rightarrow> Inl NoSettleEvent
       | Some settled \<Rightarrow> if settled \<noteq> ar_claimsRoot (cx_authResult ctx) then Inl (OtherSettle settled)
         else (case settle_change P ctx of Inl e \<Rightarrow> Inl e
         | Inr change \<Rightarrow> (case buildClaimsTree P (pb_claims (cx_batch ctx)) (pb_tier (cx_batch ctx)) of None \<Rightarrow> Inl TreeFailedAgain
           | Some (root, layers, _) \<Rightarrow> if root \<noteq> ar_claimsRoot (cx_authResult ctx) then Inl RootMismatch
             else (case all_some (map (claim_package_for getAddress ctx layers) (enumerate 0 (pb_claims (cx_batch ctx)))) of
                 None \<Rightarrow> Inl BadAddress
               | Some pkgs \<Rightarrow> Inr \<lparr>st_nullifierOf = ar_nullifier (cx_authResult ctx), st_claimsRootOf = ar_claimsRoot (cx_authResult ctx),
                   st_change = change, st_claimPackages = pkgs,
                   st_relayerFee = (if pb_totalAmount (cx_batch ctx) < cx_sellAmount ctx
                     then cx_sellAmount ctx - pb_totalAmount (cx_batch ctx) else 0)\<rparr>)))))"

section \<open>Claiming from a package\<close>

text \<open>The proof input \<open>submitClaim\<close> builds; None is the exception of a \<open>BigInt\<close>.\<close>

definition claim_proof_input :: "claim_package \<Rightarrow> claim_input option" where
  "claim_proof_input p =
     (case (js_BigInt (cp_amount p), js_BigInt (cp_secret p), js_BigInt (cp_recipient p), js_BigInt (cp_token p),
            js_BigInt (cp_releaseTime p), js_BigInt (cp_claimsRoot p), all_some (map js_BigInt (cp_pathElements p))) of
       (Some amt, Some secret, Some recipient, Some token, Some releaseTime, Some root, Some es) \<Rightarrow> Some
         \<lparr>cl_secret = secret, cl_recipient = recipient, cl_token = token, cl_amount = amt, cl_releaseTime = releaseTime,
          cl_leafIndex = cp_leafIndex p, cl_allClaimLeaves = [],
          cl_merkleProof = Some \<lparr>mp_root = root, mp_pathElements = es, mp_pathIndices = cp_pathIndices p\<rparr>\<rparr>
     | _ \<Rightarrow> None)"

datatype claim_worker_error = NoMerkleProof | UnknownDepth nat | ClaimFailed claim_failure

text \<open>The claim worker picks the tier by the length of the path.\<close>

definition claim_worker ::
  "poseidon \<Rightarrow> (claim_signals \<Rightarrow> string + 'f \<times> int list) \<Rightarrow> claim_input \<Rightarrow> claim_worker_error + 'f claim_result" where
  "claim_worker P prove inp = (case cl_merkleProof inp of None \<Rightarrow> Inl NoMerkleProof
     | Some mp \<Rightarrow> (case find (\<lambda>t. ct_depth t = length (mp_pathElements mp)) [TIER_16, TIER_64, TIER_128] of
         None \<Rightarrow> Inl (UnknownDepth (length (mp_pathElements mp)))
       | Some tr \<Rightarrow> (case generateClaimProof P prove inp tr of Inl e \<Rightarrow> Inl (ClaimFailed e) | Inr r \<Rightarrow> Inr r)))"

end
