(* ===== verification/SpendFacts.thy ===== *)
theory SpendFacts
  imports CircuitFacts SpendProofs
begin

text \<open>
  Withdrawing and cancelling: the signals meet the circuits, value is kept, and the change or rotated note can
  be spent again; what a worker posts is what the page reads.
\<close>

section \<open>Withdraw\<close>

lemma withdraw_input_Inr:
  assumes "withdraw_circuit_input P sign rnd inp = Inr (change, s)"
  obtains tokenHash recipient rel where
    "0 < wi_withdrawAmount inp" "wi_withdrawAmount inp \<le> cn_amount (wi_note inp)"
    "computeTokenHash P (hexPad 40 (cn_token (wi_note inp))) = Some tokenHash" "js_BigInt (wi_recipient inp) = Some recipient"
    "length (wi_eddsaPrivateKey inp) = 32" "change = withdraw_change inp rnd"
    "ws_root s = mp_root (wi_merkleProof inp)" "ws_pathElements s = mp_pathElements (wi_merkleProof inp)"
    "ws_pathIndices s = mp_pathIndices (wi_merkleProof inp)"
    "ws_nullifierHash s = computeNullifier P (wi_note inp)" "ws_newCommitment s = change_commitment P change"
    "ws_tokenHash s = tokenHash" "ws_withdrawAmount s = wi_withdrawAmount inp" "ws_recipient s = recipient" "ws_relayer s = rel"
    "ws_ownerSecret s = cn_ownerSecret (wi_note inp)" "ws_token s = cn_token (wi_note inp)" "ws_amount s = cn_amount (wi_note inp)"
    "ws_salt s = cn_salt (wi_note inp)" "ws_newSalt s = (if change = None then 0 else rnd)"
    "ws_pubKeyAx s = cn_pubKeyAx (wi_note inp)" "ws_pubKeyAy s = cn_pubKeyAy (wi_note inp)"
    "ws_sig s = sign (wi_eddsaPrivateKey inp) (P [computeNullifier P (wi_note inp), recipient])"
  using assms unfolding withdraw_circuit_input_def Let_def
  by (auto simp: not_le split: if_splits option.splits)

lemma field_elD: "field_el x \<Longrightarrow> 0 \<le> x \<and> x < field"
  by (simp add: field_el_def)

lemma change_commitment_eq: "change_commitment P (Some n) = computeCommitment P n"
  by (simp add: change_commitment_def computeCommitment_def)

lemma withdraw_change_cases:
  "wi_withdrawAmount inp \<le> cn_amount (wi_note inp) \<Longrightarrow>
   withdraw_change inp rnd = (if wi_withdrawAmount inp = cn_amount (wi_note inp) then None
     else Some ((wi_note inp)\<lparr>cn_amount := cn_amount (wi_note inp) - wi_withdrawAmount inp, cn_salt := rnd\<rparr>))"
  by (simp add: withdraw_change_def Let_def)

text \<open>
  C20.  \<open>generateWithdrawProof\<close> spends a note completely: for a note and a path that are in the tree, the signals meet
  the withdraw circuit, the withdrawn amount and the amount of the change note add up to the note, and the change
  commitment is that of the change note handed back (0 for a full withdrawal), which is in range and so can be spent
  in turn.
\<close>

theorem withdraw_satisfies_circuit:
  assumes "hash_ok P" "note_in_range (wi_note inp)" "field_el rnd" "numeral_in_field (wi_recipient inp)"
    "merkle_circuit P COMMIT_TREE_DEPTH (computeCommitment P (wi_note inp)) (mp_pathElements (wi_merkleProof inp))
       (mp_pathIndices (wi_merkleProof inp)) (mp_root (wi_merkleProof inp))"
    "\<And>m. V (cn_pubKeyAx (wi_note inp), cn_pubKeyAy (wi_note inp)) (sign (wi_eddsaPrivateKey inp) m) m"
    "withdraw_circuit_input P sign rnd inp = Inr (change, s)"
  shows "withdraw_circuit P V s \<and>
    ws_withdrawAmount s + (case change of None \<Rightarrow> 0 | Some c \<Rightarrow> cn_amount c) = cn_amount (wi_note inp) \<and>
    (case change of None \<Rightarrow> ws_newCommitment s = 0 | Some c \<Rightarrow> note_in_range c \<and> 0 < cn_amount c \<and> ws_newCommitment s = computeCommitment P c)"
  using assms(7)
proof (cases rule: withdraw_input_Inr)
  case (1 tokenHash recipient rel)
  let ?n = "wi_note inp" and ?rest = "cn_amount (wi_note inp) - wi_withdrawAmount inp"
  note P = assms(1)
  have n: "note_in_range ?n" by (rule assms(2))
  have f: "field_el (cn_token ?n)" "field_el recipient" "field_el (cn_amount ?n)" "cn_amount ?n < 2 ^ 128" "0 \<le> cn_token ?n"
    using n assms(4) 1(4) field_elD [of "cn_token ?n"] by (simp_all add: note_in_range_def numeral_in_field_def field_el_small)
  have th: "tokenHash = P [cn_token ?n]" using 1(3) f(5) by (simp add: computeTokenHash_def js_BigInt_hexPad)
  have rest: "0 \<le> ?rest" "?rest < 2 ^ 128" "field_el ?rest" using 1(1,2) f(4) by (auto intro: field_el_small)
  have ch: "change = (if ?rest = 0 then None else Some (?n\<lparr>cn_amount := ?rest, cn_salt := rnd\<rparr>))"
    using withdraw_change_cases [OF 1(2)] 1(6) by simp
  have c: "note_in_range (?n\<lparr>cn_amount := ?rest, cn_salt := rnd\<rparr>)" using n rest assms(3) by (simp add: note_in_range_def)
  have commit: "fe (ws_newCommitment s) = (if ?rest = 0 then 0 else hash_fe P [TAG_COMMITMENT_V2, cn_ownerSecret ?n, cn_token ?n,
      ?rest, ws_newSalt s, cn_pubKeyAx ?n, cn_pubKeyAy ?n])"
    using note_hashes(1) [OF c] 1(11,20) P unfolding ch
    by (auto simp: change_commitment_eq) (auto simp: change_commitment_def computeCommitment_def)
  have "withdraw_circuit P V s"
    unfolding withdraw_circuit_def 1(7-10,12-19,21-23)
    using assms(5) note_hashes [OF n] P f rest commit th assms(6) n
    by (simp add: note_in_range_def hash_fe_id)
  then show ?thesis using 1(1,2,11,13) ch c rest by (auto simp: change_commitment_eq change_commitment_def [of P None])
qed

section \<open>Cancel\<close>

lemma rotate_salt_Some:
  "rotate_salt P n draws = Some (s, c) \<Longrightarrow>
   s \<in> set draws \<and> s \<noteq> cn_salt n \<and> c \<noteq> 0 \<and> c = computeCommitment P (n\<lparr>cn_salt := s\<rparr>)"
  by (induction draws) (auto simp: Let_def split: if_splits)

lemma rotate_salt_total:
  "(\<exists>s \<in> set draws. s \<noteq> cn_salt n \<and> computeCommitment P (n\<lparr>cn_salt := s\<rparr>) \<noteq> 0) \<longleftrightarrow> rotate_salt P n draws \<noteq> None"
  by (induction draws) (auto simp: Let_def)

lemma cancel_input_Inr:
  assumes "cancel_circuit_input P sign draws inp = Some (Inr s)"
  obtains root es bs where
    "note_membership P (computeCommitment P (ci_note inp)) (ci_leafIndex inp) (ci_allLeaves inp) (ci_merkleProof inp) = Inr (root, es, bs)"
    "rotate_salt P (ci_note inp) draws = Some (xs_freshSalt s, xs_newCommitment s)"
    "js_BigInt (ci_submitter inp) = Some (xs_submitter s)"
    "xs_commitmentRoot s = root" "xs_path s = es" "xs_pathIdx s = bs" "xs_oldNullifier s = computeNullifier P (ci_note inp)"
    "xs_oldNonceNullifier s = computeNonceNullifier P (cn_ownerSecret (ci_note inp)) (ci_nonce inp)"
    "xs_secret s = cn_ownerSecret (ci_note inp)" "xs_salt s = cn_salt (ci_note inp)" "xs_nonce s = ci_nonce inp"
    "xs_token s = cn_token (ci_note inp)" "xs_balance s = cn_amount (ci_note inp)"
    "xs_pubKeyAx s = cn_pubKeyAx (ci_note inp)" "xs_pubKeyAy s = cn_pubKeyAy (ci_note inp)"
    "xs_sig s = sign (ci_eddsaPrivateKey inp) (P [computeNonceNullifier P (cn_ownerSecret (ci_note inp)) (ci_nonce inp), xs_submitter s])"
  using assms unfolding cancel_circuit_input_def Let_def
  by (auto split: sum.splits option.splits prod.splits)


section \<open>Envelopes\<close>

lemma membership_root_field:
  assumes P: "hash_ok P" and p: "\<forall>q. p = Some q \<longrightarrow> field_el (mp_root q)"
    and ls: "\<forall>xs. leaves = Some xs \<longrightarrow> list_all field_el xs \<and> length xs \<le> 2 ^ COMMIT_TREE_DEPTH"
    and m: "note_membership P c li leaves p = Inr (root, es, bs)"
  shows "field_el root"
proof (cases p)
  case None
  then obtain xs b where xs: "leaves = Some xs" "buildMerkleTree (hash2 P) xs (int COMMIT_TREE_DEPTH) = Some b" "root = bt_root b"
    using m by (auto simp: note_membership_def split: option.splits if_splits prod.splits)
  have l: "list_all field_el xs" "length xs \<le> 2 ^ COMMIT_TREE_DEPTH" using ls xs(1) by auto
  have "1 \<le> COMMIT_TREE_DEPTH" "COMMIT_TREE_DEPTH \<le> 30" by (simp_all add: COMMIT_TREE_DEPTH_def)
  from build_some [OF this l(2), of "hash2 P"] show ?thesis using node_field [OF P l(1)] xs by auto
next
  case (Some q)
  then show ?thesis using m p by (auto simp: note_membership_def)
qed

lemma cancel_public_field:
  assumes "hash_ok P" "\<forall>q. ci_merkleProof inp = Some q \<longrightarrow> field_el (mp_root q)"
    "\<forall>ls. ci_allLeaves inp = Some ls \<longrightarrow> list_all field_el ls \<and> length ls \<le> 2 ^ COMMIT_TREE_DEPTH"
    and s: "cancel_circuit_input P sign draws inp = Some (Inr s)"
  shows "field_el (xs_commitmentRoot s)" "field_el (xs_oldNullifier s)" "field_el (xs_oldNonceNullifier s)" "field_el (xs_newCommitment s)"
proof -
  obtain root es bs where m: "note_membership P (computeCommitment P (ci_note inp)) (ci_leafIndex inp) (ci_allLeaves inp) (ci_merkleProof inp) = Inr (root, es, bs)"
    and r: "rotate_salt P (ci_note inp) draws = Some (xs_freshSalt s, xs_newCommitment s)"
    and f: "xs_commitmentRoot s = root" "xs_oldNullifier s = computeNullifier P (ci_note inp)"
      "xs_oldNonceNullifier s = computeNonceNullifier P (cn_ownerSecret (ci_note inp)) (ci_nonce inp)"
    using s by (rule cancel_input_Inr) blast
  show "field_el (xs_commitmentRoot s)" unfolding f(1) by (rule membership_root_field [OF assms(1-3) m])
  show "field_el (xs_oldNullifier s)" "field_el (xs_oldNonceNullifier s)"
    using assms(1) by (simp_all add: f computeNullifier_def computeNonceNullifier_def)
  show "field_el (xs_newCommitment s)" using rotate_salt_Some [OF r] assms(1) by (simp add: computeCommitment_def)
qed

lemma authorize_envelope_read: "assembleAuthorizeProofResult (authorize_envelope r) = Inr r"
  by (cases r) (simp add: assembleAuthorizeProofResult_def authorize_envelope_def authorizeMetaFrom_def AUTHORIZE_PROOF_META_KEYS_def)

text \<open>
  Round trip through the workers: what the page reads back from the message of the cancel worker is the result the
  worker computed, when the prover returns the public signals of the circuit; and from the message of the
  authorize worker it is that worker's result, whatever the prover returned.
\<close>

lemma worker_envelopes_roundtrip:
  assumes "hash_ok P" "\<forall>q. ci_merkleProof inp = Some q \<longrightarrow> field_el (mp_root q)"
    "\<forall>ls. ci_allLeaves inp = Some ls \<longrightarrow> list_all field_el ls \<and> length ls \<le> 2 ^ COMMIT_TREE_DEPTH"
    "numeral_in_field (ci_submitter inp)"
    "\<And>s pf pub. prove s = Inr (pf, pub) \<Longrightarrow> pub = cancel_public s"
    "generateCancelProof P sign prove draws inp = Some (Inr c)"
  shows "assembleCancelProofResult (cancel_envelope c) = Inr c \<and> assembleAuthorizeProofResult (authorize_envelope r) = Inr r"
proof -
  obtain s pf pub where s: "cancel_circuit_input P sign draws inp = Some (Inr s)" "prove s = Inr (pf, pub)"
    and c: "c = \<lparr>cr_proof = pf, cr_publicSignals = pub, cr_commitmentRoot = xs_commitmentRoot s,
       cr_oldNullifier = xs_oldNullifier s, cr_oldNonceNullifier = xs_oldNonceNullifier s,
       cr_newCommitment = xs_newCommitment s, cr_freshSalt = xs_freshSalt s\<rparr>"
    using assms(6) by (auto simp: generateCancelProof_def split: option.splits sum.splits if_splits)
  have "pub = cancel_public s" using assms(5) s(2) by blast
  moreover have "field_el (xs_commitmentRoot s)" "field_el (xs_oldNullifier s)" "field_el (xs_oldNonceNullifier s)" "field_el (xs_newCommitment s)"
    using cancel_public_field [OF assms(1-3) s(1)] by simp_all
  ultimately have "assembleCancelProofResult (cancel_envelope c) = Inr c"
    by (simp add: c assembleCancelProofResult_def cancel_envelope_def CANCEL_PUBLIC_SIGNALS_def CANCEL_META_FRESH_SALT_def cancel_public_def)
  then show ?thesis by (simp add: authorize_envelope_read)
qed

end
