(* ===== verification/ProofSamples.thy ===== *)
theory ProofSamples
  imports SpendFacts
begin

text \<open>
  Concrete inputs for the properties of the client's proofs: a hash into the field, a note deposited alone in
  the commitment tree, an order with two claims, a withdrawal and a cancellation.
\<close>

definition sample_P :: poseidon where
  "sample_P xs = fe (fold (\<lambda>x a. a * 31 + x + 1) xs 7)"

lemma sample_P_ok: "hash_ok sample_P"
  by (simp add: hash_ok_def sample_P_def)

definition sample_sign :: "int list \<Rightarrow> int \<Rightarrow> int list \<times> int" where "sample_sign k m = (k, m)"

definition sample_V :: "int \<times> int \<Rightarrow> int list \<times> int \<Rightarrow> int \<Rightarrow> bool" where "sample_V pk s m \<longleftrightarrow> snd s = m"

lemma sample_V_ok: "sample_V pk (sample_sign k m) m"
  by (simp add: sample_V_def sample_sign_def)

definition sample_note :: commitment_note where
  "sample_note = \<lparr>cn_ownerSecret = 11, cn_token = 160, cn_amount = 1000, cn_salt = 13, cn_pubKeyAx = 17, cn_pubKeyAy = 19\<rparr>"

definition sample_path :: merkle_proof where
  "sample_path = \<lparr>mp_root = path_root (hash2 sample_P) (computeCommitment sample_P sample_note) (replicate 20 5) (replicate 20 0),
     mp_pathElements = replicate 20 5, mp_pathIndices = replicate 20 0\<rparr>"

definition sample_key :: "int list" where "sample_key = replicate 32 7"

definition sample_order :: "int list authorize_input" where
  "sample_order = \<lparr>ai_note = sample_note, ai_leafIndex = 0, ai_allLeaves = None, ai_merkleProof = Some sample_path,
     ai_sellAmount = 600, ai_buyToken = ''0xB0'', ai_buyAmount = 500, ai_maxFee = 30, ai_expiry = 2000, ai_nonce = 23,
     ai_relayer = ''0x0e'', ai_eddsaPrivateKey = sample_key,
     ai_claims = [\<lparr>ce_secret = 31, ce_recipient = ''0xc1'', ce_token = ''0xb0'', ce_amount = 300, ce_releaseTime = 2000\<rparr>,
                  \<lparr>ce_secret = 37, ce_recipient = ''0xc2'', ce_token = ''0xb0'', ce_amount = 200, ce_releaseTime = 2000\<rparr>],
     ai_newSalt = Some 41\<rparr>"

lemma sample_note_ok: "note_in_range sample_note"
  by code_simp

lemma sample_path_ok:
  "merkle_circuit sample_P COMMIT_TREE_DEPTH (computeCommitment sample_P sample_note) (mp_pathElements sample_path)
     (mp_pathIndices sample_path) (mp_root sample_path)"
  by code_simp

lemma sample_order_ok: "authorize_in_range sample_P 0 sample_order"
  by code_simp

lemma tier_16_ok: "tier_ok TIER_16"
  by code_simp

lemma sample_order_accepted: "isl (authorize_circuit_input sample_P sample_sign 0 sample_order TIER_16) = False"
  by code_simp

lemma sample_signals: obtains s where "authorize_circuit_input sample_P sample_sign 0 sample_order TIER_16 = Inr s"
  using sample_order_accepted by (cases "authorize_circuit_input sample_P sample_sign 0 sample_order TIER_16") auto

definition sample_withdrawal :: withdraw_input where
  "sample_withdrawal = \<lparr>wi_note = sample_note, wi_merkleProof = sample_path, wi_withdrawAmount = 400, wi_recipient = ''0xd1'',
     wi_relayer = None, wi_eddsaPrivateKey = sample_key\<rparr>"

definition sample_cancel :: cancel_input where
  "sample_cancel = \<lparr>ci_note = sample_note, ci_leafIndex = 0, ci_allLeaves = None, ci_merkleProof = Some sample_path,
     ci_nonce = 23, ci_eddsaPrivateKey = sample_key, ci_submitter = ''0xd2''\<rparr>"

definition sample_prover :: "(int list \<times> int) cancel_signals \<Rightarrow> string + nat \<times> int list" where
  "sample_prover s = Inr (1, cancel_public s)"

lemma sample_withdrawal_accepted:
  obtains c s where "withdraw_circuit_input sample_P sample_sign 41 sample_withdrawal = Inr (c, s)"
proof -
  have "\<not> isl (withdraw_circuit_input sample_P sample_sign 41 sample_withdrawal)" by code_simp
  then show ?thesis using that by (cases "withdraw_circuit_input sample_P sample_sign 41 sample_withdrawal") auto
qed

text \<open>The first draw is the old salt and is refused.\<close>

lemma sample_cancel_accepted:
  obtains s where "cancel_circuit_input sample_P sample_sign [13, 29] sample_cancel = Some (Inr s)"
proof -
  have "(case cancel_circuit_input sample_P sample_sign [13, 29] sample_cancel of Some (Inr s) \<Rightarrow> True | _ \<Rightarrow> False)" by code_simp
  then show ?thesis using that by (auto split: option.splits sum.splits)
qed

lemma sample_cancel_result:
  obtains c where "generateCancelProof sample_P sample_sign sample_prover [13, 29] sample_cancel = Some (Inr c)"
proof (rule sample_cancel_accepted)
  fix s assume s: "cancel_circuit_input sample_P sample_sign [13, 29] sample_cancel = Some (Inr s)"
  have "\<exists>c. generateCancelProof sample_P sample_sign sample_prover [13, 29] sample_cancel = Some (Inr c)"
    unfolding generateCancelProof_def s by (simp add: sample_prover_def cancel_public_def)
  then show ?thesis using that by blast
qed

section \<open>Witnesses\<close>


theorem locked_claims_are_claimable_witness:
  "\<exists>s c. authorize_circuit_input sample_P sample_sign 0 sample_order TIER_16 = Inr s \<and>
    cs_claimsRoot c = as_claimsRoot s \<and> cs_amount c = 200 \<and> cs_recipient c = 194 \<and> claim_circuit sample_P TIER_16 c"
proof (rule sample_signals)
  fix s assume s: "authorize_circuit_input sample_P sample_sign 0 sample_order TIER_16 = Inr s"
  have i: "1 < length (ai_claims sample_order)" by code_simp
  have v: "ce_amount (ai_claims sample_order ! 1) = 200" "js_BigInt (ce_recipient (ai_claims sample_order ! 1)) = Some 194"
    by code_simp+
  show ?thesis
    using locked_claims_are_claimable [OF sample_P_ok tier_16_ok sample_order_ok s i] s v by auto
qed

lemma change_note_spendable_witness:
  "\<exists>s. authorize_circuit_input sample_P sample_sign 0 sample_order TIER_16 = Inr s \<and>
    as_newCommitment s = computeCommitment sample_P (change_note sample_note 600 (as_newSalt s)) \<and>
    cn_amount (change_note sample_note 600 (as_newSalt s)) = 400"
proof (rule sample_signals)
  fix s assume s: "authorize_circuit_input sample_P sample_sign 0 sample_order TIER_16 = Inr s"
  have v: "ai_note sample_order = sample_note" "ai_sellAmount sample_order = 600" "cn_amount sample_note = 1000"
    by (simp_all add: sample_order_def sample_note_def)
  then have "ai_sellAmount sample_order < cn_amount (ai_note sample_order)" by simp
  from change_note_spendable [OF sample_order_ok s this] s v show ?thesis by (auto simp: Let_def change_note_def)
qed

theorem withdraw_satisfies_circuit_witness:
  "\<exists>c s. withdraw_circuit_input sample_P sample_sign 41 sample_withdrawal = Inr (c, s) \<and> withdraw_circuit sample_P sample_V s \<and>
    ws_withdrawAmount s + (case c of None \<Rightarrow> 0 | Some n \<Rightarrow> cn_amount n) = 1000"
proof (rule sample_withdrawal_accepted)
  fix c s assume s: "withdraw_circuit_input sample_P sample_sign 41 sample_withdrawal = Inr (c, s)"
  have v: "wi_note sample_withdrawal = sample_note" "wi_merkleProof sample_withdrawal = sample_path" "cn_amount sample_note = 1000"
    by (simp_all add: sample_withdrawal_def sample_note_def)
  have "field_el 41" "numeral_in_field (wi_recipient sample_withdrawal)" by code_simp+
  from withdraw_satisfies_circuit [where V = sample_V and sign = sample_sign, OF sample_P_ok _ this _ sample_V_ok s] s
  show ?thesis using sample_note_ok sample_path_ok unfolding v by auto
qed


lemma worker_envelopes_roundtrip_witness:
  "\<exists>c. generateCancelProof sample_P sample_sign sample_prover [13, 29] sample_cancel = Some (Inr c) \<and>
    assembleCancelProofResult (cancel_envelope c) = Inr c"
proof (rule sample_cancel_result)
  fix c assume c: "generateCancelProof sample_P sample_sign sample_prover [13, 29] sample_cancel = Some (Inr c)"
  have "\<forall>q. ci_merkleProof sample_cancel = Some q \<longrightarrow> field_el (mp_root q)"
    by (simp add: sample_cancel_def) code_simp
  moreover have "\<forall>ls. ci_allLeaves sample_cancel = Some ls \<longrightarrow> list_all field_el ls \<and> length ls \<le> 2 ^ COMMIT_TREE_DEPTH"
    by (simp add: sample_cancel_def)
  moreover have "numeral_in_field (ci_submitter sample_cancel)" by code_simp
  moreover have "pub = cancel_public s" if "sample_prover s = Inr (pf, pub)" for s pf pub
    using that by (simp add: sample_prover_def)
  ultimately have "assembleCancelProofResult (cancel_envelope c) = Inr c"
    using worker_envelopes_roundtrip [OF sample_P_ok _ _ _ _ c] by blast
  then show ?thesis using c by blast
qed

end
