(* ===== verification/PayoutFacts.thy ===== *)
theory PayoutFacts
  imports Payout ProofSamples
begin

text \<open>
  A split payout is complete and in order, a payout whose links were lost is found again from the wallet alone,
  and the fee cap of a settlement is the tightest one that covers its fee.
\<close>

section \<open>Splitting\<close>

definition claim_matches :: "string \<Rightarrow> payout_recipient \<Rightarrow> claim_entry \<Rightarrow> bool" where
  "claim_matches token r c \<longleftrightarrow> ce_recipient c = pr_recipient r \<and> ce_token c = token \<and> ce_amount c = pr_amount r \<and>
     ce_releaseTime c = pr_releaseTime r \<and> (case pr_secret r of Some s \<Rightarrow> ce_secret c = s | None \<Rightarrow> True)"

lemma batch_claims_match: "batch_claims gen token k rs = (k', cs) \<Longrightarrow> list_all2 (claim_matches token) rs cs"
  by (induction gen token k rs arbitrary: k' cs rule: batch_claims.induct)
    (auto simp: claim_matches_def payout_claim_def split: option.splits prod.splits)

lemma claims_amounts: "list_all2 (claim_matches token) rs cs \<Longrightarrow> map ce_amount cs = map pr_amount rs"
  by (induction rule: list_all2_induct) (auto simp: claim_matches_def)

lemma split_loop_total: "0 < ct_cap tr \<Longrightarrow> split_loop gen token tr k rs \<noteq> None"
  by (induction gen token tr k rs rule: split_loop.induct)
    (subst split_loop.simps, auto simp: Let_def split: prod.splits)

definition batch_ok :: "circuit_tier \<Rightarrow> payout_batch \<Rightarrow> bool" where
  "batch_ok tr b \<longleftrightarrow> pb_tier b = tr \<and> pb_claims b \<noteq> [] \<and> length (pb_claims b) \<le> ct_cap tr \<and>
     pb_totalAmount b = sum_list (map ce_amount (pb_claims b))"

definition lands_in_order :: "string \<Rightarrow> nat \<Rightarrow> payout_recipient list \<Rightarrow> payout_batch list \<Rightarrow> bool" where
  "lands_in_order token cap rs bs \<longleftrightarrow> (\<forall>i < length rs. i div cap < length bs \<and> i mod cap < length (pb_claims (bs ! (i div cap))) \<and>
     claim_matches token (rs ! i) (pb_claims (bs ! (i div cap)) ! (i mod cap)))"

lemma split_loop_step:
  assumes "split_loop gen token tr k rs = Some bs" "rs \<noteq> []"
  obtains k' cs bs' where "0 < ct_cap tr" "batch_claims gen token k (take (ct_cap tr) rs) = (k', cs)"
    "split_loop gen token tr k' (drop (ct_cap tr) rs) = Some bs'"
    "bs = \<lparr>pb_totalAmount = sum_list (map pr_amount (take (ct_cap tr) rs)), pb_claims = cs, pb_tier = tr\<rparr> # bs'"
  using assms by (subst (asm) split_loop.simps) (auto simp: Let_def split: if_splits prod.splits)

lemma ceil_div_step: "0 < c \<Longrightarrow> 0 < n \<Longrightarrow> (n + c - 1) div c = Suc ((n - c + c - 1) div (c :: nat))"
proof (cases "c \<le> n")
  case False
  assume "0 < c" "0 < n"
  then obtain m where "n = Suc m" by (cases n) auto
  then have "(n + c - 1) div c = 1" using False \<open>0 < c\<close> by (intro div_nat_eqI) auto
  then show ?thesis using False \<open>0 < c\<close> by simp
qed (simp add: le_div_geq)

lemma split_loop_spec:
  "split_loop gen token tr k rs = Some bs \<Longrightarrow> 0 < ct_cap tr \<Longrightarrow>
   list_all2 (claim_matches token) rs (concat (map pb_claims bs)) \<and> list_all (batch_ok tr) bs \<and>
   length bs = (length rs + ct_cap tr - 1) div ct_cap tr \<and> lands_in_order token (ct_cap tr) rs bs"
proof (induction "length rs" arbitrary: k rs bs rule: less_induct)
  case less
  show ?case
  proof (cases "rs = []")
    case True
    then show ?thesis using less.prems by (simp add: split_loop.simps lands_in_order_def)
  next
    case False
    let ?c = "ct_cap tr"
    obtain k' cs bs' where st: "batch_claims gen token k (take ?c rs) = (k', cs)"
      "split_loop gen token tr k' (drop ?c rs) = Some bs'"
      and bs: "bs = \<lparr>pb_totalAmount = sum_list (map pr_amount (take ?c rs)), pb_claims = cs, pb_tier = tr\<rparr> # bs'"
      using split_loop_step [OF less.prems(1) False] by metis
    have "length (drop ?c rs) < length rs" using False less.prems(2) by simp
    note ih = less.hyps [OF this st(2) less.prems(2)]
    note m = batch_claims_match [OF st(1)]
    have len: "length cs = min ?c (length rs)" using list_all2_lengthD [OF m] by simp
    have "list_all2 (claim_matches token) rs (concat (map pb_claims bs))"
      using list_all2_appendI [OF m, of "drop ?c rs" "concat (map pb_claims bs')"] ih by (simp add: bs)
    moreover have "list_all (batch_ok tr) bs"
      using ih claims_amounts [OF m] len False less.prems(2) by (auto simp: bs batch_ok_def)
    moreover have "length bs = (length rs + ?c - 1) div ?c"
      using ih ceil_div_step [of ?c "length rs"] less.prems(2) False by (simp add: bs)
    moreover have "lands_in_order token ?c rs bs"
      unfolding lands_in_order_def
    proof (intro allI impI)
      fix i assume i: "i < length rs"
      show "i div ?c < length bs \<and> i mod ?c < length (pb_claims (bs ! (i div ?c))) \<and>
        claim_matches token (rs ! i) (pb_claims (bs ! (i div ?c)) ! (i mod ?c))"
      proof (cases "i < ?c")
        case True
        then show ?thesis using i m len by (auto simp: bs list_all2_conv_all_nth)
      next
        case f: False
        have d: "i div ?c = Suc ((i - ?c) div ?c)" "i mod ?c = (i - ?c) mod ?c"
          using f less.prems(2) by (simp_all add: le_div_geq le_mod_geq)
        have "i - ?c < length (drop ?c rs)" using i f by auto
        then show ?thesis using ih i f by (auto simp: d bs lands_in_order_def)
      qed
    qed
    ultimately show ?thesis by blast
  qed
qed

text \<open>
  C22.  \<open>splitPayout\<close> loses and reorders nothing: without an explicit tier it always returns batches, of the smallest
  active tier that covers the run; recipient i lands in batch i div cap at position i mod cap with its own amount,
  release time and secret; no batch is empty or over the capacity of its tier, each total is the sum of the claims,
  and the totals add up to the payout.
\<close>

theorem split_payout_exact:
  assumes "recipients \<noteq> []"
  shows "\<exists>tr bs. splitPayout gen token None recipients = Some (Inr bs) \<and> tr \<in> set ACTIVE_TIERS \<and>
    tr = (if length recipients \<le> 16 then TIER_16 else if length recipients \<le> 64 then TIER_64 else TIER_128) \<and>
    lands_in_order token (ct_cap tr) recipients bs \<and> list_all (batch_ok tr) bs \<and>
    length bs = (length recipients + ct_cap tr - 1) div ct_cap tr \<and>
    sum_list (map pb_totalAmount bs) = sum_list (map pr_amount recipients)"
proof -
  let ?tr = "if length recipients \<le> 16 then TIER_16 else if length recipients \<le> 64 then TIER_64 else TIER_128"
  have p: "pickActiveTier (int (length recipients)) = Some ?tr" using assms pickActiveTier_cases [of "int (length recipients)"] by auto
  have cap: "0 < ct_cap ?tr" "?tr \<in> set ACTIVE_TIERS" by (auto simp: tier_defs)
  obtain bs where bs: "split_loop gen token ?tr 0 recipients = Some bs" using split_loop_total [OF cap(1)] by blast
  note sp = split_loop_spec [OF bs cap(1)]
  have t: "list_all (batch_ok ?tr) bs" using sp by blast
  have "sum_list (map pb_totalAmount bs) = sum_list (map ce_amount (concat (map pb_claims bs)))"
    using t by (induction bs) (auto simp: batch_ok_def)
  also have "\<dots> = sum_list (map pr_amount recipients)" using claims_amounts sp by metis
  finally show ?thesis using sp bs cap(2) p assms by (intro exI [of _ ?tr] exI [of _ bs]) (simp add: splitPayout_def)
qed

section \<open>Deep recovery\<close>

lemma candidate_claim_Some:
  "candidate_claim P a t p \<noteq> None \<longleftrightarrow> js_BigInt (rr_recipient (snd p)) \<noteq> None \<and> js_BigInt (ra_token a) \<noteq> None"
  by (cases p) (auto simp: candidate_claim_def deriveClaimSecret_def claimSecretPreimage_def bind_eq_None_conv)

lemma candidate_claim_fields:
  "candidate_claim P a t p = Some c \<Longrightarrow>
   ce_recipient c = rr_recipient (snd p) \<and> ce_token c = ra_token a \<and> ce_amount c = rr_amount (snd p) \<and> ce_releaseTime c = t"
  by (cases p) (auto simp: candidate_claim_def)

lemma candidate_claims_Some:
  "candidate_claims P a t \<noteq> None \<longleftrightarrow>
   (\<forall>r \<in> set (ra_recipients a). js_BigInt (rr_recipient r) \<noteq> None \<and> js_BigInt (ra_token a) \<noteq> None)"
proof -
  have "candidate_claims P a t \<noteq> None \<longleftrightarrow> (\<forall>p \<in> set (enumerate 0 (ra_recipients a)). candidate_claim P a t p \<noteq> None)"
    unfolding candidate_claims_def by (rule all_some_None)
  also have "\<dots> \<longleftrightarrow> (\<forall>r \<in> snd ` set (enumerate 0 (ra_recipients a)). js_BigInt (rr_recipient r) \<noteq> None \<and> js_BigInt (ra_token a) \<noteq> None)"
    unfolding candidate_claim_Some by blast
  finally show ?thesis by (simp only: set_map [symmetric] map_snd_enumerate)
qed

lemma all_some_set: "all_some (map f xs) = Some ys \<Longrightarrow> y \<in> set ys \<Longrightarrow> \<exists>x \<in> set xs. f x = Some y"
  by (auto simp: all_some_eq) (metis imageE image_eqI list.set_map)

lemma candidate_claims_length: "candidate_claims P a t = Some cs \<Longrightarrow> length cs = length (ra_recipients a)"
  by (auto simp: candidate_claims_def all_some_eq dest: arg_cong [of _ _ length])

text \<open>The tree of a candidate exists as soon as the addresses are numerals.\<close>

lemma candidate_root_Some:
  assumes tr: "tier_ok tr" and len: "length (ra_recipients a) \<le> ct_cap tr" and cs: "candidate_claims P a t = Some cs"
  shows "\<exists>root. candidate_root P a tr t = Some (cs, root)"
proof -
  have l: "length cs \<le> ct_cap tr" using len candidate_claims_length [OF cs] by simp
  have "claim_leaf P c \<noteq> None" if "c \<in> set cs" for c
  proof -
    obtain p where p: "candidate_claim P a t p = Some c" using all_some_set [OF cs [unfolded candidate_claims_def] \<open>c \<in> set cs\<close>] by blast
    have "js_BigInt (ce_recipient c) \<noteq> None" "js_BigInt (ce_token c) \<noteq> None"
      using p candidate_claim_Some [of P a t p] candidate_claim_fields [OF p] by simp_all
    then show ?thesis by (auto simp: claim_leaf_def bind_eq_None_conv)
  qed
  then show ?thesis using claims_tree_exists [OF tr l] cs by (fastforce simp: candidate_root_def)
qed

lemma recover_loop_finds:
  assumes "0 < step" "\<forall>t. \<not> aborted t" "\<forall>t. candidate_root P a tr t \<noteq> None" "t0 + int n * step \<le> ra_endSec a"
    and "candidate_root P a tr (t0 + int n * step) = Some (cs, root)" "toLowerCase (toBytes32Hex root) = target"
  shows "\<exists>k cs' root'. recover_loop P aborted a tr target step t0 = Inr (Some (t0 + int k * step, cs')) \<and> k \<le> n \<and>
    candidate_root P a tr (t0 + int k * step) = Some (cs', root') \<and> toLowerCase (toBytes32Hex root') = target"
  using assms(4-6)
proof (induction n arbitrary: t0)
  case 0
  then show ?case using assms(1,2) by (subst recover_loop.simps) (intro exI [of _ 0], auto)
next
  case (Suc n)
  obtain cs0 root0 where c0: "candidate_root P a tr t0 = Some (cs0, root0)" using assms(3) by (metis not_Some_eq surj_pair)
  have pos: "0 \<le> int n * step" using assms(1) by simp
  have t0: "t0 \<le> ra_endSec a" 
  proof -
    have "int (Suc n) * step = step + int n * step" by (simp add: algebra_simps)
    then show ?thesis using Suc.prems(1) pos assms(1) by linarith
  qed
  show ?case
  proof (cases "toLowerCase (toBytes32Hex root0) = target")
    case True
    then show ?thesis using c0 t0 assms(1,2) by (subst recover_loop.simps) (intro exI [of _ 0], auto)
  next
    case False
    have e: "t0 + int (Suc m) * step = (t0 + step) + int m * step" for m by (simp add: algebra_simps)
    have "recover_loop P aborted a tr target step t0 = recover_loop P aborted a tr target step (t0 + step)"
      using c0 t0 False assms(1,2) by (subst recover_loop.simps) auto
    moreover obtain k cs' root' where "recover_loop P aborted a tr target step (t0 + step) = Inr (Some ((t0 + step) + int k * step, cs'))" "k \<le> n"
      "candidate_root P a tr ((t0 + step) + int k * step) = Some (cs', root')" "toLowerCase (toBytes32Hex root') = target"
      using Suc.IH [of "t0 + step"] Suc.prems unfolding e by blast
    ultimately show ?thesis by (intro exI [of _ "Suc k"] exI [of _ cs'] exI [of _ root']) (simp only: e Suc_le_mono simp_thms)
  qed
qed

text \<open>The search arguments an operator gives for a payout: the same lines without secrets and release time.\<close>

definition recover_args_for ::
  "int \<Rightarrow> string \<Rightarrow> payout_recipient list \<Rightarrow> circuit_tier \<Rightarrow> int \<Rightarrow> int \<Rightarrow> int \<Rightarrow> int option \<Rightarrow> recover_args" where
  "recover_args_for seed token rs tr root startSec endSec stepSec =
     \<lparr>ra_seed = seed, ra_recipients = map (\<lambda>r. \<lparr>rr_recipient = pr_recipient r, rr_amount = pr_amount r\<rparr>) rs, ra_token = token,
      ra_tierCap = int (ct_cap tr), ra_targetClaimsRoot = toBytes32Hex root, ra_startSec = startSec, ra_endSec = endSec,
      ra_stepSec = stepSec, ra_maxCandidates = None\<rparr>"

text \<open>With all secrets filled in, a chunk yields its claims without a call of the generator.\<close>

lemma batch_claims_filled:
  "list_all (\<lambda>r. pr_secret r \<noteq> None) rs \<Longrightarrow> batch_claims gen token k rs = (k, map (\<lambda>r. payout_claim token r (the (pr_secret r))) rs)"
  by (induction gen token k rs rule: batch_claims.induct) auto

lemma with_secret_claim:
  assumes "with_secret P seed token (i, r) = Some r'" "pr_secret r = None" "pr_releaseTime r = T"
  shows "pr_secret r' \<noteq> None \<and> candidate_claim P (recover_args_for seed token rs tr root s e st) T
    (i, \<lparr>rr_recipient = pr_recipient r, rr_amount = pr_amount r\<rparr>) = Some (payout_claim token r' (the (pr_secret r')))"
  using assms by (auto simp: with_secret_def candidate_claim_def recover_args_for_def payout_claim_def)

lemma payout_claims_candidate:
  assumes w: "withDeterministicSecrets P rs seed token = Some rs'" and n: "list_all (\<lambda>r. pr_secret r = None \<and> pr_releaseTime r = T) rs"
  shows "list_all (\<lambda>r. pr_secret r \<noteq> None) rs'"
    "candidate_claims P (recover_args_for seed token rs tr root s e st) T
       = Some (map (\<lambda>r. payout_claim token r (the (pr_secret r))) rs')"
proof -
  have m: "map (with_secret P seed token) (enumerate 0 rs) = map Some rs'"
    using w by (simp add: withDeterministicSecrets_def all_some_eq)
  have len: "length rs' = length rs" using arg_cong [OF m, of length] by simp
  have nth: "with_secret P seed token (i, rs ! i) = Some (rs' ! i)" if "i < length rs" for i
    using arg_cong [OF m, of "\<lambda>xs. xs ! i"] that len by (simp add: nth_enumerate_eq)
  have c: "pr_secret (rs' ! i) \<noteq> None \<and> candidate_claim P (recover_args_for seed token rs tr root s e st) T
    (i, \<lparr>rr_recipient = pr_recipient (rs ! i), rr_amount = pr_amount (rs ! i)\<rparr>) = Some (payout_claim token (rs' ! i) (the (pr_secret (rs' ! i))))"
    if "i < length rs" for i
    using with_secret_claim [OF nth [OF that]] n that by (simp add: list_all_length)
  show "list_all (\<lambda>r. pr_secret r \<noteq> None) rs'" using c len by (simp add: list_all_length)
  have ra: "ra_recipients (recover_args_for seed token rs tr root s e st) = map (\<lambda>r. \<lparr>rr_recipient = pr_recipient r, rr_amount = pr_amount r\<rparr>) rs"
    by (simp add: recover_args_for_def)
  show "candidate_claims P (recover_args_for seed token rs tr root s e st) T
       = Some (map (\<lambda>r. payout_claim token r (the (pr_secret r))) rs')"
    unfolding candidate_claims_def all_some_eq ra
    by (rule nth_equalityI) (use c len in \<open>auto simp: nth_enumerate_eq\<close>)
qed

lemma matching_claims_filled:
  "list_all2 (claim_matches token) rs cs \<Longrightarrow> list_all (\<lambda>r. pr_secret r \<noteq> None) rs \<Longrightarrow>
   cs = map (\<lambda>r. payout_claim token r (the (pr_secret r))) rs"
  by (induction rule: list_all2_induct) (auto simp: claim_matches_def payout_claim_def)

lemma single_batch_claims:
  assumes "splitPayout gen token tier_opt rs = Some (Inr [b])" "list_all (\<lambda>r. pr_secret r \<noteq> None) rs" "0 < ct_cap (pb_tier b)"
  shows "pb_claims b = map (\<lambda>r. payout_claim token r (the (pr_secret r))) rs" "length rs \<le> ct_cap (pb_tier b)"
proof -
  obtain tr where l: "split_loop gen token tr 0 rs = Some [b]" and ne: "rs \<noteq> []"
    using assms(1) by (auto simp: splitPayout_def split: if_splits option.splits)
  have tr: "pb_tier b = tr" by (rule split_loop_step [OF l ne]) auto
  have cap: "0 < ct_cap tr" using assms(3) tr by simp
  note sp = split_loop_spec [OF l cap]
  then have m: "list_all2 (claim_matches token) rs (pb_claims b)" and ok: "batch_ok tr b" by auto
  show "pb_claims b = map (\<lambda>r. payout_claim token r (the (pr_secret r))) rs" by (rule matching_claims_filled [OF m assms(2)])
  show "length rs \<le> ct_cap (pb_tier b)" using list_all2_lengthD [OF m] ok tr by (simp add: batch_ok_def)
qed

text \<open>
  C12.  A payout whose links were lost is found again: if it was settled as one batch with secrets derived from the
  wallet's seed, then scanning a window of at most 200000 candidates that contains its release time ends with
  claims whose tree has the settled root; and unless an earlier candidate collides with that root, with exactly
  the claims that were settled, secrets included.
\<close>

theorem lost_payout_is_recovered:
  assumes payout: "rs \<noteq> []" "list_all (\<lambda>r. pr_secret r = None \<and> pr_releaseTime r = T) rs"
      "withDeterministicSecrets P rs seed token = Some rs'" "splitPayout gen token tier_opt rs' = Some (Inr [b])"
      "pb_tier b \<in> set TIERS" "buildClaimsTree P (pb_claims b) (pb_tier b) = Some (root, layers, leaves)"
    and window: "0 < step" "T = startSec + int n * step" "T \<le> endSec" "list_all is_safe_integer [startSec, endSec, step]"
      "(endSec - startSec) div step + 1 \<le> 200000" "\<forall>t. \<not> aborted t"
  shows "\<exists>t cs root'. deepRecoverReleaseTime P aborted (recover_args_for seed token rs (pb_tier b) root startSec endSec (Some step)) = Inr (Some (t, cs)) \<and>
    startSec \<le> t \<and> t \<le> T \<and> map_option fst (buildClaimsTree P cs (pb_tier b)) = Some root' \<and>
    toLowerCase (toBytes32Hex root') = toLowerCase (toBytes32Hex root) \<and>
    ((\<forall>t' cs' r'. startSec \<le> t' \<longrightarrow> t' < T \<longrightarrow>
        candidate_root P (recover_args_for seed token rs (pb_tier b) root startSec endSec (Some step)) (pb_tier b) t' = Some (cs', r') \<longrightarrow>
        toLowerCase (toBytes32Hex r') \<noteq> toLowerCase (toBytes32Hex root)) \<longrightarrow> t = T \<and> cs = pb_claims b)"
proof -
  let ?tr = "pb_tier b" and ?a = "recover_args_for seed token rs (pb_tier b) root startSec endSec (Some step)"
  let ?target = "toLowerCase (toBytes32Hex root)"
  have tr: "tier_ok ?tr" "0 < ct_cap ?tr" using tiers_ok [OF payout(5)] payout(5) by (auto simp: tier_defs)
  note filled = payout_claims_candidate [OF payout(3,2)]
  note sb = single_batch_claims [OF payout(4) filled(1) tr(2)]
  have cT: "candidate_claims P ?a T = Some (pb_claims b)" unfolding sb(1) by (rule filled(2))
  have len: "length (ra_recipients ?a) \<le> ct_cap ?tr" using sb(2) candidate_claims_length [OF cT] sb(1) by simp
  have rT: "candidate_root P ?a ?tr T = Some (pb_claims b, root)" using cT payout(6) by (simp add: candidate_root_def)
  have all: "candidate_root P ?a ?tr t \<noteq> None" for t
  proof -
    have "candidate_claims P ?a t \<noteq> None" using cT candidate_claims_Some by (metis option.distinct(1))
    then show ?thesis using candidate_root_Some [OF tr(1) len] by blast
  qed
  have "startSec + int n * step \<le> ra_endSec ?a" using window(2,3) by (simp add: recover_args_for_def)
  from recover_loop_finds [OF window(1,6) _ this] obtain k cs root' where k: "k \<le> n"
    "recover_loop P aborted ?a ?tr ?target step startSec = Inr (Some (startSec + int k * step, cs))"
    "candidate_root P ?a ?tr (startSec + int k * step) = Some (cs, root')" "toLowerCase (toBytes32Hex root') = ?target"
    using all rT window(2) by blast
  have kn: "int k * step \<le> int n * step" using k(1) window(1) by (intro mult_right_mono) auto
  have find: "find (\<lambda>t. int (ct_cap t) = ra_tierCap ?a) TIERS = Some ?tr" using payout(5) by (auto simp: recover_args_for_def tier_defs)
  have "startSec \<le> endSec" using window(1-3) by (smt (verit) mult_nonneg_nonneg of_nat_0_le_iff)
  then have run: "deepRecoverReleaseTime P aborted ?a = Inr (Some (startSec + int k * step, cs))"
    using payout(1) window(1,4,5) find k(2) len
    by (simp add: deepRecoverReleaseTime_def Let_def) (simp add: recover_args_for_def)
  have tree: "map_option fst (buildClaimsTree P cs ?tr) = Some root'"
    using k(3) by (auto simp: candidate_root_def bind_eq_Some_conv)
  have exact: "startSec + int k * step = T \<and> cs = pb_claims b"
    if free: "\<forall>t' cs' r'. startSec \<le> t' \<longrightarrow> t' < T \<longrightarrow> candidate_root P ?a ?tr t' = Some (cs', r') \<longrightarrow> toLowerCase (toBytes32Hex r') \<noteq> ?target"
  proof -
    have "\<not> startSec + int k * step < T" using free k(3,4) window(1) by (metis add_increasing2 le_add_same_cancel1 less_imp_le mult_nonneg_nonneg of_nat_0_le_iff)
    then have "startSec + int k * step = T" using kn window(2) by linarith
    then show ?thesis using k(3) rT by simp
  qed
  show ?thesis using run tree k(4) exact kn window(1,2)
    by (intro exI [of _ "startSec + int k * step"] exI [of _ cs] exI [of _ root']) simp
qed

section \<open>Fees\<close>

lemma ceil_div_covers: "0 < s \<Longrightarrow> x \<le> s * ((x + s - 1) div (s :: int))"
proof -
  assume s: "0 < s"
  have "s * ((x + s - 1) div s) = x + s - 1 - (x + s - 1) mod s" by (simp add: minus_mod_eq_mult_div)
  moreover have "(x + s - 1) mod s \<le> s - 1" using pos_mod_bound [OF s, of "x + s - 1"] by simp
  ultimately show ?thesis by linarith
qed

lemma ceil_div_least: "0 < s \<Longrightarrow> x \<le> s * c \<Longrightarrow> (x + s - 1) div (s :: int) \<le> c"
proof -
  assume s: "0 < s" and x: "x \<le> s * c"
  have "(x + s - 1) div s \<le> (s * c + s - 1) div s" by (rule zdiv_mono1) (use s x in auto)
  also have "\<dots> = c"
  proof -
    have "s * c + s - 1 = (s - 1) + c * s" by (simp add: algebra_simps)
    then have "(s * c + s - 1) div s = c + (s - 1) div s" using s by (metis div_mult_self1 add.commute less_irrefl mult.commute)
    then show ?thesis using s by simp
  qed
  finally show ?thesis .
qed

lemma batch_fee_parts:
  assumes "computeBatchFee lockedAmount recipientCount maxFeeBps perClaim = Inr f"
  shows "0 \<le> bf_feeRaw f" "bf_sellAmount f = lockedAmount + bf_feeRaw f" "bf_feeRaw f \<le> bf_sellAmount f"
    "0 < bf_sellAmount f \<Longrightarrow> bf_effectiveMaxFeeBps f = (bf_feeRaw f * 10000 + bf_sellAmount f - 1) div bf_sellAmount f"
    "bf_sellAmount f \<le> 0 \<Longrightarrow> bf_feeRaw f = 0 \<and> bf_sellAmount f = 0 \<and> 0 \<le> bf_effectiveMaxFeeBps f \<and> bf_effectiveMaxFeeBps f \<le> 10000"
proof -
  have v: "0 \<le> recipientCount" "0 \<le> maxFeeBps" "maxFeeBps \<le> 10000" "0 \<le> lockedAmount" "0 \<le> perClaim"
    and f: "bf_feeRaw f = lockedAmount * maxFeeBps div 10000 + recipientCount * perClaim"
      "bf_sellAmount f = lockedAmount + bf_feeRaw f"
      "bf_effectiveMaxFeeBps f = (if 0 < bf_sellAmount f then (bf_feeRaw f * 10000 + bf_sellAmount f - 1) div bf_sellAmount f else maxFeeBps)"
    using assms by (auto simp: computeBatchFee_def Let_def BPS_DENOMINATOR_def split: if_splits)
  show fee: "0 \<le> bf_feeRaw f" unfolding f(1) using v by (intro add_nonneg_nonneg) (auto simp: pos_imp_zdiv_nonneg_iff)
  show "bf_sellAmount f = lockedAmount + bf_feeRaw f" by (rule f(2))
  show "bf_feeRaw f \<le> bf_sellAmount f" using v by (simp add: f(2))
  show "bf_effectiveMaxFeeBps f = (bf_feeRaw f * 10000 + bf_sellAmount f - 1) div bf_sellAmount f" if "0 < bf_sellAmount f"
    using that f(3) by simp
  show "bf_feeRaw f = 0 \<and> bf_sellAmount f = 0 \<and> 0 \<le> bf_effectiveMaxFeeBps f \<and> bf_effectiveMaxFeeBps f \<le> 10000"
    if "bf_sellAmount f \<le> 0"
  proof -
    have "bf_feeRaw f = 0" "bf_sellAmount f = 0" using that fee v f(2) by linarith+
    then show ?thesis using f(3) v by simp
  qed
qed

lemma batch_fee_cap:
  assumes "computeBatchFee lockedAmount recipientCount maxFeeBps perClaim = Inr f"
  shows "bf_feeRaw f * 10000 \<le> bf_sellAmount f * bf_effectiveMaxFeeBps f" "0 \<le> bf_effectiveMaxFeeBps f" "bf_effectiveMaxFeeBps f \<le> 10000"
    "0 < bf_sellAmount f \<Longrightarrow> bf_feeRaw f * 10000 \<le> bf_sellAmount f * cap \<Longrightarrow> bf_effectiveMaxFeeBps f \<le> cap"
proof -
  note p = batch_fee_parts [OF assms]
  let ?s = "bf_sellAmount f" and ?x = "bf_feeRaw f * 10000"
  have pos: "?x \<le> ?s * bf_effectiveMaxFeeBps f \<and> 0 \<le> bf_effectiveMaxFeeBps f \<and> bf_effectiveMaxFeeBps f \<le> 10000 \<and>
      (?x \<le> ?s * cap \<longrightarrow> bf_effectiveMaxFeeBps f \<le> cap)" if s: "0 < ?s" for cap
  proof -
    have "?x \<le> ?s * 10000" using p(3) by simp
    then show ?thesis
      using ceil_div_covers [OF s, of ?x] ceil_div_least [OF s, of ?x 10000] ceil_div_least [OF s, of ?x cap] s p(1)
      by (simp add: p(4) [OF s] pos_imp_zdiv_nonneg_iff)
  qed
  have neg: "?x \<le> ?s * bf_effectiveMaxFeeBps f \<and> 0 \<le> bf_effectiveMaxFeeBps f \<and> bf_effectiveMaxFeeBps f \<le> 10000" if "\<not> 0 < ?s"
    using p(5) that by simp
  show "?x \<le> ?s * bf_effectiveMaxFeeBps f" "0 \<le> bf_effectiveMaxFeeBps f" "bf_effectiveMaxFeeBps f \<le> 10000"
    using pos neg by blast+
  show "bf_effectiveMaxFeeBps f \<le> cap" if "0 < ?s" "?x \<le> ?s * cap" using pos that by blast
qed

text \<open>
  C25.  The fee cap a payer signs covers the fee and nothing more: for valid inputs the amount sold is the amount
  locked plus the exact fee, the cap is between 0 and 10000 basis points, the on-chain check
  \<open>fee * 10000 \<le> sellAmount * maxFee\<close> holds with it, and no smaller cap passes that check.
\<close>

theorem batch_fee_cap_tight:
  assumes "computeBatchFee lockedAmount recipientCount maxFeeBps perClaim = Inr f"
  shows "0 \<le> bf_feeRaw f \<and> bf_sellAmount f = lockedAmount + bf_feeRaw f \<and>
    bf_feeRaw f * 10000 \<le> bf_sellAmount f * bf_effectiveMaxFeeBps f \<and>
    0 \<le> bf_effectiveMaxFeeBps f \<and> bf_effectiveMaxFeeBps f \<le> 10000 \<and>
    (\<forall>cap. 0 < bf_sellAmount f \<longrightarrow> bf_feeRaw f * 10000 \<le> bf_sellAmount f * cap \<longrightarrow> bf_effectiveMaxFeeBps f \<le> cap)"
  using batch_fee_parts(1,2) [OF assms] batch_fee_cap [OF assms] by blast

end
