(* ===== verification/RealSettleFacts.thy ===== *)
theory RealSettleFacts
  imports RealSettle PayoutFacts
begin

text \<open>
  A batch of a payout settles: the order the page builds for it is accepted by the relayer it names, and every claim
  package of a finished settlement can be claimed on the chain.
\<close>

section \<open>The earliest release time\<close>

lemma min_release_in: "cs \<noteq> [] \<Longrightarrow> min_release cs \<in> ce_releaseTime ` set cs"
proof -
  assume "cs \<noteq> []"
  have "fold (\<lambda>c m. if ce_releaseTime c < m then ce_releaseTime c else m) cs m \<in> insert m (ce_releaseTime ` set cs)" for m
  proof (induction cs arbitrary: m)
    case (Cons d ds)
    from Cons [of "if ce_releaseTime d < m then ce_releaseTime d else m"] show ?case by (auto split: if_splits)
  qed simp
  from this [of "ce_releaseTime (hd cs)"] show ?thesis using \<open>cs \<noteq> []\<close> by (auto simp: min_release_def)
qed

lemma min_release_least: "c \<in> set cs \<Longrightarrow> min_release cs \<le> ce_releaseTime c"
proof -
  have "fold (\<lambda>c m. if ce_releaseTime c < m then ce_releaseTime c else m) cs m \<le> m \<and>
    (\<forall>c \<in> set cs. fold (\<lambda>c m. if ce_releaseTime c < m then ce_releaseTime c else m) cs m \<le> ce_releaseTime c)" for m
  proof (induction cs arbitrary: m)
    case (Cons d ds)
    from Cons [of "if ce_releaseTime d < m then ce_releaseTime d else m"] show ?case by (auto split: if_splits)
  qed simp
  then show "c \<in> set cs \<Longrightarrow> ?thesis" by (simp add: min_release_def)
qed

section \<open>Preparing\<close>

text \<open>What the page relies on: numerals within the widths of the circuit, a note in the tree that can pay, claims that open later.\<close>

definition settle_ready :: "poseidon \<Rightarrow> settle_args \<Rightarrow> merkle_proof \<Rightarrow> int \<Rightarrow> int \<Rightarrow> seconds \<Rightarrow> bool" where
  "settle_ready P a mp nonce salt now \<longleftrightarrow>
     (let n = sn_note (se_source a); b = se_batch a; sell = pb_totalAmount b + se_feeRaw a in
      0 \<le> sn_leafIndex (se_source a) \<and> sell \<le> sn_amount (se_source a) \<and> sn_amount (se_source a) = cn_amount n \<and>
      note_in_range n \<and> supplied_path_ok P n (Some mp) \<and> field_el nonce \<and> field_el salt \<and>
      0 < pb_totalAmount b \<and> sell < 2 ^ 126 \<and>
      js_BigInt (se_tokenAddress a) = Some (cn_token n) \<and> cn_token n < 2 ^ 160 \<and>
      (case js_BigInt (se_relayerAddress a) of None \<Rightarrow> False | Some rel \<Rightarrow> 0 \<le> rel \<and> rel < 2 ^ 160) \<and>
      list_all (\<lambda>c. claim_in_range c \<and> ce_token c = se_tokenAddress a \<and> js_BigInt (ce_recipient c) \<noteq> None \<and>
        now < ce_releaseTime c \<and> ce_releaseTime c < 2 ^ 64) (pb_claims b) \<and>
      computeNullifier P n \<noteq> 0 \<and> computeNonceNullifier P (cn_ownerSecret n) nonce \<noteq> 0)"

text \<open>The fee was computed for the batch.\<close>

definition fee_for_batch :: "settle_args \<Rightarrow> bool" where
  "fee_for_batch a \<longleftrightarrow> (\<exists>count bps perClaim f. computeBatchFee (pb_totalAmount (se_batch a)) count bps perClaim = Inr f \<and>
     se_feeRaw a = bf_feeRaw f \<and> se_maxFeeBps a = bf_effectiveMaxFeeBps f)"

lemma batch_fee_settles:
  assumes "fee_for_batch a"
  shows "0 \<le> se_feeRaw a" "0 \<le> se_maxFeeBps a" "se_maxFeeBps a \<le> 10000"
    "se_feeRaw a * 10000 \<le> (pb_totalAmount (se_batch a) + se_feeRaw a) * se_maxFeeBps a"
  using assms batch_fee_parts(1,2) batch_fee_cap(1-3) unfolding fee_for_batch_def by metis+

lemma settle_guard_ready:
  assumes "settle_ready P a mp nonce salt now" "fee_for_batch a" "pb_claims (se_batch a) \<noteq> []"
  shows "settle_guard a (Some mp) = None"
  using assms(1,3) batch_fee_settles [OF assms(2)]
  by (simp add: settle_guard_def settle_ready_def Let_def BPS_DENOMINATOR_def not_less)

lemma settle_precheck:
  assumes "settle_ready P a mp nonce salt now" "fee_for_batch a" "batch_ok tr (se_batch a)"
  shows "authorize_precheck (settle_input a mp nonce salt) tr = None"
proof -
  have "(pb_totalAmount (se_batch a) + se_feeRaw a) * (10000 - se_maxFeeBps a) \<le> pb_totalAmount (se_batch a) * 10000"
    using batch_fee_settles(4) [OF assms(2)] by (simp add: algebra_simps)
  then show ?thesis
    using assms(1,3) batch_fee_settles [OF assms(2)]
    by (auto simp: precheck_None settle_input_def settle_ready_def Let_def batch_ok_def list_all_iff)
qed

lemma settle_in_range:
  assumes "settle_ready P a mp nonce salt now" "fee_for_batch a" "batch_ok tr (se_batch a)"
  shows "authorize_in_range P rnd (settle_input a mp nonce salt)"
proof -
  have "pb_claims (se_batch a) \<noteq> []" using assms(3) by (simp add: batch_ok_def)
  from min_release_in [OF this] have "field_el (min_release (pb_claims (se_batch a)))"
    using assms(1) by (auto simp: settle_ready_def Let_def list_all_iff claim_in_range_def)
  then show ?thesis
    using assms(1,3) batch_fee_settles(1,2) [OF assms(2)]
    by (auto simp: authorize_in_range_def settle_input_def settle_ready_def Let_def batch_ok_def numeral_in_field_def
        list_all_iff note_in_range_def field_el_small split: option.splits)
qed

lemma settle_signals:
  assumes ready: "settle_ready P a mp nonce salt now" and fee: "fee_for_batch a" and ok: "batch_ok tr (se_batch a)" and tr: "tier_ok tr"
  obtains s rel where "authorize_circuit_input P sign rnd (settle_input a mp nonce salt) tr = Inr s"
    "js_BigInt (se_relayerAddress a) = Some rel" "as_relayer s = rel" "as_sellToken s = cn_token (sn_note (se_source a))"
    "as_buyToken s = cn_token (sn_note (se_source a))" "as_sellAmount s = pb_totalAmount (se_batch a) + se_feeRaw a"
    "as_buyAmount s = pb_totalAmount (se_batch a) + se_feeRaw a" "as_totalLocked s = pb_totalAmount (se_batch a)"
    "as_maxFee s = se_maxFeeBps a" "as_expiry s = min_release (pb_claims (se_batch a))"
    "as_nullifier s = computeNullifier P (sn_note (se_source a))"
    "as_nonceNullifier s = computeNonceNullifier P (cn_ownerSecret (sn_note (se_source a))) nonce"
proof -
  let ?i = "settle_input a mp nonce salt" and ?cs = "pb_claims (se_batch a)"
  have cs: "\<forall>c \<in> set ?cs. js_BigInt (ce_recipient c) \<noteq> None \<and> js_BigInt (ce_token c) \<noteq> None"
    and tok: "js_BigInt (se_tokenAddress a) = Some (cn_token (sn_note (se_source a)))"
    and rel: "js_BigInt (se_relayerAddress a) \<noteq> None"
    using ready by (auto simp: settle_ready_def Let_def list_all_iff split: option.splits)
  have "\<forall>c \<in> set ?cs. claim_leaf P c \<noteq> None" using cs by (auto simp: claim_leaf_def)
  moreover have "length ?cs \<le> ct_cap tr" using ok by (simp add: batch_ok_def)
  ultimately obtain croot layers leaves where tree: "buildClaimsTree P ?cs tr = Some (croot, layers, leaves)"
    using claims_tree_exists [OF tr] by blast
  obtain rs ts where "all_some (map (js_BigInt \<circ> ce_recipient) ?cs) = Some rs" "all_some (map (js_BigInt \<circ> ce_token) ?cs) = Some ts"
    using cs all_some_None [of "js_BigInt \<circ> ce_recipient" ?cs] all_some_None [of "js_BigInt \<circ> ce_token" ?cs] by fastforce
  then obtain s where s: "authorize_circuit_input P sign rnd ?i tr = Inr s"
    using settle_precheck [OF ready fee ok] tree tok rel
    by (auto simp: authorize_circuit_input_def note_membership_def settle_input_def Let_def)
  obtain mem croot' buy rel' rs' ts' where a: "js_BigInt (ai_buyToken ?i) = Some buy" "js_BigInt (ai_relayer ?i) = Some rel'"
    "s = assemble_signals P sign ?i tr mem (residual P ?i rnd) croot' buy rel' rs' ts'"
    by (rule authorize_input_Inr [OF s]) blast
  have t: "pb_totalAmount (se_batch a) = sum_list (map ce_amount ?cs)" using ok by (simp add: batch_ok_def)
  show ?thesis
    by (rule that [OF s, of rel']) (use a tok t in \<open>simp_all add: settle_input_def Let_def assemble_signals_def\<close>)
qed

text \<open>
  The prover is complete for the authorize circuit: on signals that satisfy it, it returns a proof and their public signals.
\<close>

definition complete_prover ::
  "poseidon \<Rightarrow> (int \<times> int \<Rightarrow> 's \<Rightarrow> int \<Rightarrow> bool) \<Rightarrow> circuit_tier \<Rightarrow> 's auth_prover \<Rightarrow> bool" where
  "complete_prover P V tr prove \<longleftrightarrow> (\<forall>s. authorize_circuit P V tr s \<longrightarrow> (\<exists>pf. prove s = Inr (pf, authorize_public P s)))"

lemma num_dec_fe: "num (Some (dec (fe x))) = fe x" "in_field (Some (dec (fe x)))"
  using fe_range [of x] by (auto simp: num_def in_field_def field_el_def js_simps)

lemma in_field_dec: "field_el x \<Longrightarrow> in_field (Some (dec x))"
  by (auto simp: in_field_def field_el_def js_simps)

lemma prepared_signals:
  assumes P: "hash_ok P" and tr: "pb_tier (se_batch a) \<in> set TIERS" and ok: "batch_ok (pb_tier (se_batch a)) (se_batch a)"
    and ready: "settle_ready P a mp nonce salt now" and fee: "fee_for_batch a"
    and pr: "tryProofFor (sn_commitment (se_source a)) = Some mp"
      "\<And>m. V (cn_pubKeyAx (sn_note (se_source a)), cn_pubKeyAy (sn_note (se_source a))) (sign (se_eddsaPrivateKey a) m) m"
      "complete_prover P V (pb_tier (se_batch a)) prove"
    and s: "authorize_circuit_input P sign rnd (settle_input a mp nonce salt) (pb_tier (se_batch a)) = Inr s"
  obtains side ctx where "prepareRealSettle P sign prove tryProofFor rnd nonce salt a = Inr (side, ctx)"
    "sd_tier side = ct_cap (pb_tier (se_batch a))" "ar_publicSignals (cx_authResult ctx) = authorize_public P s"
proof -
  let ?i = "settle_input a mp nonce salt" and ?tr = "pb_tier (se_batch a)"
  have "authorize_circuit P V ?tr s"
    using authorize_input_circuit [where sign = sign and V = V, OF P tiers_ok [OF tr] settle_in_range [OF ready fee ok] s] pr(2) ready
    by (simp add: settle_input_def settle_ready_def Let_def)
  then obtain pf where pf: "prove s = Inr (pf, authorize_public P s)" using pr(3) by (auto simp: complete_prover_def)
  then obtain r where r: "generateAuthorizeProof P sign prove rnd ?i ?tr = Inr r" "ar_publicSignals r = authorize_public P s"
    using s by (simp add: generateAuthorizeProof_def authorize_public_def)
  have "resolveTier (Some ?tr) = Some ?tr" using tr by (auto simp: resolveTier_def tier_defs)
  then have "authorize_worker P sign prove rnd ?i (Some ?tr) = Inr (authorize_envelope r)" using r(1) by (simp add: authorize_worker_def)
  moreover have "settle_guard a (Some mp) = None" by (rule settle_guard_ready [OF ready fee]) (use ok in \<open>simp add: batch_ok_def\<close>)
  ultimately show ?thesis
    using that r(2) pr(1) by (simp add: prepareRealSettle_def Let_def authorize_envelope_read)
qed

lemma authorize_public_nth [simp]:
  "authorize_public P s ! 0 = hash_fe P [as_pubKeyAx s, as_pubKeyAy s, as_nullifier s]" "authorize_public P s ! Suc 0 = fe (as_commitmentRoot s)"
  "authorize_public P s ! 2 = fe (as_nullifier s)" "authorize_public P s ! 3 = fe (as_nonceNullifier s)"
  "authorize_public P s ! 4 = fe (as_newCommitment s)" "authorize_public P s ! 5 = fe (as_sellToken s)"
  "authorize_public P s ! 6 = fe (as_buyToken s)" "authorize_public P s ! 7 = fe (as_sellAmount s)"
  "authorize_public P s ! 8 = fe (as_buyAmount s)" "authorize_public P s ! 9 = fe (as_maxFee s)"
  "authorize_public P s ! 10 = fe (as_expiry s)" "authorize_public P s ! 11 = fe (as_claimsRoot s)"
  "authorize_public P s ! 12 = fe (as_totalLocked s)" "authorize_public P s ! 13 = fe (as_relayer s)"
  "authorize_public P s ! 14 = fe (as_orderHash s)"
  by (simp_all add: authorize_public_def nth_Cons')

lemma settle_body:
  assumes b: "buildAuthorizeOrderBody (side, ctx) = Some (body, keys)"
    and ps: "ar_publicSignals (cx_authResult ctx) = authorize_public P s" and t: "sd_tier side = ct_cap tr"
  shows "proof_complete (ao_proof body)" "tier body = Some (int (ct_cap tr))" "array_matches body"
    "publicSignals body = \<lparr>pubKeyBind = Some (dec (hash_fe P [as_pubKeyAx s, as_pubKeyAy s, as_nullifier s])),
      commitmentRoot = Some (dec (fe (as_commitmentRoot s))), nullifier = Some (dec (fe (as_nullifier s))),
      nonceNullifier = Some (dec (fe (as_nonceNullifier s))), newCommitment = Some (dec (fe (as_newCommitment s))),
      sellToken = Some (dec (fe (as_sellToken s))), buyToken = Some (dec (fe (as_buyToken s))),
      sellAmount = Some (dec (fe (as_sellAmount s))), buyAmount = Some (dec (fe (as_buyAmount s))),
      maxFee = Some (dec (fe (as_maxFee s))), expiry = Some (dec (fe (as_expiry s))),
      claimsRoot = Some (dec (fe (as_claimsRoot s))), totalLocked = Some (dec (fe (as_totalLocked s))),
      relayer = Some (dec (fe (as_relayer s))), orderHash = Some (dec (fe (as_orderHash s)))\<rparr>"
proof -
  show 1: "publicSignals body = \<lparr>pubKeyBind = Some (dec (hash_fe P [as_pubKeyAx s, as_pubKeyAy s, as_nullifier s])),
      commitmentRoot = Some (dec (fe (as_commitmentRoot s))), nullifier = Some (dec (fe (as_nullifier s))),
      nonceNullifier = Some (dec (fe (as_nonceNullifier s))), newCommitment = Some (dec (fe (as_newCommitment s))),
      sellToken = Some (dec (fe (as_sellToken s))), buyToken = Some (dec (fe (as_buyToken s))),
      sellAmount = Some (dec (fe (as_sellAmount s))), buyAmount = Some (dec (fe (as_buyAmount s))),
      maxFee = Some (dec (fe (as_maxFee s))), expiry = Some (dec (fe (as_expiry s))),
      claimsRoot = Some (dec (fe (as_claimsRoot s))), totalLocked = Some (dec (fe (as_totalLocked s))),
      relayer = Some (dec (fe (as_relayer s))), orderHash = Some (dec (fe (as_orderHash s)))\<rparr>"
    "proof_complete (ao_proof body)" "tier body = Some (int (ct_cap tr))"
    using b ps t by (auto simp: buildAuthorizeOrderBody_def Let_def proof_complete_def split: if_splits)
  have "publicSignalsArray body = Some (map dec (authorize_public P s))"
    using b ps by (auto simp: buildAuthorizeOrderBody_def Let_def split: if_splits)
  then show "array_matches body"
    by (simp add: array_matches_def 1 AUTHORIZE_PUBLIC_SIGNAL_ORDER_def authorize_public_def)
qed

text \<open>
  C6.  A batch the page can settle is an order the relayer takes: with the fee computed for the batch, a prover complete
  for the circuit and claims that open later than now, preparing never fails, and the body it posts passes the
  relayer's own validation at the address it names; the order pays the relayer exactly the computed fee on top of
  what it locks for the recipients, and the recipients' share covers the order at the signed cap.
\<close>

theorem prepared_body_accepted:
  assumes "hash_ok P" "pb_tier (se_batch a) \<in> set TIERS" "batch_ok (pb_tier (se_batch a)) (se_batch a)"
    "settle_ready P a mp nonce salt now" "fee_for_batch a"
    "tryProofFor (sn_commitment (se_source a)) = Some mp"
    "\<And>m. V (cn_pubKeyAx (sn_note (se_source a)), cn_pubKeyAy (sn_note (se_source a))) (sign (se_eddsaPrivateKey a) m) m"
    "complete_prover P V (pb_tier (se_batch a)) prove"
    "0 \<le> now" "now < 2 ^ 53" "js_BigInt (se_relayerAddress a) = Some rel" "eqAddr (Some (hexPad 40 rel)) (Some addr)"
  shows "\<exists>prep body keys. prepareRealSettle P sign prove tryProofFor rnd nonce salt a = Inr prep \<and>
    buildAuthorizeOrderBody prep = Some (body, keys) \<and> validateAuthorizeOrder body addr now = None \<and>
    num (sellAmount (publicSignals body)) - num (totalLocked (publicSignals body)) = se_feeRaw a \<and>
    num (buyAmount (publicSignals body)) * (10000 - num (maxFee (publicSignals body))) \<le> num (totalLocked (publicSignals body)) * 10000"
proof -
  let ?tr = "pb_tier (se_batch a)"
  obtain s where s: "authorize_circuit_input P sign rnd (settle_input a mp nonce salt) ?tr = Inr s"
    and f: "as_relayer s = rel" "as_sellToken s = cn_token (sn_note (se_source a))"
    "as_buyToken s = cn_token (sn_note (se_source a))" "as_sellAmount s = pb_totalAmount (se_batch a) + se_feeRaw a"
    "as_buyAmount s = pb_totalAmount (se_batch a) + se_feeRaw a" "as_totalLocked s = pb_totalAmount (se_batch a)"
    "as_maxFee s = se_maxFeeBps a" "as_expiry s = min_release (pb_claims (se_batch a))"
    "as_nullifier s = computeNullifier P (sn_note (se_source a))"
    "as_nonceNullifier s = computeNonceNullifier P (cn_ownerSecret (sn_note (se_source a))) nonce"
    by (rule settle_signals [OF assms(4,5,3) tiers_ok [OF assms(2)], of sign rnd]) (use assms(11) in auto)
  obtain side ctx where p: "prepareRealSettle P sign prove tryProofFor rnd nonce salt a = Inr (side, ctx)"
    "sd_tier side = ct_cap ?tr" "ar_publicSignals (cx_authResult ctx) = authorize_public P s"
    by (rule prepared_signals [where V = V and sign = sign and a = a and tryProofFor = tryProofFor and mp = mp, OF assms(1-8) s])
  obtain body keys where b: "buildAuthorizeOrderBody (side, ctx) = Some (body, keys)"
    using p(3) by (simp add: buildAuthorizeOrderBody_def Let_def authorize_public_def)
  note body = settle_body [OF b p(3,2)]
  have "pb_claims (se_batch a) \<noteq> []" using assms(3) by (simp add: batch_ok_def)
  then obtain c where c: "c \<in> set (pb_claims (se_batch a))" "min_release (pb_claims (se_batch a)) = ce_releaseTime c"
    using min_release_in by blast
  have exp: "now < as_expiry s" "as_expiry s < 2 ^ 64"
    using assms(4) c by (auto simp: f settle_ready_def Let_def list_all_iff)
  have r: "0 \<le> rel" "rel < 2 ^ 160" "0 < as_totalLocked s" "as_totalLocked s \<le> as_sellAmount s" "as_sellAmount s < 2 ^ 126"
    "0 \<le> as_sellToken s" "as_sellToken s < 2 ^ 160" "as_nullifier s \<noteq> 0" "as_nonceNullifier s \<noteq> 0"
    using assms(4,11) batch_fee_settles(1) [OF assms(5)] by (auto simp: f settle_ready_def Let_def note_in_range_def field_el_def)
  have fe: "fe (as_expiry s) = as_expiry s" "fe rel = rel" "fe (as_totalLocked s) = as_totalLocked s" "fe (as_sellAmount s) = as_sellAmount s"
    "fe (as_sellToken s) = as_sellToken s" "fe (as_maxFee s) = as_maxFee s" "fe (as_nullifier s) = as_nullifier s"
    "fe (as_nonceNullifier s) = as_nonceNullifier s"
  proof -
    have "0 \<le> as_maxFee s" "as_maxFee s \<le> 10000" using batch_fee_settles(2,3) [OF assms(5)] by (simp_all add: f(7))
    then have "field_el (as_expiry s)" "field_el rel" "field_el (as_totalLocked s)" "field_el (as_sellAmount s)"
      "field_el (as_sellToken s)" "field_el (as_maxFee s)"
      using exp r assms(9) by (auto simp: field_el_def BN254_FIELD_MODULUS_def)
    moreover have "field_el (as_nullifier s)" "field_el (as_nonceNullifier s)"
      using assms(1) by (simp_all add: f(9,10) computeNullifier_def computeNonceNullifier_def)
    ultimately show "fe (as_expiry s) = as_expiry s" "fe rel = rel" "fe (as_totalLocked s) = as_totalLocked s" "fe (as_sellAmount s) = as_sellAmount s"
      "fe (as_sellToken s) = as_sellToken s" "fe (as_maxFee s) = as_maxFee s" "fe (as_nullifier s) = as_nullifier s"
      "fe (as_nonceNullifier s) = as_nonceNullifier s" by simp_all
  qed
  have inf: "in_field (ps_get (publicSignals body) g)" for g
    by (cases g) (simp_all add: body(4) num_dec_fe(2) in_field_dec hash_fe_def assms(1))
  have nums: "num (expiry (publicSignals body)) = as_expiry s" "num (relayer (publicSignals body)) = rel"
    "num (sellAmount (publicSignals body)) = as_sellAmount s" "num (buyAmount (publicSignals body)) = as_sellAmount s"
    "num (totalLocked (publicSignals body)) = as_totalLocked s" "num (maxFee (publicSignals body)) = as_maxFee s"
    "num (sellToken (publicSignals body)) = as_sellToken s" "num (buyToken (publicSignals body)) = as_sellToken s"
    "num (nullifier (publicSignals body)) = as_nullifier s" "num (nonceNullifier (publicSignals body)) = as_nonceNullifier s"
  proof -
    have same: "as_buyToken s = as_sellToken s" "as_buyAmount s = as_sellAmount s" by (simp_all add: f)
    show "num (expiry (publicSignals body)) = as_expiry s" "num (relayer (publicSignals body)) = rel"
    "num (sellAmount (publicSignals body)) = as_sellAmount s" "num (buyAmount (publicSignals body)) = as_sellAmount s"
    "num (totalLocked (publicSignals body)) = as_totalLocked s" "num (maxFee (publicSignals body)) = as_maxFee s"
    "num (sellToken (publicSignals body)) = as_sellToken s" "num (buyToken (publicSignals body)) = as_sellToken s"
    "num (nullifier (publicSignals body)) = as_nullifier s" "num (nonceNullifier (publicSignals body)) = as_nonceNullifier s"
      unfolding body(4) authorize_public_signals.simps f(1) same num_dec_fe(1) by (fact fe)+
  qed
  have pos: "positive_below 128 (sellAmount (publicSignals body))" "positive_below 128 (buyAmount (publicSignals body))"
    "positive_below 128 (totalLocked (publicSignals body))"
    using r(3,4,5) by (simp_all add: positive_below_def nums)
  have fee: "as_maxFee s < 2 ^ 16" using batch_fee_settles(3) [OF assms(5)] by (simp add: f(7))
  have tiers: "\<forall>t. tier body = Some t \<longrightarrow> t \<in> {16, 64, 128}" using assms(2) body(2) by (auto simp: tier_defs)
  have "wf_order body addr now"
    using body(1,3) inf exp r(2,7-9) pos fee tiers assms(12) unfolding wf_order_def Let_def nums by blast
  then have v: "validateAuthorizeOrder body addr now = None" using validate_wf [OF assms(9,10)] by blast
  have "as_sellAmount s * (10000 - as_maxFee s) \<le> as_totalLocked s * 10000" "as_sellAmount s - as_totalLocked s = se_feeRaw a"
    using batch_fee_settles(4) [OF assms(5)] by (simp_all add: f(4,6,7) algebra_simps)
  then show ?thesis using p(1) b v
    by (intro exI [of _ "(side, ctx)"] exI [of _ body] exI [of _ keys]) (simp only: nums prod.case simp_thms)
qed

section \<open>Claiming\<close>

lemma finalize_Inr:
  assumes "finalizeRealSettle P getAddress (Some rc) ctx = Inr res"
  obtains layers leaves where "sr_status rc = 1"
    "extractSettledClaimsRoot (sr_logs rc) (cx_settlementAddress ctx) = Some (ar_claimsRoot (cx_authResult ctx))"
    "settle_change P ctx = Inr (st_change res)"
    "buildClaimsTree P (pb_claims (cx_batch ctx)) (pb_tier (cx_batch ctx)) = Some (ar_claimsRoot (cx_authResult ctx), layers, leaves)"
    "map (claim_package_for getAddress ctx layers) (enumerate 0 (pb_claims (cx_batch ctx))) = map Some (st_claimPackages res)"
    "st_claimsRootOf res = ar_claimsRoot (cx_authResult ctx)"
  using assms by (auto simp: finalizeRealSettle_def all_some_eq split: option.splits sum.splits if_splits)

lemma js_BigInt_el: "field_el x \<Longrightarrow> js_BigInt (dec x) = Some x" "field_el x \<Longrightarrow> js_BigInt (toBytes32Hex x) = Some x"
  by (simp_all add: field_el_def toBytes32Hex_def js_simps)

lemma dec_list_read: "list_all field_el es \<Longrightarrow> all_some (map js_BigInt (map dec es)) = Some es"
  by (induction es) (simp_all add: js_BigInt_el)

text \<open>The tier the claim worker finds by the length of the path is the tier of the batch.\<close>

lemma worker_tier: "tr \<in> set TIERS \<Longrightarrow> find (\<lambda>t. ct_depth t = ct_depth tr) [TIER_16, TIER_64, TIER_128] = Some tr"
  by (auto simp: tier_defs)

text \<open>What the claims of a prepared settlement satisfy, and that checksumming an address keeps its numeral.\<close>

definition claims_ready :: "settle_ctx \<Rightarrow> bool" where
  "claims_ready ctx \<longleftrightarrow> pb_tier (cx_batch ctx) \<in> set TIERS \<and>
     (\<forall>c \<in> set (pb_claims (cx_batch ctx)). claim_in_range c \<and> ce_token c = cx_tokenAddress ctx \<and>
        js_BigInt (ce_recipient c) \<noteq> None) \<and> js_BigInt (cx_tokenAddress ctx) \<noteq> None \<and> numeral_in_field (cx_tokenAddress ctx)"

definition checksums :: "(string \<Rightarrow> string option) \<Rightarrow> bool" where
  "checksums getAddress \<longleftrightarrow> (\<forall>s t. getAddress s = Some t \<longrightarrow> js_BigInt t = js_BigInt s)"

lemma package_read:
  assumes P: "hash_ok P" and ready: "claims_ready ctx" and ck: "checksums getAddress"
    and root: "root = ar_claimsRoot (cx_authResult ctx)"
    and tree: "buildClaimsTree P (pb_claims (cx_batch ctx)) (pb_tier (cx_batch ctx)) = Some (root, layers, leaves)"
    and i: "i < length (pb_claims (cx_batch ctx))"
    and pkg: "claim_package_for getAddress ctx layers (i, pb_claims (cx_batch ctx) ! i) = Some pkg"
  obtains inp s r t where "claim_proof_input pkg = Some inp"
    "\<And>prove :: claim_signals \<Rightarrow> string + 'f \<times> int list. claim_worker P prove inp =
       (case generateClaimProof P prove inp (pb_tier (cx_batch ctx)) of Inl e \<Rightarrow> Inl (ClaimFailed e) | Inr r \<Rightarrow> Inr r)"
    "claim_circuit_input P inp (pb_tier (cx_batch ctx)) = Inr s" "claim_circuit P (pb_tier (cx_batch ctx)) s"
    "cs_claimsRoot s = root" "cs_amount s = ce_amount (pb_claims (cx_batch ctx) ! i)"
    "js_BigInt (ce_recipient (pb_claims (cx_batch ctx) ! i)) = Some (cs_recipient s)" "js_BigInt (cx_tokenAddress ctx) = Some (cs_token s)"
proof -
  let ?c = "pb_claims (cx_batch ctx) ! i" and ?tr = "pb_tier (cx_batch ctx)"
  have tier: "?tr \<in> set TIERS" and cr: "claim_in_range ?c" and tok: "ce_token ?c = cx_tokenAddress ctx"
    using ready i by (auto simp: claims_ready_def)
  note tr = tiers_ok [OF tier]
  obtain r t where r: "js_BigInt (ce_recipient ?c) = Some r" and t: "js_BigInt (cx_tokenAddress ctx) = Some t" "field_el t"
  proof -
    have "?c \<in> set (pb_claims (cx_batch ctx))" using i by simp
    then show ?thesis using that ready unfolding claims_ready_def numeral_in_field_def by blast
  qed
  let ?l = "P [ce_secret ?c, r, t, ce_amount ?c, ce_releaseTime ?c]"
  have leaf: "claim_leaf P ?c = Some ?l" by (rule claim_leaf_Some) (use r t tok in simp_all)
  obtain es bs where g: "getMerkleProof layers (int i) = Some (es, bs)" and ic: "i < ct_cap ?tr"
    and m: "merkle_circuit P (ct_depth ?tr) ?l es bs root" "(\<Sum>j < ct_depth ?tr. bs ! j * 2 ^ j) = i" and es: "list_all field_el es"
    by (rule claim_tree_proof [OF P tr tree i leaf]) blast
  obtain r' t' where a: "getAddress (ce_recipient ?c) = Some r'" "getAddress (cx_tokenAddress ctx) = Some t'"
    using pkg g by (auto simp: claim_package_for_def split: option.splits)
  have n: "js_BigInt r' = Some r" "js_BigInt t' = Some t" using ck a r t by (auto simp: checksums_def)
  let ?s = "claim_signals_of P ?c i r t root (es, bs)"
  note sig = claim_signals_circuit [OF P tr tree i cr r t(2) m]
  let ?inp = "\<lparr>cl_secret = ce_secret ?c, cl_recipient = r, cl_token = t, cl_amount = ce_amount ?c, cl_releaseTime = ce_releaseTime ?c,
    cl_leafIndex = int i, cl_allClaimLeaves = [], cl_merkleProof = Some \<lparr>mp_root = root, mp_pathElements = es, mp_pathIndices = bs\<rparr>\<rparr>"
  have f: "js_BigInt (dec (ce_amount ?c)) = Some (ce_amount ?c)" "field_el (ce_secret ?c)" "field_el (ce_releaseTime ?c)"
    using cr by (auto simp: claim_in_range_def js_simps)
  have p: "claim_proof_input pkg = Some ?inp"
    using pkg g a n f sig(2) dec_list_read [OF es] root
    by (auto simp: claim_package_for_def claim_proof_input_def js_BigInt_el)
  have len: "length es = ct_depth ?tr" using m(1) by (simp add: merkle_circuit_def)
  have w: "claim_worker P prove ?inp = (case generateClaimProof P prove ?inp ?tr of Inl e \<Rightarrow> Inl (ClaimFailed e) | Inr r \<Rightarrow> Inr r)"
    for prove :: "claim_signals \<Rightarrow> string + 'f \<times> int list"
    using worker_tier [OF tier] len by (simp add: claim_worker_def)
  have c: "claim_circuit_input P ?inp ?tr = Inr ?s"
    using m(1) ic by (simp add: claim_circuit_input_def claim_fromMerkleProof_def claim_signals_of_def merkle_circuit_def)
  show ?thesis by (rule that [OF p w c sig(1)]) (use r t in \<open>simp_all add: claim_signals_of_def\<close>)
qed

text \<open>A prepared settlement whose event is in the receipt finishes: neither the change nor the tree disagrees with the proof.\<close>

lemma prepare_Inr:
  assumes "prepareRealSettle P sign prove tryProofFor rnd nonce salt a = Inr (side, ctx)" "pb_tier (se_batch a) \<in> set TIERS"
  obtains mp s layers leaves where "tryProofFor (sn_commitment (se_source a)) = Some mp"
    "buildClaimsTree P (pb_claims (se_batch a)) (pb_tier (se_batch a)) = Some (ar_claimsRoot (cx_authResult ctx), layers, leaves)"
    "ar_newCommitment (cx_authResult ctx) = snd (residual P (settle_input a mp nonce salt) rnd)"
    "cx_batch ctx = se_batch a" "cx_tokenAddress ctx = se_tokenAddress a" "cx_source ctx = se_source a" "cx_newSalt ctx = salt"
    "cx_sellAmount ctx = pb_totalAmount (se_batch a) + se_feeRaw a" "cx_settlementAddress ctx = se_settlementAddress a"
proof -
  let ?i = "\<lambda>mp. settle_input a mp nonce salt" and ?tr = "pb_tier (se_batch a)"
  have "resolveTier (Some ?tr) = Some ?tr" using assms(2) by (auto simp: resolveTier_def tier_defs)
  then obtain mp r where mp: "tryProofFor (sn_commitment (se_source a)) = Some mp" and r: "generateAuthorizeProof P sign prove rnd (?i mp) ?tr = Inr r"
    and c: "cx_authResult ctx = r" "cx_batch ctx = se_batch a" "cx_tokenAddress ctx = se_tokenAddress a" "cx_source ctx = se_source a"
      "cx_newSalt ctx = salt" "cx_sellAmount ctx = ai_sellAmount (?i mp)" "cx_settlementAddress ctx = se_settlementAddress a"
    using assms(1) by (auto simp: prepareRealSettle_def authorize_worker_def settle_guard_def Let_def authorize_envelope_read
        split: option.splits sum.splits if_splits)
  obtain s where s: "authorize_circuit_input P sign rnd (?i mp) ?tr = Inr s"
    and f: "ar_claimsRoot r = as_claimsRoot s" "ar_newCommitment r = as_newCommitment s"
    using r by (auto simp: generateAuthorizeProof_def split: sum.splits if_splits)
  obtain mem croot layers leaves buy rel rs ts where tree: "buildClaimsTree P (ai_claims (?i mp)) ?tr = Some (croot, layers, leaves)"
    and e: "s = assemble_signals P sign (?i mp) ?tr mem (residual P (?i mp) rnd) croot buy rel rs ts"
    by (rule authorize_input_Inr [OF s]) blast
  show ?thesis
    by (rule that [OF mp _ _ c(2-5) _ c(7)]) (use tree e f c(1,6) in \<open>simp_all add: settle_input_def assemble_signals_def Let_def\<close>)
qed

lemma prepared_finalizes:
  assumes P: "hash_ok P" and prep: "prepareRealSettle P sign prove tryProofFor rnd nonce salt a = Inr (side, ctx)"
    and tier: "pb_tier (se_batch a) \<in> set TIERS" and ok: "sr_status rc = 1"
    and ev: "extractSettledClaimsRoot (sr_logs rc) (se_settlementAddress a) = Some (ar_claimsRoot (cx_authResult ctx))"
    and addr: "getAddress (se_tokenAddress a) \<noteq> None" "\<forall>c \<in> set (pb_claims (se_batch a)). getAddress (ce_recipient c) \<noteq> None"
  shows "\<exists>res. finalizeRealSettle P getAddress (Some rc) ctx = Inr res"
proof -
  obtain mp layers leaves where tree: "buildClaimsTree P (pb_claims (se_batch a)) (pb_tier (se_batch a)) = Some (ar_claimsRoot (cx_authResult ctx), layers, leaves)"
    and ch: "ar_newCommitment (cx_authResult ctx) = snd (residual P (settle_input a mp nonce salt) rnd)"
    and c: "cx_batch ctx = se_batch a" "cx_tokenAddress ctx = se_tokenAddress a" "cx_source ctx = se_source a" "cx_newSalt ctx = salt"
    "cx_sellAmount ctx = pb_totalAmount (se_batch a) + se_feeRaw a" "cx_settlementAddress ctx = se_settlementAddress a"
    by (rule prepare_Inr [OF prep tier])
  let ?cs = "pb_claims (se_batch a)"
  obtain change where change: "settle_change P ctx = Inr change"
    using ch by (auto simp: settle_change_def Let_def c settle_input_def residual_def change_note_def computeCommitment_def split: if_splits)
  have "claim_package_for getAddress ctx layers x \<noteq> None" if x: "x \<in> set (enumerate 0 ?cs)" for x
  proof -
    have "x = (fst x, ?cs ! fst x)" "fst x < length ?cs" using x by (auto simp: in_set_enumerate_eq prod_eq_iff)
    then obtain i where i: "x = (i, ?cs ! i)" "i < length ?cs" by blast
    have "claim_leaf P (?cs ! i) \<noteq> None" using claims_tree(4) [OF tiers_ok [OF tier] tree] i by simp
    then obtain leaf where leaf: "claim_leaf P (?cs ! i) = Some leaf" by blast
    obtain es bs where "getMerkleProof layers (int i) = Some (es, bs)"
      by (rule claim_tree_proof [OF P tiers_ok [OF tier] tree i(2) leaf]) blast
    moreover have "?cs ! i \<in> set ?cs" using i(2) by simp
    then obtain r where "getAddress (ce_recipient (?cs ! i)) = Some r" using addr(2) by blast
    ultimately show ?thesis using addr(1) i by (auto simp: claim_package_for_def c)
  qed
  then obtain pkgs where "all_some (map (claim_package_for getAddress ctx layers) (enumerate 0 ?cs)) = Some pkgs"
    using all_some_None [of "claim_package_for getAddress ctx layers" "enumerate 0 ?cs"] by blast
  then show ?thesis using ok ev tree change by (simp add: finalizeRealSettle_def c)
qed

text \<open>
  C7.  A finished settlement pays out: every claim package the page hands on, read back by the claim page and proved by
  the claim worker, gives signals that satisfy the claim circuit of the tier, for the recipient, the token and the
  amount of its claim, under the very claims root the settlement contract emitted; and the change note the vault
  stores has the commitment the proof published and exactly the rest of the amount.
\<close>

theorem finalized_packages_claimable:
  assumes "hash_ok P" "claims_ready ctx" "checksums getAddress" "finalizeRealSettle P getAddress (Some rc) ctx = Inr res"
  shows "length (st_claimPackages res) = length (pb_claims (cx_batch ctx)) \<and>
    (\<forall>i < length (pb_claims (cx_batch ctx)). \<exists>inp s. claim_proof_input (st_claimPackages res ! i) = Some inp \<and>
      claim_circuit P (pb_tier (cx_batch ctx)) s \<and>
      extractSettledClaimsRoot (sr_logs rc) (cx_settlementAddress ctx) = Some (cs_claimsRoot s) \<and>
      cs_amount s = ce_amount (pb_claims (cx_batch ctx) ! i) \<and>
      js_BigInt (ce_recipient (pb_claims (cx_batch ctx) ! i)) = Some (cs_recipient s) \<and>
      js_BigInt (cx_tokenAddress ctx) = Some (cs_token s) \<and>
      (\<forall>prove pf pub. prove s = Inr (pf, pub) \<longrightarrow> pub \<noteq> [] \<longrightarrow>
        (\<exists>r :: groth_proof claim_result. claim_worker P prove inp = Inr r \<and> clr_claimsRoot r = cs_claimsRoot s \<and> clr_proof r = pf))) \<and>
    (\<forall>n c amt. st_change res = Some (n, c, amt) \<longrightarrow> c = computeCommitment P n \<and> c = ar_newCommitment (cx_authResult ctx) \<and>
      0 < amt \<and> cn_amount n = amt \<and> amt + cx_sellAmount ctx = sn_amount (cx_source ctx))"
proof -
  let ?cs = "pb_claims (cx_batch ctx)" and ?root = "ar_claimsRoot (cx_authResult ctx)"
  obtain layers leaves where e: "extractSettledClaimsRoot (sr_logs rc) (cx_settlementAddress ctx) = Some ?root"
    and ch: "settle_change P ctx = Inr (st_change res)"
    and tree: "buildClaimsTree P ?cs (pb_tier (cx_batch ctx)) = Some (?root, layers, leaves)"
    and m: "map (claim_package_for getAddress ctx layers) (enumerate 0 ?cs) = map Some (st_claimPackages res)"
    by (rule finalize_Inr [OF assms(4)])
  have len: "length (st_claimPackages res) = length ?cs" using map_Some_length [OF m] by simp
  have "\<exists>inp s. claim_proof_input (st_claimPackages res ! i) = Some inp \<and>
      claim_circuit P (pb_tier (cx_batch ctx)) s \<and> Some ?root = Some (cs_claimsRoot s) \<and>
      cs_amount s = ce_amount (?cs ! i) \<and> js_BigInt (ce_recipient (?cs ! i)) = Some (cs_recipient s) \<and>
      js_BigInt (cx_tokenAddress ctx) = Some (cs_token s) \<and>
      (\<forall>prove pf pub. prove s = Inr (pf, pub) \<longrightarrow> pub \<noteq> [] \<longrightarrow>
        (\<exists>r :: groth_proof claim_result. claim_worker P prove inp = Inr r \<and> clr_claimsRoot r = cs_claimsRoot s \<and> clr_proof r = pf))"
    if i: "i < length ?cs" for i
  proof -
    have "claim_package_for getAddress ctx layers (i, ?cs ! i) = Some (st_claimPackages res ! i)"
      using map_Some_nth [OF m, of i] i by (simp add: nth_enumerate_eq)
    from package_read [OF assms(1-3) refl tree i this]
    obtain inp s where r: "claim_proof_input (st_claimPackages res ! i) = Some inp"
      "\<And>prove :: claim_signals \<Rightarrow> string + groth_proof \<times> int list. claim_worker P prove inp =
         (case generateClaimProof P prove inp (pb_tier (cx_batch ctx)) of Inl e \<Rightarrow> Inl (ClaimFailed e) | Inr r \<Rightarrow> Inr r)"
      "claim_circuit_input P inp (pb_tier (cx_batch ctx)) = Inr s" "claim_circuit P (pb_tier (cx_batch ctx)) s"
      "cs_claimsRoot s = ?root" "cs_amount s = ce_amount (?cs ! i)" "js_BigInt (ce_recipient (?cs ! i)) = Some (cs_recipient s)"
      "js_BigInt (cx_tokenAddress ctx) = Some (cs_token s)" by metis
    have "\<exists>r. claim_worker P prove inp = Inr r \<and> clr_claimsRoot r = cs_claimsRoot s \<and> clr_proof r = pf"
      if "prove s = Inr (pf, pub)" "pub \<noteq> []" for prove :: "claim_signals \<Rightarrow> string + groth_proof \<times> int list" and pf pub
      using that by (simp add: r(2,3) generateClaimProof_def)
    then show ?thesis using r(1,4-8) by (intro exI [of _ inp] exI [of _ s]) auto
  qed
  moreover have "c = computeCommitment P n \<and> c = ar_newCommitment (cx_authResult ctx) \<and>
      0 < amt \<and> cn_amount n = amt \<and> amt + cx_sellAmount ctx = sn_amount (cx_source ctx)"
    if "st_change res = Some (n, c, amt)" for n c amt
    using ch that by (auto simp: settle_change_def Let_def split: if_splits)
  ultimately show ?thesis using len unfolding e by blast
qed

end
