(* ===== verification/ClaimLink.thy ===== *)
theory ClaimLink
  imports RealSettleFacts Addresses
begin

text \<open>
  Claim links (\<open>packages/sdk/src/notes/claimPackage.ts\<close>): the shape of a claim package as JSON, base64 as the browser's
  \<open>btoa\<close> and \<open>atob\<close> compute it, and the URL-safe form.  The parser of URLs, UTF-8 and \<open>JSON.stringify\<close> with
  \<open>JSON.parse\<close> are arguments.
\<close>

section \<open>JSON values\<close>

text \<open>Numbers are the integers below \<open>10\<^sup>2\<^sup>1\<close> in size, and \<open>JFrac\<close> for one that is no integer.\<close>

datatype json = JUndefined | JNull | JBool bool | JInt int | JFrac | JStr string | JArr "json list" | JObj "(string \<times> json) list"

definition jfield :: "json \<Rightarrow> string \<Rightarrow> json" where
  "jfield v k = (case v of JObj fs \<Rightarrow> (case map_of fs k of Some x \<Rightarrow> x | None \<Rightarrow> JUndefined) | _ \<Rightarrow> JUndefined)"

lemma jfield_JObj [simp]: "jfield (JObj fs) k = (case map_of fs k of Some x \<Rightarrow> x | None \<Rightarrow> JUndefined)"
  by (simp add: jfield_def)

fun json_int :: "json \<Rightarrow> int option" where "json_int (JInt i) = Some i" | "json_int _ = None"

fun json_string :: "json \<Rightarrow> string option" where "json_string (JStr s) = Some s" | "json_string _ = None"

fun json_list :: "json \<Rightarrow> json list option" where "json_list (JArr xs) = Some xs" | "json_list _ = None"

definition string_such :: "(string \<Rightarrow> bool) \<Rightarrow> json \<Rightarrow> bool" where
  "string_such p v \<longleftrightarrow> (case json_string v of Some s \<Rightarrow> p s | None \<Rightarrow> False)"

lemma json_list_iff: "json_list v = Some xs \<longleftrightarrow> v = JArr xs" by (cases v) auto

lemma json_int_iff: "json_int v = Some i \<longleftrightarrow> v = JInt i" by (cases v) auto

section \<open>The shape of a package\<close>

definition is_decimal_digit :: "char \<Rightarrow> bool" where
  "is_decimal_digit c \<longleftrightarrow> 48 \<le> code c \<and> code c \<le> 57"

definition ADDRESS_RE :: "string \<Rightarrow> bool" where "ADDRESS_RE = hex_string 40"
definition BYTES32_RE :: "string \<Rightarrow> bool" where "BYTES32_RE = hex_string 64"
definition DECIMAL_RE :: "string \<Rightarrow> bool" where "DECIMAL_RE s \<longleftrightarrow> s \<noteq> [] \<and> list_all is_decimal_digit s"

definition CLAIMS_PATH_LENS :: "nat list" where "CLAIMS_PATH_LENS = [4, 6, 7]"

definition isCompressedPubkeyHex :: "json \<Rightarrow> bool" where
  "isCompressedPubkeyHex = string_such (hex_string 66)"

text \<open>\<open>parseUrl\<close>: protocol and host name of \<open>new URL\<close>, None when it throws.\<close>

type_synonym url_parser = "string \<Rightarrow> (string \<times> string) option"

definition isPlausibleHttpUrl :: "url_parser \<Rightarrow> json \<Rightarrow> bool" where
  "isPlausibleHttpUrl parseUrl = string_such (\<lambda>s. s \<noteq> [] \<and> length s \<le> 2048 \<and>
     (case parseUrl s of None \<Rightarrow> False
      | Some (protocol, host) \<Rightarrow> (protocol = ''http:'' \<or> protocol = ''https:'') \<and> host \<noteq> []))"

definition path_ok :: "json \<Rightarrow> json \<Rightarrow> json \<Rightarrow> bool" where
  "path_ok elements indices leaf \<longleftrightarrow> (case (json_list elements, json_list indices, json_int leaf) of
     (Some es, Some is, Some l) \<Rightarrow> length es \<in> set CLAIMS_PATH_LENS \<and> list_all (string_such DECIMAL_RE) es \<and>
       length is = length es \<and> list_all (\<lambda>i. i = JInt 0 \<or> i = JInt 1) is \<and> 0 \<le> l \<and> l < 2 ^ length es
   | _ \<Rightarrow> False)"

definition isClaimPackage :: "url_parser \<Rightarrow> json \<Rightarrow> bool" where
  "isClaimPackage parseUrl o' \<longleftrightarrow> (case o' of JObj fs \<Rightarrow>
     jfield o' ''version'' = JInt 1 \<and> json_int (jfield o' ''chainId'') \<noteq> None \<and>
     string_such ADDRESS_RE (jfield o' ''settlementAddress'') \<and> string_such BYTES32_RE (jfield o' ''claimsRoot'') \<and>
     string_such ADDRESS_RE (jfield o' ''recipient'') \<and> string_such ADDRESS_RE (jfield o' ''token'') \<and>
     string_such (\<lambda>_. True) (jfield o' ''tokenSymbol'') \<and> json_int (jfield o' ''tokenDecimals'') \<noteq> None \<and>
     string_such DECIMAL_RE (jfield o' ''amount'') \<and> string_such DECIMAL_RE (jfield o' ''releaseTime'') \<and>
     string_such DECIMAL_RE (jfield o' ''secret'') \<and>
     path_ok (jfield o' ''pathElements'') (jfield o' ''pathIndices'') (jfield o' ''leafIndex'') \<and>
     (jfield o' ''relayerUrl'' \<noteq> JUndefined \<longrightarrow> isPlausibleHttpUrl parseUrl (jfield o' ''relayerUrl'')) \<and>
     (jfield o' ''ephemeralPubKey'' \<noteq> JUndefined \<longrightarrow> isCompressedPubkeyHex (jfield o' ''ephemeralPubKey''))
   | _ \<Rightarrow> False)"

text \<open>The object literal the settlement builds, in the order of its fields.\<close>

definition opt_field :: "string \<Rightarrow> string option \<Rightarrow> (string \<times> json) list" where
  "opt_field k v = (case v of Some s \<Rightarrow> [(k, JStr s)] | None \<Rightarrow> [])"

definition package_json :: "claim_package \<Rightarrow> json" where
  "package_json p = JObj ([(''version'', JInt 1), (''chainId'', JInt (cp_chainId p)),
     (''settlementAddress'', JStr (cp_settlementAddress p)), (''claimsRoot'', JStr (cp_claimsRoot p)),
     (''recipient'', JStr (cp_recipient p)), (''token'', JStr (cp_token p)), (''tokenSymbol'', JStr (cp_tokenSymbol p)),
     (''tokenDecimals'', JInt (cp_tokenDecimals p)), (''amount'', JStr (cp_amount p)),
     (''releaseTime'', JStr (cp_releaseTime p)), (''secret'', JStr (cp_secret p)), (''leafIndex'', JInt (cp_leafIndex p)),
     (''pathElements'', JArr (map JStr (cp_pathElements p))),
     (''pathIndices'', JArr (map (\<lambda>b. JInt (int b)) (cp_pathIndices p)))] @
     opt_field ''senderLabel'' (cp_senderLabel p) @ opt_field ''runLabel'' (cp_runLabel p) @
     opt_field ''relayerUrl'' (cp_relayerUrl p))"

section \<open>Base64\<close>

definition b64_alphabet :: string where
  "b64_alphabet = ''ABCDEFGHIJKLMNOPQRSTUVWXYZabcdefghijklmnopqrstuvwxyz0123456789+/''"

definition b64_char :: "nat \<Rightarrow> char" where "b64_char n = b64_alphabet ! n"

text \<open>The six-bit groups of a list of bytes.\<close>

fun sextets :: "nat list \<Rightarrow> nat list" where
  "sextets [] = []"
| "sextets [a] = [a div 4, a mod 4 * 16]"
| "sextets [a, b] = [a div 4, a mod 4 * 16 + b div 16, b mod 16 * 4]"
| "sextets (a # b # c # bs) = a div 4 # (a mod 4 * 16 + b div 16) # (b mod 16 * 4 + c div 64) # c mod 64 # sextets bs"

definition padding :: "nat \<Rightarrow> string" where "padding n = replicate ((4 - n mod 4) mod 4) (CHR ''='')"

definition btoa :: "nat list \<Rightarrow> string" where
  "btoa bytes = (let s = map b64_char (sextets bytes) in s @ padding (length s))"

text \<open>\<open>atob\<close> after the rules of the platform: white space goes, up to two closing signs go, the rest is the alphabet.\<close>

definition b64_value :: "char \<Rightarrow> nat option" where
  "b64_value c = (let i = length (takeWhile (\<lambda>d. d \<noteq> c) b64_alphabet) in if i < 64 then Some i else None)"

fun octets :: "nat list \<Rightarrow> nat list" where
  "octets (a # b # c # d # xs) = (a * 4 + b div 16) # (b mod 16 * 16 + c div 4) # (c mod 4 * 64 + d) # octets xs"
| "octets [a, b, c] = [a * 4 + b div 16, b mod 16 * 16 + c div 4]"
| "octets [a, b] = [a * 4 + b div 16]"
| "octets _ = []"

definition strip_eq :: "string \<Rightarrow> string" where
  "strip_eq s = (if s \<noteq> [] \<and> last s = CHR ''='' then let t = butlast s in
     if t \<noteq> [] \<and> last t = CHR ''='' then butlast t else t else s)"

definition ascii_space :: "char \<Rightarrow> bool" where "ascii_space c \<longleftrightarrow> code c \<in> {9, 10, 12, 13, 32}"

definition atob :: "string \<Rightarrow> nat list option" where
  "atob s = (let t = filter (\<lambda>c. \<not> ascii_space c) s; u = (if length t mod 4 = 0 then strip_eq t else t) in
     if length u mod 4 = 1 then None else map_option octets (all_some (map b64_value u)))"

definition url_char :: "char \<Rightarrow> char" where
  "url_char c = (if c = CHR ''+'' then CHR ''-'' else if c = CHR ''/'' then CHR ''_'' else c)"

definition std_char :: "char \<Rightarrow> char" where
  "std_char c = (if c = CHR ''-'' then CHR ''+'' else if c = CHR ''_'' then CHR ''/'' else c)"

definition base64UrlEncode :: "nat list \<Rightarrow> string" where
  "base64UrlEncode bytes = rev (dropWhile (\<lambda>c. c = CHR ''='') (rev (map url_char (btoa bytes))))"

definition base64UrlDecode :: "string \<Rightarrow> nat list option" where
  "base64UrlDecode s = atob (map std_char s @ padding (length s))"

section \<open>Links\<close>

datatype link_error = MalformedBase64 | InvalidJson | WrongShape

definition encodeClaimPackage :: "(json \<Rightarrow> string) \<Rightarrow> (string \<Rightarrow> nat list) \<Rightarrow> json \<Rightarrow> string" where
  "encodeClaimPackage stringify utf8 pkg = base64UrlEncode (utf8 (stringify pkg))"

definition decodeClaimPackage ::
  "url_parser \<Rightarrow> (string \<Rightarrow> json option) \<Rightarrow> (nat list \<Rightarrow> string) \<Rightarrow> string \<Rightarrow> link_error + json" where
  "decodeClaimPackage parseUrl parse utf8_decode encoded = (case base64UrlDecode encoded of None \<Rightarrow> Inl MalformedBase64
     | Some bytes \<Rightarrow> (case parse (utf8_decode bytes) of None \<Rightarrow> Inl InvalidJson
       | Some v \<Rightarrow> if isClaimPackage parseUrl v then Inr v else Inl WrongShape))"

section \<open>Base64 is exact\<close>

lemma octets_sextets: "list_all (\<lambda>b. b < 256) bs \<Longrightarrow> octets (sextets bs) = bs"
  by (induction bs rule: sextets.induct) auto

lemma sextets_below: "list_all (\<lambda>b. b < 256) bs \<Longrightarrow> list_all (\<lambda>n. n < 64) (sextets bs)"
  by (induction bs rule: sextets.induct) auto

lemma sextets_length: "length (sextets bs) mod 4 \<in> {0, 2, 3}"
  by (induction bs rule: sextets.induct) auto

definition b64_plain :: "nat \<Rightarrow> bool" where
  "b64_plain n \<longleftrightarrow> (let c = b64_char n in b64_value c = Some n \<and> c \<noteq> CHR ''='' \<and> url_char c \<noteq> CHR ''='' \<and>
     std_char (url_char c) = c \<and> \<not> ascii_space c)"

lemma b64_all: "list_all b64_plain [0..<64]"
  by code_simp

lemma b64_plain: "n < 64 \<Longrightarrow> b64_plain n"
  using b64_all by (auto simp: list_all_iff)

lemma strip_none: "CHR ''='' \<notin> set s \<Longrightarrow> strip_eq s = s"
  using last_in_set [of s] unfolding strip_eq_def by metis

lemma strip_one: "CHR ''='' \<notin> set s \<Longrightarrow> strip_eq (s @ [CHR ''='']) = s"
  using last_in_set [of s] unfolding strip_eq_def Let_def by (simp; metis)

lemma strip_two: "CHR ''='' \<notin> set s \<Longrightarrow> strip_eq (s @ [CHR ''='', CHR ''='']) = s"
  by (simp add: strip_eq_def Let_def butlast_append)

lemma strip_padding:
  assumes "CHR ''='' \<notin> set s" and "length s mod 4 \<in> {0, 2, 3}"
  shows "strip_eq (s @ padding (length s)) = s" and "length (s @ padding (length s)) mod 4 = 0"
proof -
  have c: "length s mod 4 = 0 \<or> length s mod 4 = 2 \<or> length s mod 4 = 3" using assms(2) by auto
  show "strip_eq (s @ padding (length s)) = s"
    using c strip_none [OF assms(1)] strip_one [OF assms(1)] strip_two [OF assms(1)]
    by (auto simp: padding_def numeral_2_eq_2)
  show "length (s @ padding (length s)) mod 4 = 0" using c by (auto simp: padding_def) presburger+
qed

lemma all_some_map_Some: "(\<And>x. x \<in> set xs \<Longrightarrow> f x = Some (g x)) \<Longrightarrow> all_some (map f xs) = Some (map g xs)"
  by (induction xs) auto

lemma drop_signs: "dropWhile (\<lambda>c. c = CHR ''='') (replicate k (CHR ''='') @ ys) = dropWhile (\<lambda>c. c = CHR ''='') ys"
  by (induction k) auto

lemma base64Url_roundtrip:
  assumes "list_all (\<lambda>b. b < 256) bs"
  shows "base64UrlDecode (base64UrlEncode bs) = Some bs"
proof -
  define s where "s = map b64_char (sextets bs)"
  have p: "b64_plain n" if "n \<in> set (sextets bs)" for n
    using sextets_below [OF assms] b64_plain that by (auto simp: list_all_iff)
  have noeq: "CHR ''='' \<notin> set s"
    using p by (simp add: s_def image_iff b64_plain_def Let_def) (metis (full_types))
  have urleq: "CHR ''='' \<notin> set (map url_char s)"
    using p by (simp add: s_def image_iff b64_plain_def Let_def) (metis (full_types))
  have std: "map std_char (map url_char s) = s" and sp: "\<forall>c \<in> set s. \<not> ascii_space c"
    and val: "all_some (map b64_value s) = Some (sextets bs)"
    using p all_some_map_Some [of "sextets bs" "\<lambda>n. b64_value (b64_char n)" id]
    by (auto simp: s_def b64_plain_def Let_def o_def map_idI)
  have enc: "base64UrlEncode bs = map url_char s"
  proof -
    have "map url_char (btoa bs) = map url_char s @ padding (length s)"
      by (simp add: btoa_def s_def padding_def url_char_def)
    moreover have "dropWhile (\<lambda>c. c = CHR ''='') (rev (map url_char s)) = rev (map url_char s)"
    proof (cases "rev (map url_char s)")
      case (Cons c cs)
      then have "c \<in> set (rev (map url_char s))" by (metis list.set_intros(1))
      then have "c \<noteq> CHR ''=''" using urleq by (metis set_rev)
      then show ?thesis using Cons by simp
    qed simp
    moreover have drop: "rev (dropWhile (\<lambda>c. c = CHR ''='') (rev (padding n) @ rev xs)) = rev (dropWhile (\<lambda>c. c = CHR ''='') (rev xs))" for xs n
      by (simp add: padding_def drop_signs)
    ultimately show ?thesis by (simp only: base64UrlEncode_def rev_append drop rev_rev_ident)
  qed
  have len: "length s mod 4 \<in> {0, 2, 3}" using sextets_length by (simp add: s_def)
  have spp: "filter (\<lambda>c. \<not> ascii_space c) (s @ padding (length s)) = s @ padding (length s)"
    using sp by (auto simp: filter_id_conv padding_def ascii_space_def code_def)
  have "length s mod 4 \<noteq> 1" using len by auto
  then show ?thesis
    using strip_padding [OF noeq len] val octets_sextets [OF assms] std spp
    by (simp add: base64UrlDecode_def enc atob_def Let_def)
qed


section \<open>Packages as JSON\<close>

lemma digit_char_decimal: "d < 10 \<Longrightarrow> is_decimal_digit (digit_char d)"
  by (simp add: is_decimal_digit_def code_digit_char)

lemma DECIMAL_RE_dec: "0 \<le> i \<Longrightarrow> DECIMAL_RE (dec i)"
  using dec_digits [of i] digit_char_decimal by (force simp: DECIMAL_RE_def list_all_iff)

lemma decimal_digit_char: "is_decimal_digit c \<Longrightarrow> \<exists>d<10. c = digit_char d"
proof -
  assume "is_decimal_digit c"
  then have k: "48 \<le> code c" "code c \<le> 57" by (auto simp: is_decimal_digit_def)
  then have "code (digit_char (code c - 48)) = code c" by (subst code_digit_char) auto
  then show ?thesis using k by (intro exI [of _ "code c - 48"]) auto
qed

lemma digits_val_ok: "(\<And>c. c \<in> set s \<Longrightarrow> digit_val c < r) \<Longrightarrow> \<exists>v. digits_val r acc s = Some v"
  by (induction s arbitrary: acc) auto

lemma DECIMAL_RE_BigInt:
  assumes "DECIMAL_RE s"
  obtains v where "js_BigInt s = Some v" "0 \<le> v"
proof -
  have d: "\<And>c. c \<in> set s \<Longrightarrow> \<exists>d<10. c = digit_char d" and ne: "s \<noteq> []"
    using assms decimal_digit_char by (auto simp: DECIMAL_RE_def list_all_iff)
  have "digit_val c < 10" if "c \<in> set s" for c using d [OF that] by (auto simp: digit_val_digit_char)
  then obtain n where "digits_val 10 0 s = Some n" using digits_val_ok by blast
  then show ?thesis using that [of "int n"] js_BigInt_decimal [OF ne d] ne by (simp add: parse_digits_def)
qed

lemma hex_digit_facts: "is_hex_digit c \<Longrightarrow> \<not> is_ws c \<and> digit_val c < 16"
  by (auto simp: is_hex_digit_def is_ws_def digit_val_def Let_def)

lemma hex_string_BigInt:
  assumes "hex_string n s" "0 < n"
  obtains v where "js_BigInt s = Some v" "0 \<le> v"
proof -
  obtain h where h: "s = CHR ''0'' # CHR ''x'' # h" "length h = n" "\<forall>c \<in> set h. is_hex_digit c"
    using assms by (auto simp: hex_string_def split: list.splits)
  have "\<exists>v. digits_val 16 0 h = Some v" using h hex_digit_facts by (intro digits_val_ok) blast
  then obtain v where v: "digits_val 16 0 h = Some v" by blast
  have b: "js_BigInt s = parse_digits 16 h" unfolding h(1) by (rule js_BigInt_hex) (use h hex_digit_facts in blast)
  have "h \<noteq> []" using h(2) assms(2) by auto
  then show ?thesis using that [of "int v"] v b by (simp add: parse_digits_def)
qed

lemma numerals_parse: "hex_string n s \<Longrightarrow> 0 < n \<Longrightarrow> \<exists>v. js_BigInt s = Some v" "DECIMAL_RE s \<Longrightarrow> \<exists>v. js_BigInt s = Some v"
  using hex_string_BigInt DECIMAL_RE_BigInt by metis+

lemma hex_digit_char: "d < 16 \<Longrightarrow> is_hex_digit (digit_char d)"
  by (auto simp: is_hex_digit_def code_digit_char Let_def)

lemma hexPad_hex: "0 \<le> v \<Longrightarrow> v < 16 ^ n \<Longrightarrow> 0 < n \<Longrightarrow> hex_string n (hexPad n v)"
proof -
  assume v: "0 \<le> v" "v < 16 ^ n" "0 < n"
  have "is_hex_digit c" if "c \<in> set (padStart n (CHR ''0'') (to_radix 16 (nat v)))" for c
    using that to_radix_digits [of 16 c "nat v"] hex_digit_char by (auto simp: padStart_def is_hex_digit_def code_def)
  then show ?thesis using length_hexPad [OF v] hexPad_nonneg [OF v(1), of n] by (simp add: hex_string_def)
qed

lemma bytes32_hex: "0 \<le> v \<Longrightarrow> v < 2 ^ 256 \<Longrightarrow> BYTES32_RE (toBytes32Hex v)"
  and address_hex: "0 \<le> v \<Longrightarrow> v < 2 ^ 160 \<Longrightarrow> ADDRESS_RE (hexPad 40 v)"
  using hexPad_hex [of v 64] hexPad_hex [of v 40] by (simp_all add: BYTES32_RE_def ADDRESS_RE_def toBytes32Hex_def)

text \<open>The claim page reads the decoded object as a package; the defaults are for fields outside the shape.\<close>

definition str_of :: "json \<Rightarrow> string" where "str_of v = (case v of JStr s \<Rightarrow> s | _ \<Rightarrow> [])"
definition int_of :: "json \<Rightarrow> int" where "int_of v = (case v of JInt i \<Rightarrow> i | _ \<Rightarrow> 0)"
definition list_of :: "json \<Rightarrow> json list" where "list_of v = (case v of JArr xs \<Rightarrow> xs | _ \<Rightarrow> [])"

lemma string_such_iff: "string_such p v \<longleftrightarrow> v = JStr (str_of v) \<and> p (str_of v)"
  by (cases v) (simp_all add: string_such_def str_of_def)

lemma of_simps [simp]: "str_of (JStr s) = s" "int_of (JInt i) = i" "list_of (JArr xs) = xs"
  by (simp_all add: str_of_def int_of_def list_of_def)

definition json_package :: "json \<Rightarrow> claim_package" where
  "json_package v = \<lparr>cp_chainId = int_of (jfield v ''chainId''), cp_settlementAddress = str_of (jfield v ''settlementAddress''),
     cp_claimsRoot = str_of (jfield v ''claimsRoot''), cp_recipient = str_of (jfield v ''recipient''),
     cp_token = str_of (jfield v ''token''), cp_tokenSymbol = str_of (jfield v ''tokenSymbol''),
     cp_tokenDecimals = int_of (jfield v ''tokenDecimals''), cp_amount = str_of (jfield v ''amount''),
     cp_releaseTime = str_of (jfield v ''releaseTime''), cp_secret = str_of (jfield v ''secret''),
     cp_leafIndex = int_of (jfield v ''leafIndex''), cp_pathElements = map str_of (list_of (jfield v ''pathElements'')),
     cp_pathIndices = map (nat o int_of) (list_of (jfield v ''pathIndices'')),
     cp_senderLabel = json_string (jfield v ''senderLabel''), cp_runLabel = json_string (jfield v ''runLabel''),
     cp_relayerUrl = json_string (jfield v ''relayerUrl'')\<rparr>"

lemma opt_field_simps [simp]: "map_of (opt_field k v) j = (if j = k then map_option JStr v else None)"
  by (auto simp: opt_field_def split: option.splits)

lemma json_package_json [simp]: "json_package (package_json p) = p"
  by (simp add: json_package_def package_json_def map_add_def o_def map_idI split: option.splits)

text \<open>What the shape says of the fields the proof is built from.\<close>

lemma shape_strings:
  assumes "isClaimPackage parseUrl v"
  shows "string_such BYTES32_RE (jfield v ''claimsRoot'')" "string_such ADDRESS_RE (jfield v ''recipient'')"
    "string_such ADDRESS_RE (jfield v ''token'')" "string_such DECIMAL_RE (jfield v ''amount'')"
    "string_such DECIMAL_RE (jfield v ''releaseTime'')" "string_such DECIMAL_RE (jfield v ''secret'')"
    "path_ok (jfield v ''pathElements'') (jfield v ''pathIndices'') (jfield v ''leafIndex'')"
  using assms unfolding isClaimPackage_def by (cases v; simp only: json.case; blast)+

lemma path_ok_D: "path_ok a b c \<Longrightarrow> \<exists>es bs l. a = JArr es \<and> b = JArr bs \<and> c = JInt l \<and> length es \<in> set CLAIMS_PATH_LENS \<and>
    list_all (string_such DECIMAL_RE) es \<and> length bs = length es \<and> list_all (\<lambda>i. i = JInt 0 \<or> i = JInt 1) bs \<and> 0 \<le> l \<and> l < 2 ^ length es"
  by (auto simp: path_ok_def json_list_iff json_int_iff split: option.splits)

lemmas shape_path = path_ok_D [OF shape_strings(7)]

section \<open>Links of a finished settlement\<close>

text \<open>
  What a round trip through text keeps: objects with distinct keys made of letters, safe integers, no field
  undefined.  \<open>text_laws\<close> is the documented behaviour of \<open>JSON\<close> and of the UTF-8 coders on such values.
\<close>

definition is_letter :: "char \<Rightarrow> bool" where
  "is_letter c \<longleftrightarrow> (65 \<le> code c \<and> code c \<le> 90) \<or> (97 \<le> code c \<and> code c \<le> 122)"

fun json_plain :: "json \<Rightarrow> bool" where
  "json_plain JUndefined = False"
| "json_plain JFrac = False"
| "json_plain (JInt i) = is_safe_integer i"
| "json_plain (JArr xs) = list_all json_plain xs"
| "json_plain (JObj fs) = (distinct (map fst fs) \<and> list_all (\<lambda>(k, v). k \<noteq> [] \<and> list_all is_letter k \<and> json_plain v) fs)"
| "json_plain v = True"

definition text_laws :: "(json \<Rightarrow> string) \<Rightarrow> (string \<Rightarrow> json option) \<Rightarrow> (string \<Rightarrow> nat list) \<Rightarrow> (nat list \<Rightarrow> string) \<Rightarrow> bool" where
  "text_laws stringify parse utf8 utf8_decode \<longleftrightarrow>
     (\<forall>s. list_all (\<lambda>b. b < 256) (utf8 s) \<and> utf8_decode (utf8 s) = s) \<and>
     (\<forall>v. json_plain v \<longrightarrow> parse (stringify v) = Some v)"

lemma link_roundtrip:
  assumes "text_laws stringify parse utf8 utf8_decode" "json_plain v" "isClaimPackage parseUrl v"
  shows "decodeClaimPackage parseUrl parse utf8_decode (encodeClaimPackage stringify utf8 v) = Inr v"
  using assms base64Url_roundtrip [of "utf8 (stringify v)"]
  by (simp add: text_laws_def decodeClaimPackage_def encodeClaimPackage_def)

lemma package_json_plain:
  assumes "is_safe_integer (cp_chainId p)" "is_safe_integer (cp_tokenDecimals p)" "is_safe_integer (cp_leafIndex p)"
    "list_all (\<lambda>b. b \<le> 1) (cp_pathIndices p)"
  shows "json_plain (package_json p)"
  using assms by (auto simp: package_json_def opt_field_def list_all_iff is_letter_def code_def is_safe_integer_def split: option.splits)

lemma package_shape:
  assumes "is_safe_integer (cp_chainId p)" "is_safe_integer (cp_tokenDecimals p)"
    and "ADDRESS_RE (cp_settlementAddress p)" "BYTES32_RE (cp_claimsRoot p)" "ADDRESS_RE (cp_recipient p)" "ADDRESS_RE (cp_token p)"
    and "DECIMAL_RE (cp_amount p)" "DECIMAL_RE (cp_releaseTime p)" "DECIMAL_RE (cp_secret p)"
    and "length (cp_pathElements p) \<in> set CLAIMS_PATH_LENS" "list_all DECIMAL_RE (cp_pathElements p)"
    and "length (cp_pathIndices p) = length (cp_pathElements p)" "list_all (\<lambda>b. b = 0 \<or> b = 1) (cp_pathIndices p)"
    and "0 \<le> cp_leafIndex p" "cp_leafIndex p < 2 ^ length (cp_pathElements p)"
    and "case cp_relayerUrl p of None \<Rightarrow> True | Some u \<Rightarrow> isPlausibleHttpUrl parseUrl (JStr u)"
  shows "isClaimPackage parseUrl (package_json p)"
  unfolding package_json_def
  using assms by (auto simp: isClaimPackage_def path_ok_def string_such_def list_all_iff opt_field_def split: option.splits)

lemma path_lens_tier: "n \<in> set CLAIMS_PATH_LENS \<Longrightarrow> \<exists>tr \<in> set TIERS. n = ct_depth tr"
  by (auto simp: CLAIMS_PATH_LENS_def tier_defs)

lemma path_lens_safe: "n \<in> set CLAIMS_PATH_LENS \<Longrightarrow> 0 \<le> l \<Longrightarrow> l < (2::int) ^ n \<Longrightarrow> is_safe_integer l"
  by (auto simp: CLAIMS_PATH_LENS_def is_safe_integer_def)

text \<open>The fields of a package a settlement builds.\<close>

lemma package_fields:
  assumes "claim_package_for getAddress ctx layers (i, c) = Some pkg"
  obtains es bs r t where "getMerkleProof layers (int i) = Some (es, bs)" "getAddress (ce_recipient c) = Some r"
    "getAddress (cx_tokenAddress ctx) = Some t"
    "cp_chainId pkg = cx_chainId ctx" "cp_settlementAddress pkg = cx_settlementAddress ctx"
    "cp_claimsRoot pkg = toBytes32Hex (ar_claimsRoot (cx_authResult ctx))"
    "cp_recipient pkg = r" "cp_token pkg = t" "cp_tokenDecimals pkg = cx_tokenDecimals ctx" "cp_amount pkg = dec (ce_amount c)"
    "cp_releaseTime pkg = dec (ce_releaseTime c)" "cp_secret pkg = dec (ce_secret c)" "cp_leafIndex pkg = int i"
    "cp_pathElements pkg = map dec es" "cp_pathIndices pkg = bs" "cp_relayerUrl pkg = nonempty (Some (cx_relayerUrl ctx))"
  using assms by (auto simp: claim_package_for_def split: option.splits)

text \<open>
  C10.  A claim link carries its package intact: for every package of a finished settlement, the text the operator
  puts behind the number sign (base64 of the UTF-8 bytes of the JSON, in the URL-safe alphabet and without padding)
  is decoded by the claim page, passes the check of its shape, and reads back as that very package.
\<close>

theorem claim_links_decode:
  assumes "hash_ok P" "claims_ready ctx" "finalizeRealSettle P getAddress (Some rc) ctx = Inr res" "pkg \<in> set (st_claimPackages res)"
    and "text_laws stringify parse utf8 utf8_decode" "\<forall>s t. getAddress s = Some t \<longrightarrow> ADDRESS_RE t" "ADDRESS_RE (cx_settlementAddress ctx)"
    and "is_safe_integer (cx_chainId ctx)" "is_safe_integer (cx_tokenDecimals ctx)"
    and "cx_relayerUrl ctx = [] \<or> isPlausibleHttpUrl parseUrl (JStr (cx_relayerUrl ctx))"
  shows "\<exists>v. decodeClaimPackage parseUrl parse utf8_decode (encodeClaimPackage stringify utf8 (package_json pkg)) = Inr v \<and> json_package v = pkg"
proof -
  let ?cs = "pb_claims (cx_batch ctx)" and ?root = "ar_claimsRoot (cx_authResult ctx)" and ?tr = "pb_tier (cx_batch ctx)"
  obtain layers leaves where tree: "buildClaimsTree P ?cs ?tr = Some (?root, layers, leaves)"
    and m: "map (claim_package_for getAddress ctx layers) (enumerate 0 ?cs) = map Some (st_claimPackages res)"
    by (rule finalize_Inr [OF assms(3)])
  obtain i where i: "i < length ?cs" and pkg: "st_claimPackages res ! i = pkg"
    using assms(4) map_Some_length [OF m] by (auto simp: in_set_conv_nth)
  have p: "claim_package_for getAddress ctx layers (i, ?cs ! i) = Some pkg"
    using map_Some_nth [OF m, of i] i pkg by (simp add: nth_enumerate_eq)
  have tier: "?tr \<in> set TIERS" and c: "claim_in_range (?cs ! i)" using assms(2) i by (auto simp: claims_ready_def)
  note tr = tiers_ok [OF tier]
  have root: "field_el ?root" using node_field [OF assms(1) leaves_field [OF assms(1) tr tree]] claims_tree(3) [OF tr tree] by simp
  have "claim_leaf P (?cs ! i) \<noteq> None" using claims_tree(4) [OF tr tree] i by simp
  then obtain leaf where leaf: "claim_leaf P (?cs ! i) = Some leaf" by blast
  obtain es bs where g: "getMerkleProof layers (int i) = Some (es, bs)" and ic: "i < ct_cap ?tr"
    and mc: "merkle_circuit P (ct_depth ?tr) leaf es bs ?root" and es: "list_all field_el es"
    by (rule claim_tree_proof [OF assms(1) tr tree i leaf]) blast
  have len: "length es = ct_depth ?tr" "length bs = ct_depth ?tr" "list_all (\<lambda>b. b = 0 \<or> b = 1) bs"
    using mc by (auto simp: merkle_circuit_def)
  have d: "ct_depth ?tr \<in> set CLAIMS_PATH_LENS" using tier by (auto simp: tier_defs CLAIMS_PATH_LENS_def)
  have cap: "int i < 2 ^ ct_depth ?tr" using ic tr by (simp add: tier_ok_def)
  have "?root < 2 ^ 256" "0 \<le> ?root" using root by (auto simp: field_el_def BN254_FIELD_MODULUS_def)
  then have b32: "BYTES32_RE (toBytes32Hex ?root)" by (intro bytes32_hex)
  obtain r t where addr: "getAddress (ce_recipient (?cs ! i)) = Some r" "getAddress (cx_tokenAddress ctx) = Some t"
    and fields: "cp_chainId pkg = cx_chainId ctx" "cp_settlementAddress pkg = cx_settlementAddress ctx" "cp_claimsRoot pkg = toBytes32Hex ?root"
      "cp_recipient pkg = r" "cp_token pkg = t" "cp_tokenDecimals pkg = cx_tokenDecimals ctx" "cp_amount pkg = dec (ce_amount (?cs ! i))"
      "cp_releaseTime pkg = dec (ce_releaseTime (?cs ! i))" "cp_secret pkg = dec (ce_secret (?cs ! i))" "cp_leafIndex pkg = int i"
      "cp_pathElements pkg = map dec es" "cp_pathIndices pkg = bs" "cp_relayerUrl pkg = nonempty (Some (cx_relayerUrl ctx))"
    by (rule package_fields [OF p]) (simp add: g)
  have nums: "DECIMAL_RE (cp_amount pkg)" "DECIMAL_RE (cp_releaseTime pkg)" "DECIMAL_RE (cp_secret pkg)" "list_all DECIMAL_RE (cp_pathElements pkg)"
    using c es unfolding fields by (auto simp: claim_in_range_def field_el_def list_all_iff intro: DECIMAL_RE_dec)
  have url: "case cp_relayerUrl pkg of None \<Rightarrow> True | Some u \<Rightarrow> isPlausibleHttpUrl parseUrl (JStr u)"
    using assms(10) by (auto simp: fields nonempty_def)
  have shape: "isClaimPackage parseUrl (package_json pkg)"
    using assms(6-9) addr nums url b32 d len cap by (intro package_shape) (simp_all add: fields)
  have "list_all (\<lambda>b. b \<le> 1) bs" using len(3) by (auto simp: list_all_iff)
  then have plain: "json_plain (package_json pkg)"
    using assms(8,9) path_lens_safe [OF d, of "int i"] cap by (intro package_json_plain) (simp_all add: fields)
  show ?thesis using link_roundtrip [OF assms(5) plain shape] by simp
qed


end
