(* ===== verification/PayFundsFacts.thy ===== *)
theory PayFundsFacts
  imports PayFunds "HOL-Library.Multiset"
begin

text \<open>
  The pickers are optimal: the per-batch picker fails only when no assignment of distinct notes exists, the greedy
  picker covers whenever the notes do and uses the fewest of them; a retried deposit is allowed only on evidence.
\<close>

section \<open>Sorted lists\<close>

lemma sort_desc_nth: "i \<le> j \<Longrightarrow> j < length xs \<Longrightarrow> sn_amount (sort_desc xs ! j) \<le> sn_amount (sort_desc xs ! i)"
proof -
  assume ij: "i \<le> j" "j < length xs"
  have "sorted (map (\<lambda>n. - sn_amount n) (sort_desc xs))" by (simp add: sort_desc_def)
  from sorted_nth_mono [OF this ij(1)] ij show ?thesis by (simp add: sort_desc_def)
qed

lemma sort_desc_simps [simp]: "length (sort_desc xs) = length xs" "set (sort_desc xs) = set xs" "mset (sort_desc xs) = mset xs"
  by (simp_all add: sort_desc_def)

lemma sort_desc_sum: "sum_list (map sn_amount (sort_desc xs)) = sum_list (map sn_amount xs)"
proof -
  have "mset (map sn_amount (sort_desc xs)) = mset (map sn_amount xs)" by simp
  from arg_cong [OF this, of sum_mset] show ?thesis by (simp only: sum_mset_sum_list)
qed

text \<open>An injection into positions cannot send the first j + 1 positions below j.\<close>

lemma inj_reaches:
  assumes "inj_on f {..j}" shows "\<exists>i \<le> j. j \<le> (f i :: nat)"
proof (rule ccontr)
  assume "\<not> ?thesis"
  then have "f ` {..j} \<subseteq> {..<j}" by force
  then have "card {..j} \<le> card {..<j}" using card_inj_on_le [OF assms] by blast
  then show False by simp
qed

text \<open>Of a list in descending order, no m positions weigh more than the first m.\<close>

lemma first_are_heaviest:
  fixes xs :: "int list"
  assumes "\<And>i j. i \<le> j \<Longrightarrow> j < length xs \<Longrightarrow> xs ! j \<le> xs ! i"
  shows "finite S \<Longrightarrow> S \<subseteq> {..<length xs} \<Longrightarrow> (\<Sum>i \<in> S. xs ! i) \<le> (\<Sum>i < card S. xs ! i)"
proof (induction "card S" arbitrary: S)
  case (Suc m)
  have ne: "S \<noteq> {}" using Suc.hyps(2) by auto
  let ?M = "Max S"
  have M: "?M \<in> S" "?M < length xs" using Suc.prems ne Max_in by auto
  have "S \<subseteq> {..?M}" using Suc.prems(1) by auto
  then have "card S \<le> Suc ?M" using card_mono [of "{..?M}" S] by simp
  then have "xs ! ?M \<le> xs ! m" using assms M(2) Suc.hyps(2) by simp
  moreover have c: "m = card (S - {?M})" using Suc.hyps(2) M(1) Suc.prems(1) by simp
  moreover have "(\<Sum>i \<in> S - {?M}. xs ! i) \<le> (\<Sum>i < m. xs ! i)"
    using Suc.hyps(1) [OF c] Suc.prems c by (simp add: subset_iff)
  ultimately show ?case using sum.remove [OF Suc.prems(1) M(1), of "(!) xs"] by (simp add: Suc.hyps(2) [symmetric])
qed simp

section \<open>Greedy picks\<close>

lemma pick_loop_stop: "totalRaw \<le> p \<Longrightarrow> pick_loop totalRaw p ns = ([], p)"
  by (cases ns) auto

definition pick_ok :: "int \<Rightarrow> int \<Rightarrow> stored_note list \<Rightarrow> (stored_note \<times> int) list \<Rightarrow> int \<Rightarrow> bool" where
  "pick_ok tot p ns ps q \<longleftrightarrow> map fst ps = take (length ps) ns \<and> q = p + sum_list (map (sn_amount \<circ> fst) ps) \<and>
     (\<forall>(n, s) \<in> set ps. 0 \<le> s \<and> s \<le> sn_amount n) \<and> (tot \<le> q \<longrightarrow> sum_list (map snd ps) = tot - p) \<and>
     (q < tot \<longrightarrow> length ps = length ns) \<and>
     (\<forall>k < length ps. p + sum_list (map sn_amount (take k ns)) < tot)"

lemma pick_loop_ok:
  "pick_loop tot p ns = (ps, q) \<Longrightarrow> \<forall>n \<in> set ns. 0 \<le> sn_amount n \<Longrightarrow> p \<le> tot \<Longrightarrow> pick_ok tot p ns ps q"
proof (induction ns arbitrary: p ps q)
  case Nil
  then show ?case by (auto simp: pick_ok_def)
next
  case (Cons n ns)
  show ?case
  proof (cases "tot \<le> p")
    case True
    then show ?thesis using Cons.prems by (auto simp: pick_ok_def)
  next
    case False
    show ?thesis
    proof (cases "p + sn_amount n \<le> tot")
      case True
      obtain ps' where t: "pick_loop tot (p + sn_amount n) ns = (ps', q)" and ps: "ps = (n, sn_amount n) # ps'"
        using Cons.prems False True by (auto simp: Let_def split: prod.splits)
      have "pick_ok tot (p + sn_amount n) ns ps' q" using Cons.IH [OF t] Cons.prems True by simp
      note ok = this [unfolded pick_ok_def]
      have "p + sum_list (map sn_amount (take k (n # ns))) < tot" if "k < length ps" for k
      proof (cases k)
        case 0
        then show ?thesis using False by simp
      next
        case (Suc j)
        then have "p + sn_amount n + sum_list (map sn_amount (take j ns)) < tot" using that ok by (simp add: ps)
        then show ?thesis by (simp add: Suc)
      qed
      moreover have "map fst ps = take (length ps) (n # ns)" using ok by (simp add: ps)
      moreover have "q = p + sum_list (map (sn_amount \<circ> fst) ps)" using ok by (simp add: ps)
      moreover have "\<forall>(n, s) \<in> set ps. 0 \<le> s \<and> s \<le> sn_amount n" using ok Cons.prems(2) by (simp add: ps)
      moreover have "tot \<le> q \<longrightarrow> sum_list (map snd ps) = tot - p" using ok by (simp add: ps)
      moreover have "q < tot \<longrightarrow> length ps = length (n # ns)" using ok by (simp add: ps)
      ultimately show ?thesis unfolding pick_ok_def by blast
    next
      case f: False
      have t: "pick_loop tot (p + sn_amount n) ns = ([], p + sn_amount n)" using f by (intro pick_loop_stop) simp
      then have "ps = [(n, tot - p)]" "q = p + sn_amount n" using Cons.prems False f by (auto simp: Let_def)
      then show ?thesis using f False by (auto simp: pick_ok_def)
    qed
  qed
qed

text \<open>
  The automatic pick covers a total whenever the notes of the token do, charges exactly the total and never more
  than a note holds, returns the exact change, and uses the fewest notes: no set of notes of the token that reaches
  the total is smaller.
\<close>

lemma auto_pick_fewest_notes:
  assumes "\<forall>n \<in> set notes. 0 \<le> sn_amount n" "0 < totalRaw"
  shows "let p = autoPickSourceNotes notes tok totalRaw; E = sort_desc (filter (of_token tok) notes) in
    (sp_covered p \<longleftrightarrow> totalRaw \<le> sum_list (map sn_amount (filter (of_token tok) notes))) \<and>
    (sp_covered p \<longrightarrow> sum_list (map snd (sp_notes p)) = totalRaw \<and> (\<forall>(n, s) \<in> set (sp_notes p). n \<in> set notes \<and> s \<le> sn_amount n) \<and>
      sp_changeRaw p = sum_list (map (sn_amount \<circ> fst) (sp_notes p)) - totalRaw \<and>
      (\<forall>S \<subseteq> {..<length E}. totalRaw \<le> (\<Sum>i \<in> S. sn_amount (E ! i)) \<longrightarrow> length (sp_notes p) \<le> card S))"
proof -
  let ?E = "sort_desc (filter (of_token tok) notes)"
  obtain ps q where l: "pick_loop totalRaw 0 ?E = (ps, q)" by fastforce
  have E: "\<forall>n \<in> set ?E. 0 \<le> sn_amount n" using assms(1) by auto
  have ok: "pick_ok totalRaw 0 ?E ps q" using pick_loop_ok [OF l E] assms(2) by simp
  have p: "autoPickSourceNotes notes tok totalRaw = (if q < totalRaw then empty_pick
     else \<lparr>sp_notes = ps, sp_coveredRaw = totalRaw, sp_pickedRaw = q, sp_changeRaw = q - totalRaw, sp_covered = True\<rparr>)"
    using assms(2) l by (simp add: autoPickSourceNotes_def finish_pick_def)
  have fst: "map fst ps = take (length ps) ?E" and q: "q = sum_list (map (sn_amount \<circ> fst) ps)" using ok by (auto simp: pick_ok_def)
  have qs: "q = sum_list (map sn_amount (take (length ps) ?E))" unfolding q fst [symmetric] by simp
  have sum_E: "sum_list (map sn_amount ?E) = sum_list (map sn_amount (take (length ps) ?E)) + sum_list (map sn_amount (drop (length ps) ?E))"
    by (metis append_take_drop_id map_append sum_list_append)
  have "0 \<le> sum_list (map sn_amount (drop (length ps) ?E))" using E by (auto intro!: sum_list_nonneg dest!: in_set_dropD)
  then have cov: "\<not> q < totalRaw \<longleftrightarrow> totalRaw \<le> sum_list (map sn_amount (filter (of_token tok) notes))"
    using ok qs sum_E sort_desc_sum [of "filter (of_token tok) notes"] by (auto simp: pick_ok_def)
  have mem: "n \<in> set notes \<and> s \<le> sn_amount n" if "(n, s) \<in> set ps" for n s
  proof -
    have "n \<in> set (map fst ps)" using that by force
    then have "n \<in> set ?E" unfolding fst by (rule in_set_takeD)
    then show ?thesis using ok that by (auto simp: pick_ok_def)
  qed
  have few: "length ps \<le> card S" if S: "S \<subseteq> {..<length ?E}" "totalRaw \<le> (\<Sum>i \<in> S. sn_amount (?E ! i))" for S
  proof (rule ccontr)
    assume "\<not> ?thesis"
    then have k: "card S < length ps" by simp
    have fin: "finite S" using S(1) finite_subset by blast
    have cS: "card S \<le> length ?E" using card_mono [OF _ S(1)] by simp
    have "(\<Sum>i \<in> S. map sn_amount ?E ! i) \<le> (\<Sum>i < card S. map sn_amount ?E ! i)"
      by (rule first_are_heaviest) (use fin S(1) in \<open>auto intro: sort_desc_nth\<close>)
    moreover have "(\<Sum>i \<in> S. map sn_amount ?E ! i) = (\<Sum>i \<in> S. sn_amount (?E ! i))" by (rule sum.cong) (use S(1) in auto)
    moreover have "(\<Sum>i < card S. map sn_amount ?E ! i) = sum_list (map sn_amount (take (card S) ?E))"
      using cS by (simp add: sum_list_sum_nth atLeast0LessThan)
    ultimately show False using ok k S(2) by (fastforce simp: pick_ok_def)
  qed
  show ?thesis unfolding Let_def p using cov ok mem few q by (auto simp: empty_pick_def pick_ok_def)
qed

section \<open>One note per batch\<close>

lemma sorted_batches_simps [simp]: "length (sorted_batches totals) = length totals"
  "set (sorted_batches totals) = {(totals ! i, i) | i. i < length totals}"
  by (auto simp: sorted_batches_def in_set_enumerate_eq image_iff)

lemma sorted_batches_distinct: "distinct (map snd (sorted_batches totals))"
proof -
  have "mset (sorted_batches totals) = mset (map (\<lambda>(i, t). (t, i)) (enumerate 0 totals))" by (simp add: sorted_batches_def)
  from arg_cong [OF this, of "image_mset snd"]
  have "mset (map snd (sorted_batches totals)) = mset (map snd (map (\<lambda>(i, t). (t, i)) (enumerate 0 totals)))"
    by (simp only: mset_map)
  moreover have "map snd (map (\<lambda>(i, t). (t, i)) (enumerate 0 totals)) = map fst (enumerate 0 totals)"
    by (simp add: comp_def case_prod_beta)
  ultimately show ?thesis by (metis distinct_upt map_fst_enumerate mset_eq_imp_distinct_iff)
qed

lemma sorted_batches_nth: "i \<le> j \<Longrightarrow> j < length totals \<Longrightarrow> fst (sorted_batches totals ! j) \<le> fst (sorted_batches totals ! i)"
proof -
  assume ij: "i \<le> j" "j < length totals"
  have "sorted (map (\<lambda>(t, i). - t) (sorted_batches totals))" unfolding sorted_batches_def by (rule sorted_sort_key)
  from sorted_nth_mono [OF this ij(1)] ij show ?thesis by (simp add: case_prod_beta)
qed

text \<open>The loop succeeds exactly when the sorted lists fit position by position.\<close>

lemma pair_loop_fits:
  "length bs \<le> length ns \<Longrightarrow>
   pair_loop bs ns arr ch \<noteq> None \<longleftrightarrow> (\<forall>k < length bs. fst (bs ! k) \<le> sn_amount (ns ! k))"
proof (induction bs ns arr ch rule: pair_loop.induct)
  case (3 tot i bs n ns arr ch)
  then show ?case by (auto simp: less_Suc_eq_0_disj)
qed auto

lemma pair_loop_result:
  "pair_loop bs ns arr ch = Some (arr', ch') \<Longrightarrow> length bs \<le> length ns \<Longrightarrow> distinct (map snd bs) \<Longrightarrow> \<forall>b \<in> set bs. snd b < length arr \<Longrightarrow>
   length arr' = length arr \<and>
   (\<forall>k < length bs. arr' ! snd (bs ! k) = Some (ns ! k, fst (bs ! k))) \<and> (\<forall>i < length arr. i \<notin> snd ` set bs \<longrightarrow> arr' ! i = arr ! i) \<and>
   ch' = ch + (\<Sum>k < length bs. sn_amount (ns ! k) - fst (bs ! k))"
proof (induction bs ns arr ch rule: pair_loop.induct)
  case (3 tot i bs n ns arr ch)
  have fit: "tot \<le> sn_amount n" "pair_loop bs ns (arr[i := Some (n, tot)]) (ch + (sn_amount n - tot)) = Some (arr', ch')"
    using "3.prems"(1) by (auto split: if_splits)
  have i: "i \<notin> snd ` set bs" "i < length arr" using "3.prems"(3,4) by auto
  have ih: "length arr' = length arr \<and> (\<forall>k < length bs. arr' ! snd (bs ! k) = Some (ns ! k, fst (bs ! k))) \<and>
    (\<forall>j < length arr. j \<notin> snd ` set bs \<longrightarrow> arr' ! j = arr[i := Some (n, tot)] ! j) \<and>
    ch' = ch + (sn_amount n - tot) + (\<Sum>k < length bs. sn_amount (ns ! k) - fst (bs ! k))"
    using "3.IH" fit "3.prems" by simp
  have "arr' ! snd (((tot, i) # bs) ! k) = Some ((n # ns) ! k, fst (((tot, i) # bs) ! k))" if "k < length ((tot, i) # bs)" for k
    using that ih i by (cases k) auto
  moreover have "arr' ! j = arr ! j" if "j < length arr" "j \<notin> snd ` set ((tot, i) # bs)" for j using that ih by auto
  moreover have "ch' = ch + (\<Sum>k < length ((tot, i) # bs). sn_amount ((n # ns) ! k) - fst (((tot, i) # bs) ! k))"
    using ih by (simp add: sum.lessThan_Suc_shift del: sum.lessThan_Suc)
  ultimately show ?case using ih by blast
qed auto

text \<open>An assignment of distinct notes to the batches, by position.\<close>

definition assigns :: "int list \<Rightarrow> stored_note list \<Rightarrow> (nat \<Rightarrow> nat) \<Rightarrow> bool" where
  "assigns totals E f \<longleftrightarrow> inj_on f {..<length totals} \<and>
     (\<forall>i < length totals. f i < length E \<and> totals ! i \<le> sn_amount (E ! f i))"

lemma assigns_length: "assigns totals E f \<Longrightarrow> length totals \<le> length E"
proof -
  assume a: "assigns totals E f"
  then have "f ` {..<length totals} \<subseteq> {..<length E}" by (auto simp: assigns_def)
  then have "card {..<length totals} \<le> card {..<length E}" using a by (intro card_inj_on_le [of f]) (auto simp: assigns_def)
  then show ?thesis by simp
qed

lemma sorted_batch_at: "k < length totals \<Longrightarrow> snd (sorted_batches totals ! k) < length totals \<and>
    fst (sorted_batches totals ! k) = totals ! snd (sorted_batches totals ! k)"
proof -
  assume "k < length totals"
  then have "sorted_batches totals ! k \<in> set (sorted_batches totals)" by (intro nth_mem) simp
  then show ?thesis by auto
qed

lemma fits_if_assigns:
  assumes a: "assigns totals (sort_desc ns) f" and k: "k < length totals"
  shows "fst (sorted_batches totals ! k) \<le> sn_amount (sort_desc ns ! k)"
proof -
  let ?B = "sorted_batches totals" and ?E = "sort_desc ns"
  let ?g = "\<lambda>j. f (snd (?B ! j))"
  have inj: "inj_on ?g {..k}"
  proof (rule inj_onI)
    fix x y assume xy: "x \<in> {..k}" "y \<in> {..k}" "?g x = ?g y"
    then have "snd (?B ! x) = snd (?B ! y)" using a sorted_batch_at [of x totals] sorted_batch_at [of y totals] k
      by (auto simp: assigns_def inj_on_def)
    then have "map snd ?B ! x = map snd ?B ! y" using xy k by simp
    then show "x = y" using nth_eq_iff_index_eq [OF sorted_batches_distinct, of x totals y] xy k by simp
  qed
  obtain i where i: "i \<le> k" "k \<le> ?g i" using inj_reaches [OF inj] by blast
  have b: "snd (?B ! i) < length totals" "fst (?B ! i) = totals ! snd (?B ! i)" using sorted_batch_at [of i totals] i(1) k by auto
  have "fst (?B ! k) \<le> fst (?B ! i)" by (rule sorted_batches_nth [OF i(1) k])
  also have "\<dots> \<le> sn_amount (?E ! ?g i)" using a b by (simp add: assigns_def)
  also have "\<dots> \<le> sn_amount (?E ! k)" using i(2) a b by (intro sort_desc_nth) (auto simp: assigns_def)
  finally show ?thesis .
qed

lemma pair_loop_assigns:
  assumes l: "pair_loop (sorted_batches totals) E (replicate (length totals) None) 0 = Some (arr, ch)" and len: "length totals \<le> length E"
  shows "\<exists>f. assigns totals E f \<and> arr = map (\<lambda>i. Some (E ! f i, totals ! i)) [0..<length totals] \<and>
    ch = (\<Sum>i < length totals. sn_amount (E ! f i) - totals ! i)"
proof -
  let ?B = "sorted_batches totals" and ?m = "length totals"
  note res = pair_loop_result [OF l _ sorted_batches_distinct] 
  have arr: "length arr = ?m" "\<And>k. k < ?m \<Longrightarrow> arr ! snd (?B ! k) = Some (E ! k, fst (?B ! k))"
    "ch = (\<Sum>k < ?m. sn_amount (E ! k) - fst (?B ! k))" using res len by auto
  have fits: "fst (?B ! k) \<le> sn_amount (E ! k)" if "k < ?m" for k
    using pair_loop_fits [of ?B E "replicate ?m None" 0] l len that by simp
  have "\<exists>k < ?m. snd (?B ! k) = i" if "i < ?m" for i
  proof -
    have "(totals ! i, i) \<in> set ?B" using that by auto
    then show ?thesis unfolding in_set_conv_nth by auto
  qed
  then obtain f where f: "\<And>i. i < ?m \<Longrightarrow> f i < ?m \<and> snd (?B ! f i) = i" by metis
  have inj: "inj_on f {..<?m}" by (rule inj_onI) (metis f lessThan_iff)
  have sub: "f ` {..<?m} \<subseteq> {..<?m}" using f by auto
  have "f ` {..<?m} = {..<?m}" by (rule card_subset_eq) (use sub card_image [OF inj] in auto)
  then have bij: "bij_betw f {..<?m} {..<?m}" using inj by (simp add: bij_betw_def)
  have at: "fst (?B ! f i) = totals ! i" if "i < ?m" for i using sorted_batch_at [of "f i" totals] f [OF that] by simp
  have "assigns totals E f" using inj f fits at len unfolding assigns_def by (metis less_le_trans)
  moreover have "arr = map (\<lambda>i. Some (E ! f i, totals ! i)) [0..<?m]"
  proof (rule nth_equalityI)
    fix i assume "i < length arr"
    then have i: "i < ?m" by (simp add: arr(1))
    have "arr ! i = Some (E ! f i, totals ! i)" using arr(2) [of "f i"] f [OF i] at [OF i] by simp
    then show "arr ! i = map (\<lambda>i. Some (E ! f i, totals ! i)) [0..<?m] ! i" using i by simp
  qed (simp add: arr(1))
  moreover have "ch = (\<Sum>i < ?m. sn_amount (E ! f i) - totals ! i)"
    unfolding arr(3) using at by (subst sum.reindex_bij_betw [OF bij, symmetric]) simp
  ultimately show ?thesis by blast
qed

text \<open>
  C23.  The per-batch picker is complete: it covers a run exactly when some assignment gives every batch its own eligible
  note that holds its total, and then the result is such an assignment, in the order of the batches, with the exact
  change.
\<close>

theorem per_batch_pick_complete:
  "let r = pickPerBatchNotes notes totals tok sel; E = eligible_notes notes tok sel in
    (bp_covered r \<longleftrightarrow> (\<exists>f. assigns totals E f)) \<and>
    (bp_covered r \<longrightarrow> (\<exists>f. assigns totals E f \<and> bp_byBatch r = map (\<lambda>i. Some (E ! f i, totals ! i)) [0..<length totals] \<and>
      bp_changeRaw r = (\<Sum>i < length totals. sn_amount (E ! f i) - totals ! i)))"
proof -
  let ?E = "eligible_notes notes tok sel" and ?r = "pickPerBatchNotes notes totals tok sel"
  obtain ns where ns: "?E = sort_desc ns" unfolding eligible_notes_def by blast
  consider "totals = []" | "totals \<noteq> []" "length ?E < length totals" | "totals \<noteq> []" "length totals \<le> length ?E" by linarith
  then show ?thesis
  proof cases
    case 1
    then show ?thesis by (simp add: pickPerBatchNotes_def assigns_def)
  next
    case 2
    then have "\<not> bp_covered ?r" by (simp add: pickPerBatchNotes_def failed_fit_def Let_def)
    moreover have "\<not> assigns totals ?E f" for f using assigns_length [of totals ?E f] 2(2) by linarith
    ultimately show ?thesis by simp
  next
    case 3
    let ?l = "pair_loop (sorted_batches totals) ?E (replicate (length totals) None) 0"
    have ne: "?E \<noteq> []" using 3 by auto
    show ?thesis
    proof (cases ?l)
      case None
      then have "\<not> assigns totals ?E f" for f
        using pair_loop_fits [of "sorted_batches totals" ?E "replicate (length totals) None" 0] fits_if_assigns 3(2) unfolding ns by fastforce
      then show ?thesis using None 3 ne by (simp add: pickPerBatchNotes_def failed_fit_def Let_def)
    next
      case (Some p)
      then show ?thesis using pair_loop_assigns [of totals ?E "fst p" "snd p"] 3 ne by (auto simp: pickPerBatchNotes_def Let_def split: prod.splits)
    qed
  qed
qed

section \<open>Retrying a deposit\<close>

text \<open>Evidence that a broadcast deposit cannot land any more.\<close>

definition positively_safe :: "retry_deps \<Rightarrow> stored_note \<Rightarrow> bool" where
  "positively_safe d n \<longleftrightarrow> rd_hasGetReceipt d \<and> (\<exists>h. sn_txHash n = Some h \<and> h \<noteq> [] \<and>
     (rd_getReceipt d h = ReceiptStatus (Some 0) \<or>
      rd_getReceipt d h = NoReceipt \<and> rd_hasGetTransaction d \<and> rd_getTransaction d h = TxUnknown))"

lemma classify_allow:
  "classify_notes (\<lambda>_. False) d k ambiguous ns = RetryAllow \<longleftrightarrow> \<not> ambiguous \<and> list_all (positively_safe d) ns"
proof (induction ns arbitrary: k ambiguous)
  case (Cons n ns)
  show ?case
    by (cases "rd_hasGetReceipt d"; cases "sn_txHash n"; cases "rd_getReceipt d (the (sn_txHash n))";
        cases "rd_getTransaction d (the (sn_txHash n))")
      (auto simp: Cons.IH positively_safe_def)
qed simp

lemma poll_none:
  "poll_tree (\<lambda>_. False) findIndex live is = None \<longleftrightarrow> (\<forall>i \<in> set is. \<forall>n \<in> set live. findIndex i (sn_commitment n) < 0)"
  by (induction "is") (auto simp: list_ex_iff linorder_not_less)

lemma poll_some: "poll_tree (\<lambda>_. False) findIndex live is = Some v \<Longrightarrow> v = RetryBlockLanded"
  by (induction "is") (auto split: if_splits)

text \<open>
  C24.  A second deposit is let through without asking only on evidence: when the caller does not abort, the guard
  allows it exactly when every earlier deposit of the list that is still live and pending stayed out of the tree at
  every poll and its transaction was either reverted or is unknown to the node.
\<close>

theorem deposit_retry_only_when_safe:
  "assessDepositRetry (\<lambda>_. False) findIndex (\<lambda>_. False) d pending = RetryAllow \<longleftrightarrow>
    (\<forall>n \<in> set pending. isPendingDeposit n \<longrightarrow>
      (\<forall>i \<le> POLL_TRIES. findIndex i (sn_commitment n) < 0) \<and> positively_safe d n)"
proof -
  let ?live = "filter isPendingDeposit pending"
  have ticks: "set [0..<Suc POLL_TRIES] = {..POLL_TRIES}" by auto
  show ?thesis
  proof (cases "poll_tree (\<lambda>_. False) findIndex ?live [0..<Suc POLL_TRIES]")
    case None
    then have "\<forall>i \<le> POLL_TRIES. \<forall>n \<in> set ?live. findIndex i (sn_commitment n) < 0" unfolding poll_none ticks by blast
    then show ?thesis using None by (auto simp: assessDepositRetry_def Let_def classify_allow list_all_iff filter_empty_conv)
  next
    case (Some v)
    then have "\<not> (\<forall>i \<in> set [0..<Suc POLL_TRIES]. \<forall>n \<in> set ?live. findIndex i (sn_commitment n) < 0)" using poll_none by (metis option.distinct(1))
    then obtain i n where "i \<le> POLL_TRIES" "n \<in> set pending" "isPendingDeposit n" "\<not> findIndex i (sn_commitment n) < 0"
      unfolding ticks by auto
    then show ?thesis using Some poll_some [OF Some] by (auto simp: assessDepositRetry_def Let_def filter_empty_conv)
  qed
qed

end
