(* ===== verification/PaySamples.thy ===== *)
theory PaySamples
  imports ClaimLink PayFundsFacts "HOL-Library.Countable"
begin

text \<open>
  Concrete inputs for the properties of the payouts: two recipients, notes of one token, a batch settled from the
  sample note, and the receipt of its settlement.
\<close>

definition sample_recipients :: "payout_recipient list" where
  "sample_recipients = [\<lparr>pr_recipient = ''0xc1'', pr_amount = 300, pr_releaseTime = 2000, pr_secret = None\<rparr>,
     \<lparr>pr_recipient = ''0xc2'', pr_amount = 200, pr_releaseTime = 2000, pr_secret = None\<rparr>]"

lemma sample_payout:
  obtains rs' b root layers leaves where "withDeterministicSecrets sample_P sample_recipients 77 ''0xa0'' = Some rs'"
    "splitPayout (\<lambda>k. int k) ''0xa0'' None rs' = Some (Inr [b])" "pb_tier b \<in> set TIERS"
    "buildClaimsTree sample_P (pb_claims b) (pb_tier b) = Some (root, layers, leaves)"
proof -
  have "(case withDeterministicSecrets sample_P sample_recipients 77 ''0xa0'' of None \<Rightarrow> False
    | Some rs' \<Rightarrow> (case splitPayout (\<lambda>k. int k) ''0xa0'' None rs' of Some (Inr [b]) \<Rightarrow>
        pb_tier b \<in> set TIERS \<and> \<not> Option.is_none (buildClaimsTree sample_P (pb_claims b) (pb_tier b)) | _ \<Rightarrow> False))"
    by code_simp
  then obtain rs' b where b: "withDeterministicSecrets sample_P sample_recipients 77 ''0xa0'' = Some rs'"
    "splitPayout (\<lambda>k. int k) ''0xa0'' None rs' = Some (Inr [b])" "pb_tier b \<in> set TIERS"
    "buildClaimsTree sample_P (pb_claims b) (pb_tier b) \<noteq> None"
    by (auto simp: Option.is_none_def simp del: not_None_eq split: option.splits sum.splits list.splits)
  then obtain root layers leaves where "buildClaimsTree sample_P (pb_claims b) (pb_tier b) = Some (root, layers, leaves)"
    by (cases "buildClaimsTree sample_P (pb_claims b) (pb_tier b)") auto
  then show ?thesis by (rule that [OF b(1-3)])
qed

definition sample_stored_note :: stored_note where
  "sample_stored_note = \<lparr>sn_id = ''a'', sn_symbol = ''T'', sn_note = sample_note, sn_commitment = 5, sn_leafIndex = 0, sn_failed = False,
     sn_txHash = None, sn_chainId = None, sn_createdAt = 0\<rparr>"

definition sample_pending_note :: stored_note where
  "sample_pending_note = sample_stored_note\<lparr>sn_id := ''b'', sn_leafIndex := -1, sn_txHash := Some ''0x01''\<rparr>"

definition sample_batch :: payout_batch where
  "sample_batch = \<lparr>pb_totalAmount = 500, pb_claims =
     [\<lparr>ce_secret = 31, ce_recipient = ''0xc1'', ce_token = ''0xa0'', ce_amount = 300, ce_releaseTime = 2000\<rparr>,
      \<lparr>ce_secret = 37, ce_recipient = ''0xc2'', ce_token = ''0xa0'', ce_amount = 200, ce_releaseTime = 3000\<rparr>], pb_tier = TIER_16\<rparr>"

definition sample_settle :: settle_args where
  "sample_settle = \<lparr>se_batch = sample_batch, se_tokenAddress = ''0xa0'', se_tokenSymbol = ''T'', se_tokenDecimals = 6,
     se_source = sample_stored_note, se_relayerAddress = ''0x0e'', se_relayerUrl = ''u'', se_settlementAddress = ''0x000000000000000000000000000000000000005e'',
     se_chainId = 1, se_maxFeeBps = 292, se_feeRaw = 15, se_eddsaPrivateKey = sample_key, se_eddsaPublicKey = (17, 19),
     se_senderLabel = None, se_runLabel = None\<rparr>"

definition sample_groth :: groth_proof where
  "sample_groth = \<lparr>gp_a = (1, 2), gp_b = ((3, 4), (5, 6)), gp_c = (7, 8)\<rparr>"

definition honest_prover :: "(int list \<times> int) auth_prover" where
  "honest_prover s = Inr (sample_groth, authorize_public sample_P s)"

lemma honest_complete: "complete_prover sample_P sample_V tr honest_prover"
  by (simp add: complete_prover_def honest_prover_def)

lemma sample_settle_ready: "settle_ready sample_P sample_settle sample_path 23 41 1000"
  by code_simp

lemma sample_fee: "fee_for_batch sample_settle"
  unfolding fee_for_batch_def
  by (rule exI [of _ 2], rule exI [of _ 100], rule exI [of _ 5]) (simp add: computeBatchFee_def sample_settle_def sample_batch_def BPS_DENOMINATOR_def)

definition sample_settle_receipt :: "int \<Rightarrow> settle_receipt" where
  "sample_settle_receipt root = \<lparr>sr_status = 1, sr_logs = [
     \<lparr>lg_address = ''0x99'', lg_parsed = Some (''ScatterDirectAuthSettled'', Some 1)\<rparr>,
     \<lparr>lg_address = ''0x000000000000000000000000000000000000005E'', lg_parsed = Some (''ScatterDirectAuthSettled'', Some root)\<rparr>]\<rparr>"

definition sample_getAddress :: "string \<Rightarrow> string option" where
  "sample_getAddress s = (case js_BigInt s of None \<Rightarrow> None | Some v \<Rightarrow> if 0 \<le> v \<and> v < 2 ^ 160 then Some (hexPad 40 v) else None)"

lemma sample_checksums: "checksums sample_getAddress"
  by (auto simp: checksums_def sample_getAddress_def js_BigInt_hexPad split: option.splits if_splits)

lemma sample_addresses: "sample_getAddress (se_tokenAddress sample_settle) \<noteq> None"
  "\<forall>c \<in> set (pb_claims (se_batch sample_settle)). sample_getAddress (ce_recipient c) \<noteq> None"
  by code_simp+

lemma sample_finalized:
  obtains side ctx res where "prepareRealSettle sample_P sample_sign honest_prover (\<lambda>_. Some sample_path) 0 23 41 sample_settle = Inr (side, ctx)"
    "cx_batch ctx = sample_batch" "cx_tokenAddress ctx = ''0xa0''"
    "cx_settlementAddress ctx = se_settlementAddress sample_settle" "cx_chainId ctx = 1" "cx_tokenDecimals ctx = 6" "cx_relayerUrl ctx = ''u''"
    "finalizeRealSettle sample_P sample_getAddress (Some (sample_settle_receipt (ar_claimsRoot (cx_authResult ctx)))) ctx = Inr res"
proof -
  have "\<not> isl (prepareRealSettle sample_P sample_sign honest_prover (\<lambda>_. Some sample_path) 0 23 41 sample_settle)" by code_simp
  then obtain side ctx where p: "prepareRealSettle sample_P sample_sign honest_prover (\<lambda>_. Some sample_path) 0 23 41 sample_settle = Inr (side, ctx)"
    by (cases "prepareRealSettle sample_P sample_sign honest_prover (\<lambda>_. Some sample_path) 0 23 41 sample_settle") auto
  have tier: "pb_tier (se_batch sample_settle) \<in> set TIERS" by (simp add: sample_settle_def sample_batch_def TIERS_def)
  have x: "cx_batch ctx = sample_batch" "cx_tokenAddress ctx = ''0xa0''"
    "cx_settlementAddress ctx = se_settlementAddress sample_settle" "cx_chainId ctx = 1" "cx_tokenDecimals ctx = 6" "cx_relayerUrl ctx = ''u''"
    using p by (auto simp: prepareRealSettle_def Let_def sample_settle_def split: option.splits sum.splits)
  have "extractSettledClaimsRoot (sr_logs (sample_settle_receipt root)) (se_settlementAddress sample_settle) = Some root" for root
  proof -
    have "\<not> eqAddr (Some ''0x99'') (Some (se_settlementAddress sample_settle))" "eqAddr (Some ''0x000000000000000000000000000000000000005E'') (Some (se_settlementAddress sample_settle))"
      by code_simp+
    then show ?thesis by (simp add: sample_settle_receipt_def)
  qed
  then have "\<exists>res. finalizeRealSettle sample_P sample_getAddress (Some (sample_settle_receipt (ar_claimsRoot (cx_authResult ctx)))) ctx = Inr res"
    by (intro prepared_finalizes [OF sample_P_ok p tier] sample_addresses) (simp_all add: sample_settle_receipt_def)
  then show ?thesis using that p x by blast
qed

section \<open>Witnesses\<close>

theorem split_payout_exact_witness:
  "\<exists>bs. splitPayout (\<lambda>k. int k) ''0xa0'' None sample_recipients = Some (Inr bs) \<and> length bs = 1 \<and> sum_list (map pb_totalAmount bs) = 500"
proof -
  have "sample_recipients \<noteq> []" by (simp add: sample_recipients_def)
  from split_payout_exact [OF this, of "\<lambda>k. int k" "''0xa0''"] show ?thesis
    by (auto simp: sample_recipients_def tier_defs)
qed

theorem lost_payout_is_recovered_witness:
  "\<exists>(b :: payout_batch) root t cs. deepRecoverReleaseTime sample_P (\<lambda>_. False)
     (recover_args_for 77 ''0xa0'' sample_recipients (pb_tier b) root 1998 2005 (Some 1)) = Inr (Some (t, cs)) \<and> 1998 \<le> t \<and> t \<le> 2000"
proof (rule sample_payout)
  fix rs' b root layers leaves
  assume s: "withDeterministicSecrets sample_P sample_recipients 77 ''0xa0'' = Some rs'"
    "splitPayout (\<lambda>k. int k) ''0xa0'' None rs' = Some (Inr [b])" "pb_tier b \<in> set TIERS"
    "buildClaimsTree sample_P (pb_claims b) (pb_tier b) = Some (root, layers, leaves)"
  have r: "sample_recipients \<noteq> []" "list_all (\<lambda>r. pr_secret r = None \<and> pr_releaseTime r = 2000) sample_recipients"
    by (simp_all add: sample_recipients_def)
  have w: "0 < (1::int)" "2000 = 1998 + int 2 * 1" "(2000::int) \<le> 2005" "list_all is_safe_integer [1998, 2005, 1]"
    "(2005 - 1998) div 1 + 1 \<le> (200000::int)" "\<forall>t::int. \<not> False"
    by (simp_all add: is_safe_integer_def)
  from lost_payout_is_recovered [OF r s w] obtain t cs root' where
    "deepRecoverReleaseTime sample_P (\<lambda>t. False) (recover_args_for 77 ''0xa0'' sample_recipients (pb_tier b) root 1998 2005 (Some 1)) =
      Inr (Some (t, cs))" "1998 \<le> t" "t \<le> 2000" by (elim exE conjE)
  then show ?thesis by (intro exI [of _ b] exI [of _ root] exI [of _ t] exI [of _ cs] conjI)
qed

theorem batch_fee_cap_tight_witness:
  "\<exists>f. computeBatchFee 500 2 100 5 = Inr f \<and> bf_feeRaw f = 15 \<and> bf_feeRaw f * 10000 \<le> bf_sellAmount f * bf_effectiveMaxFeeBps f \<and>
    bf_effectiveMaxFeeBps f \<le> 10000"
proof -
  obtain f where f: "computeBatchFee 500 2 100 5 = Inr f" "bf_feeRaw f = 15"
    by (simp add: computeBatchFee_def BPS_DENOMINATOR_def)
  then show ?thesis using batch_fee_cap_tight [OF f(1)] by blast
qed

lemma auto_pick_fewest_notes_witness:
  "let p = autoPickSourceNotes [sample_stored_note, sample_stored_note] ''0x00000000000000000000000000000000000000A0'' 1500 in
    sp_covered p \<and> sum_list (map snd (sp_notes p)) = 1500"
proof -
  have n: "\<forall>n \<in> set [sample_stored_note, sample_stored_note]. 0 \<le> sn_amount n" by (simp add: sample_stored_note_def sample_note_def)
  have "sp_covered (autoPickSourceNotes [sample_stored_note, sample_stored_note] ''0x00000000000000000000000000000000000000A0'' 1500)"
    by code_simp
  then show ?thesis
    using auto_pick_fewest_notes [OF n, of 1500 "''0x00000000000000000000000000000000000000A0''"] by (simp add: Let_def)
qed

theorem per_batch_pick_complete_witness:
  "\<exists>f. assigns [500, 900] (eligible_notes [sample_stored_note, sample_stored_note] ''0x00000000000000000000000000000000000000A0'' None) f"
proof -
  have "bp_covered (pickPerBatchNotes [sample_stored_note, sample_stored_note] [500, 900] ''0x00000000000000000000000000000000000000A0'' None)"
    by code_simp
  then show ?thesis
    using per_batch_pick_complete [of "[sample_stored_note, sample_stored_note]" "[500, 900]" "''0x00000000000000000000000000000000000000A0''" None]
    by (simp add: Let_def)
qed

theorem deposit_retry_only_when_safe_witness:
  "isPendingDeposit sample_pending_note \<and> positively_safe
     \<lparr>rd_hasGetReceipt = True, rd_getReceipt = (\<lambda>_. ReceiptStatus (Some 0)), rd_hasGetTransaction = False, rd_getTransaction = (\<lambda>_. TxUnknown)\<rparr>
     sample_pending_note"
proof -
  let ?d = "\<lparr>rd_hasGetReceipt = True, rd_getReceipt = (\<lambda>_. ReceiptStatus (Some 0)), rd_hasGetTransaction = False, rd_getTransaction = (\<lambda>_. TxUnknown)\<rparr>"
  have "assessDepositRetry (\<lambda>_. False) (\<lambda>_ _. -1) (\<lambda>_. False) ?d [sample_pending_note] = RetryAllow" by code_simp
  moreover have "isPendingDeposit sample_pending_note" by code_simp
  ultimately show ?thesis using deposit_retry_only_when_safe [of "\<lambda>_ _. -1" ?d "[sample_pending_note]"] by simp
qed

theorem prepared_body_accepted_witness:
  "\<exists>prep body keys. prepareRealSettle sample_P sample_sign honest_prover (\<lambda>_. Some sample_path) 0 23 41 sample_settle = Inr prep \<and>
    buildAuthorizeOrderBody prep = Some (body, keys) \<and> validateAuthorizeOrder body (hexPad 40 14) 1000 = None \<and>
    num (sellAmount (publicSignals body)) - num (totalLocked (publicSignals body)) = 15"
proof -
  have t: "pb_tier (se_batch sample_settle) \<in> set TIERS" "batch_ok (pb_tier (se_batch sample_settle)) (se_batch sample_settle)"
    by (simp_all add: sample_settle_def sample_batch_def batch_ok_def tier_defs)
  have n: "0 \<le> (1000::int)" "(1000::int) < 2 ^ 53" "js_BigInt (se_relayerAddress sample_settle) = Some 14"
    "eqAddr (Some (hexPad 40 14)) (Some (hexPad 40 14))" by code_simp+
  have "se_feeRaw sample_settle = 15" by (simp add: sample_settle_def)
  then show ?thesis
    using prepared_body_accepted [where V = sample_V and sign = sample_sign and a = sample_settle and tryProofFor = "\<lambda>_. Some sample_path"
      and mp = sample_path and prove = honest_prover and rnd = 0, OF sample_P_ok t sample_settle_ready sample_fee refl sample_V_ok honest_complete n]
    by metis
qed

theorem finalized_packages_claimable_witness:
  "\<exists>side ctx res inp s. prepareRealSettle sample_P sample_sign honest_prover (\<lambda>_. Some sample_path) 0 23 41 sample_settle = Inr (side, ctx) \<and>
    finalizeRealSettle sample_P sample_getAddress (Some (sample_settle_receipt (ar_claimsRoot (cx_authResult ctx)))) ctx = Inr res \<and>
    claim_proof_input (st_claimPackages res ! 1) = Some inp \<and> claim_circuit sample_P TIER_16 s \<and> cs_amount s = 200"
proof (rule sample_finalized)
  fix side ctx res
  assume p: "prepareRealSettle sample_P sample_sign honest_prover (\<lambda>_. Some sample_path) 0 23 41 sample_settle = Inr (side, ctx)"
    and x: "cx_batch ctx = sample_batch" "cx_tokenAddress ctx = ''0xa0''"
    and res: "finalizeRealSettle sample_P sample_getAddress (Some (sample_settle_receipt (ar_claimsRoot (cx_authResult ctx)))) ctx = Inr res"
  have "claims_ready ctx" unfolding claims_ready_def x by code_simp
  moreover note sample_checksums
  moreover have b: "1 < length (pb_claims (cx_batch ctx))" "ce_amount (pb_claims (cx_batch ctx) ! 1) = 200"
    "pb_tier (cx_batch ctx) = TIER_16" unfolding x by (simp_all add: sample_batch_def)
  ultimately obtain inp s where "claim_proof_input (st_claimPackages res ! 1) = Some inp" "claim_circuit sample_P TIER_16 s" "cs_amount s = 200"
    using finalized_packages_claimable [OF sample_P_ok _ _ res] by metis
  then show ?thesis using p res by blast
qed

section \<open>Links\<close>

text \<open>A text form of values that is exact by counting, and one byte for each character.\<close>

instance json :: countable by countable_datatype

definition sample_stringify :: "json \<Rightarrow> string" where "sample_stringify v = replicate (to_nat v) (CHR ''x'')"
definition sample_parse :: "string \<Rightarrow> json option" where "sample_parse s = Some (from_nat (length s))"
definition sample_utf8 :: "string \<Rightarrow> nat list" where "sample_utf8 = map of_char"
definition sample_utf8_decode :: "nat list \<Rightarrow> string" where "sample_utf8_decode = map char_of"
definition sample_parseUrl :: url_parser where "sample_parseUrl s = Some (''https:'', ''relayer'')"

lemma sample_text_laws: "text_laws sample_stringify sample_parse sample_utf8 sample_utf8_decode"
  by (simp add: text_laws_def sample_stringify_def sample_parse_def sample_utf8_def sample_utf8_decode_def list_all_iff o_def map_idI)

lemma sample_getAddress_hex: "sample_getAddress s = Some t \<Longrightarrow> ADDRESS_RE t"
  using length_hexPad [of _ 40] address_hex by (auto simp: sample_getAddress_def split: option.splits if_splits)

lemma sample_url: "isPlausibleHttpUrl sample_parseUrl (JStr ''u'')"
  by (simp add: isPlausibleHttpUrl_def string_such_def sample_parseUrl_def)

theorem claim_links_decode_witness:
  "\<exists>side ctx res v. prepareRealSettle sample_P sample_sign honest_prover (\<lambda>_. Some sample_path) 0 23 41 sample_settle = Inr (side, ctx) \<and>
    finalizeRealSettle sample_P sample_getAddress (Some (sample_settle_receipt (ar_claimsRoot (cx_authResult ctx)))) ctx = Inr res \<and>
    decodeClaimPackage sample_parseUrl sample_parse sample_utf8_decode
      (encodeClaimPackage sample_stringify sample_utf8 (package_json (st_claimPackages res ! 1))) = Inr v \<and>
    json_package v = st_claimPackages res ! 1"
proof (rule sample_finalized)
  fix side ctx res
  assume p: "prepareRealSettle sample_P sample_sign honest_prover (\<lambda>_. Some sample_path) 0 23 41 sample_settle = Inr (side, ctx)"
    and x: "cx_batch ctx = sample_batch" "cx_tokenAddress ctx = ''0xa0''" "cx_settlementAddress ctx = se_settlementAddress sample_settle"
      "cx_chainId ctx = 1" "cx_tokenDecimals ctx = 6" "cx_relayerUrl ctx = ''u''"
    and res: "finalizeRealSettle sample_P sample_getAddress (Some (sample_settle_receipt (ar_claimsRoot (cx_authResult ctx)))) ctx = Inr res"
  have r: "claims_ready ctx" unfolding claims_ready_def x by code_simp
  obtain layers leaves where "map (claim_package_for sample_getAddress ctx layers) (enumerate 0 (pb_claims (cx_batch ctx))) =
      map Some (st_claimPackages res)" by (rule finalize_Inr [OF res])
  from map_Some_length [OF this] have pkg: "st_claimPackages res ! 1 \<in> set (st_claimPackages res)" by (simp add: x sample_batch_def)
  have a: "ADDRESS_RE (cx_settlementAddress ctx)" unfolding x by code_simp
  have n: "is_safe_integer (cx_chainId ctx)" "is_safe_integer (cx_tokenDecimals ctx)" by (simp_all add: x is_safe_integer_def)
  have u: "cx_relayerUrl ctx = [] \<or> isPlausibleHttpUrl sample_parseUrl (JStr (cx_relayerUrl ctx))" using sample_url x by simp
  have g: "\<forall>s t. sample_getAddress s = Some t \<longrightarrow> ADDRESS_RE t" using sample_getAddress_hex by blast
  show ?thesis
    using claim_links_decode [OF sample_P_ok r res pkg sample_text_laws g a n u] p res by blast
qed

definition sample_link_package :: claim_package where
  "sample_link_package = \<lparr>cp_chainId = 1, cp_settlementAddress = hexPad 40 94, cp_claimsRoot = hexPad 64 5, cp_recipient = hexPad 40 193,
     cp_token = hexPad 40 160, cp_tokenSymbol = ''T'', cp_tokenDecimals = 6, cp_amount = dec 300, cp_releaseTime = dec 2000,
     cp_secret = dec 31, cp_leafIndex = 3, cp_pathElements = map dec [1, 2, 3, 4], cp_pathIndices = [1, 1, 0, 0],
     cp_senderLabel = None, cp_runLabel = Some ''March'', cp_relayerUrl = None\<rparr>"


end
