(* ===== verification/ClaimRoute.thy ===== *)
theory ClaimRoute
  imports ClaimLink TxRetry
begin

text \<open>
  Claiming through the relayer: the route \<open>POST /api/private-claim\<close> (\<open>zk-relayer/src/routes/claim.ts\<close>), the
  submitter behind it (\<open>core/private-submitter.ts\<close>) and the claim pipeline of the Pay application
  (\<open>apps/pay/app/_lib/claimSubmit.ts\<close>), which posts to that route or sends from the recipient's wallet.  What the
  chain, the verifier of proofs and the node answer are arguments.
\<close>

section \<open>Values of a request\<close>

fun json_truthy :: "json \<Rightarrow> bool" where
  "json_truthy JUndefined = False"
| "json_truthy JNull = False"
| "json_truthy (JBool b) = b"
| "json_truthy (JInt i) = (i \<noteq> 0)"
| "json_truthy (JStr s) = (s \<noteq> [])"
| "json_truthy v = True"

text \<open>The text an array is joined to; None for one that is no numeral anyway.\<close>

fun join_comma :: "string list \<Rightarrow> string" where
  "join_comma [] = []"
| "join_comma [s] = s"
| "join_comma (s # t # ss) = s @ '','' @ join_comma (t # ss)"

fun array_text :: "json \<Rightarrow> string option" where
  "array_text (JStr s) = Some s"
| "array_text (JInt i) = Some (dec i)"
| "array_text JNull = Some []"
| "array_text JUndefined = Some []"
| "array_text (JArr xs) = map_option join_comma (all_some (map array_text xs))"
| "array_text v = None"

text \<open>\<open>BigInt\<close> of any value; None is its exception.\<close>

fun json_BigInt :: "json \<Rightarrow> int option" where
  "json_BigInt (JInt i) = Some i"
| "json_BigInt (JBool b) = Some (if b then 1 else 0)"
| "json_BigInt (JStr s) = js_BigInt s"
| "json_BigInt (JArr xs) = Option.bind (array_text (JArr xs)) js_BigInt"
| "json_BigInt v = None"

definition validateProofArray :: "json \<Rightarrow> string \<Rightarrow> nat \<Rightarrow> thrown + json list" where
  "validateProofArray arr name len = (case arr of
     JArr xs \<Rightarrow> if length xs \<noteq> len then Inl (ErrorObj (name @ '' must be an array of '' @ dec (int len) @ '' elements''))
       else if list_ex (\<lambda>v. \<not> (\<exists>s. v = JStr s) \<and> \<not> (\<exists>i. v = JInt i) \<and> v \<noteq> JFrac) xs
         then Inl (ErrorObj (name @ '' elements must be strings or numbers''))
       else Inr xs
   | _ \<Rightarrow> Inl (ErrorObj (name @ '' must be an array of '' @ dec (int len) @ '' elements'')))"

text \<open>The regular expression \<open>0x\<close> followed by hexadecimal digits.\<close>

definition HEX_RE :: "string \<Rightarrow> bool" where
  "HEX_RE s \<longleftrightarrow> 2 < length s \<and> hex_string (length s - 2) s"

fun hex_checks :: "(string \<times> json \<times> nat) list \<Rightarrow> string option" where
  "hex_checks [] = None"
| "hex_checks ((name, val, expectedLen) # cs) =
     (if \<not> string_such HEX_RE val then Some (name @ '' must be a hex string'')
      else if length (str_of val) \<noteq> expectedLen
        then Some (name @ '' must be '' @ dec (int (expectedLen - 2)) @ '' hex chars ('' @ dec (int ((expectedLen - 2) div 2)) @ '' bytes)'')
      else hex_checks cs)"

section \<open>The submitter\<close>

record claim_params =
  kp_proof :: groth_proof
  kp_claimsRoot :: string
  kp_claimNullifier :: string
  kp_amount :: int
  kp_token :: string
  kp_recipient :: string
  kp_releaseTime :: int

text \<open>
  What is outside: the views of the contract, the verification of a proof under the key of a tier, the sending of
  the transaction, and the two writes to the table of pending transactions (the error they throw).
\<close>

record claim_world =
  kw_spent :: "string \<Rightarrow> thrown + bool"
  kw_group :: "string \<Rightarrow> thrown + string \<times> int"
  kw_verify :: "int \<Rightarrow> string list \<Rightarrow> groth_proof \<Rightarrow> thrown + bool"
  kw_send :: "claim_params \<Rightarrow> nat \<Rightarrow> thrown + string"
  kw_wait :: "string \<Rightarrow> wait_outcome"
  kw_poll :: "nat \<Rightarrow> thrown + tx_receipt option"
  kw_savePending :: "string \<Rightarrow> thrown option"
  kw_removePending :: "string \<Rightarrow> thrown option"

text \<open>The dashes in the messages are no ASCII characters and are written as hyphens.\<close>

definition verifyClaimProof :: "claim_world \<Rightarrow> groth_proof \<Rightarrow> string list \<Rightarrow> string \<Rightarrow> thrown + bool" where
  "verifyClaimProof w pf publics root = (case kw_group w root of Inl e \<Rightarrow> Inl e
     | Inr (token, tr) \<Rightarrow>
         if token = ZERO_ADDRESS then Inl (ErrorObj (''Claims group not registered for root '' @ root @ '' - settle tx may not have confirmed yet''))
         else if tr \<notin> {16, 64, 128} then Inl (ErrorObj (''Unsupported claim tier '' @ dec tr @ '' for root '' @ root @ '' - relayer has no matching vkey''))
         else kw_verify w tr publics pf)"

definition claim_public_signals :: "claim_params \<Rightarrow> string list option" where
  "claim_public_signals p = (case (js_BigInt (kp_claimsRoot p), js_BigInt (kp_claimNullifier p), js_BigInt (kp_token p), js_BigInt (kp_recipient p)) of
     (Some r, Some n, Some t, Some c) \<Rightarrow> Some [dec r, dec n, dec (kp_amount p), dec t, dec c, dec (kp_releaseTime p)]
   | _ \<Rightarrow> None)"

definition syntax_error :: thrown where "syntax_error = ErrorObj ''Cannot convert to a BigInt''"

text \<open>The effects of the sending, and the transaction hash or what is thrown.\<close>

definition relayer_submitClaim :: "claim_world \<Rightarrow> claim_params \<Rightarrow> tx_effect list \<times> (thrown + string)" where
  "relayer_submitClaim w p = (case claim_public_signals p of None \<Rightarrow> ([], Inl syntax_error)
     | Some publics \<Rightarrow> (case kw_spent w (kp_claimNullifier p) of Inl e \<Rightarrow> ([], Inl e)
     | Inr True \<Rightarrow> ([], Inl (ErrorObj ''Claim nullifier already spent''))
     | Inr False \<Rightarrow> (case verifyClaimProof w (kp_proof p) publics (kp_claimsRoot p) of Inl e \<Rightarrow> ([], Inl e)
       | Inr False \<Rightarrow> ([], Inl (ErrorObj ''Invalid claim proof - rejected before on-chain submission''))
       | Inr True \<Rightarrow> (case sendAndWait (tx_defaults\<lparr>to_label := ''claimWithProof'', to_onTxHash := Some (kw_savePending w)\<rparr>)
             (kw_send w p) (kw_wait w) (kw_poll w) of
           (es, Inl e) \<Rightarrow> (es, Inl e)
         | (es, Inr (txHash, rc)) \<Rightarrow> (case kw_removePending w txHash of Some e \<Rightarrow> (es, Inl e) | None \<Rightarrow> (es, Inr txHash))))))"

section \<open>The route\<close>

datatype claim_response = Claimed string | ClaimRefused nat string

definition claim_caught :: "thrown \<Rightarrow> claim_response" where
  "claim_caught err = (let msg = (case err of ErrorObj m \<Rightarrow> m | NonError s \<Rightarrow> ''unknown'') in
     if str_includes msg ''Invalid claim proof'' \<or> str_includes msg ''nullifier already spent'' then ClaimRefused 400 msg
     else ClaimRefused 500 ''claim failed'')"

definition proof_pair :: "json list \<Rightarrow> (int \<times> int) option" where
  "proof_pair xs = (case map json_BigInt xs of [Some a, Some b] \<Rightarrow> Some (a, b) | _ \<Rightarrow> None)"

definition claim_fields :: "json \<Rightarrow> json list" where
  "claim_fields body = map (jfield body) [''proofA'', ''proofB'', ''proofC'', ''claimsRoot'', ''claimNullifier'', ''amount'', ''token'', ''recipient'']"

text \<open>The shape of the proof, the checks of the other fields, and the whole validation: a response or an exception, or the parameters of the call.\<close>

definition claim_arrays :: "json \<Rightarrow> (claim_response + thrown) + json list \<times> json list \<times> json list \<times> json list" where
  "claim_arrays body = (case validateProofArray (jfield body ''proofA'') ''proofA'' 2 of Inl e \<Rightarrow> Inl (Inr e)
     | Inr pA \<Rightarrow> (case json_list (jfield body ''proofB'') of
         Some [r0, r1] \<Rightarrow>
           (case validateProofArray r0 ''proofB[0]'' 2 of Inl e \<Rightarrow> Inl (Inr e)
           | Inr b0 \<Rightarrow> (case validateProofArray r1 ''proofB[1]'' 2 of Inl e \<Rightarrow> Inl (Inr e)
           | Inr b1 \<Rightarrow> (case validateProofArray (jfield body ''proofC'') ''proofC'' 2 of Inl e \<Rightarrow> Inl (Inr e)
           | Inr pC \<Rightarrow> Inr (pA, b0, b1, pC))))
       | _ \<Rightarrow> Inl (Inl (ClaimRefused 400 ''proofB must be a 2x2 array''))))"

definition claim_scalars :: "order_db \<Rightarrow> json \<Rightarrow> claim_response + int \<times> int" where
  "claim_scalars db body =
     (case hex_checks [(''claimsRoot'', jfield body ''claimsRoot'', 66), (''claimNullifier'', jfield body ''claimNullifier'', 66),
         (''token'', jfield body ''token'', 42), (''recipient'', jfield body ''recipient'', 42)] of
       Some m \<Rightarrow> Inl (ClaimRefused 400 m)
     | None \<Rightarrow>
         if \<not> hasSettledClaimsRoot (str_of (jfield body ''claimsRoot'')) db then Inl (ClaimRefused 403 ''claims root not settled by this relayer'')
         else (case (json_BigInt (jfield body ''amount''), json_BigInt (jfield body ''releaseTime'')) of
           (Some amt, Some time) \<Rightarrow> Inr (amt, time)
         | _ \<Rightarrow> Inl (ClaimRefused 400 ''amount and releaseTime must be valid numbers'')))"

definition claim_request :: "order_db \<Rightarrow> json \<Rightarrow> (claim_response + thrown) + claim_params" where
  "claim_request db body = (if body = JUndefined \<or> body = JNull then Inl (Inr (ErrorObj ''Cannot destructure''))
     else if list_ex (\<lambda>v. \<not> json_truthy v) (claim_fields body) \<or> jfield body ''releaseTime'' = JUndefined
       then Inl (Inl (ClaimRefused 400 ''missing required fields''))
     else case claim_arrays body of Inl x \<Rightarrow> Inl x
     | Inr (pA, b0, b1, pC) \<Rightarrow> (case claim_scalars db body of Inl r \<Rightarrow> Inl (Inl r)
       | Inr (amt, time) \<Rightarrow>
           (case (proof_pair pA, proof_pair b0, proof_pair b1, proof_pair pC) of
             (Some a, Some x, Some y, Some c) \<Rightarrow> Inr
               \<lparr>kp_proof = \<lparr>gp_a = a, gp_b = (x, y), gp_c = c\<rparr>, kp_claimsRoot = str_of (jfield body ''claimsRoot''),
                kp_claimNullifier = str_of (jfield body ''claimNullifier''), kp_amount = amt,
                kp_token = str_of (jfield body ''token''), kp_recipient = str_of (jfield body ''recipient''), kp_releaseTime = time\<rparr>
           | _ \<Rightarrow> Inl (Inr syntax_error))))"

definition postClaim :: "order_db \<Rightarrow> claim_world \<Rightarrow> json \<Rightarrow> tx_effect list \<times> claim_response" where
  "postClaim db w body = (case claim_request db body of
     Inl (Inl r) \<Rightarrow> ([], r)
   | Inl (Inr e) \<Rightarrow> ([], claim_caught e)
   | Inr p \<Rightarrow> (case relayer_submitClaim w p of
       (es, Inl e) \<Rightarrow> (es, claim_caught e)
     | (es, Inr txHash) \<Rightarrow> (es, Claimed txHash)))"

section \<open>The claim pipeline of the application\<close>

definition isConfiguredAddress :: "string \<Rightarrow> bool" where
  "isConfiguredAddress addr \<longleftrightarrow> addr \<noteq> [] \<and> toLowerCase addr \<noteq> ZERO_ADDRESS"

definition str_pair :: "int \<times> int \<Rightarrow> json" where
  "str_pair p = JArr [JStr (dec (fst p)), JStr (dec (snd p))]"

definition gasless_body :: "claim_package \<Rightarrow> int \<Rightarrow> groth_proof claim_result \<Rightarrow> json" where
  "gasless_body p amountRaw r = (let pf = clr_proof r in JObj
     [(''proofA'', str_pair (gp_a pf)), (''proofB'', JArr [str_pair (fst (gp_b pf)), str_pair (snd (gp_b pf))]),
      (''proofC'', str_pair (gp_c pf)), (''claimsRoot'', JStr (toBytes32Hex (clr_claimsRoot r))),
      (''claimNullifier'', JStr (toBytes32Hex (clr_nullifier r))), (''amount'', JStr (dec amountRaw)), (''token'', JStr (cp_token p)),
      (''recipient'', JStr (cp_recipient p)), (''releaseTime'', JStr (cp_releaseTime p))])"

text \<open>The call from the wallet.\<close>

definition wallet_params :: "claim_package \<Rightarrow> int \<Rightarrow> int \<Rightarrow> groth_proof claim_result \<Rightarrow> claim_params" where
  "wallet_params p amountRaw time r = \<lparr>kp_proof = clr_proof r, kp_claimsRoot = toBytes32Hex (clr_claimsRoot r),
     kp_claimNullifier = toBytes32Hex (clr_nullifier r), kp_amount = amountRaw, kp_token = cp_token p,
     kp_recipient = cp_recipient p, kp_releaseTime = time\<rparr>"

datatype page_error = NoRelayerNoSigner | GroupUnread | GroupMissing | TokenDisagrees | BadPackage | ProofFailed claim_worker_error
  | GaslessFailed | WalletFailed | ClaimTxFailed

text \<open>
  The answers to the page: the group of the root on the chain, the worker's proof, the client of the relayer (a hash
  it found well formed, None for any failure), the view of spent nullifiers (None when it fails), and the wallet (None
  when it refuses, else the hash and the status of the receipt).
\<close>

record page_world =
  pg_group :: "string \<Rightarrow> string option"
  pg_prove :: "claim_input \<Rightarrow> claim_worker_error + groth_proof claim_result"
  pg_relayer :: "string \<Rightarrow> json \<Rightarrow> string option"
  pg_spent :: "string \<Rightarrow> bool option"
  pg_wallet :: "(claim_params \<Rightarrow> (string \<times> int option) option) option"

record page_result =
  pz_txHash :: string
  pz_gasless :: bool
  pz_alreadyClaimed :: bool

definition page_submitClaim :: "page_world \<Rightarrow> bool \<Rightarrow> claim_package \<Rightarrow> page_error + page_result" where
  "page_submitClaim w forceSelfPay p =
     (let url = nonempty (cp_relayerUrl p); gasless = (url \<noteq> None \<and> \<not> forceSelfPay) in
      if \<not> gasless \<and> pg_wallet w = None then Inl NoRelayerNoSigner
      else case pg_group w (cp_claimsRoot p) of None \<Rightarrow> Inl GroupUnread
      | Some token \<Rightarrow>
          if \<not> isConfiguredAddress token then Inl GroupMissing
          else if \<not> eqAddr (Some token) (Some (cp_token p)) then Inl TokenDisagrees
          else (case (claim_proof_input p, js_BigInt (cp_amount p), js_BigInt (cp_releaseTime p)) of
            (Some inp, Some amountRaw, Some time) \<Rightarrow>
              (case pg_prove w inp of Inl e \<Rightarrow> Inl (ProofFailed e)
              | Inr r \<Rightarrow>
                  if gasless then (case pg_relayer w (the url) (gasless_body p amountRaw r) of
                      Some h \<Rightarrow> Inr \<lparr>pz_txHash = h, pz_gasless = True, pz_alreadyClaimed = False\<rparr>
                    | None \<Rightarrow> if pg_spent w (toBytes32Hex (clr_nullifier r)) = Some True
                        then Inr \<lparr>pz_txHash = [], pz_gasless = True, pz_alreadyClaimed = True\<rparr> else Inl GaslessFailed)
                  else (case pg_wallet w of None \<Rightarrow> Inl WalletFailed
                    | Some send \<Rightarrow> (case send (wallet_params p amountRaw time r) of None \<Rightarrow> Inl WalletFailed
                      | Some (h, st) \<Rightarrow> if st = Some 1 then Inr \<lparr>pz_txHash = h, pz_gasless = False, pz_alreadyClaimed = False\<rparr>
                          else Inl ClaimTxFailed)))
          | _ \<Rightarrow> Inl BadPackage))"

end
