(* ===== verification/ClaimRouteFacts.thy ===== *)
theory ClaimRouteFacts
  imports ClaimRoute
begin

text \<open>
  What claiming through the relayer guarantees: the relayer pays gas only for a claim that would go through, and the
  claim of a finished settlement goes through, from the page over the route to the call of the contract.
\<close>

section \<open>Lemmas\<close>

lemma js_BigInt_dec_all: "js_BigInt (dec i) = Some i"
proof (cases "0 \<le> i")
  case False
  let ?s = "to_radix 10 (nat (- i))"
  have d: "\<And>c. c \<in> set ?s \<Longrightarrow> \<exists>d<10. c = digit_char d" using to_radix_digits [of 10 _ "nat (- i)"] by simp
  have "\<not> is_ws (CHR ''-'')" by (simp add: is_ws_def code_def)
  then have t: "trim (CHR ''-'' # ?s) = CHR ''-'' # ?s" using d digit_char_not_ws by (intro trim_id) force
  have "parse_digits 10 ?s = Some (- i)" using digits_val_to_radix [of 10 "nat (- i)"] False by (simp add: parse_digits_def)
  moreover have "strip_prefix2 a b (CHR ''-'' # cs) = None" for a b cs by (simp add: strip_prefix2_def split: list.split)
  ultimately show ?thesis using False by (simp add: bigint_toString_def js_BigInt_def t Let_def)
qed (simp add: js_BigInt_dec)

lemma pair_of_str: "proof_pair [JStr (dec a), JStr (dec b)] = Some (a, b)"
  by (simp add: proof_pair_def js_BigInt_dec_all)

lemma hex_HEX_RE: "hex_string n s \<Longrightarrow> 0 < n \<Longrightarrow> HEX_RE s \<and> length s = n + 2"
  using hex_string_length [of n s] by (simp add: HEX_RE_def)

lemma HEX_RE_hex: "HEX_RE s \<Longrightarrow> length s = n + 2 \<Longrightarrow> hex_string n s"
  by (simp add: HEX_RE_def)

lemma validate_array_str: "validateProofArray (str_pair p) name 2 = Inr [JStr (dec (fst p)), JStr (dec (snd p))]"
  by (simp add: validateProofArray_def str_pair_def)

lemma claim_request_hex:
  assumes "claim_request db body = Inr p"
  shows "hex_string 64 (kp_claimsRoot p)" "hex_string 64 (kp_claimNullifier p)" "hex_string 40 (kp_token p)" "hex_string 40 (kp_recipient p)"
    "hasSettledClaimsRoot (kp_claimsRoot p) db"
proof -
  obtain x where sc: "claim_scalars db body = Inr x"
    and f: "kp_claimsRoot p = str_of (jfield body ''claimsRoot'')" "kp_claimNullifier p = str_of (jfield body ''claimNullifier'')"
      "kp_token p = str_of (jfield body ''token'')" "kp_recipient p = str_of (jfield body ''recipient'')"
    using assms unfolding claim_request_def by (auto split: if_splits sum.splits option.splits)
  have h: "hex_checks [(''claimsRoot'', jfield body ''claimsRoot'', 66), (''claimNullifier'', jfield body ''claimNullifier'', 66),
      (''token'', jfield body ''token'', 42), (''recipient'', jfield body ''recipient'', 42)] = None"
    and s: "hasSettledClaimsRoot (kp_claimsRoot p) db"
    using sc unfolding claim_scalars_def f(1) by (auto split: if_splits option.splits)
  show "hasSettledClaimsRoot (kp_claimsRoot p) db" by (rule s)
  show "hex_string 64 (kp_claimsRoot p)" "hex_string 64 (kp_claimNullifier p)" "hex_string 40 (kp_token p)" "hex_string 40 (kp_recipient p)"
    using h unfolding f by (auto simp: string_such_iff intro: HEX_RE_hex split: if_splits)
qed

lemma submit_effects:
  assumes "relayer_submitClaim w p = (es, r)" "es \<noteq> [] \<or> (\<exists>h. r = Inr h)"
  shows "\<exists>publics token tr. claim_public_signals p = Some publics \<and> kw_spent w (kp_claimNullifier p) = Inr False \<and>
    kw_group w (kp_claimsRoot p) = Inr (token, tr) \<and> token \<noteq> ZERO_ADDRESS \<and> tr \<in> {16, 64, 128} \<and>
    kw_verify w tr publics (kp_proof p) = Inr True \<and>
    (\<forall>h. r = Inr h \<longrightarrow> (\<exists>rc. sendAndWait (tx_defaults\<lparr>to_label := ''claimWithProof'', to_onTxHash := Some (kw_savePending w)\<rparr>)
      (kw_send w p) (kw_wait w) (kw_poll w) = (es, Inr (h, rc))))"
  using assms unfolding relayer_submitClaim_def verifyClaimProof_def
  by (auto split: option.splits sum.splits bool.splits prod.splits if_splits)

section \<open>Properties\<close>

text \<open>
  C9.  The relayer pays gas only for a claim that would go through.  If a request makes the relayer send anything, or is
  answered with a hash, then the root and the nullifier are 32 bytes and the token and the recipient 20, the root is
  one this relayer settled, the contract has not spent the nullifier and knows the group, under a tier that has a
  key, and the proof was verified under that key for exactly the six values of the call; and a hash is answered only
  for a transaction that was sent with these values, has a receipt and is not known to have reverted.
\<close>

theorem relayer_pays_only_valid_claims:
  assumes "postClaim db w body = (es, r)" "es \<noteq> [] \<or> (\<exists>h. r = Claimed h)"
  shows "\<exists>p root nul token recipient group tr. claim_request db body = Inr p \<and> hasSettledClaimsRoot (kp_claimsRoot p) db \<and>
    hex_string 64 (kp_claimsRoot p) \<and> hex_string 64 (kp_claimNullifier p) \<and> hex_string 40 (kp_token p) \<and> hex_string 40 (kp_recipient p) \<and>
    kw_spent w (kp_claimNullifier p) = Inr False \<and>
    kw_group w (kp_claimsRoot p) = Inr (group, tr) \<and> group \<noteq> ZERO_ADDRESS \<and> tr \<in> {16, 64, 128} \<and>
    map js_BigInt [kp_claimsRoot p, kp_claimNullifier p, kp_token p, kp_recipient p] = map Some [root, nul, token, recipient] \<and>
    kw_verify w tr (map dec [root, nul, kp_amount p, token, recipient, kp_releaseTime p]) (kp_proof p) = Inr True \<and>
    (\<forall>h. r = Claimed h \<longrightarrow> (\<exists>k h0 rc. k \<le> 3 \<and> kw_send w p k = Inr h0 \<and> h = rc_hash rc \<and> rc_status rc \<noteq> Some 0 \<and>
      (kw_wait w h0 = WaitGot (Some rc) \<or> (\<exists>i < 3. kw_poll w i = Inr (Some rc)))))"
proof -
  have caught: "claim_caught e \<noteq> Claimed h" for e h by (simp add: claim_caught_def Let_def)
  have arrays: "claim_arrays body = Inl (Inl x) \<Longrightarrow> x \<noteq> Claimed h" for x h
    unfolding claim_arrays_def by (auto split: sum.splits option.splits list.splits)
  have "claim_scalars db body = Inl x \<Longrightarrow> x \<noteq> Claimed h" for x h
    unfolding claim_scalars_def by (auto split: if_splits option.splits)
  then have refused: "claim_request db body = Inl (Inl x) \<Longrightarrow> x \<noteq> Claimed h" for x h
    using arrays unfolding claim_request_def by (auto split: if_splits sum.splits option.splits prod.splits)
  obtain p where p: "claim_request db body = Inr p"
    using assms caught refused unfolding postClaim_def by (fastforce split: sum.splits)
  obtain r' where r': "relayer_submitClaim w p = (es, r')" and r: "\<And>h. r = Claimed h \<Longrightarrow> r' = Inr h"
    using assms(1) caught by (auto simp: postClaim_def p split: prod.splits sum.splits)
  have "es \<noteq> [] \<or> (\<exists>h. r' = Inr h)" using assms(2) r by blast
  from submit_effects [OF r' this] obtain publics group tr where s: "claim_public_signals p = Some publics" "kw_spent w (kp_claimNullifier p) = Inr False"
    "kw_group w (kp_claimsRoot p) = Inr (group, tr)" "group \<noteq> ZERO_ADDRESS" "tr \<in> {16, 64, 128}" "kw_verify w tr publics (kp_proof p) = Inr True"
    and sent: "\<And>h. r' = Inr h \<Longrightarrow> \<exists>rc. sendAndWait (tx_defaults\<lparr>to_label := ''claimWithProof'', to_onTxHash := Some (kw_savePending w)\<rparr>)
      (kw_send w p) (kw_wait w) (kw_poll w) = (es, Inr (h, rc))" by blast
  obtain root nul token recipient where n: "js_BigInt (kp_claimsRoot p) = Some root" "js_BigInt (kp_claimNullifier p) = Some nul"
    "js_BigInt (kp_token p) = Some token" "js_BigInt (kp_recipient p) = Some recipient"
    "publics = map dec [root, nul, kp_amount p, token, recipient, kp_releaseTime p]"
    using s(1) by (auto simp: claim_public_signals_def split: option.splits)
  have "\<exists>k h0 rc. k \<le> 3 \<and> kw_send w p k = Inr h0 \<and> h = rc_hash rc \<and> rc_status rc \<noteq> Some 0 \<and>
      (kw_wait w h0 = WaitGot (Some rc) \<or> (\<exists>i < 3. kw_poll w i = Inr (Some rc)))" if h: "r = Claimed h" for h
  proof -
    obtain rc where "sendAndWait (tx_defaults\<lparr>to_label := ''claimWithProof'', to_onTxHash := Some (kw_savePending w)\<rparr>)
      (kw_send w p) (kw_wait w) (kw_poll w) = (es, Inr (h, rc))" using sent [OF r [OF h]] by blast
    from returned_receipt_is_mined [OF this] show ?thesis by (auto simp: tx_defaults_def)
  qed
  then show ?thesis using p s(2-6) n claim_request_hex [OF p]
    by (intro exI [of _ p] exI [of _ root] exI [of _ nul] exI [of _ token] exI [of _ recipient] exI [of _ group] exI [of _ tr]) simp
qed

text \<open>The public values of the claim circuit, in the order of the circuit and of the contract.\<close>

definition claim_public :: "claim_signals \<Rightarrow> int list" where
  "claim_public s = map fe [cs_claimsRoot s, cs_nullifier s, cs_amount s, cs_token s, cs_recipient s, cs_releaseTime s]"

text \<open>A proof system for the circuit of a tier: statements that hold get a proof, and the relayer's verifier accepts it.\<close>

definition claim_proofs_work ::
  "poseidon \<Rightarrow> circuit_tier \<Rightarrow> (claim_signals \<Rightarrow> string + groth_proof \<times> int list) \<Rightarrow> claim_world \<Rightarrow> bool" where
  "claim_proofs_work P tr prove w \<longleftrightarrow> (\<forall>s. claim_circuit P tr s \<longrightarrow> (\<exists>pf. prove s = Inr (pf, claim_public s) \<and>
     kw_verify w (int (ct_cap tr)) (map dec (claim_public s)) pf = Inr True))"

text \<open>The client of the relayer's route: a well-formed hash of an answer with status 200, None for any failure.\<close>

definition RelayerClient_submitClaim :: "claim_response option \<Rightarrow> string option" where
  "RelayerClient_submitClaim ans = (case ans of Some (Claimed h) \<Rightarrow> if hex_string 64 h then Some h else None | _ \<Rightarrow> None)"

text \<open>The chain and the node when all is well: nothing spent, the group registered, the transaction mined.\<close>

definition chain_ready :: "claim_world \<Rightarrow> string \<Rightarrow> string \<Rightarrow> int \<Rightarrow> string \<Rightarrow> bool" where
  "chain_ready w root token cap h \<longleftrightarrow> (\<forall>n. kw_spent w n = Inr False) \<and> kw_group w root = Inr (token, cap) \<and> token \<noteq> ZERO_ADDRESS \<and>
     (\<forall>p. kw_send w p 1 = Inr h) \<and> kw_wait w h = WaitGot (Some \<lparr>rc_hash = h, rc_status = Some 1\<rparr>) \<and>
     kw_savePending w h = None \<and> kw_removePending w h = None"

lemma send_first: "sends 1 = Inr h \<Longrightarrow> send_loop 3 b sends 1 = ([SendTry 1], Inr (Some h))"
  by (subst send_loop.simps) simp

lemma submit_ready:
  assumes "chain_ready w (kp_claimsRoot p) token cap h" "claim_public_signals p = Some publics" "kw_verify w cap publics (kp_proof p) = Inr True"
    "cap \<in> {16, 64, 128}"
  shows "\<exists>es. relayer_submitClaim w p = (es, Inr h)"
proof -
  have "\<exists>es. sendAndWait (tx_defaults\<lparr>to_label := ''claimWithProof'', to_onTxHash := Some (kw_savePending w)\<rparr>)
      (kw_send w p) (kw_wait w) (kw_poll w) = (es, Inr (h, \<lparr>rc_hash = h, rc_status = Some 1\<rparr>))"
    using assms(1) send_first [of "kw_send w p" h]
    by (simp add: chain_ready_def sendAndWait_def tx_defaults_def await_receipt_def waitWithTimeout_def)
  then show ?thesis using assms by (auto simp: relayer_submitClaim_def verifyClaimProof_def chain_ready_def)
qed

lemma gasless_request:
  assumes "hex_string 64 (toBytes32Hex (clr_claimsRoot r))" "hex_string 64 (toBytes32Hex (clr_nullifier r))"
    "hex_string 40 (cp_token p)" "hex_string 40 (cp_recipient p)" "js_BigInt (cp_releaseTime p) = Some time"
    "hasSettledClaimsRoot (toBytes32Hex (clr_claimsRoot r)) db"
  shows "claim_request db (gasless_body p amt r) = Inr (wallet_params p amt time r)"
proof -
  have ne: "s \<noteq> []" if "hex_string n s" for n s using that by (auto simp: hex_string_def)
  have chk: "hex_checks [(''claimsRoot'', JStr (toBytes32Hex (clr_claimsRoot r)), 66), (''claimNullifier'', JStr (toBytes32Hex (clr_nullifier r)), 66),
      (''token'', JStr (cp_token p), 42), (''recipient'', JStr (cp_recipient p), 42)] = None"
    using assms(1-4) hex_HEX_RE [of 64] hex_HEX_RE [of 40] by (simp add: string_such_iff)
  let ?b = "gasless_body p amt r"
  have f: "jfield ?b ''proofA'' = str_pair (gp_a (clr_proof r))" "jfield ?b ''proofC'' = str_pair (gp_c (clr_proof r))"
    "jfield ?b ''proofB'' = JArr [str_pair (fst (gp_b (clr_proof r))), str_pair (snd (gp_b (clr_proof r)))]"
    "jfield ?b ''claimsRoot'' = JStr (toBytes32Hex (clr_claimsRoot r))" "jfield ?b ''claimNullifier'' = JStr (toBytes32Hex (clr_nullifier r))"
    "jfield ?b ''amount'' = JStr (dec amt)" "jfield ?b ''token'' = JStr (cp_token p)" "jfield ?b ''recipient'' = JStr (cp_recipient p)"
    "jfield ?b ''releaseTime'' = JStr (cp_releaseTime p)" "?b \<noteq> JUndefined" "?b \<noteq> JNull"
    by (simp_all add: gasless_body_def Let_def)
  have t: "json_truthy (str_pair x)" for x by (simp add: str_pair_def)
  have "\<not> list_ex (\<lambda>v. \<not> json_truthy v) (claim_fields ?b)"
    using ne assms(1-4) by (auto simp: claim_fields_def f t)
  moreover have "claim_arrays ?b = Inr ([JStr (dec (fst (gp_a (clr_proof r)))), JStr (dec (snd (gp_a (clr_proof r))))],
      [JStr (dec (fst (fst (gp_b (clr_proof r))))), JStr (dec (snd (fst (gp_b (clr_proof r)))))],
      [JStr (dec (fst (snd (gp_b (clr_proof r))))), JStr (dec (snd (snd (gp_b (clr_proof r)))))],
      [JStr (dec (fst (gp_c (clr_proof r)))), JStr (dec (snd (gp_c (clr_proof r))))])"
    by (simp add: claim_arrays_def f validate_array_str)
  moreover have "claim_scalars db ?b = Inr (amt, time)"
    using assms(5,6) chk by (simp add: claim_scalars_def f js_BigInt_dec_all)
  ultimately show ?thesis by (simp add: claim_request_def f pair_of_str wallet_params_def)
qed

lemma package_signals:
  assumes P: "hash_ok P" and ready: "claims_ready ctx" and ck: "checksums getAddress"
    and fin: "finalizeRealSettle P getAddress (Some rc) ctx = Inr res" and i: "i < length (pb_claims (cx_batch ctx))"
  obtains inp s r t where "claim_proof_input (st_claimPackages res ! i) = Some inp"
    "\<And>prove :: claim_signals \<Rightarrow> string + groth_proof \<times> int list. claim_worker P prove inp =
       (case generateClaimProof P prove inp (pb_tier (cx_batch ctx)) of Inl e \<Rightarrow> Inl (ClaimFailed e) | Inr r \<Rightarrow> Inr r)"
    "claim_circuit_input P inp (pb_tier (cx_batch ctx)) = Inr s" "claim_circuit P (pb_tier (cx_batch ctx)) s"
    "cs_claimsRoot s = ar_claimsRoot (cx_authResult ctx)" "field_el (cs_nullifier s)" "field_el (cs_claimsRoot s)"
    "cs_amount s = ce_amount (pb_claims (cx_batch ctx) ! i)" "cs_releaseTime s = ce_releaseTime (pb_claims (cx_batch ctx) ! i)"
    "getAddress (ce_recipient (pb_claims (cx_batch ctx) ! i)) = Some r" "getAddress (cx_tokenAddress ctx) = Some t"
    "js_BigInt r = Some (cs_recipient s)" "js_BigInt t = Some (cs_token s)" "field_el (cs_recipient s)" "field_el (cs_token s)"
    "cp_recipient (st_claimPackages res ! i) = r" "cp_token (st_claimPackages res ! i) = t"
    "cp_claimsRoot (st_claimPackages res ! i) = toBytes32Hex (cs_claimsRoot s)"
    "cp_amount (st_claimPackages res ! i) = dec (cs_amount s)" "cp_releaseTime (st_claimPackages res ! i) = dec (cs_releaseTime s)"
    "cp_relayerUrl (st_claimPackages res ! i) = nonempty (Some (cx_relayerUrl ctx))"
    "claim_in_range (pb_claims (cx_batch ctx) ! i)" "pb_tier (cx_batch ctx) \<in> set TIERS"
proof -
  let ?c = "pb_claims (cx_batch ctx) ! i" and ?tr = "pb_tier (cx_batch ctx)" and ?root = "ar_claimsRoot (cx_authResult ctx)"
  obtain layers leaves where tree: "buildClaimsTree P (pb_claims (cx_batch ctx)) ?tr = Some (?root, layers, leaves)"
    and m: "map (claim_package_for getAddress ctx layers) (enumerate 0 (pb_claims (cx_batch ctx))) = map Some (st_claimPackages res)"
    by (rule finalize_Inr [OF fin])
  have p: "claim_package_for getAddress ctx layers (i, ?c) = Some (st_claimPackages res ! i)"
    using map_Some_nth [OF m, of i] i by (simp add: nth_enumerate_eq)
  obtain es bs r t where g: "getAddress (ce_recipient ?c) = Some r" "getAddress (cx_tokenAddress ctx) = Some t"
    and f: "cp_claimsRoot (st_claimPackages res ! i) = toBytes32Hex ?root" "cp_recipient (st_claimPackages res ! i) = r"
      "cp_token (st_claimPackages res ! i) = t" "cp_amount (st_claimPackages res ! i) = dec (ce_amount ?c)"
      "cp_releaseTime (st_claimPackages res ! i) = dec (ce_releaseTime ?c)"
      "cp_relayerUrl (st_claimPackages res ! i) = nonempty (Some (cx_relayerUrl ctx))"
    by (rule package_fields [OF p])
  obtain inp s where s: "claim_proof_input (st_claimPackages res ! i) = Some inp"
    "\<And>prove :: claim_signals \<Rightarrow> string + groth_proof \<times> int list. claim_worker P prove inp =
       (case generateClaimProof P prove inp ?tr of Inl e \<Rightarrow> Inl (ClaimFailed e) | Inr r \<Rightarrow> Inr r)"
    "claim_circuit_input P inp ?tr = Inr s" "claim_circuit P ?tr s" "cs_claimsRoot s = ?root" "cs_amount s = ce_amount ?c"
    "js_BigInt (ce_recipient ?c) = Some (cs_recipient s)" "js_BigInt (cx_tokenAddress ctx) = Some (cs_token s)"
    by (rule package_read [OF P ready ck refl tree i p]) blast
  have tier: "?tr \<in> set TIERS" and cr: "claim_in_range ?c" and nt: "numeral_in_field (cx_tokenAddress ctx)"
    using ready i by (auto simp: claims_ready_def)
  have time: "cs_releaseTime s = ce_releaseTime ?c"
  proof -
    have "js_BigInt (cp_releaseTime (st_claimPackages res ! i)) = Some (cl_releaseTime inp)"
      using s(1) by (auto simp: claim_proof_input_def split: option.splits)
    moreover have "cs_releaseTime s = cl_releaseTime inp" using s(3) by (auto simp: claim_circuit_input_def split: sum.splits option.splits)
    ultimately show ?thesis using f(5) js_BigInt_dec_all by simp
  qed
  have nul: "field_el (cs_nullifier s)" using s(3) P by (auto simp: claim_circuit_input_def computeClaimNullifier_def split: sum.splits option.splits)
  have root: "field_el (cs_claimsRoot s)"
    using node_field [OF P leaves_field [OF P tiers_ok [OF tier] tree]] claims_tree(3) [OF tiers_ok [OF tier] tree] s(5) by simp
  have el: "field_el (cs_recipient s)" "field_el (cs_token s)"
    using cr nt s(7,8) by (auto simp: claim_in_range_def numeral_in_field_def)
  have ad: "js_BigInt r = Some (cs_recipient s)" "js_BigInt t = Some (cs_token s)" using ck g s(7,8) by (auto simp: checksums_def)
  show ?thesis
    by (rule that [OF s(1,2,3,4,5) nul root s(6) time g ad el f(2,3) _ _ _ f(6) cr tier]) (simp_all add: f s(5,6) time)
qed

text \<open>
  C8.  A gasless claim of a finished settlement goes through.  When the relayer has recorded the settled root, proofs of the
  claim circuit exist and its verifier accepts them, and the chain is ready, the page's pipeline on any package of the
  settlement ends with the hash of the relayer's transaction; and that transaction calls the contract with the root
  the settlement emitted, the recipient, token, amount and release time of the claim.
\<close>

theorem gasless_claim_goes_through:
  assumes "hash_ok P" "claims_ready ctx" "checksums getAddress" "\<forall>s t. getAddress s = Some t \<longrightarrow> ADDRESS_RE t"
    and "finalizeRealSettle P getAddress (Some rc) ctx = Inr res" "i < length (pb_claims (cx_batch ctx))"
    and "cx_relayerUrl ctx \<noteq> []" "hasSettledClaimsRoot (toBytes32Hex (ar_claimsRoot (cx_authResult ctx))) db"
    and "claim_proofs_work P (pb_tier (cx_batch ctx)) prove w"
    and "getAddress (cx_tokenAddress ctx) = Some tok" "isConfiguredAddress tok"
    and "chain_ready w (toBytes32Hex (ar_claimsRoot (cx_authResult ctx))) tok (int (ct_cap (pb_tier (cx_batch ctx)))) h" "hex_string 64 h"
    and "pg_group pw (toBytes32Hex (ar_claimsRoot (cx_authResult ctx))) = Some tok" "pg_prove pw = claim_worker P prove"
    and "pg_relayer pw = (\<lambda>url body. RelayerClient_submitClaim (Some (snd (postClaim db w body))))"
  shows "page_submitClaim pw False (st_claimPackages res ! i) = Inr \<lparr>pz_txHash = h, pz_gasless = True, pz_alreadyClaimed = False\<rparr> \<and>
    (\<exists>r p. claim_request db (gasless_body (st_claimPackages res ! i) (ce_amount (pb_claims (cx_batch ctx) ! i)) r) = Inr p \<and>
      relayer_submitClaim w p = (fst (postClaim db w (gasless_body (st_claimPackages res ! i) (ce_amount (pb_claims (cx_batch ctx) ! i)) r)), Inr h) \<and>
      kp_claimsRoot p = toBytes32Hex (ar_claimsRoot (cx_authResult ctx)) \<and> kp_token p = tok \<and>
      getAddress (ce_recipient (pb_claims (cx_batch ctx) ! i)) = Some (kp_recipient p) \<and>
      kp_amount p = ce_amount (pb_claims (cx_batch ctx) ! i) \<and> kp_releaseTime p = ce_releaseTime (pb_claims (cx_batch ctx) ! i))"
proof -
  let ?c = "pb_claims (cx_batch ctx) ! i" and ?tr = "pb_tier (cx_batch ctx)" and ?root = "ar_claimsRoot (cx_authResult ctx)"
    and ?pkg = "st_claimPackages res ! i"
  obtain inp s recipient token where inp: "claim_proof_input ?pkg = Some inp"
    and worker: "\<And>prove :: claim_signals \<Rightarrow> string + groth_proof \<times> int list. claim_worker P prove inp =
       (case generateClaimProof P prove inp ?tr of Inl e \<Rightarrow> Inl (ClaimFailed e) | Inr r \<Rightarrow> Inr r)"
    and s: "claim_circuit_input P inp ?tr = Inr s" "claim_circuit P ?tr s"
    "cs_claimsRoot s = ?root" "field_el (cs_nullifier s)" "field_el (cs_claimsRoot s)"
    "cs_amount s = ce_amount ?c" "cs_releaseTime s = ce_releaseTime ?c"
    and g: "getAddress (ce_recipient ?c) = Some recipient" "getAddress (cx_tokenAddress ctx) = Some token"
    "js_BigInt recipient = Some (cs_recipient s)" "js_BigInt token = Some (cs_token s)" "field_el (cs_recipient s)" "field_el (cs_token s)"
    and f: "cp_recipient ?pkg = recipient" "cp_token ?pkg = token" "cp_claimsRoot ?pkg = toBytes32Hex (cs_claimsRoot s)"
    "cp_amount ?pkg = dec (cs_amount s)" "cp_releaseTime ?pkg = dec (cs_releaseTime s)"
    "cp_relayerUrl ?pkg = nonempty (Some (cx_relayerUrl ctx))" and cr: "claim_in_range ?c" and tier: "?tr \<in> set TIERS"
    by (rule package_signals [OF assms(1-3,5,6)]) (rule that; assumption)
  obtain pf where pf: "prove s = Inr (pf, claim_public s)" and v: "kw_verify w (int (ct_cap ?tr)) (map dec (claim_public s)) pf = Inr True"
    using assms(9) s(2) unfolding claim_proofs_work_def by blast
  let ?r = "\<lparr>clr_proof = pf, clr_publicSignals = claim_public s, clr_claimsRoot = cs_claimsRoot s, clr_nullifier = cs_nullifier s\<rparr>"
  have "claim_public s \<noteq> []" by (simp add: claim_public_def)
  then have prv: "claim_worker P prove inp = Inr ?r" using worker [of prove] s(1) pf by (simp add: generateClaimProof_def)
  have token: "token = tok" using g(2) assms(10) by simp
  have "cs_claimsRoot s < 2 ^ 256" "cs_nullifier s < 2 ^ 256" using s(4,5) by (auto simp: field_el_def BN254_FIELD_MODULUS_def)
  then have h64: "hex_string 64 (toBytes32Hex (cs_claimsRoot s))" "hex_string 64 (toBytes32Hex (cs_nullifier s))"
    using s(4,5) hexPad_hex [of _ 64] by (auto simp: toBytes32Hex_def field_el_def)
  have h40: "hex_string 40 token" "hex_string 40 recipient" using assms(4) g(1,2) by (auto simp: ADDRESS_RE_def)
  let ?p = "wallet_params ?pkg (cs_amount s) (cs_releaseTime s) ?r"
  have req: "claim_request db (gasless_body ?pkg (cs_amount s) ?r) = Inr ?p"
    using h64 h40 assms(8) by (intro gasless_request) (simp_all add: f s(3) js_BigInt_dec_all)
  have fes: "fe (cs_amount s) = cs_amount s" "fe (cs_releaseTime s) = cs_releaseTime s"
    using cr by (auto simp: s(6,7) claim_in_range_def field_el_small)
  have pub: "claim_public_signals ?p = Some (map dec (claim_public s))"
    using s(4,5) g fes by (simp add: claim_public_signals_def wallet_params_def f js_BigInt_el claim_public_def)
  have cap: "int (ct_cap ?tr) \<in> {16, 64, 128}" using tier by (auto simp: tier_defs)
  obtain es where sub: "relayer_submitClaim w ?p = (es, Inr h)"
    using submit_ready [of w ?p tok _ h, OF _ pub _ cap] assms(12) v by (auto simp: wallet_params_def s(3))
  have post: "postClaim db w (gasless_body ?pkg (cs_amount s) ?r) = (es, Claimed h)" by (simp add: postClaim_def req sub)
  have url: "nonempty (cp_relayerUrl ?pkg) \<noteq> None" using assms(7) f(6) by (simp add: nonempty_def)
  have "eqAddr (Some tok) (Some (cp_token ?pkg))" using f(2) token h40 by (auto simp: eqAddr_iff hex_string_def)
  then have page: "page_submitClaim pw False ?pkg = Inr \<lparr>pz_txHash = h, pz_gasless = True, pz_alreadyClaimed = False\<rparr>"
    using url assms(11,13-16) inp prv post
    by (simp add: page_submitClaim_def Let_def f s(3) js_BigInt_dec_all RelayerClient_submitClaim_def)
  have "claim_request db (gasless_body ?pkg (ce_amount ?c) ?r) = Inr ?p \<and>
    relayer_submitClaim w ?p = (fst (postClaim db w (gasless_body ?pkg (ce_amount ?c) ?r)), Inr h) \<and>
    kp_claimsRoot ?p = toBytes32Hex ?root \<and> kp_token ?p = tok \<and> getAddress (ce_recipient ?c) = Some (kp_recipient ?p) \<and>
    kp_amount ?p = ce_amount ?c \<and> kp_releaseTime ?p = ce_releaseTime ?c"
    using req sub post by (simp add: s(6)) (simp add: wallet_params_def s g f token)
  then show ?thesis using page by blast
qed

end
