(* ===== verification/ClaimSamples.thy ===== *)
theory ClaimSamples
  imports ClaimRouteFacts PaySamples
begin

text \<open>
  Concrete inputs for the properties of claiming: a relayer with the sample root on record, a chain on which nothing is
  spent, a verifier that accepts.
\<close>

definition sample_world :: "string \<Rightarrow> claim_world" where
  "sample_world tok = \<lparr>kw_spent = \<lambda>_. Inr False, kw_group = \<lambda>_. Inr (tok, 16), kw_verify = \<lambda>_ _ _. Inr True,
     kw_send = \<lambda>_ _. Inr (hexPad 64 171), kw_wait = \<lambda>h. WaitGot (Some \<lparr>rc_hash = h, rc_status = Some 1\<rparr>), kw_poll = \<lambda>_. Inr None,
     kw_savePending = \<lambda>_. None, kw_removePending = \<lambda>_. None\<rparr>"

definition sample_root_db :: "string \<Rightarrow> order_db" where
  "sample_root_db root = saveSettledClaimsRoot root \<lparr>orders_tbl = [], claims_roots = []\<rparr>"

lemma sample_root_db: "hasSettledClaimsRoot root (sample_root_db root)"
  by (simp add: hasSettledClaimsRoot_def sample_root_db_def saveSettledClaimsRoot_def)

lemma sample_chain_ready: "tok \<noteq> ZERO_ADDRESS \<Longrightarrow> chain_ready (sample_world tok) root tok 16 (hexPad 64 171)"
  by (simp add: chain_ready_def sample_world_def)

definition sample_claim_prover :: "claim_signals \<Rightarrow> string + groth_proof \<times> int list" where
  "sample_claim_prover s = Inr (sample_groth, claim_public s)"

lemma sample_claim_proofs: "claim_proofs_work P tr sample_claim_prover (sample_world tok)"
  by (simp add: claim_proofs_work_def sample_claim_prover_def sample_world_def)

definition sample_page :: "string \<Rightarrow> order_db \<Rightarrow> page_world" where
  "sample_page tok db = \<lparr>pg_group = \<lambda>_. Some tok, pg_prove = claim_worker sample_P sample_claim_prover,
     pg_relayer = \<lambda>url body. RelayerClient_submitClaim (Some (snd (postClaim db (sample_world tok) body))),
     pg_spent = \<lambda>_. None, pg_wallet = None\<rparr>"

theorem gasless_claim_goes_through_witness:
  "\<exists>side ctx res tok. prepareRealSettle sample_P sample_sign honest_prover (\<lambda>_. Some sample_path) 0 23 41 sample_settle = Inr (side, ctx) \<and>
    finalizeRealSettle sample_P sample_getAddress (Some (sample_settle_receipt (ar_claimsRoot (cx_authResult ctx)))) ctx = Inr res \<and>
    page_submitClaim (sample_page tok (sample_root_db (toBytes32Hex (ar_claimsRoot (cx_authResult ctx))))) False (st_claimPackages res ! 1) =
      Inr \<lparr>pz_txHash = hexPad 64 171, pz_gasless = True, pz_alreadyClaimed = False\<rparr>"
proof (rule sample_finalized)
  fix side ctx res
  assume p: "prepareRealSettle sample_P sample_sign honest_prover (\<lambda>_. Some sample_path) 0 23 41 sample_settle = Inr (side, ctx)"
    and x: "cx_batch ctx = sample_batch" "cx_tokenAddress ctx = ''0xa0''" "cx_settlementAddress ctx = se_settlementAddress sample_settle"
      "cx_chainId ctx = 1" "cx_tokenDecimals ctx = 6" "cx_relayerUrl ctx = ''u''"
    and res: "finalizeRealSettle sample_P sample_getAddress (Some (sample_settle_receipt (ar_claimsRoot (cx_authResult ctx)))) ctx = Inr res"
  let ?root = "toBytes32Hex (ar_claimsRoot (cx_authResult ctx))"
  let ?tok = "hexPad 40 160"
  have r: "claims_ready ctx" unfolding claims_ready_def x by code_simp
  have g: "\<forall>s t. sample_getAddress s = Some t \<longrightarrow> ADDRESS_RE t" using sample_getAddress_hex by blast
  have i: "1 < length (pb_claims (cx_batch ctx))" and u: "cx_relayerUrl ctx \<noteq> []" by (simp_all add: x sample_batch_def)
  have t: "sample_getAddress (cx_tokenAddress ctx) = Some ?tok" unfolding x by code_simp
  have c: "isConfiguredAddress ?tok" and z: "?tok \<noteq> ZERO_ADDRESS" by code_simp+
  have h: "hex_string 64 (hexPad 64 171)" by code_simp
  have tier: "int (ct_cap (pb_tier (cx_batch ctx))) = 16" by (simp add: x sample_batch_def tier_defs)
  have "page_submitClaim (sample_page ?tok (sample_root_db ?root)) False (st_claimPackages res ! 1) =
      Inr \<lparr>pz_txHash = hexPad 64 171, pz_gasless = True, pz_alreadyClaimed = False\<rparr>"
    using gasless_claim_goes_through [OF sample_P_ok r sample_checksums g res i u sample_root_db sample_claim_proofs t c
        sample_chain_ready [OF z, folded tier] h, where pw = "sample_page ?tok (sample_root_db ?root)"]
    by (simp add: sample_page_def)
  then show ?thesis using p res by blast
qed

theorem relayer_pays_only_valid_claims_witness:
  "let body = gasless_body sample_link_package 300
      \<lparr>clr_proof = sample_groth, clr_publicSignals = [], clr_claimsRoot = 5, clr_nullifier = 6\<rparr> in
    \<exists>es h p. postClaim (sample_root_db (toBytes32Hex 5)) (sample_world (hexPad 40 160)) body = (es, Claimed h) \<and>
      claim_request (sample_root_db (toBytes32Hex 5)) body = Inr p \<and> hasSettledClaimsRoot (kp_claimsRoot p) (sample_root_db (toBytes32Hex 5))"
proof -
  let ?r = "\<lparr>clr_proof = sample_groth, clr_publicSignals = [], clr_claimsRoot = 5, clr_nullifier = 6\<rparr>"
  let ?b = "gasless_body sample_link_package 300 ?r" and ?db = "sample_root_db (toBytes32Hex 5)" and ?w = "sample_world (hexPad 40 160)"
  let ?p = "wallet_params sample_link_package 300 2000 ?r"
  have hx: "hex_string 64 (toBytes32Hex 5)" "hex_string 64 (toBytes32Hex 6)" "hex_string 40 (cp_token sample_link_package)"
    "hex_string 40 (cp_recipient sample_link_package)" "js_BigInt (cp_releaseTime sample_link_package) = Some 2000" by code_simp+
  have req: "claim_request ?db ?b = Inr ?p"
    using hx sample_root_db [of "toBytes32Hex 5"] by (intro gasless_request) simp_all
  have z: "hexPad 40 160 \<noteq> ZERO_ADDRESS" by code_simp
  have "claim_public_signals ?p \<noteq> None" by code_simp
  then obtain publics where pub: "claim_public_signals ?p = Some publics" by blast
  have "kw_verify ?w 16 publics (kp_proof ?p) = Inr True" by (simp add: sample_world_def)
  from submit_ready [OF sample_chain_ready [OF z] pub this] obtain es where sub: "relayer_submitClaim ?w ?p = (es, Inr (hexPad 64 171))" by auto
  have post: "postClaim ?db ?w ?b = (es, Claimed (hexPad 64 171))" by (simp add: postClaim_def req sub)
  obtain p where "claim_request ?db ?b = Inr p" "hasSettledClaimsRoot (kp_claimsRoot p) ?db"
    using relayer_pays_only_valid_claims [OF post] by blast
  then show ?thesis using post unfolding Let_def by blast
qed

text \<open>Errors of the client that are answered as errors of the server.\<close>

lemma unregistered_group_is_500:
  "claim_caught (case verifyClaimProof (sample_world ZERO_ADDRESS) sample_groth [] (hexPad 64 5) of Inl e \<Rightarrow> e | Inr b \<Rightarrow> NonError ''none'') =
    ClaimRefused 500 ''claim failed''"
  by code_simp

lemma malformed_proof_is_500:
  "postClaim db w (JObj [(''proofA'', JArr [JStr ''1'']), (''proofB'', JArr []), (''proofC'', JArr []), (''claimsRoot'', JStr ''0x''),
     (''claimNullifier'', JStr ''0x''), (''amount'', JStr ''1''), (''token'', JStr ''0x''), (''recipient'', JStr ''0x''), (''releaseTime'', JInt 0)]) =
    ([], ClaimRefused 500 ''claim failed'')"
proof -
  let ?e = "ErrorObj ''proofA must be an array of 2 elements''"
  have "claim_caught ?e = ClaimRefused 500 ''claim failed''" by code_simp
  moreover have "dec 2 = ''2''" by code_simp
  ultimately show ?thesis by (simp add: postClaim_def claim_request_def claim_fields_def claim_arrays_def validateProofArray_def)
qed

end
