(* ===== verification/RelayerScan.thy ===== *)
theory RelayerScan
  imports Indexer MerkleTree
begin

text \<open>
  How the relayer reads the chain: \<open>core/chunked-query.ts\<close>, the scan for cancellations of
  \<open>core/authorize-submitter.ts\<close>, the index of commitments of \<open>core/private-submitter.ts\<close> and the sparse tree of
  \<open>core/zk-prover.ts\<close> it serves inclusion proofs from.  The chain is its events by block; what the node answers in
  one pass (the head, and which windows fail) is an argument.  Passes are atomic: the code lets concurrent callers
  share the pass in flight.
\<close>

section \<open>Windows\<close>

text \<open>The messages of the errors thrown, None for an answer.\<close>

record chain_answers =
  ca_head :: "string + int"
  ca_window :: "nat \<Rightarrow> string option"

definition window_size :: "int option \<Rightarrow> int" where
  "window_size chunkSize = (case chunkSize of Some n \<Rightarrow> if 1 \<le> n then n else 1 | None \<Rightarrow> 1)"

text \<open>The window size is at least 1 in every call; the guard only makes the recursion total.\<close>

function window_loop :: "(int \<Rightarrow> 'e list) \<Rightarrow> (nat \<Rightarrow> string option) \<Rightarrow> int \<Rightarrow> int \<Rightarrow> int \<Rightarrow> nat \<Rightarrow> 'e list \<Rightarrow> string + 'e list" where
  "window_loop ev fails chunk toBlock start k out =
     (if toBlock < start \<or> chunk < 1 then Inr out
      else case fails k of
        Some e \<Rightarrow> Inl e
      | None \<Rightarrow> window_loop ev fails chunk toBlock (start + chunk) (Suc k) (out @ block_events ev start (min (start + chunk - 1) toBlock)))"
  by pat_completeness auto
termination
  by (relation "measure (\<lambda>(ev, fails, chunk, toBlock, start, k, out). nat (toBlock + 1 - start))") auto

declare window_loop.simps [simp del]

definition queryFilterChunked ::
  "(int \<Rightarrow> 'e list) \<Rightarrow> (nat \<Rightarrow> string option) \<Rightarrow> int \<Rightarrow> int \<Rightarrow> int option \<Rightarrow> string + 'e list" where
  "queryFilterChunked ev fails fromBlock toBlock chunkSize =
     (if toBlock < fromBlock then Inr [] else window_loop ev fails (window_size chunkSize) toBlock fromBlock 0 [])"

section \<open>Cancellations\<close>

record private_cancel =
  xe_escrowNullifier :: string
  xe_nonceNullifier :: string
  xe_newCommitment :: string
  xe_relayer :: string

text \<open>The scanner, with the log of the calls of its listeners; a listener that throws is caught.\<close>

record cancel_scan =
  xs_lastCancelBlock :: int
  xs_lagStreak :: nat
  xs_stopped :: bool
  xs_calls :: "(nat \<times> private_cancel) list"

definition new_cancel_scan :: cancel_scan where
  "new_cancel_scan = \<lparr>xs_lastCancelBlock = -1, xs_lagStreak = 0, xs_stopped = True, xs_calls = []\<rparr>"

fun cancel_args :: "string list option \<Rightarrow> private_cancel option" where
  "cancel_args (Some (a # b # c # d # _)) =
     Some \<lparr>xe_escrowNullifier = a, xe_nonceNullifier = b, xe_newCommitment = c, xe_relayer = d\<rparr>"
| "cancel_args _ = None"

definition cancel_calls :: "nat \<Rightarrow> string list option list \<Rightarrow> (nat \<times> private_cancel) list" where
  "cancel_calls listeners logs = concat (map (\<lambda>l. case cancel_args l of None \<Rightarrow> [] | Some e \<Rightarrow> map (\<lambda>i. (i, e)) [0..<listeners]) logs)"

text \<open>What does not change: the number of listeners, the confirmations, the window size.\<close>

record scan_config =
  sf_listeners :: nat
  sf_confirmations :: int
  sf_indexBlockRange :: "int option"

definition runIndexCancels ::
  "scan_config \<Rightarrow> (int \<Rightarrow> string list option list) \<Rightarrow> chain_answers \<Rightarrow> int \<Rightarrow> cancel_scan \<Rightarrow> string option \<times> cancel_scan" where
  "runIndexCancels cfg ev ans fromBlock s =
     (let startBlock = (if 0 \<le> xs_lastCancelBlock s then xs_lastCancelBlock s + 1 else fromBlock) in
      case ca_head ans of Inl e \<Rightarrow> (Some e, s)
      | Inr head \<Rightarrow> let tip = head - sf_confirmations cfg in
          if tip < 0 \<or> tip < startBlock then (None, s)
          else (case queryFilterChunked ev (ca_window ans) startBlock tip (sf_indexBlockRange cfg) of Inl e \<Rightarrow> (Some e, s)
            | Inr logs \<Rightarrow> (None, s\<lparr>xs_calls := xs_calls s @ cancel_calls (sf_listeners cfg) logs, xs_lastCancelBlock := tip\<rparr>)))"

definition startCancelEventListener :: "cancel_scan \<Rightarrow> cancel_scan" where
  "startCancelEventListener s = (if \<not> xs_stopped s then s else s\<lparr>xs_stopped := False, xs_lagStreak := 0\<rparr>)"

definition stopCancelEventListener :: "cancel_scan \<Rightarrow> cancel_scan" where
  "stopCancelEventListener s = s\<lparr>xs_stopped := True\<rparr>"

definition is_lag :: "string \<Rightarrow> bool" where
  "is_lag msg = str_includes (toLowerCase msg) ''beyond current head''"

datatype tick_log = NoLog | LagDebug nat | TickWarn string "nat option"

definition cancel_tick ::
  "scan_config \<Rightarrow> (int \<Rightarrow> string list option list) \<Rightarrow> chain_answers \<Rightarrow> cancel_scan \<Rightarrow> tick_log \<times> cancel_scan" where
  "cancel_tick cfg ev ans s = (if xs_stopped s then (NoLog, s)
     else case runIndexCancels cfg ev ans (xs_lastCancelBlock s + 1) s of
       (None, s') \<Rightarrow> (NoLog, s'\<lparr>xs_lagStreak := 0\<rparr>)
     | (Some msg, s') \<Rightarrow> let k = (if is_lag msg then xs_lagStreak s' + 1 else 0) in
         (if is_lag msg \<and> k < 10 then LagDebug k else TickWarn msg (if is_lag msg then Some k else None), s'\<lparr>xs_lagStreak := k\<rparr>))"

text \<open>The block of a backfill is \<open>INDEX_FROM_BLOCK\<close>, clamped at 0 by \<open>index.ts\<close>.\<close>

datatype cancel_op = XBackfill nat chain_answers | XTick chain_answers | XStart | XStop

fun cancel_step :: "scan_config \<Rightarrow> (int \<Rightarrow> string list option list) \<Rightarrow> cancel_op \<Rightarrow> cancel_scan \<Rightarrow> cancel_scan" where
  "cancel_step cfg ev (XBackfill fromBlock ans) s = snd (runIndexCancels cfg ev ans (int fromBlock) s)"
| "cancel_step cfg ev (XTick ans) s = snd (cancel_tick cfg ev ans s)"
| "cancel_step cfg ev XStart s = startCancelEventListener s"
| "cancel_step cfg ev XStop s = stopCancelEventListener s"

abbreviation cancel_run :: "scan_config \<Rightarrow> (int \<Rightarrow> string list option list) \<Rightarrow> cancel_op list \<Rightarrow> cancel_scan \<Rightarrow> cancel_scan" where
  "cancel_run cfg ev ops \<equiv> fold (cancel_step cfg ev) ops"

section \<open>The sparse tree\<close>

fun zero_hash :: "(int \<Rightarrow> int \<Rightarrow> int) \<Rightarrow> nat \<Rightarrow> int" where
  "zero_hash H 0 = 0"
| "zero_hash H (Suc i) = H (zero_hash H i) (zero_hash H i)"

definition getZeroHashes :: "(int \<Rightarrow> int \<Rightarrow> int) \<Rightarrow> nat \<Rightarrow> int list" where
  "getZeroHashes H depth = map (zero_hash H) [0..<Suc depth]"

record sparse_tree =
  sx_root :: int
  sx_layers :: "int list list"
  sx_zeroHashes :: "int list"
  sx_depth :: nat

text \<open>The layers from level \<open>d\<close> on, with \<open>k\<close> levels above it.\<close>

fun sparse_layers :: "(int \<Rightarrow> int \<Rightarrow> int) \<Rightarrow> int list \<Rightarrow> nat \<Rightarrow> nat \<Rightarrow> int list \<Rightarrow> int list list" where
  "sparse_layers H zeros 0 d cur = [cur]"
| "sparse_layers H zeros (Suc k) d cur =
     (if cur = [] then [] # map (\<lambda>dd. [zeros ! (dd + 1)]) [d..<d + Suc k]
      else cur # sparse_layers H zeros k (Suc d) (next_layer H (zeros ! d) cur))"

definition buildSparseTree :: "(int \<Rightarrow> int \<Rightarrow> int) \<Rightarrow> int list \<Rightarrow> nat \<Rightarrow> sparse_tree" where
  "buildSparseTree H leaves depth = (let zeros = getZeroHashes H depth; ls = sparse_layers H zeros depth 0 leaves in
     \<lparr>sx_root = hd (last ls), sx_layers = ls, sx_zeroHashes = zeros, sx_depth = depth\<rparr>)"

fun sparse_path :: "int list \<Rightarrow> int list list \<Rightarrow> nat \<Rightarrow> nat \<Rightarrow> int list \<times> nat list" where
  "sparse_path zeros (layer # l2 # ls) i index =
     (let isRight = index mod 2; siblingIndex = (if isRight = 1 then index - 1 else index + 1);
          e = (if siblingIndex < length layer then layer ! siblingIndex else zeros ! i) in
      case sparse_path zeros (l2 # ls) (Suc i) (index div 2) of (es, bs) \<Rightarrow> (e # es, isRight # bs))"
| "sparse_path zeros ls i index = ([], [])"

definition sparseMerkleProof :: "sparse_tree \<Rightarrow> nat \<Rightarrow> int list \<times> nat list" where
  "sparseMerkleProof t leafIndex = sparse_path (sx_zeroHashes t) (sx_layers t) 0 leafIndex"

section \<open>Commitments\<close>

text \<open>An event is its leaf index and commitment, None when the log does not parse.\<close>

record commit_index =
  ci_leaves :: "int list"
  ci_lastIndexedBlock :: int
  ci_warnedIndexStall :: bool
  ci_cachedTree :: "(nat \<times> sparse_tree) option"

definition new_commit_index :: commit_index where
  "new_commit_index = \<lparr>ci_leaves = [], ci_lastIndexedBlock = -1, ci_warnedIndexStall = False, ci_cachedTree = None\<rparr>"

definition put_leaf :: "(nat \<times> int) option \<Rightarrow> int list \<Rightarrow> int list" where
  "put_leaf e leaves = (case e of None \<Rightarrow> leaves
     | Some (i, c) \<Rightarrow> (leaves @ replicate (Suc i - length leaves) 0)[i := c])"

text \<open>\<open>INDEX_FROM_BLOCK\<close>: unset, no number, or a number.\<close>

definition index_from :: "int option option \<Rightarrow> int" where
  "index_from raw = (case raw of Some (Some n) \<Rightarrow> if 0 \<le> n then n else 0 | _ \<Rightarrow> 0)"

definition runIndexCommitments ::
  "scan_config \<Rightarrow> int option option \<Rightarrow> (int \<Rightarrow> (nat \<times> int) option list) \<Rightarrow> chain_answers \<Rightarrow> commit_index \<Rightarrow> string option \<times> commit_index" where
  "runIndexCommitments cfg raw ev ans s0 =
     (let first = ci_lastIndexedBlock s0 < 0;
          fromBlock = (if first then index_from raw else ci_lastIndexedBlock s0 + 1);
          s = (if first then s0\<lparr>ci_leaves := []\<rparr> else s0) in
      case ca_head ans of Inl e \<Rightarrow> (Some e, s)
      | Inr tip \<Rightarrow> let toBlock = tip - sf_confirmations cfg in
          if toBlock < 0 \<or> toBlock < fromBlock then (None, s\<lparr>ci_warnedIndexStall := True\<rparr>)
          else (case queryFilterChunked ev (ca_window ans) fromBlock toBlock (sf_indexBlockRange cfg) of
              Inl e \<Rightarrow> (Some e, s\<lparr>ci_warnedIndexStall := False\<rparr>)
            | Inr events \<Rightarrow> (None, s\<lparr>ci_warnedIndexStall := False, ci_leaves := fold put_leaf events (ci_leaves s),
                ci_lastIndexedBlock := toBlock\<rparr>)))"

definition RELAYER_COMMIT_DEPTH :: nat where "RELAYER_COMMIT_DEPTH = 20"

text \<open>The tree of the current leaves: the cached one while their number stands.\<close>

definition cache_tree :: "(int \<Rightarrow> int \<Rightarrow> int) \<Rightarrow> commit_index \<Rightarrow> sparse_tree \<times> commit_index" where
  "cache_tree H s = (let n = length (ci_leaves s); t = buildSparseTree H (ci_leaves s) RELAYER_COMMIT_DEPTH in
     case ci_cachedTree s of
       Some (m, c) \<Rightarrow> if m = n then (c, s) else (t, s\<lparr>ci_cachedTree := Some (n, t)\<rparr>)
     | None \<Rightarrow> (t, s\<lparr>ci_cachedTree := Some (n, t)\<rparr>))"

definition getCommitmentMerkleProof ::
  "(int \<Rightarrow> int \<Rightarrow> int) \<Rightarrow> scan_config \<Rightarrow> int option option \<Rightarrow> (int \<Rightarrow> (nat \<times> int) option list) \<Rightarrow> chain_answers \<Rightarrow> nat \<Rightarrow> commit_index \<Rightarrow>
   (string + int \<times> int list \<times> nat list) \<times> commit_index" where
  "getCommitmentMerkleProof H cfg raw ev ans leafIndex s =
     (case runIndexCommitments cfg raw ev ans s of
        (Some e, s1) \<Rightarrow> (Inl e, s1)
      | (None, s1) \<Rightarrow> (case cache_tree H s1 of (t, s2) \<Rightarrow> (Inr (sx_root t, sparseMerkleProof t leafIndex), s2)))"

datatype index_op = IPass chain_answers | IProof chain_answers nat

fun index_step ::
  "(int \<Rightarrow> int \<Rightarrow> int) \<Rightarrow> scan_config \<Rightarrow> int option option \<Rightarrow> (int \<Rightarrow> (nat \<times> int) option list) \<Rightarrow> index_op \<Rightarrow> commit_index \<Rightarrow> commit_index" where
  "index_step H cfg raw ev (IPass ans) s = snd (runIndexCommitments cfg raw ev ans s)"
| "index_step H cfg raw ev (IProof ans i) s = snd (getCommitmentMerkleProof H cfg raw ev ans i s)"

section \<open>What a scan reads\<close>

lemma block_events_split: "a \<le> m + 1 \<Longrightarrow> m \<le> b \<Longrightarrow> block_events ev a b = block_events ev a m @ block_events ev (m + 1) b"
  using upto_split2 [of a m b] by (cases "a = m + 1") (simp_all add: block_events_def)

lemma window_loop_reads:
  "window_loop ev fails chunk toBlock start k out = Inr res \<Longrightarrow> 1 \<le> chunk \<Longrightarrow> res = out @ block_events ev start toBlock"
proof (induction ev fails chunk toBlock start k out rule: window_loop.induct)
  case (1 ev fails chunk toBlock start k out)
  show ?case
  proof (cases "toBlock < start")
    case True
    then show ?thesis using "1.prems" by (simp add: window_loop.simps [of ev fails chunk toBlock start] block_events_def)
  next
    case False
    let ?e = "min (start + chunk - 1) toBlock"
    from False obtain f: "fails k = None" and r: "window_loop ev fails chunk toBlock (start + chunk) (Suc k) (out @ block_events ev start ?e) = Inr res"
      using "1.prems" by (auto simp: window_loop.simps [of ev fails chunk toBlock start] split: option.splits)
    have "res = (out @ block_events ev start ?e) @ block_events ev (start + chunk) toBlock"
      using "1.IH" [OF _ f r] False "1.prems"(2) by simp
    moreover have "block_events ev start toBlock = block_events ev start ?e @ block_events ev (?e + 1) toBlock"
      using False "1.prems"(2) by (intro block_events_split) auto
    moreover have "block_events ev (?e + 1) toBlock = block_events ev (start + chunk) toBlock"
      by (cases "start + chunk - 1 \<le> toBlock") (simp_all add: min_def block_events_def)
    ultimately show ?thesis by simp
  qed
qed

lemma window_loop_answers:
  "\<forall>k. fails k = None \<Longrightarrow> \<exists>res. window_loop ev fails chunk toBlock start k out = Inr res"
proof (induction ev fails chunk toBlock start k out rule: window_loop.induct)
  case (1 ev fails chunk toBlock start k out)
  show ?case
  proof (cases "toBlock < start \<or> chunk < 1")
    case False
    have "fails k = None" using "1.prems" by blast
    then show ?thesis using False "1.IH" [OF False _ "1.prems"] by (subst window_loop.simps) simp
  qed (subst window_loop.simps, simp)
qed

lemma window_size_pos: "1 \<le> window_size c"
  by (auto simp: window_size_def split: option.splits)

lemma query_reads: "queryFilterChunked ev fails a b c = Inr res \<Longrightarrow> res = block_events ev a b"
  using window_loop_reads [OF _ window_size_pos, of ev fails c b a 0 "[]"]
  by (auto simp: queryFilterChunked_def block_events_def split: if_splits)

lemma query_answers: "\<forall>k. fails k = None \<Longrightarrow> queryFilterChunked ev fails a b c = Inr (block_events ev a b)"
  using window_loop_answers [of fails ev "window_size c" b a 0 "[]"] window_loop_reads [OF _ window_size_pos, of ev fails c b a 0 "[]"]
  by (auto simp: queryFilterChunked_def block_events_def)

text \<open>
  Both scanners keep a cursor and take in events: a pass either leaves both or moves the cursor to a block the chain
  has confirmed and takes in exactly the events up to it.
\<close>

locale cursor_scan =
  fixes step :: "'op \<Rightarrow> 's \<Rightarrow> 's"
    and cursor :: "'s \<Rightarrow> int"
    and content :: "'s \<Rightarrow> 'd"
    and absorb :: "'e list \<Rightarrow> 'd \<Rightarrow> 'd"
    and start :: 'd
    and ev :: "int \<Rightarrow> 'e list"
    and origin :: "'op \<Rightarrow> int"
    and confirmed :: "'op \<Rightarrow> int"
  assumes step_keeps_or_moves: "(cursor s < 0 \<longrightarrow> cursor s = -1 \<and> content s = start) \<Longrightarrow>
    (cursor (step x s) = cursor s \<and> content (step x s) = content s) \<or>
    (let a = (if 0 \<le> cursor s then cursor s + 1 else origin x) in
      cursor (step x s) = confirmed x \<and> 0 \<le> confirmed x \<and> a \<le> confirmed x \<and> content (step x s) = absorb (block_events ev a (confirmed x)) (content s))"
    and origin_nonneg: "0 \<le> origin x"
    and absorb_append: "absorb (xs @ ys) d = absorb ys (absorb xs d)"
begin

text \<open>Nothing is taken in twice and nothing is left out, whatever failed on the way.\<close>

lemma run_exact:
  assumes "cursor s0 = -1" "content s0 = start"
  shows "if 0 \<le> cursor (fold step ops s0)
    then cursor (fold step ops s0) \<in> confirmed ` set ops \<and> (\<exists>a \<in> origin ` set ops. 0 \<le> a \<and> a \<le> cursor (fold step ops s0) \<and>
      content (fold step ops s0) = absorb (block_events ev a (cursor (fold step ops s0))) start)
    else cursor (fold step ops s0) = -1 \<and> content (fold step ops s0) = start"
proof (induction ops rule: rev_induct)
  case Nil
  then show ?case using assms by simp
next
  case (snoc x ops)
  let ?s = "fold step ops s0"
  have e: "fold step (ops @ [x]) s0 = step x ?s" by simp
  have inv: "cursor ?s < 0 \<longrightarrow> cursor ?s = -1 \<and> content ?s = start" using snoc.IH by auto
  from step_keeps_or_moves [OF inv, of x] show ?case
  proof
    assume "cursor (step x ?s) = cursor ?s \<and> content (step x ?s) = content ?s"
    then show ?thesis using snoc.IH unfolding e by (auto split: if_splits)
  next
    let ?a = "if 0 \<le> cursor ?s then cursor ?s + 1 else origin x"
    assume "let a = ?a in
      cursor (step x ?s) = confirmed x \<and> 0 \<le> confirmed x \<and> a \<le> confirmed x \<and> content (step x ?s) = absorb (block_events ev a (confirmed x)) (content ?s)"
    then have m: "cursor (step x ?s) = confirmed x" "0 \<le> confirmed x" "?a \<le> confirmed x"
      "content (step x ?s) = absorb (block_events ev ?a (confirmed x)) (content ?s)" by (simp_all add: Let_def)
    have "\<exists>a \<in> origin ` set (ops @ [x]). 0 \<le> a \<and> a \<le> confirmed x \<and> content (step x ?s) = absorb (block_events ev a (confirmed x)) start"
    proof (cases "0 \<le> cursor ?s")
      case True
      then obtain a where a: "a \<in> origin ` set ops" "0 \<le> a" "a \<le> cursor ?s" "content ?s = absorb (block_events ev a (cursor ?s)) start"
        using snoc.IH by auto
      then have "block_events ev a (confirmed x) = block_events ev a (cursor ?s) @ block_events ev (cursor ?s + 1) (confirmed x)"
        using m(3) True by (intro block_events_split) auto
      then show ?thesis using a m True absorb_append by (intro bexI [of _ a]) auto
    next
      case False
      then show ?thesis using m inv origin_nonneg [of x] by (intro bexI [of _ "origin x"]) auto
    qed
    then show ?thesis using m(1,2) unfolding e by simp
  qed
qed

end

lemma cancel_calls_append: "cancel_calls n (xs @ ys) = cancel_calls n xs @ cancel_calls n ys"
  by (simp add: cancel_calls_def)

fun cancel_origin :: "cancel_op \<Rightarrow> int" where
  "cancel_origin (XBackfill fromBlock ans) = int fromBlock"
| "cancel_origin x = 0"

text \<open>The block a pass gets to when it gets through.\<close>

definition confirmed_by :: "scan_config \<Rightarrow> chain_answers \<Rightarrow> int" where
  "confirmed_by cfg ans = (case ca_head ans of Inr h \<Rightarrow> h - sf_confirmations cfg | Inl e \<Rightarrow> -1)"

fun cancel_confirmed :: "scan_config \<Rightarrow> cancel_op \<Rightarrow> int" where
  "cancel_confirmed cfg (XBackfill fromBlock ans) = confirmed_by cfg ans"
| "cancel_confirmed cfg (XTick ans) = confirmed_by cfg ans"
| "cancel_confirmed cfg x = -1"

lemma cancel_pass_cases:
  assumes "runIndexCancels cfg ev ans fromBlock s = (r, s')"
  shows "s' = s \<or> (let a = (if 0 \<le> xs_lastCancelBlock s then xs_lastCancelBlock s + 1 else fromBlock); t = confirmed_by cfg ans in
    0 \<le> t \<and> a \<le> t \<and> r = None \<and>
    s' = s\<lparr>xs_calls := xs_calls s @ cancel_calls (sf_listeners cfg) (block_events ev a t), xs_lastCancelBlock := t\<rparr>)"
  using assms query_reads
  by (auto simp: runIndexCancels_def Let_def confirmed_by_def split: sum.splits if_splits dest!: query_reads)

interpretation cancels: cursor_scan "cancel_step cfg ev" xs_lastCancelBlock xs_calls
  "\<lambda>logs calls. calls @ cancel_calls (sf_listeners cfg) logs" "[]" ev cancel_origin "cancel_confirmed cfg" for cfg ev
proof (unfold_locales, goal_cases)
  case (1 s x)
  show ?case
  proof (cases x)
    case (XBackfill fromBlock ans)
    obtain r s' where r: "runIndexCancels cfg ev ans (int fromBlock) s = (r, s')" by fastforce
    show ?thesis using cancel_pass_cases [OF r] by (auto simp: XBackfill r Let_def split: if_splits)
  next
    case (XTick ans)
    obtain r s' where r: "runIndexCancels cfg ev ans (xs_lastCancelBlock s + 1) s = (r, s')" by fastforce
    show ?thesis
    proof (cases "xs_stopped s \<or> s' = s")
      case True
      then show ?thesis using r by (auto simp: XTick cancel_tick_def Let_def split: option.splits)
    next
      case False
      then have "r = None" using cancel_pass_cases [OF r] by (auto simp: Let_def)
      then have e: "cancel_step cfg ev x s = s'\<lparr>xs_lagStreak := 0\<rparr>" using r False by (simp add: XTick cancel_tick_def)
      show ?thesis using cancel_pass_cases [OF r] 1 False unfolding e
        by (cases "0 \<le> xs_lastCancelBlock s") (auto simp: XTick Let_def)
    qed
  qed (simp_all add: startCancelEventListener_def stopCancelEventListener_def)
next
  case (2 x)
  then show ?case by (cases x) simp_all
qed (simp add: cancel_calls_append)

lemma leaves_of_append: "fold put_leaf (xs @ ys) d = fold put_leaf ys (fold put_leaf xs d)"
  by simp

lemma index_pass_cases:
  assumes "runIndexCommitments cfg raw ev ans s = (r, s')"
  shows "ci_cachedTree s' = ci_cachedTree s \<and>
    (ci_lastIndexedBlock s' = ci_lastIndexedBlock s \<and> ci_leaves s' = (if ci_lastIndexedBlock s < 0 then [] else ci_leaves s) \<or>
    (let a = (if 0 \<le> ci_lastIndexedBlock s then ci_lastIndexedBlock s + 1 else index_from raw); t = confirmed_by cfg ans in
      0 \<le> t \<and> a \<le> t \<and> ci_lastIndexedBlock s' = t \<and>
      ci_leaves s' = fold put_leaf (block_events ev a t) (if ci_lastIndexedBlock s < 0 then [] else ci_leaves s)))"
  using assms
  by (auto simp: runIndexCommitments_def Let_def confirmed_by_def not_le split: sum.splits if_splits dest!: query_reads)

lemma cache_tree_keeps: "cache_tree H s = (t, s') \<Longrightarrow> ci_leaves s' = ci_leaves s \<and> ci_lastIndexedBlock s' = ci_lastIndexedBlock s"
  by (auto simp: cache_tree_def Let_def split: option.splits if_splits)

fun answers_of :: "index_op \<Rightarrow> chain_answers" where
  "answers_of (IPass ans) = ans" | "answers_of (IProof ans i) = ans"

lemma index_step_pass:
  "ci_leaves (index_step H cfg raw ev x s) = ci_leaves (snd (runIndexCommitments cfg raw ev (answers_of x) s)) \<and>
   ci_lastIndexedBlock (index_step H cfg raw ev x s) = ci_lastIndexedBlock (snd (runIndexCommitments cfg raw ev (answers_of x) s))"
  using cache_tree_keeps
  by (cases x) (auto simp: getCommitmentMerkleProof_def split: prod.splits option.splits)

interpretation commits: cursor_scan "index_step H cfg raw ev" ci_lastIndexedBlock ci_leaves "fold put_leaf" "[]" ev
  "\<lambda>x. index_from raw" "\<lambda>x. confirmed_by cfg (answers_of x)" for H cfg raw ev
proof (unfold_locales, goal_cases)
  case (1 s x)
  obtain r s' where r: "runIndexCommitments cfg raw ev (answers_of x) s = (r, s')" by fastforce
  show ?case using index_pass_cases [OF r] index_step_pass [of H cfg raw ev x s] 1
    by (auto simp: r Let_def split: if_splits)
next
  case (2 x)
  then show ?case by (simp add: index_from_def split: option.splits)
qed simp

section \<open>The sparse tree is the padded tree\<close>

lemma zero_hash_node: "length xs \<le> j * 2 ^ l \<Longrightarrow> node H xs l j = zero_hash H l"
proof (induction l arbitrary: j)
  case (Suc l)
  have "length xs \<le> 2 * j * 2 ^ l" using Suc.prems by (simp add: mult.commute mult.left_commute)
  then have "node H xs l (2 * j) = zero_hash H l" "node H xs l (2 * j + 1) = zero_hash H l"
    using Suc.IH [of "2 * j"] Suc.IH [of "2 * j + 1"] by (simp_all add: add_mult_distrib)
  then show ?case by simp
qed simp

lemma zeros_nth: "l \<le> d \<Longrightarrow> getZeroHashes H d ! l = zero_hash H l"
  by (simp add: getZeroHashes_def del: upt_Suc)

lemma prefix_zero_node:
  assumes "prefix_of H leaves l xs"
  shows "(if j < length xs then xs ! j else zero_hash H l) = node H leaves l j"
proof (cases "j < length xs")
  case False
  then have "length leaves \<le> j * 2 ^ l" using assms by (meson mult_le_mono1 not_less order_trans prefix_of_def)
  then show ?thesis using zero_hash_node False by simp
qed (use assms in \<open>simp add: prefix_of_def\<close>)

lemma prefix_zero_next:
  assumes "prefix_of H leaves l xs"
  shows "prefix_of H leaves (Suc l) (next_layer H (zero_hash H l) xs)"
proof -
  have "next_layer H (zero_hash H l) xs ! j = node H leaves (Suc l) j" if "j < length (next_layer H (zero_hash H l) xs)" for j
  proof -
    have j: "j < (length xs + 1) div 2" using that by (simp add: next_layer_length)
    then have "2 * j < length xs" by linarith
    then show ?thesis
      using next_layer_nth [OF j, of H "zero_hash H l"] prefix_zero_node [OF assms, of "2 * j"] prefix_zero_node [OF assms, of "2 * j + 1"]
      by simp
  qed
  moreover have "length leaves \<le> (length xs + 1) div 2 * 2 ^ Suc l"
  proof -
    have "length xs \<le> (length xs + 1) div 2 * 2" by linarith
    then have "length xs * 2 ^ l \<le> ((length xs + 1) div 2 * 2) * 2 ^ l" by (rule mult_le_mono1)
    moreover have "length leaves \<le> length xs * 2 ^ l" using assms by (simp add: prefix_of_def)
    ultimately have "length leaves \<le> ((length xs + 1) div 2 * 2) * 2 ^ l" by linarith
    then show ?thesis by (simp only: mult.assoc power_Suc)
  qed
  ultimately show ?thesis by (simp add: prefix_of_def next_layer_length)
qed

lemma sparse_layers_top: "sparse_layers H zeros k d cur \<noteq> []"
  by (cases k) auto

lemma next_layer_Nil: "next_layer H z xs = [] \<longleftrightarrow> xs = []"
  by (induction H z xs rule: next_layer.induct) auto

text \<open>Below a layer that is not empty.\<close>

lemma sparse_prefix:
  assumes "prefix_of H leaves l xs" "xs \<noteq> []" "length leaves \<le> 2 ^ (l + k)" "l + k \<le> d" "length xs \<le> 2 ^ k"
  shows "hd (last (sparse_layers H (getZeroHashes H d) k l xs)) = node H leaves (l + k) 0 \<and>
    sparse_path (getZeroHashes H d) (sparse_layers H (getZeroHashes H d) k l xs) l idx = node_path H leaves l k idx"
  using assms
proof (induction k arbitrary: l xs idx)
  case 0
  then show ?case by (cases xs) (auto simp: prefix_of_def)
next
  case (Suc k)
  let ?Z = "getZeroHashes H d" and ?next = "next_layer H (zero_hash H l) xs"
  have z: "?Z ! l = zero_hash H l" using Suc.prems(4) by (simp add: zeros_nth)
  have len: "length ?next \<le> 2 ^ k" using Suc.prems(5) by (simp add: next_layer_length)
  have ih: "hd (last (sparse_layers H ?Z k (Suc l) ?next)) = node H leaves (Suc l + k) 0"
    "sparse_path ?Z (sparse_layers H ?Z k (Suc l) ?next) (Suc l) (idx div 2) = node_path H leaves (Suc l) k (idx div 2)"
    using Suc.IH [OF prefix_zero_next [OF Suc.prems(1)] _ _ _ len] Suc.prems(2-4) by (simp_all add: next_layer_Nil)
  obtain l2 ls where ls: "sparse_layers H ?Z k (Suc l) ?next = l2 # ls"
    using sparse_layers_top by (cases "sparse_layers H ?Z k (Suc l) ?next") auto
  have sib: "(if j < length xs then xs ! j else ?Z ! l) = node H leaves l j" for j
    unfolding z by (rule prefix_zero_node [OF Suc.prems(1)])
  show ?case using ih Suc.prems(2) z ls sib by (simp add: Let_def split: prod.split)
qed

text \<open>The tree of no leaves: every layer above is the zero of its level.\<close>

lemma empty_path:
  "l + k \<le> d \<Longrightarrow> sparse_path (getZeroHashes H d) (map (\<lambda>dd. [getZeroHashes H d ! dd]) [l..<Suc (l + k)]) l idx = node_path H [] l k idx"
proof (induction k arbitrary: l idx)
  case (Suc k)
  have u: "[l..<Suc (l + Suc k)] = l # Suc l # [Suc (Suc l)..<Suc (l + Suc k)]" by (simp add: upt_conv_Cons del: upt_Suc)
  have "[Suc l..<Suc (Suc l + k)] = Suc l # [Suc (Suc l)..<Suc (l + Suc k)]" by (simp add: upt_conv_Cons del: upt_Suc)
  then have ih: "sparse_path (getZeroHashes H d) ([getZeroHashes H d ! Suc l] # map (\<lambda>dd. [getZeroHashes H d ! dd]) [Suc (Suc l)..<Suc (l + Suc k)])
      (Suc l) (idx div 2) = node_path H [] (Suc l) k (idx div 2)"
    using Suc.IH [of "Suc l" "idx div 2"] Suc.prems by simp
  have n: "node H [] l j = getZeroHashes H d ! l" for j using zero_hash_node [of "[]" j l H] Suc.prems by (simp add: zeros_nth)
  show ?case unfolding u using ih n by (simp add: Let_def nth_Cons' split: prod.split)
qed (simp)

lemma sparse_tree_spec:
  assumes "length xs \<le> 2 ^ d" "1 \<le> d"
  shows "sx_root (buildSparseTree H xs d) = node H xs d 0 \<and> sparseMerkleProof (buildSparseTree H xs d) idx = node_path H xs 0 d idx"
proof (cases "xs = []")
  case False
  have "prefix_of H xs 0 xs" by (simp add: prefix_of_def)
  from sparse_prefix [OF this False, of d d idx] show ?thesis using assms
    by (simp add: buildSparseTree_def sparseMerkleProof_def Let_def)
next
  case True
  obtain k where k: "d = Suc k" using assms(2) by (cases d) auto
  let ?Z = "getZeroHashes H d"
  have ls: "sparse_layers H ?Z d 0 [] = [] # map (\<lambda>dd. [?Z ! dd]) [1..<Suc d]"
    by (simp add: k map_Suc_upt [symmetric] del: upt_Suc)
  have u: "[1..<Suc d] = 1 # [2..<Suc d]" by (simp add: k upt_conv_Cons numeral_2_eq_2 del: upt_Suc)
  have "hd (last (sparse_layers H ?Z d 0 [])) = zero_hash H d" unfolding ls by (simp add: zeros_nth k)
  moreover have "node H [] d 0 = zero_hash H d" using zero_hash_node [of "[]" 0 d H] by simp
  moreover have "sparse_path ?Z (sparse_layers H ?Z d 0 []) 0 idx = node_path H [] 0 d idx"
  proof -
    have "sparse_path ?Z (map (\<lambda>dd. [?Z ! dd]) [1..<Suc d]) 1 (idx div 2) = node_path H [] (Suc 0) k (idx div 2)"
      using empty_path [of 1 k d H "idx div 2"] by (simp add: k del: upt_Suc)
    then show ?thesis unfolding ls u by (simp add: k zeros_nth Let_def split: prod.split)
  qed
  ultimately show ?thesis by (simp add: True buildSparseTree_def sparseMerkleProof_def Let_def)
qed

section \<open>What the index holds\<close>

lemma fold_put_parsed: "fold put_leaf es ls = fold (put_leaf o Some) (List.map_filter id es) ls"
  by (induction es arbitrary: ls) (auto simp: put_leaf_def List.map_filter_simps split: option.splits)

lemma put_next: "put_leaf (Some (length ls, c)) ls = ls @ [c]"
  by (simp add: put_leaf_def)

lemma put_enumerate: "fold (put_leaf o Some) (enumerate (length ls) cs) ls = ls @ cs"
proof (induction cs arbitrary: ls)
  case (Cons c cs)
  then show ?case using Cons.IH [of "ls @ [c]"] put_next [of ls c] by simp
qed simp

text \<open>
  The contract gives the leaves consecutive indices: up to any block the parsed logs are the first insertions
  of \<open>cs\<close> in order.
\<close>

definition insertions :: "(int \<Rightarrow> (nat \<times> int) option list) \<Rightarrow> int \<Rightarrow> int list \<Rightarrow> bool" where
  "insertions ev a cs \<longleftrightarrow> (\<forall>b. \<exists>n \<le> length cs. List.map_filter id (block_events ev a b) = enumerate 0 (take n cs))"

lemma insertions_leaves:
  assumes "insertions ev a cs"
  shows "\<exists>n \<le> length cs. fold put_leaf (block_events ev a b) [] = take n cs \<and>
    List.map_filter id (block_events ev a b) = enumerate 0 (take n cs)"
proof -
  obtain n where "n \<le> length cs" "List.map_filter id (block_events ev a b) = enumerate 0 (take n cs)"
    using assms unfolding insertions_def by blast
  then show ?thesis using fold_put_parsed [of "block_events ev a b" "[]"] put_enumerate [of "[]" "take n cs"] by auto
qed

abbreviation index_run where "index_run H cfg raw ev ops \<equiv> fold (index_step H cfg raw ev) ops new_commit_index"

lemma index_leaves:
  assumes "insertions ev (index_from raw) cs"
  shows "\<exists>n \<le> length cs. ci_leaves (index_run H cfg raw ev ops) = take n cs \<and>
    (0 \<le> ci_lastIndexedBlock (index_run H cfg raw ev ops) \<longrightarrow>
      List.map_filter id (block_events ev (index_from raw) (ci_lastIndexedBlock (index_run H cfg raw ev ops))) = enumerate 0 (take n cs))"
proof -
  let ?s = "index_run H cfg raw ev ops"
  have x: "if 0 \<le> ci_lastIndexedBlock ?s
    then ci_lastIndexedBlock ?s \<in> (\<lambda>x. confirmed_by cfg (answers_of x)) ` set ops \<and>
      (\<exists>a \<in> (\<lambda>x. index_from raw) ` set ops. 0 \<le> a \<and> a \<le> ci_lastIndexedBlock ?s \<and>
        ci_leaves ?s = fold put_leaf (block_events ev a (ci_lastIndexedBlock ?s)) [])
    else ci_lastIndexedBlock ?s = -1 \<and> ci_leaves ?s = []"
    by (rule commits.run_exact) (simp_all add: new_commit_index_def)
  show ?thesis
  proof (cases "0 \<le> ci_lastIndexedBlock ?s")
    case True
    then have "ci_leaves ?s = fold put_leaf (block_events ev (index_from raw) (ci_lastIndexedBlock ?s)) []" using x by auto
    then show ?thesis using insertions_leaves [OF assms, of "ci_lastIndexedBlock ?s"] by auto
  next
    case False
    then show ?thesis using x by (intro exI [of _ 0]) simp
  qed
qed

definition cache_ok :: "(int \<Rightarrow> int \<Rightarrow> int) \<Rightarrow> int list \<Rightarrow> commit_index \<Rightarrow> bool" where
  "cache_ok H cs s \<longleftrightarrow> (\<forall>m t. ci_cachedTree s = Some (m, t) \<longrightarrow> t = buildSparseTree H (take m cs) RELAYER_COMMIT_DEPTH)"

lemma take_self_length: "xs = take n cs \<Longrightarrow> n \<le> length cs \<Longrightarrow> take (length xs) cs = xs"
  by simp

lemma cache_tree_ok:
  assumes "cache_ok H cs s" "ci_leaves s = take n cs" "n \<le> length cs" "cache_tree H s = (t, s')"
  shows "t = buildSparseTree H (ci_leaves s) RELAYER_COMMIT_DEPTH" "cache_ok H cs s'"
  using assms by (auto simp: cache_tree_def cache_ok_def Let_def split: option.splits if_splits)

lemma index_cache: "insertions ev (index_from raw) cs \<Longrightarrow> cache_ok H cs (index_run H cfg raw ev ops)"
proof (induction ops rule: rev_induct)
  case Nil
  then show ?case by (simp add: cache_ok_def new_commit_index_def)
next
  case (snoc x ops)
  let ?s = "index_run H cfg raw ev ops"
  obtain r s' where r: "runIndexCommitments cfg raw ev (answers_of x) ?s = (r, s')" by fastforce
  have c: "cache_ok H cs s'" using index_pass_cases [OF r] snoc by (simp add: cache_ok_def)
  show ?case
  proof (cases x)
    case (IPass ans)
    then show ?thesis using c r by simp
  next
    case (IProof ans i)
    obtain t s2 where t: "cache_tree H s' = (t, s2)" by fastforce
    have l: "ci_leaves (index_run H cfg raw ev (ops @ [IPass ans])) = ci_leaves s'" using r IProof by simp
    obtain n where "n \<le> length cs" "ci_leaves s' = take n cs" using index_leaves [OF snoc.prems, of H cfg "ops @ [IPass ans]"] l by auto
    then have "cache_ok H cs s2" using cache_tree_ok(2) [OF c _ _ t] by blast
    then show ?thesis using c r t IProof by (cases r) (simp_all add: getCommitmentMerkleProof_def)
  qed
qed

section \<open>Properties\<close>


text \<open>
  C30.  The sparse tree of the relayer is the padded tree of the SDK: the same root, and for every index within the
  depth the same inclusion proof, for every list of leaves that fits, the empty one included.
\<close>

theorem sparse_tree_is_padded_tree:
  assumes "1 \<le> d" "d \<le> 30" "length xs \<le> 2 ^ d"
  shows "\<exists>b. buildMerkleTree H xs (int d) = Some b \<and> sx_root (buildSparseTree H xs d) = bt_root b \<and>
    (\<forall>i < 2 ^ d. getMerkleProof (bt_layers b) (int i) = Some (sparseMerkleProof (buildSparseTree H xs d) i))"
proof -
  obtain b where b: "buildMerkleTree H xs (int d) = Some b" "bt_root b = node H xs d 0"
    "\<And>i. getMerkleProof (bt_layers b) i = (if 0 \<le> i \<and> i < 2 ^ d then Some (node_path H xs 0 d (nat i)) else None)"
    using build_some [OF assms, of H] by auto
  have "int i < 2 ^ d" if "i < 2 ^ d" for i :: nat using that by (metis of_nat_less_iff of_nat_numeral of_nat_power)
  then show ?thesis using b sparse_tree_spec [OF assms(3,1)] by (intro exI [of _ b]) auto
qed

text \<open>
  C29.  The proofs the relayer serves verify: after any history of passes and requests, some failing, a served root is
  the root of the tree that mirrors the contract after the insertions up to the last indexed block, and the path
  served for a leaf inserted by then leads from its commitment to that root.
\<close>

theorem relayer_serves_valid_proofs:
  assumes "zeros_chain H" "insertions ev (index_from raw) cs" "length cs \<le> 2 ^ RELAYER_COMMIT_DEPTH"
    and "getCommitmentMerkleProof H cfg raw ev ans i (index_run H cfg raw ev ops) = (Inr (rt, es, bs), s')"
  shows "\<exists>n t. n \<le> length cs \<and> ci_leaves s' = take n cs \<and>
    (0 \<le> ci_lastIndexedBlock s' \<longrightarrow> List.map_filter id (block_events ev (index_from raw) (ci_lastIndexedBlock s')) = enumerate 0 (take n cs)) \<and>
    fromLeaves H (take n cs) RELAYER_COMMIT_DEPTH = Some t \<and> mt_root t = rt \<and>
    length es = RELAYER_COMMIT_DEPTH \<and> length bs = RELAYER_COMMIT_DEPTH \<and> (i < n \<longrightarrow> path_root H (cs ! i) es bs = rt)"
proof -
  let ?s = "index_run H cfg raw ev ops" and ?D = RELAYER_COMMIT_DEPTH
  obtain s1 t where r: "runIndexCommitments cfg raw ev ans ?s = (None, s1)" and c: "cache_tree H s1 = (t, s')"
    and out: "rt = sx_root t" "sparseMerkleProof t i = (es, bs)"
    using assms(4) by (auto simp: getCommitmentMerkleProof_def split: prod.splits option.splits)
  have s1: "index_run H cfg raw ev (ops @ [IPass ans]) = s1" using r by simp
  obtain n where n: "n \<le> length cs" "ci_leaves s1 = take n cs"
    "0 \<le> ci_lastIndexedBlock s1 \<longrightarrow> List.map_filter id (block_events ev (index_from raw) (ci_lastIndexedBlock s1)) = enumerate 0 (take n cs)"
    using index_leaves [OF assms(2), of H cfg "ops @ [IPass ans]"] unfolding s1 by blast
  have "cache_ok H cs s1" using index_cache [OF assms(2), of H cfg "ops @ [IPass ans]"] unfolding s1 .
  then have t: "t = buildSparseTree H (take n cs) ?D" using cache_tree_ok(1) [OF _ n(2,1) c] n(2) by simp
  have len: "length (take n cs) \<le> 2 ^ ?D" using assms(3) by simp
  have d: "1 \<le> ?D" "?D \<le> 20" by (simp_all add: RELAYER_COMMIT_DEPTH_def)
  note sp = sparse_tree_spec [OF len d(1), of H i]
  obtain m where m: "fromLeaves H (take n cs) ?D = Some m" using fromLeaves_some [OF d(2) len] by blast
  have rt: "rt = node H (take n cs) ?D 0" "mt_root m = rt"
    using sp out(1) t fromLeaves_ok [OF assms(1) m] by (simp_all add: mtree_ok_def)
  have p: "node_path H (take n cs) 0 ?D i = (es, bs)" using sp out(2) t by simp
  have "path_root H (cs ! i) es bs = rt" if "i < n"
  proof -
    have "node H (take n cs) 0 i = cs ! i" using that n(1) by simp
    moreover have "i < 2 ^ ?D" using that n(1) assms(3) by linarith
    ultimately show ?thesis using node_path_root [OF p] rt(1) by simp
  qed
  then show ?thesis using n m rt(2) node_path_length [OF p] cache_tree_keeps [OF c]
    by (intro exI [of _ n] exI [of _ m]) simp
qed

section \<open>Witnesses\<close>

definition sample_scan_config :: scan_config where
  "sample_scan_config = \<lparr>sf_listeners = 2, sf_confirmations = 1, sf_indexBlockRange = Some 4\<rparr>"


theorem sparse_tree_is_padded_tree_witness:
  "\<exists>b. buildMerkleTree sample_hash [5, 6, 7] 2 = Some b \<and> sx_root (buildSparseTree sample_hash [5, 6, 7] 2) = bt_root b"
  using sparse_tree_is_padded_tree [of 2 "[5, 6, 7]" sample_hash] by auto

definition sample_insertions :: "int \<Rightarrow> (nat \<times> int) option list" where
  "sample_insertions b = (if b = 3 then [Some (0, 5)] else if b = 7 then [Some (1, 6), None] else [])"

lemma sample_insertions_ok: "insertions sample_insertions (index_from None) [5, 6]"
proof -
  have e: "block_events sample_insertions 0 b = (if b < 3 then [] else if b < 7 then [Some (0, 5)] else [Some (0, 5), Some (1, 6), None])" for b
  proof -
    have z: "block_events sample_insertions a c = []" if "\<forall>k. a \<le> k \<and> k \<le> c \<longrightarrow> k \<noteq> 3 \<and> k \<noteq> 7" for a c
      using that by (simp add: block_events_def sample_insertions_def)
    have o: "block_events sample_insertions k k = sample_insertions k" for k by (simp add: block_events_def)
    consider "b < 3" | "3 \<le> b" "b < 7" | "7 \<le> b" by linarith
    then show ?thesis
    proof cases
      case 1
      then show ?thesis using z [of 0 b] by simp
    next
      case 2
      have "block_events sample_insertions 0 b = block_events sample_insertions 0 2 @ block_events sample_insertions 3 3 @ block_events sample_insertions 4 b"
        using 2 block_events_split [of 0 2 b sample_insertions] block_events_split [of 3 3 b sample_insertions] by simp
      then show ?thesis using 2 z [of 0 2] z [of 4 b] o [of 3] by (simp add: sample_insertions_def)
    next
      case 3
      have "block_events sample_insertions 0 b = block_events sample_insertions 0 2 @ block_events sample_insertions 3 3 @
          block_events sample_insertions 4 6 @ block_events sample_insertions 7 7 @ block_events sample_insertions 8 b"
        using 3 block_events_split [of 0 2 b sample_insertions] block_events_split [of 3 3 b sample_insertions]
          block_events_split [of 4 6 b sample_insertions] block_events_split [of 7 7 b sample_insertions] by simp
      then show ?thesis using 3 z [of 0 2] z [of 4 6] z [of 8 b] o [of 3] o [of 7] by (simp add: sample_insertions_def)
    qed
  qed
  have "\<exists>n \<le> length [5, 6 :: int]. List.map_filter id (block_events sample_insertions 0 b) = enumerate 0 (take n [5, 6])" for b
    unfolding e
    by (cases "b < 3"; cases "b < 7") (auto simp: List.map_filter_simps intro: exI [of _ "0::nat"] exI [of _ "1::nat"] exI [of _ "2::nat"])
  then show ?thesis by (simp add: insertions_def index_from_def)
qed

theorem relayer_serves_valid_proofs_witness:
  "\<exists>rt es bs s'. getCommitmentMerkleProof sample_hash sample_scan_config None sample_insertions
      \<lparr>ca_head = Inr 8, ca_window = \<lambda>_. None\<rparr> 1
      (index_run sample_hash sample_scan_config None sample_insertions [IPass \<lparr>ca_head = Inl ''timeout'', ca_window = \<lambda>_. None\<rparr>]) =
    (Inr (rt, es, bs), s') \<and> ci_leaves s' = [5, 6] \<and> path_root sample_hash 6 es bs = rt"
proof -
  let ?s = "index_run sample_hash sample_scan_config None sample_insertions [IPass \<lparr>ca_head = Inl ''timeout'', ca_window = \<lambda>_. None\<rparr>]"
  let ?r = "runIndexCommitments sample_scan_config None sample_insertions \<lparr>ca_head = Inr 8, ca_window = \<lambda>_. None\<rparr> ?s"
  have "fst ?r = None \<and> ci_leaves (snd ?r) = [5, 6]" by code_simp
  then obtain s1 where s1: "?r = (None, s1)" "ci_leaves s1 = [5, 6]" by (cases ?r) auto
  obtain t s' where t: "cache_tree sample_hash s1 = (t, s')" by fastforce
  obtain es bs where p: "sparseMerkleProof t 1 = (es, bs)" by fastforce
  have c: "getCommitmentMerkleProof sample_hash sample_scan_config None sample_insertions \<lparr>ca_head = Inr 8, ca_window = \<lambda>_. None\<rparr> 1 ?s =
      (Inr (sx_root t, es, bs), s')" "ci_leaves s' = [5, 6]"
    using s1 t p cache_tree_keeps [OF t] by (simp_all add: getCommitmentMerkleProof_def)
  have len: "length [5, 6 :: int] \<le> 2 ^ RELAYER_COMMIT_DEPTH" by (simp add: RELAYER_COMMIT_DEPTH_def)
  obtain n where "n \<le> length [5, 6 :: int]" "ci_leaves s' = take n [5, 6]" "1 < n \<longrightarrow> path_root sample_hash ([5, 6] ! 1) es bs = sx_root t"
    using relayer_serves_valid_proofs [OF sample_zeros sample_insertions_ok len c(1)] by blast
  moreover from this c(2) have "n = 2" by (cases n; cases "n - 1") (auto simp: numeral_2_eq_2)
  ultimately have "path_root sample_hash 6 es bs = sx_root t" by simp
  then show ?thesis using c by blast
qed

end
