(* ===== verification/FeeLedger.thy ===== *)
theory FeeLedger
  imports OrderDb
begin

text \<open>
  The settlement and fee history and the pending transactions of the relayer's database
  (\<open>zk-relayer/src/core/db.ts\<close>): the tables \<open>settlement_history\<close> (unique transaction hash), \<open>fee_history\<close> (no
  unique column) and \<open>pending_txs\<close>, the recording of a settlement, the fees by transaction and the paged history.
\<close>

section \<open>Tables\<close>

record fee_input =
  fi_side :: string
  fi_token :: string
  fi_amountWei :: string

record settlement_input =
  sv_txHash :: string
  sv_type :: string
  sv_status :: string
  sv_blockNumber :: "int option"
  sv_gasCostEth :: "string option"
  sv_sellToken :: "string option"
  sv_buyToken :: "string option"
  sv_sellAmount :: "string option"
  sv_buyAmount :: "string option"
  sv_errorReason :: "string option"
  sv_durationMs :: "int option"
  sv_counterparty :: bool
  sv_fees :: "fee_input list"

text \<open>A row keeps the event with its addresses in lower case; its key is the hash in lower case.\<close>

record history_row =
  hr_event :: settlement_input
  hr_createdAt :: ms

record fee_row =
  fr_txHash :: string
  fr_side :: string
  fr_token :: string
  fr_amountWei :: string
  fr_blockNumber :: "int option"
  fr_createdAt :: ms

record ledger =
  ld_history :: "(string, history_row) jmap"
  ld_fees :: "fee_row list"
  ld_pending :: "(string, string \<times> ms) jmap"

definition empty_ledger :: ledger where
  "empty_ledger = \<lparr>ld_history = [], ld_fees = [], ld_pending = []\<rparr>"

section \<open>Recording\<close>

definition stored_event :: "settlement_input \<Rightarrow> settlement_input" where
  "stored_event e = e\<lparr>sv_txHash := toLowerCase (sv_txHash e), sv_sellToken := map_option toLowerCase (sv_sellToken e),
     sv_buyToken := map_option toLowerCase (sv_buyToken e),
     sv_errorReason := (case sv_errorReason e of Some r \<Rightarrow> if r = [] then None else Some (truncErr r) | None \<Rightarrow> None)\<rparr>"

definition fee_rows :: "settlement_input \<Rightarrow> ms \<Rightarrow> fee_row list" where
  "fee_rows e now = map (\<lambda>f. \<lparr>fr_txHash = toLowerCase (sv_txHash e), fr_side = fi_side f, fr_token = toLowerCase (fi_token f),
     fr_amountWei = fi_amountWei f, fr_blockNumber = sv_blockNumber e, fr_createdAt = now\<rparr>) (sv_fees e)"

definition recordSettlementEvent :: "settlement_input \<Rightarrow> ms \<Rightarrow> ledger \<Rightarrow> ledger" where
  "recordSettlementEvent e now l = (if jhas (ld_history l) (toLowerCase (sv_txHash e)) then l
     else l\<lparr>ld_history := jset (toLowerCase (sv_txHash e)) \<lparr>hr_event = stored_event e, hr_createdAt = now\<rparr> (ld_history l),
            ld_fees := ld_fees l @ fee_rows e now\<rparr>)"

section \<open>Fees by transaction\<close>

text \<open>One row of the reduction: the token's sum grows; a numeral that does not parse is skipped.\<close>

definition add_fee :: "fee_row \<Rightarrow> (string, (string, int) jmap) jmap \<Rightarrow> (string, (string, int) jmap) jmap" where
  "add_fee r byTx = (let perToken = (case jget byTx (fr_txHash r) of Some m \<Rightarrow> m | None \<Rightarrow> []); tok = toLowerCase (fr_token r) in
     jset (fr_txHash r) (case js_BigInt (fr_amountWei r) of None \<Rightarrow> perToken
       | Some v \<Rightarrow> jset tok ((case jget perToken tok of Some s \<Rightarrow> s | None \<Rightarrow> 0) + v) perToken) byTx)"

definition getFeesByTxHashes :: "string list \<Rightarrow> ledger \<Rightarrow> (string, (string \<times> string) list) jmap" where
  "getFeesByTxHashes txHashes l = (if txHashes = [] then []
     else map (\<lambda>(tx, perToken). (tx, map (\<lambda>(tok, s). (tok, dec s)) perToken))
       (fold add_fee (filter (\<lambda>r. fr_txHash r \<in> toLowerCase ` set txHashes) (ld_fees l)) []))"

section \<open>The paged history\<close>

text \<open>A filter that is set: the empty text is not.\<close>

definition truthy_text :: "string option \<Rightarrow> string option" where
  "truthy_text t = (case t of Some s \<Rightarrow> if s = [] then None else Some s | None \<Rightarrow> None)"

record history_query =
  hq_limit :: nat
  hq_offset :: nat
  hq_type :: "string option"
  hq_status :: "string option"

definition history_match :: "history_query \<Rightarrow> history_row \<Rightarrow> bool" where
  "history_match q r \<longleftrightarrow> (case truthy_text (hq_type q) of Some t \<Rightarrow> sv_type (hr_event r) = t | None \<Rightarrow> True) \<and>
     (case truthy_text (hq_status q) of Some s \<Rightarrow> sv_status (hr_event r) = s | None \<Rightarrow> True)"

text \<open>Newest first, and among equal times the row inserted last.\<close>

definition getSettlementHistory :: "history_query \<Rightarrow> ledger \<Rightarrow> history_row list \<times> nat" where
  "getSettlementHistory q l = (let rows = rev (List.sort_key hr_createdAt (filter (history_match q) (jvalues (ld_history l)))) in
     (take (hq_limit q) (drop (hq_offset q) rows), length rows))"

section \<open>Pending transactions\<close>

definition savePendingTx :: "string \<Rightarrow> string \<Rightarrow> ms \<Rightarrow> ledger \<Rightarrow> ledger" where
  "savePendingTx txHash label now l = (if jhas (ld_pending l) (toLowerCase txHash) then l
     else l\<lparr>ld_pending := jset (toLowerCase txHash) (label, now) (ld_pending l)\<rparr>)"

definition removePendingTx :: "string \<Rightarrow> ledger \<Rightarrow> ledger" where
  "removePendingTx txHash l = l\<lparr>ld_pending := jdelete (toLowerCase txHash) (ld_pending l)\<rparr>"

definition getPendingTxs :: "ledger \<Rightarrow> (string \<times> string \<times> ms) list" where
  "getPendingTxs l = List.sort_key (\<lambda>(h, lb, t). t) (ld_pending l)"

text \<open>
  The recovery at boot (\<open>index.ts\<close>): every pending hash is looked up (None: the lookup throws, Some None: no receipt
  yet), and only one with a receipt, successful or reverted, is removed.
\<close>

definition recoverPending :: "(string \<Rightarrow> bool option option) \<Rightarrow> ledger \<Rightarrow> ledger" where
  "recoverPending lookup l = fold (\<lambda>(h, lb, t) l. case lookup h of Some (Some ok) \<Rightarrow> removePendingTx h l | _ \<Rightarrow> l) (getPendingTxs l) l"

section \<open>Lemmas\<close>

lemma list_sort_key_set [simp]: "set (List.sort_key f xs) = set xs"
  by simp

definition fee_cell :: "(string, (string, int) jmap) jmap \<Rightarrow> string \<Rightarrow> string \<Rightarrow> int option" where
  "fee_cell byTx tx tok = Option.bind (jget byTx tx) (\<lambda>m. jget m tok)"

lemma fee_cell_Nil: "fee_cell [] tx tok = None"
  by (simp add: fee_cell_def)

definition fee_counts :: "string \<Rightarrow> string \<Rightarrow> fee_row \<Rightarrow> bool" where
  "fee_counts tx tok r \<longleftrightarrow> fr_txHash r = tx \<and> toLowerCase (fr_token r) = tok \<and> js_BigInt (fr_amountWei r) \<noteq> None"

definition wei_of :: "string \<Rightarrow> int" where "wei_of s = (case js_BigInt s of Some v \<Rightarrow> v | None \<Rightarrow> 0)"

lemma add_fee_cell:
  "fee_cell (add_fee r m) tx tok = (if fee_counts tx tok r
     then Some ((case fee_cell m tx tok of Some s \<Rightarrow> s | None \<Rightarrow> 0) + wei_of (fr_amountWei r)) else fee_cell m tx tok)"
  by (auto simp: fee_cell_def add_fee_def fee_counts_def wei_of_def Let_def split: option.splits)

lemma fold_fee_cell:
  "fee_cell (fold add_fee rows m) tx tok = (let rs = filter (fee_counts tx tok) rows in
     if rs = [] then fee_cell m tx tok
     else Some ((case fee_cell m tx tok of Some s \<Rightarrow> s | None \<Rightarrow> 0) + sum_list (map (wei_of o fr_amountWei) rs)))"
  by (induction rows arbitrary: m) (auto simp: Let_def add_fee_cell)

text \<open>The first event of a hash.\<close>

definition first_event :: "(settlement_input \<times> ms) list \<Rightarrow> string \<Rightarrow> (settlement_input \<times> ms) option" where
  "first_event evs tx = find (\<lambda>(e, now). toLowerCase (sv_txHash e) = tx) evs"

abbreviation record_all :: "(settlement_input \<times> ms) list \<Rightarrow> ledger" where
  "record_all evs \<equiv> fold (\<lambda>(e, now). recordSettlementEvent e now) evs empty_ledger"

lemma find_snoc: "find P (xs @ [x]) = (case find P xs of Some y \<Rightarrow> Some y | None \<Rightarrow> if P x then Some x else None)"
  by (induction xs) auto

lemma recorded_rows:
  "jget (ld_history (record_all evs)) tx = map_option (\<lambda>(e, now). \<lparr>hr_event = stored_event e, hr_createdAt = now\<rparr>) (first_event evs tx) \<and>
   filter (\<lambda>r. fr_txHash r = tx) (ld_fees (record_all evs)) = (case first_event evs tx of None \<Rightarrow> [] | Some (e, now) \<Rightarrow> fee_rows e now)"
proof (induction evs rule: rev_induct)
  case Nil
  then show ?case by (simp add: first_event_def empty_ledger_def)
next
  case (snoc x evs)
  obtain e now where x: "x = (e, now)" by (cases x)
  define l where "l = record_all evs"
  have ih: "jget (ld_history l) tx = map_option (\<lambda>(e, now). \<lparr>hr_event = stored_event e, hr_createdAt = now\<rparr>) (first_event evs tx)"
    "filter (\<lambda>r. fr_txHash r = tx) (ld_fees l) = (case first_event evs tx of None \<Rightarrow> [] | Some (e, now) \<Rightarrow> fee_rows e now)"
    using snoc.IH unfolding l_def by simp_all
  let ?h = "toLowerCase (sv_txHash e)"
  have rows: "filter (\<lambda>r. fr_txHash r = tx) (fee_rows e now) = (if ?h = tx then fee_rows e now else [])"
    by (auto simp: fee_rows_def filter_empty_conv filter_id_conv)
  have f: "first_event (evs @ [x]) tx = (case first_event evs tx of Some y \<Rightarrow> Some y | None \<Rightarrow> if ?h = tx then Some (e, now) else None)"
    by (simp add: first_event_def find_snoc x)
  have r: "record_all (evs @ [x]) = recordSettlementEvent e now l" by (simp add: l_def x)
  show ?case
  proof (cases "?h = tx")
    case True
    then have "jhas (ld_history l) ?h \<longleftrightarrow> first_event evs tx \<noteq> None" using ih by (auto simp: jhas_jget)
    then show ?thesis unfolding r f using ih True rows by (cases "first_event evs tx") (simp_all add: recordSettlementEvent_def)
  next
    case False
    then show ?thesis unfolding r f using ih rows by (simp add: recordSettlementEvent_def split: option.split)
  qed
qed

lemma map_of_map_pair: "map_of (map (\<lambda>(k, v). (k, f v)) xs) k = map_option f (map_of xs k)"
  by (induction xs) auto

lemma cell_text: "Option.bind (map_option (map (\<lambda>(t, s). (t, f s))) x) (\<lambda>xs. map_of xs k) = map_option f (Option.bind x (\<lambda>m. map_of m k))"
  by (cases x) (simp_all add: map_of_map_pair)

section \<open>Properties\<close>

text \<open>
  C31.  Fees are counted once.  However often a settlement is recorded again, under whatever spelling of its hash, and
  whatever else is recorded, the fees reported for a hash are those of its first record, summed by token without
  regard to case, amounts that are no numerals left out.
\<close>

theorem fees_counted_once:
  assumes "tx \<in> toLowerCase ` set txHashes"
  shows "Option.bind (jget (getFeesByTxHashes txHashes (record_all evs)) tx) (\<lambda>xs. map_of xs tok) =
    (let fs = filter (\<lambda>f. toLowerCase (fi_token f) = tok \<and> js_BigInt (fi_amountWei f) \<noteq> None)
        (case first_event evs tx of None \<Rightarrow> [] | Some (e, now) \<Rightarrow> sv_fees e) in
     if fs = [] then None else Some (dec (sum_list (map (wei_of o fi_amountWei) fs))))"
proof -
  let ?rows = "filter (\<lambda>r. fr_txHash r \<in> toLowerCase ` set txHashes) (ld_fees (record_all evs))"
  let ?fs = "filter (\<lambda>f. toLowerCase (fi_token f) = tok \<and> js_BigInt (fi_amountWei f) \<noteq> None)
        (case first_event evs tx of None \<Rightarrow> [] | Some (e, now) \<Rightarrow> sv_fees e)"
  have "filter (fee_counts tx tok) ?rows = filter (fee_counts tx tok) (filter (\<lambda>r. fr_txHash r = tx) (ld_fees (record_all evs)))"
    using assms by (auto simp: fee_counts_def intro: filter_cong)
  also have "\<dots> = (case first_event evs tx of None \<Rightarrow> [] | Some (e, now) \<Rightarrow> filter (fee_counts tx tok) (fee_rows e now))"
    using recorded_rows [of evs tx] by (simp split: option.split prod.split)
  finally have r: "filter (fee_counts tx tok) ?rows = \<dots>" .
  have tx: "toLowerCase (sv_txHash e) = tx" if "first_event evs tx = Some (e, now)" for e now
    using that by (auto simp: first_event_def find_Some_iff)
  have m: "map (wei_of o fr_amountWei) (filter (fee_counts tx tok) ?rows) = map (wei_of o fi_amountWei) ?fs"
    unfolding r using tx by (auto simp: fee_rows_def fee_counts_def filter_map o_def toLowerCase_idem split: option.split)
  have "txHashes \<noteq> []" using assms by auto
  then have "Option.bind (jget (getFeesByTxHashes txHashes (record_all evs)) tx) (\<lambda>xs. map_of xs tok) =
      map_option dec (fee_cell (fold add_fee ?rows []) tx tok)"
    by (simp add: getFeesByTxHashes_def jget_def map_of_map_pair fee_cell_def cell_text)
  also have "\<dots> = (if filter (fee_counts tx tok) ?rows = [] then None
      else Some (dec (sum_list (map (wei_of o fr_amountWei) (filter (fee_counts tx tok) ?rows)))))"
    unfolding fold_fee_cell fee_cell_Nil by (simp add: Let_def del: filter_filter)
  finally have total: "Option.bind (jget (getFeesByTxHashes txHashes (record_all evs)) tx) (\<lambda>xs. map_of xs tok) = \<dots>" .
  have nil: "filter (fee_counts tx tok) ?rows = [] \<longleftrightarrow> ?fs = []" using arg_cong [OF m, of "\<lambda>xs. xs = []"] by (simp only: map_is_Nil_conv)
  show ?thesis unfolding total nil m Let_def ..
qed

text \<open>Pages of any size, read one after the other, give every row once.\<close>

lemma history_pages:
  assumes "0 < n"
  shows "concat (map (\<lambda>k. fst (getSettlementHistory (q\<lparr>hq_limit := n, hq_offset := k * n\<rparr>) l)) [0..<m]) =
    take (m * n) (fst (getSettlementHistory (q\<lparr>hq_limit := snd (getSettlementHistory q l), hq_offset := 0\<rparr>) l))"
proof -
  let ?rows = "rev (List.sort_key hr_createdAt (filter (history_match q) (jvalues (ld_history l))))"
  have q: "history_match (q\<lparr>hq_limit := a, hq_offset := b\<rparr>) = history_match q" for a b by (simp add: history_match_def fun_eq_iff)
  have "concat (map (\<lambda>k. take n (drop (k * n) xs)) [0..<m]) = take (m * n) xs" for xs :: "'a list"
    by (induction m) (simp_all add: take_add [symmetric] add.commute)
  then show ?thesis by (simp add: getSettlementHistory_def q Let_def)
qed

text \<open>What boot leaves pending: the hashes without a receipt.\<close>

lemma recover_keeps_unmined:
  assumes "jmap_ok (ld_pending l)" "\<forall>h \<in> fst ` set (ld_pending l). toLowerCase h = h"
  shows "jget (ld_pending (recoverPending lookup l)) h =
    (case lookup h of Some (Some ok) \<Rightarrow> None | _ \<Rightarrow> jget (ld_pending l) h)"
proof -
  let ?f = "\<lambda>(h, lb :: string, t :: ms) l. case lookup h of Some (Some ok) \<Rightarrow> removePendingTx h l | _ \<Rightarrow> l"
  have fold: "jget (ld_pending (fold ?f xs l')) h = (if (\<exists>p. (h, p) \<in> set xs) \<and> (\<exists>ok. lookup h = Some (Some ok)) then None else jget (ld_pending l') h)"
    if "\<forall>k \<in> fst ` set xs. toLowerCase k = k" for xs l'
    using that
  proof (induction xs arbitrary: l')
    case (Cons x xs)
    obtain k lb t where x: "x = (k, lb, t)" by (cases x)
    have k: "toLowerCase k = k" using Cons.prems x by simp
    have "jget (ld_pending (?f x l')) h = (if h = k \<and> (\<exists>ok. lookup h = Some (Some ok)) then None else jget (ld_pending l') h)"
      using k by (auto simp: x removePendingTx_def split: option.split prod.split)
    then show ?case using Cons.IH [of "?f x l'"] Cons.prems by (auto simp: x)
  qed simp
  have keys: "\<forall>k \<in> fst ` set (getPendingTxs l). toLowerCase k = k" using assms(2) by (simp add: getPendingTxs_def)
  have "(\<exists>p. (h, p) \<in> set (getPendingTxs l)) \<longleftrightarrow> jget (ld_pending l) h \<noteq> None"
    using jget_None_keys [of "ld_pending l" h] by (force simp: getPendingTxs_def jkeys_def)
  then show ?thesis unfolding recoverPending_def using fold [OF keys, of l] by (auto split: option.splits)
qed

section \<open>Witness\<close>

definition sample_settlement_input :: settlement_input where
  "sample_settlement_input = \<lparr>sv_txHash = ''0xAB'', sv_type = ''scatterDirectAuth'', sv_status = ''confirmed'', sv_blockNumber = Some 5,
     sv_gasCostEth = None, sv_sellToken = Some ''0xA0'', sv_buyToken = Some ''0xA0'', sv_sellAmount = Some ''500'', sv_buyAmount = Some ''500'',
     sv_errorReason = None, sv_durationMs = None, sv_counterparty = False,
     sv_fees = [\<lparr>fi_side = ''scatterDirect'', fi_token = ''0xA0'', fi_amountWei = ''15''\<rparr>, \<lparr>fi_side = ''maker'', fi_token = ''0xa0'', fi_amountWei = ''2''\<rparr>]\<rparr>"

theorem fees_counted_once_witness:
  "Option.bind (jget (getFeesByTxHashes [''0xab''] (record_all [(sample_settlement_input, 1), (sample_settlement_input\<lparr>sv_txHash := ''0xab''\<rparr>, 2)])) ''0xab'')
     (\<lambda>xs. map_of xs ''0xa0'') = Some (dec 17)"
proof -
  have t: "''0xab'' \<in> toLowerCase ` set [''0xab'']" by code_simp
  have "filter (\<lambda>f. toLowerCase (fi_token f) = ''0xa0'' \<and> js_BigInt (fi_amountWei f) \<noteq> None)
      (case first_event [(sample_settlement_input, 1), (sample_settlement_input\<lparr>sv_txHash := ''0xab''\<rparr>, 2)] ''0xab'' of None \<Rightarrow> [] | Some (e, now) \<Rightarrow> sv_fees e) =
    sv_fees sample_settlement_input" by code_simp
  moreover have "sum_list (map (wei_of o fi_amountWei) (sv_fees sample_settlement_input)) = 17 \<and> sv_fees sample_settlement_input \<noteq> []" by code_simp
  ultimately show ?thesis
    using fees_counted_once [OF t, of "[(sample_settlement_input, 1), (sample_settlement_input\<lparr>sv_txHash := ''0xab''\<rparr>, 2)]" "''0xa0''"]
    by (simp add: Let_def)
qed

end
