(* ===== verification/Spec2Isabelle.thy ===== *)
theory Spec2Isabelle
  imports CrossMatcherFacts SharedRestart IndexerFacts PeerRoutes OutboxFacts TxRetry SettlementSamples
    PaySamples ClaimSamples RelayerScan FeeLedger
begin

text \<open>
  Verification of the order core of zkScatter (scatter-dex): the relayer (\<open>zk-relayer/src\<close>) and the
  shared orderbook server (\<open>shared-orderbook/src\<close>), TypeScript services around an on-chain
  settlement contract.  A user posts an order with a zero-knowledge proof to a relayer; the relayer
  keeps it in memory and in SQLite, publishes cross-token orders to the shared orderbook, and settles
  them on chain, either from its own queue or with a peer relayer that holds the counterparty.

  Foundations.

  \<^item> Prelude: what the code uses of JavaScript: strings, \<open>BigInt(s)\<close> (None is SyntaxError),
    \<open>toString(radix)\<close>, \<open>padStart\<close>, \<open>toLowerCase\<close> and string order on ASCII, rounding of
    \<open>Number(bigint)\<close> to 53 bits, truthiness.
  \<^item> JsMap: \<open>Map\<close> and \<open>Set\<close> with insertion order, as association lists; counting over a map; the
    interface \<open>ordered_map\<close>, interpreted on them.

  The relayer.

  \<^item> AuthorizeOrder (\<open>types/authorize-order.ts\<close>, \<open>lib/address.ts\<close>, \<open>core/fees.ts\<close>): public signals,
    statuses, \<open>validateAuthorizeOrder\<close>, the peer-order check, price and token compatibility, fees.
    The validation is proved equivalent to a declarative contract.
  \<^item> OrderDb (\<open>core/db.ts\<close>, table \<open>authorize_orders\<close>): rows and the statements that read and write
    them: insert, claim, settle, fail, retry, defer, reset, sweep, purge.  Statement effects are
    given per row, with the clock as an argument.
  \<^item> OrderStore, OrderStoreFacts, Matching (\<open>routes/authorize-orders.ts\<close>): the three maps, POST cut at
    its awaits into \<open>post_begin\<close>, \<open>post_reserve\<close> and \<open>post_finish\<close> so that any interleaving of requests
    and sweeps is a list of events (\<open>store_run\<close>), GET, restore, \<open>findMatch\<close>, drain, on-chain cancel
    and purge.  The lemmas show the per-key limit under every interleaving, the accounting of slots,
    idempotent replay, exactness of the pair index and of matching, and two situations in which they
    fail.
  \<^item> Worker, WorkerFacts (\<open>core/settlement-worker.ts\<close>, \<open>core/settlement-failure-tracker.ts\<close>): error
    classification, retry budget, both settlement paths and the tick.  A job is cut at its single
    await; what runs meanwhile is a function on the state.  The lemmas show that a claimed row always
    leaves \<open>settling\<close>, that it is terminal after six submissions, and what a settled or failed pair
    changes.
  \<^item> CrossMatcher, CrossMatcherFacts (\<open>core/authorize-cross-relayer-matcher.ts\<close>): reactive matching, the
    offer sender and the offer handler, with the interference at each await as a function.  Entries
    that the code holds by reference while they are awaited live in \<open>c_detached\<close>, so that a change of an
    entry that has left the map is still seen.

  \<^item> RemoteBook, RemoteBookFacts (\<open>core/remote-orderbook.ts\<close>): the orders received from peers with their
    sorted buy and sell lists; the lists always show exactly the stored orders.
  \<^item> PeerRoutes (\<open>routes/p2p.ts\<close>, \<open>shared-orderbook/src/middleware/auth.ts\<close>): the request signature and the
    order routes between relayers; what passes was signed, and no peer touches the order of another.
  \<^item> Outbox, OutboxFacts (\<open>core/db.ts\<close>, \<open>core/settlement-push-worker.ts\<close>): the queue of settlement
    reports and its worker; no report is lost, and the number of pushes is bounded.
  \<^item> TxRetry (\<open>core/tx-retry.ts\<close>): sending a transaction and waiting for its receipt; it is sent once.
  \<^item> FeeLedger (\<open>core/db.ts\<close>, \<open>index.ts\<close>): settlement history, fee rows, pending transactions; a settlement recorded
    again adds no fee.
  \<^item> RelayerScan (\<open>core/chunked-query.ts\<close>, \<open>authorize-submitter.ts\<close>, \<open>private-submitter.ts\<close>, \<open>zk-prover.ts\<close>): windowed
    scans of the chain behind a cursor (locale \<open>cursor_scan\<close>, interpreted on both scans), cancellations, the index
    of commitments and the sparse tree.  No event is delivered twice or skipped, and served proofs verify.
  \<^item> ClaimRoute, ClaimRouteFacts, ClaimSamples (\<open>routes/claim.ts\<close>, \<open>core/private-submitter.ts\<close>,
    \<open>apps/pay/app/_lib/claimSubmit.ts\<close>): gasless claims from the page to the transaction.  What the relayer pays for,
    and that a package of a finalised payout goes through.

  The shared orderbook.

  \<^item> SharedTypes (\<open>packages/types/src/index.ts\<close>): summaries, statuses, string pair keys.
  \<^item> SharedBook, SharedBookFacts (\<open>core/orderbook.ts\<close>, \<open>core/chain.ts\<close>): the in-memory book with its two
    side indexes, relayer registry, counters and sweeps.  The invariant \<open>book_ok\<close> holds in every
    reachable book; \<open>reachable\<close> is the closure of restore and the operations.
  \<^item> SharedRoutes, SharedRoutesFacts, SharedSamples, SharedRestart (\<open>types/order.ts\<close>, \<open>routes/orders.ts\<close>,
    \<open>core/db.ts\<close>, \<open>index.ts\<close>): the parser of posted summaries, the orders table, the write handlers, the
    timers and the restart; ownership, agreement of memory and table, what a restart brings back.
  \<^item> Indexer, IndexerFacts (\<open>core/commitment-indexer.ts\<close>, \<open>core/claim-indexer.ts\<close>): the passes that copy
    events of the chain into tables; a turn without error catches up, pages are exact.
  \<^item> Settlements, SettlementsFacts, SettlementSamples (\<open>types/settlement.ts\<close>, \<open>routes/settlements.ts\<close>,
    \<open>core/db.ts\<close>, \<open>core/verifier.ts\<close>, \<open>core/verify-runtime.ts\<close>): pushed settlement records and the verifier.
    A run is a list of pushes, turns and prunings; a turn carries the pushes that arrive while it
    waits for the node.  The lemmas show which events back a verified row, how attestations protect a
    hash, that the backlog drains, and the push that slips in during a query.

  The SDK.

  \<^item> MerkleTree (\<open>packages/sdk/src/zk/incrementalTree.ts\<close>, \<open>merkle.ts\<close>): the commitment tree built at once
    and leaf by leaf, with inclusion proofs; both give the same tree.
  \<^item> Notes (\<open>zk/commitment.ts\<close>, \<open>tags.ts\<close>, \<open>constants.ts\<close>): notes, the hashes of the protocol, tiers.
  \<^item> ClientProofs, SpendProofs (\<open>zk/circuits/\<close>: \<open>authorize.ts\<close>, \<open>claim.ts\<close>, \<open>withdraw.ts\<close>, \<open>cancel.ts\<close>,
    \<open>deposit.ts\<close>): the checks and the signals handed to the prover, and the messages of the proof workers.
  \<^item> Circuits (\<open>circuits/*.circom\<close>): the constraints of the authorize, claim, withdraw and cancel circuits
    as predicates on the signals, read modulo the field; they are the specification of the SDK.
  \<^item> CircuitFacts, SpendFacts, ProofSamples: the signals of the SDK satisfy the circuits, locked claims can
    be claimed, change and rotated notes can be spent again, and no value is lost.

  The Pay application.

  \<^item> Payout, PayoutFacts (\<open>packages/sdk/src/zk/circuits/splitPayout.ts\<close>, \<open>deepRecover.ts\<close>,
    \<open>apps/pay/app/_lib/payoutFees.ts\<close>): splitting a payout into batches, recovering one whose links were
    lost, the fee of a batch.
  \<^item> PayFunds, PayFundsFacts (\<open>packages/sdk/src/notes/\<close>: \<open>types.ts\<close>, \<open>balance.ts\<close>, \<open>depositGuard.ts\<close>;
    \<open>apps/pay/app/_lib/sourceNotes.ts\<close>): balances, the choice of source notes, the guard of deposit retries.
  \<^item> RealSettle, RealSettleFacts, PaySamples (\<open>apps/pay/app/_lib/realSettle.ts\<close>, \<open>claimSubmit.ts\<close>, the
    proof workers): a settlement from its proof to the claim packages.  The lemmas join the parts: the order
    the page posts passes \<open>validateAuthorizeOrder\<close> of the relayer, and each package gives signals that
    satisfy the claim circuit under the root the contract emitted.
  \<^item> ClaimLink (\<open>packages/sdk/src/notes/claimPackage.ts\<close>): JSON values, base64url, the shape check of a claim
    package; links of finalised payouts decode to their package, and what decodes reaches the prover.

  Conventions.  A thrown exception is None or the \<open>Inl\<close> of a sum; the rows and maps are lists in
  insertion order; amounts and timestamps are unbounded integers, since the code uses BigInt and
  integral numbers below the precision of a double, and the one place where a BigInt is narrowed to a
  double is rounded explicitly.  No recursion needs fuel: every loop runs over a finite list, and the
  tick is bounded by its own job limit.

  Parameters.  The Poseidon and SHA-256 hashes, the EdDSA signer and its verifier in the circuits, the prover,
  random elements, signature recovery, the proof verifier's verdict, the
  submitter's and the node's answers, the peer's HTTP answers, the URL guard's and the registry's
  verdict and the clock are inputs of the operations.

  Not modelled.  The front ends, the mobile app and the SDK wrappers over ethers, circomlib and snarkjs;
  the contracts and the deposit circuit; the prover and the verifier of proofs; monitors, logging,
  rate limits, express wiring; the read routes that only aggregate or page rows; the tables of
  claims, KYC and sessions of the two databases and the aggregates over the history.
\<close>

end
